(* ===== verification/Prelude.thy ===== *)
theory Prelude
  imports Main "HOL-Library.Word"
begin

text \<open>
  Shared vocabulary of the development: the machine types, the faults a C++ \<open>CHECK\<close>, \<open>assert\<close> or
  undefined access ends in, the result type \<open>fault + 'a\<close> with its sequencing and its loop, bounded
  list access, \<open>memcpy\<close> into a byte list and into a memory, little-endian byte codecs the packing of bit-fields
  into storage units, and the interface of codes with elements of a fixed size. Lemmas that component proofs use without naming them are declared
  \<open>[simp]\<close> or collected in \<open>res_simps\<close> and \<open>size_simps\<close>.
\<close>

named_theorems res_simps \<open>unfolding of sequenced results\<close>
named_theorems size_simps \<open>sizes of the lists a component keeps\<close>
named_theorems spec_consts \<open>values of the configuration constants\<close>

section \<open>Types\<close>

type_synonym u8 = "8 word"
type_synonym u16 = "16 word"
type_synonym u32 = "32 word"
type_synonym u64 = "64 word"
type_synonym bytes = "8 word list"

section \<open>Results\<close>

datatype fault =
    CheckFailed string   \<comment> \<open>a failed \<open>CHECK\<close> or \<open>ICHECK\<close>\<close>
  | NullDeref            \<comment> \<open>a null pointer is read through\<close>
  | OutOfBounds          \<comment> \<open>a read or write outside of an object\<close>
  | Undefined string     \<comment> \<open>an operation whose result C++ leaves undefined\<close>
  | Aborted string       \<comment> \<open>\<open>LOG(FATAL)\<close>, \<open>abort\<close> or an exception that nobody catches\<close>

type_synonym 'a res = "fault + 'a"

definition res_bind :: "'e + 'a \<Rightarrow> ('a \<Rightarrow> 'e + 'b) \<Rightarrow> 'e + 'b" where
  "res_bind m f = (case m of Inl e \<Rightarrow> Inl e | Inr a \<Rightarrow> f a)"

definition check :: "bool \<Rightarrow> string \<Rightarrow> unit res" where
  "check b msg = (if b then Inr () else Inl (CheckFailed msg))"

definition guard_bounds :: "bool \<Rightarrow> unit res" where
  "guard_bounds b = (if b then Inr () else Inl OutOfBounds)"

primrec fold_res :: "('x \<Rightarrow> 's \<Rightarrow> 'e + 's) \<Rightarrow> 'x list \<Rightarrow> 's \<Rightarrow> 'e + 's" where
  "fold_res f [] s = Inr s"
| "fold_res f (x # xs) s = res_bind (f x s) (fold_res f xs)"

lemma res_bind_Inr [simp]: "res_bind (Inr a) f = f a"
  and res_bind_Inl [simp]: "res_bind (Inl e) f = Inl e"
  by (simp_all add: res_bind_def)

lemma res_bind_eq_Inr [simp, res_simps]:
  "(res_bind m f = Inr b) = (\<exists>a. m = Inr a \<and> f a = Inr b)"
  by (cases m) auto

lemma res_bind_eq_Inl [res_simps]:
  "(res_bind m f = Inl e) = (m = Inl e \<or> (\<exists>a. m = Inr a \<and> f a = Inl e))"
  by (cases m) auto

lemma res_bind_assoc [res_simps]:
  "res_bind (res_bind m f) g = res_bind m (\<lambda>x. res_bind (f x) g)"
  by (cases m) auto

lemma check_True [simp]: "check True msg = Inr ()"
  and check_False [simp]: "check False msg = Inl (CheckFailed msg)"
  by (simp_all add: check_def)

lemma check_eq_Inr [simp]: "(check b msg = Inr u) = b"
  by (simp add: check_def)

lemma guard_bounds_True [simp]: "guard_bounds True = Inr ()"
  and guard_bounds_False [simp]: "guard_bounds False = Inl OutOfBounds"
  by (simp_all add: guard_bounds_def)

lemma guard_bounds_eq_Inr [simp]: "(guard_bounds b = Inr u) = b"
  by (simp add: guard_bounds_def)

lemma fold_res_append:
  "fold_res f (xs @ ys) s = res_bind (fold_res f xs s) (fold_res f ys)"
  by (induction xs arbitrary: s) (auto simp: res_bind_def split: sum.splits)

text \<open>The two loop rules: an invariant kept by the body that also keeps it from failing, and the
  pure loop when no iteration fails.\<close>

lemma fold_res_invariant:
  assumes "I s"
    and "\<And>x s. x \<in> set xs \<Longrightarrow> I s \<Longrightarrow> \<exists>s'. f x s = Inr s' \<and> I s'"
  shows "\<exists>s'. fold_res f xs s = Inr s' \<and> I s'"
  using assms
proof (induction xs arbitrary: s)
  case Nil
  then show ?case by simp
next
  case (Cons x xs)
  then obtain s' where "f x s = Inr s'" "I s'" by force
  with Cons.IH [OF \<open>I s'\<close>] Cons.prems(2) show ?case by simp
qed

lemma fold_res_preserves:
  assumes "fold_res f xs s = Inr s'" "I s"
    and "\<And>x s s'. x \<in> set xs \<Longrightarrow> I s \<Longrightarrow> f x s = Inr s' \<Longrightarrow> I s'"
  shows "I s'"
  using assms
proof (induction xs arbitrary: s)
  case (Cons x xs)
  then obtain t where "f x s = Inr t" "fold_res f xs t = Inr s'" by auto
  with Cons.prems have "I t" by (auto simp del: fold_res.simps)
  then show ?case
    by (rule Cons.IH [OF \<open>fold_res f xs t = Inr s'\<close>]) (auto intro: Cons.prems(3))
qed simp

lemma fold_res_pure:
  assumes "I s"
    and "\<And>x s. x \<in> set xs \<Longrightarrow> I s \<Longrightarrow> f x s = Inr (g x s)"
    and "\<And>x s. x \<in> set xs \<Longrightarrow> I s \<Longrightarrow> I (g x s)"
  shows "fold_res f xs s = Inr (fold g xs s)"
  using assms by (induction xs arbitrary: s) auto

lemma fold_res_cong [fundef_cong]:
  assumes "xs = ys" "s = t" "\<And>x u. x \<in> set ys \<Longrightarrow> f x u = g x u"
  shows "fold_res f xs s = fold_res g ys t"
  using assms by (induction xs arbitrary: s t ys) (auto simp: res_bind_def split: sum.splits)

section \<open>Arrays and memory\<close>

definition nth_res :: "'a list \<Rightarrow> nat \<Rightarrow> 'a res" where
  "nth_res xs i = (if i < length xs then Inr (xs ! i) else Inl OutOfBounds)"

lemma nth_res_eq_Inr [simp]: "(nth_res xs i = Inr x) = (i < length xs \<and> x = xs ! i)"
  by (auto simp: nth_res_def)

lemma nth_res_in [simp]: "i < length xs \<Longrightarrow> nth_res xs i = Inr (xs ! i)"
  by simp

text \<open>\<open>slice off n xs\<close> is what \<open>memcpy\<close> reads at \<open>off\<close>; \<open>overwrite off ys xs\<close> is \<open>xs\<close> after \<open>memcpy\<close>
  of \<open>ys\<close> to \<open>off\<close>. Both are used below their bounds, which the callers check.\<close>

definition slice :: "nat \<Rightarrow> nat \<Rightarrow> 'a list \<Rightarrow> 'a list" where
  "slice off n xs = take n (drop off xs)"

definition overwrite :: "nat \<Rightarrow> 'a list \<Rightarrow> 'a list \<Rightarrow> 'a list" where
  "overwrite off ys xs = take off xs @ ys @ drop (off + length ys) xs"

lemma length_slice [simp, size_simps]: "off + n \<le> length xs \<Longrightarrow> length (slice off n xs) = n"
  by (simp add: slice_def)

lemma length_overwrite [simp, size_simps]:
  "off + length ys \<le> length xs \<Longrightarrow> length (overwrite off ys xs) = length xs"
  by (simp add: overwrite_def)

lemma nth_slice: "i < n \<Longrightarrow> off + n \<le> length xs \<Longrightarrow> slice off n xs ! i = xs ! (off + i)"
  by (simp add: slice_def)

lemma nth_overwrite:
  assumes "off + length ys \<le> length xs" "i < length xs"
  shows "overwrite off ys xs ! i = (if off \<le> i \<and> i < off + length ys then ys ! (i - off) else xs ! i)"
  using assms by (auto simp: overwrite_def nth_append)

lemma slice_overwrite_same [simp]:
  "off + length ys \<le> length xs \<Longrightarrow> n = length ys \<Longrightarrow> slice off n (overwrite off ys xs) = ys"
  by (simp add: slice_def overwrite_def)

lemma slice_overwrite_disjoint:
  assumes "off + length ys \<le> length xs" "a + n \<le> off \<or> off + length ys \<le> a" "a + n \<le> length xs"
  shows "slice a n (overwrite off ys xs) = slice a n xs"
  by (rule nth_equalityI) (use assms in \<open>auto simp: nth_slice nth_overwrite\<close>)

lemma overwrite_slice_id [simp]: "off + n \<le> length xs \<Longrightarrow> overwrite off (slice off n xs) xs = xs"
  by (rule nth_equalityI) (auto simp: nth_overwrite nth_slice)

lemma overwrite_adjacent:
  assumes "off + length xs + length ys \<le> length zs"
  shows "overwrite (off + length xs) ys (overwrite off xs zs) = overwrite off (xs @ ys) zs"
  by (rule nth_equalityI) (use assms in \<open>auto simp: nth_overwrite nth_append\<close>)

lemma overwrite_Nil [simp]: "overwrite off [] zs = zs"
  by (simp add: overwrite_def)

text \<open>Rows of equal length laid out one after the other.\<close>

lemma length_concat_equal:
  "(\<And>xs. xs \<in> set xss \<Longrightarrow> length xs = m) \<Longrightarrow> length (concat xss) = m * length xss"
  by (induction xss) simp_all

lemma nth_concat_equal:
  assumes "\<And>xs. xs \<in> set xss \<Longrightarrow> length xs = m" "i < m * length xss"
  shows "concat xss ! i = xss ! (i div m) ! (i mod m)"
  using assms
proof (induction xss arbitrary: i)
  case (Cons xs xss)
  have m: "length xs = m" "0 < m" using Cons.prems by (auto intro: gr0I)
  show ?case
  proof (cases "i < m")
    case True
    then show ?thesis using m by (simp add: nth_append)
  next
    case False
    then have "i div m = Suc ((i - m) div m)" "i mod m = (i - m) mod m"
      using m(2) by (simp_all add: le_div_geq le_mod_geq)
    moreover have "concat xss ! (i - m) = xss ! ((i - m) div m) ! ((i - m) mod m)"
      using Cons False by (intro Cons.IH) auto
    ultimately show ?thesis using m False by (simp add: nth_append)
  qed
qed simp

text \<open>Element \<open>c\<close>, lane \<open>l\<close> of a flat array of \<open>k\<close>-lane elements.\<close>

lemma lane_less: "l < (k :: nat) \<Longrightarrow> (k * c + l < k * n) = (c < n)"
proof
  assume "l < k" "c < n"
  then have "k * (c + 1) \<le> k * n" by (intro mult_le_mono2) simp
  then show "k * c + l < k * n" using \<open>l < k\<close> by (simp add: algebra_simps)
next
  assume "k * c + l < k * n"
  then have "k * c < k * n" by linarith
  then show "c < n" by simp
qed

lemma lane_diff: "b \<le> c \<Longrightarrow> k * c + l - k * b = k * (c - b) + (l :: nat)"
  by (simp add: diff_mult_distrib2)

lemma lane_in_block:
  assumes "l < (k :: nat)"
  shows "(k * b \<le> k * e + l \<and> k * e + l < k * b + k * n) = (b \<le> e \<and> e < b + n)"
  using lane_less [OF assms, of e b] lane_less [OF assms, of e "b + n"]
  by (simp add: not_less [symmetric] distrib_left)

lemma div_mod_scaled:
  assumes "l < (k :: nat)"
  shows "(k * a + l) div (k * b) = a div b" "(k * a + l) mod (k * b) = k * (a mod b) + l"
proof -
  show "(k * a + l) div (k * b) = a div b"
    using assms by (simp add: div_mult2_eq)
  show "(k * a + l) mod (k * b) = k * (a mod b) + l"
    using assms by (simp add: mod_mult2_eq)
qed

section \<open>Little-endian bytes\<close>

lemma unat_u8_bound [simp]: "unat (b :: u8) < 256"
  using unsigned_less [of b] by simp

primrec le_bytes :: "nat \<Rightarrow> nat \<Rightarrow> bytes" where
  "le_bytes 0 v = []"
| "le_bytes (Suc n) v = word_of_nat (v mod 256) # le_bytes n (v div 256)"

primrec le_value :: "bytes \<Rightarrow> nat" where
  "le_value [] = 0"
| "le_value (b # bs) = unat b + 256 * le_value bs"

lemma length_le_bytes [simp, size_simps]: "length (le_bytes n v) = n"
  by (induction n arbitrary: v) simp_all

lemma le_value_bound: "le_value bs < 256 ^ length bs"
proof (induction bs)
  case (Cons b bs)
  have "unat b < 256" by (rule unat_u8_bound)
  moreover from Cons have "le_value bs + 1 \<le> 256 ^ length bs" by simp
  ultimately have "unat b + 256 * le_value bs < 256 * (le_value bs + 1)" by simp
  also have "\<dots> \<le> 256 * 256 ^ length bs" using \<open>le_value bs + 1 \<le> _\<close> by (rule mult_le_mono2)
  finally show ?case by simp
qed simp

lemma le_value_le_bytes: "le_value (le_bytes n v) = v mod 256 ^ n"
proof (induction n arbitrary: v)
  case (Suc n)
  have "unat (word_of_nat (v mod 256) :: u8) = v mod 256"
    by (simp add: unat_of_nat take_bit_eq_mod)
  then show ?case using Suc by (simp add: mod_mult2_eq)
qed simp

lemma le_bytes_le_value: "length bs = n \<Longrightarrow> le_bytes n (le_value bs) = bs"
proof (induction bs arbitrary: n)
  case (Cons b bs)
  have "unat b < 256" by (rule unat_u8_bound)
  with Cons show ?case by auto
qed simp

section \<open>Bit-fields\<close>

text \<open>A storage unit holds its fields from the least significant bit upwards.\<close>

primrec pack :: "(nat \<times> nat) list \<Rightarrow> nat" where
  "pack [] = 0"
| "pack (f # fs) = snd f mod 2 ^ fst f + 2 ^ fst f * pack fs"

primrec unpack :: "nat list \<Rightarrow> nat \<Rightarrow> nat list" where
  "unpack [] v = []"
| "unpack (w # ws) v = v mod 2 ^ w # unpack ws (v div 2 ^ w)"

text \<open>The allocation of consecutive bit-fields of declared type \<open>uint64_t\<close> (x86-64 and AArch64
  ABI): a field that does not fit in the rest of the unit starts a new one.\<close>

fun alloc_units :: "nat \<Rightarrow> nat list \<Rightarrow> nat list \<Rightarrow> nat list list" where
  "alloc_units unit cur [] = [cur]"
| "alloc_units unit cur (w # ws) =
     (if sum_list cur + w \<le> unit then alloc_units unit (cur @ [w]) ws
      else cur # alloc_units unit [w] ws)"

lemma pack_bound: "pack fs < 2 ^ sum_list (map fst fs)"
proof (induction fs)
  case (Cons f fs)
  have "pack fs + 1 \<le> 2 ^ sum_list (map fst fs)" using Cons by simp
  moreover have "snd f mod 2 ^ fst f < 2 ^ fst f" by simp
  ultimately have "snd f mod 2 ^ fst f + 2 ^ fst f * pack fs < 2 ^ fst f * (pack fs + 1)" by simp
  also have "\<dots> \<le> 2 ^ fst f * 2 ^ sum_list (map fst fs)"
    using \<open>pack fs + 1 \<le> _\<close> by (rule mult_le_mono2)
  finally show ?case by (simp add: power_add)
qed simp

lemma unpack_pack: "unpack (map fst fs) (pack fs) = map (\<lambda>f. snd f mod 2 ^ fst f) fs"
  by (induction fs) (simp_all add: div_mult2_eq)

lemma pack_unpack: "pack (zip ws (unpack ws v)) = v mod 2 ^ sum_list ws"
  by (induction ws arbitrary: v) (simp_all add: power_add mod_mult2_eq)

lemma length_unpack [simp, size_simps]: "length (unpack ws v) = length ws"
  by (induction ws arbitrary: v) simp_all

section \<open>Words\<close>

text \<open>Signed division of C++ rounds towards zero.\<close>

definition c_div :: "int \<Rightarrow> int \<Rightarrow> int" where
  "c_div a b = sgn a * sgn b * (\<bar>a\<bar> div \<bar>b\<bar>)"

lemma unat_less_width: "unat (w :: 'a::len word) < 2 ^ LENGTH('a)"
  by (rule unsigned_less)

lemma unat_mod_width [simp]:
  "unat (a :: 8 word) mod 256 = unat a" "unat (b :: 10 word) mod 1024 = unat b"
  "unat (c :: 11 word) mod 2048 = unat c" "unat (d :: 16 word) mod 65536 = unat d"
  "unat (e :: 32 word) mod 4294967296 = unat e"
  "unat (f :: 64 word) mod 18446744073709551616 = unat f"
  using unat_less_width [of a] unat_less_width [of b] unat_less_width [of c] unat_less_width [of d]
    unat_less_width [of e] unat_less_width [of f] by simp_all

lemma unat_push_bit_exact:
  "unat (w :: 'a::len word) * 2 ^ n < 2 ^ LENGTH('a) \<Longrightarrow> unat (push_bit n w) = unat w * 2 ^ n"
  by (simp add: unsigned_push_bit_eq push_bit_nat_def take_bit_nat_eq_self)

lemma ucast_word_of_nat_32: "ucast (word_of_nat n :: u64) = (word_of_nat n :: u32)"
  by (rule bit_word_eqI) (simp add: bit_simps)

lemma unat_word_of_nat_small: "n < 2 ^ LENGTH('a) \<Longrightarrow> unat (word_of_nat n :: 'a::len word) = n"
  by (simp add: unat_of_nat)

lemma unat_drop_bit: "unat (drop_bit n (w :: 'a::len word)) = unat w div 2 ^ n"
  by (simp add: unsigned_drop_bit_eq drop_bit_nat_def take_bit_nat_eq_self)

lemma unat_and_mask: "unat (and (w :: 'a::len word) (mask n)) = unat w mod 2 ^ n"
  by (simp add: unsigned_take_bit_eq flip: take_bit_eq_mask) (simp add: take_bit_eq_mod)

lemma unat_and_4095: "unat (and w 4095 :: u64) = unat w mod 4096"
  using unat_and_mask [of w 12] by (simp add: mask_eq_exp_minus_1)

lemma word_of_nat_div_mod:
  "word_of_nat n = (word_of_nat (n div k) * word_of_nat k + word_of_nat (n mod k) :: 'a::len word)"
  by (metis div_mult_mod_eq of_nat_add of_nat_mult)

lemma word_of_nat_inj_small:
  "word_of_nat a = (word_of_nat b :: 'a::len word) \<Longrightarrow> a < 2 ^ LENGTH('a) \<Longrightarrow> b < 2 ^ LENGTH('a) \<Longrightarrow> a = b"
  by (metis unat_word_of_nat_small)

lemma ucast_up_word_of_nat: "n < 2 ^ 32 \<Longrightarrow> ucast (word_of_nat n :: u32) = (word_of_nat n :: u64)"
  by (simp add: unsigned_of_nat take_bit_nat_eq_self)

lemma lane_eqD: "k * a + i = k * b + j \<Longrightarrow> i < k \<Longrightarrow> j < k \<Longrightarrow> a = b \<and> i = (j :: nat)"
  by (metis add.commute add_left_cancel div_mod_scaled(1) div_by_1 mult.right_neutral)

section \<open>Memory\<close>

text \<open>Memory as a total byte map; \<open>memcpy\<close> writes consecutive addresses.\<close>

type_synonym host = "u64 \<Rightarrow> u8"

definition mem_read :: "host \<Rightarrow> u64 \<Rightarrow> nat \<Rightarrow> bytes" where
  "mem_read h a n = map (\<lambda>i. h (a + word_of_nat i)) [0..<n]"

fun mem_write :: "host \<Rightarrow> u64 \<Rightarrow> bytes \<Rightarrow> host" where
  "mem_write h a [] = h"
| "mem_write h a (b # bs) = mem_write (h(a := b)) (a + 1) bs"

lemma mem_write_other: "\<forall>i < length bs. x \<noteq> a + word_of_nat i \<Longrightarrow> mem_write h a bs x = h x"
proof (induction bs arbitrary: h a)
  case (Cons b bs)
  have "x \<noteq> a" using Cons.prems by force
  moreover have "\<forall>i < length bs. x \<noteq> a + 1 + word_of_nat i"
  proof (intro allI impI)
    fix i assume "i < length bs"
    then have "x \<noteq> a + word_of_nat (Suc i)" using Cons.prems by (simp del: of_nat_Suc)
    then show "x \<noteq> a + 1 + word_of_nat i" by (simp add: add.assoc)
  qed
  ultimately show ?case using Cons.IH by simp
qed simp

lemma mem_write_at:
  "i < length bs \<Longrightarrow> length bs \<le> 2 ^ 64 \<Longrightarrow> mem_write h a bs (a + word_of_nat i) = bs ! i"
proof (induction bs arbitrary: h a i)
  case (Cons b bs)
  show ?case
  proof (cases i)
    case 0
    have "\<forall>j < length bs. a \<noteq> a + 1 + word_of_nat j"
    proof (intro allI impI notI)
      fix j assume "j < length bs" "a = a + 1 + word_of_nat j"
      then have "word_of_nat (Suc j) = (0 :: u64)" by (simp add: add.assoc)
      moreover have "unat (word_of_nat (Suc j) :: u64) = Suc j"
        using \<open>j < length bs\<close> Cons.prems by (intro unat_word_of_nat_small) simp
      ultimately show False by simp
    qed
    then show ?thesis using 0 by (simp add: mem_write_other)
  next
    case (Suc j)
    have "mem_write (h(a := b)) (a + 1) bs (a + 1 + word_of_nat j) = bs ! j"
      by (rule Cons.IH) (use Suc Cons.prems in simp_all)
    then show ?thesis using Suc by (simp add: add.assoc)
  qed
qed simp

lemma mem_read_write: "length bs \<le> 2 ^ 64 \<Longrightarrow> mem_read (mem_write h a bs) a (length bs) = bs"
  by (rule nth_equalityI) (simp_all add: mem_read_def mem_write_at)

lemma length_mem_read [simp, size_simps]: "length (mem_read h a n) = n"
  by (simp add: mem_read_def)

lemma mem_read_slice:
  assumes "off + n \<le> length bs" "length bs \<le> 2 ^ 64"
  shows "mem_read (mem_write h a bs) (a + word_of_nat off) n = slice off n bs"
proof (rule nth_equalityI)
  show "length (mem_read (mem_write h a bs) (a + word_of_nat off) n) = length (slice off n bs)" using assms(1) by simp
  fix i assume "i < length (mem_read (mem_write h a bs) (a + word_of_nat off) n)"
  then have i: "i < n" by simp
  have "a + word_of_nat off + word_of_nat i = a + (word_of_nat (off + i) :: u64)" by simp
  then show "mem_read (mem_write h a bs) (a + word_of_nat off) n ! i = slice off n bs ! i"
    using i assms mem_write_at [of "off + i" bs h a] by (simp add: mem_read_def nth_slice add.assoc)
qed

section \<open>Arrays of encoded elements\<close>

text \<open>The interface of a code with elements of a fixed size that are written one after the other and read back by index.\<close>

locale fixed_codec =
  fixes enc :: "'a \<Rightarrow> bytes" and dec :: "bytes \<Rightarrow> 'a option" and size_of :: nat and valid :: "'a \<Rightarrow> bool"
  assumes enc_length: "length (enc x) = size_of"
    and dec_enc: "valid x \<Longrightarrow> dec (enc x) = Some x"
begin

lemma enc_array_length: "length (concat (map enc xs)) = size_of * length xs"
  by (induction xs) (simp_all add: enc_length)

lemma enc_array_slice:
  assumes "k < length xs"
  shows "slice (size_of * k) size_of (concat (map enc xs) @ post) = enc (xs ! k)"
  using assms
proof (induction xs arbitrary: k)
  case (Cons x xs)
  show ?case
  proof (cases k)
    case 0
    then show ?thesis by (simp add: slice_def enc_length)
  next
    case (Suc j)
    then have "drop (size_of * k) (concat (map enc (x # xs)) @ post)
        = drop (size_of * j) (concat (map enc xs) @ post)"
      by (simp add: enc_length)
    with Cons Suc show ?thesis by (auto simp: slice_def)
  qed
qed simp

lemma array_read:
  assumes "k < length xs" "valid (xs ! k)"
  shows "dec (slice (length pre + size_of * k) size_of (pre @ concat (map enc xs) @ post)) = Some (xs ! k)"
  using enc_array_slice [OF assms(1)] dec_enc [OF assms(2)]
  by (simp add: slice_def)

lemma enc_array_inj:
  assumes "list_all valid xs" "list_all valid ys" "length xs = length ys"
    and "concat (map enc xs) = concat (map enc ys)"
  shows "xs = ys"
proof (rule nth_equalityI)
  fix k assume "k < length xs"
  with assms have "valid (xs ! k)" "valid (ys ! k)" by (auto simp: list_all_length)
  with \<open>k < length xs\<close> assms array_read [of k xs "[]" "[]"] array_read [of k ys "[]" "[]"]
  show "xs ! k = ys ! k" by simp
qed (fact assms)

end

end
