(* ===== verification/Delegate_Quant.thy ===== *)
theory Delegate_Quant
  imports Complex_Main Prelude
begin

text \<open>
  Quantisation in the TensorFlow Lite delegate (\<open>vta-delegate.hpp\<close>, \<open>vta-delegate.cpp\<close> and the constructor of
  \<open>VTAALUOp\<close> in \<open>vta-delegate-ops.cpp\<close>): how a floating-point scale becomes a 16-bit multiplier and a shift, how an
  8-bit operand is converted to the common fixed-point scale, and how a 32-bit result is converted back. Signed
  overflow and shifts by amounts outside of the width are undefined and therefore faults of the model.

  Shown: with the parameters the constructor computes no conversion is undefined, a converted operand fits
  in 15 bits, and it differs from the exact rescaled value by less than two units.
\<close>

section \<open>Floating-point scales\<close>

text \<open>A positive normal \<open>double\<close>: \<open>fmant / 2\<^sup>5\<^sup>3 * 2\<^bsup>fexp\<^esup>\<close> with a 53-bit mantissa, which is also what \<open>frexp\<close> returns. A
  \<open>float\<close> is one whose last 29 bits of the mantissa are zero.\<close>

record fp =
  fmant :: nat
  fexp :: int

definition fp_ok :: "fp \<Rightarrow> bool" where
  "fp_ok x = (2 ^ 52 \<le> fmant x \<and> fmant x < 2 ^ 53)"

text \<open>Scales of tensors: the exponents keep all products and quotients below in the range of their types.\<close>

definition float_scale :: "fp \<Rightarrow> bool" where
  "float_scale x = (fp_ok x \<and> 2 ^ 29 dvd fmant x \<and> -120 \<le> fexp x \<and> fexp x \<le> 115)"

definition fp_less :: "fp \<Rightarrow> fp \<Rightarrow> bool" where
  "fp_less x y = (fexp x < fexp y \<or> fexp x = fexp y \<and> fmant x < fmant y)"

definition fp_max :: "fp \<Rightarrow> fp \<Rightarrow> fp" where
  "fp_max x y = (if fp_less x y then y else x)"

text \<open>Multiplication by a power of two is exact.\<close>

definition fp_scale :: "int \<Rightarrow> fp \<Rightarrow> fp" where
  "fp_scale k x = x\<lparr>fexp := fexp x + k\<rparr>"

text \<open>Division rounds to the nearest mantissa, ties to even.\<close>

definition round_even :: "nat \<Rightarrow> nat \<Rightarrow> nat" where
  "round_even a b = (let q = a div b; r = a mod b in
     if 2 * r < b \<or> 2 * r = b \<and> even q then q else q + 1)"

definition fp_div :: "fp \<Rightarrow> fp \<Rightarrow> fp" where
  "fp_div x y =
    (if fmant y \<le> fmant x then \<lparr>fmant = round_even (fmant x * 2 ^ 52) (fmant y), fexp = fexp x - fexp y + 1\<rparr>
     else \<lparr>fmant = round_even (fmant x * 2 ^ 53) (fmant y), fexp = fexp x - fexp y\<rparr>)"

text \<open>The literal \<open>1e-6\<close>.\<close>

definition fp_1em6 :: fp where
  "fp_1em6 = \<lparr>fmant = 0x10C6F7A0B5ED8D, fexp = -19\<rparr>"

section \<open>Quantisation data\<close>

record QuantizationData =
  q_offset :: u32
  q_shift :: u16
  q_multiplier :: u16

definition left_shift :: nat where "left_shift = 7"

definition shr32 :: "u32 \<Rightarrow> int \<Rightarrow> u32 res" where
  "shr32 v n = (if 0 \<le> n \<and> n < 32 then Inr (signed_drop_bit (nat n) v) else Inl (Undefined ''shift count''))"

definition int32 :: "int \<Rightarrow> u32 res" where
  "int32 v = (if - (2 ^ 31) \<le> v \<and> v < 2 ^ 31 then Inr (word_of_int v) else Inl (Undefined ''signed overflow''))"

definition simulateRealValue :: "u8 \<Rightarrow> QuantizationData \<Rightarrow> u32 res" where
  "simulateRealValue val q =
    (let valoffset = ucast (q_offset q) + scast val :: u16;
         valshift = valoffset * push_bit left_shift 1;
         overflow = (valshift = q_multiplier q \<and> valshift = 0x8000);
         valscaledraw32 = scast valshift * scast (q_multiplier q) :: u32;
         nudge = (if 0 \<le> sint valscaledraw32 then push_bit 14 1 else 1 - push_bit 14 1);
         valscaled = signed_drop_bit 15 (valscaledraw32 + nudge);
         valsaturated = (if overflow then 0x7FFF else ucast valscaled) :: u16
     in res_bind (shr32 (scast valsaturated) (- sint (q_shift q))) (\<lambda>v.
        let finval = ucast v :: u16 in Inr (scast finval)))"

definition requantizeResults :: "u32 \<Rightarrow> QuantizationData \<Rightarrow> u8 res" where
  "requantizeResults val q =
    res_bind (int32 (sint val * sint (q_multiplier q))) (\<lambda>valscaled.
    res_bind (shr32 valscaled (15 - sint (q_shift q))) (\<lambda>valshifted.
    res_bind (int32 (sint valshifted + sint (q_offset q))) (\<lambda>valoffset.
    Inr (word_of_int (max (-128) (min (sint valoffset) 127))))))"

definition computeQuantizationParameters :: "fp \<Rightarrow> (u16 \<times> u16) res" where
  "computeQuantizationParameters scale =
    (if fp_less scale fp_1em6 then Inr (0, 0)
     else
       let q_fixed = (fmant scale + 2 ^ 37) div 2 ^ 38; shift32 = fexp scale in
       res_bind (check (q_fixed \<le> 2 ^ 15) ''q_fixed <= (1 << 15)'') (\<lambda>_.
       let (q_fixed, shift32) = (if q_fixed = 2 ^ 15 then (q_fixed div 2, shift32 + 1) else (q_fixed, shift32)) in
       res_bind (check (q_fixed \<le> 32767) ''q_fixed <= std::numeric_limits<int16_t>::max()'') (\<lambda>_.
       let (q_fixed, shift32) = (if shift32 < -15 then (0, 0) else (q_fixed, shift32)) in
       Inr (word_of_nat q_fixed, word_of_int shift32))))"

text \<open>The parameters of a tensor and the constructor of \<open>VTAALUOp\<close>.\<close>

record tensor_params =
  scale :: fp
  zero_point :: u32

record VTAALUOp =
  input1quant :: QuantizationData
  input2quant :: QuantizationData
  outputquant :: QuantizationData

definition new_VTAALUOp :: "tensor_params \<Rightarrow> tensor_params \<Rightarrow> tensor_params \<Rightarrow> VTAALUOp res" where
  "new_VTAALUOp in1 in2 out =
    (let twice_max_input_scale = fp_scale 1 (fp_max (scale in1) (scale in2));
         real_in1_multiplier = fp_div (scale in1) twice_max_input_scale;
         real_in2_multiplier = fp_div (scale in2) twice_max_input_scale;
         real_out_multiplier = fp_div twice_max_input_scale (fp_scale (int left_shift) (scale out)) in
     res_bind (computeQuantizationParameters real_in1_multiplier) (\<lambda>(m1, s1).
     res_bind (computeQuantizationParameters real_in2_multiplier) (\<lambda>(m2, s2).
     res_bind (computeQuantizationParameters real_out_multiplier) (\<lambda>(m3, s3).
     Inr \<lparr>input1quant = \<lparr>q_offset = - zero_point in1, q_shift = s1, q_multiplier = m1\<rparr>,
          input2quant = \<lparr>q_offset = - zero_point in2, q_shift = s2, q_multiplier = m2\<rparr>,
          outputquant = \<lparr>q_offset = zero_point out, q_shift = s3, q_multiplier = m3\<rparr>\<rparr>))))"

section \<open>Arithmetic of scales\<close>

definition fval :: "fp \<Rightarrow> real" where
  "fval x = real (fmant x) * 2 powi (fexp x - 53)"

lemma fval_pos: "fp_ok x \<Longrightarrow> 0 < fval x"
  by (simp add: fp_ok_def fval_def)

lemma fval_scale: "fval (fp_scale k x) = 2 powi k * fval x"
  by (simp add: fval_def fp_scale_def power_int_add power_int_diff)

lemma round_even_near: "0 < b \<Longrightarrow> \<bar>real (round_even a b) - real a / real b\<bar> \<le> 1 / 2"
proof -
  assume b: "0 < b"
  have "real a = real (a div b) * real b + real (a mod b)"
    by (metis div_mult_mod_eq of_nat_add of_nat_mult)
  then have e: "real a / real b = real (a div b) + real (a mod b) / real b" using b by (simp add: field_simps)
  have "a mod b < b" using b by simp
  then have r: "real (a mod b) / real b < 1" using b by simp
  consider "2 * (a mod b) \<le> b" "round_even a b = a div b" | "b \<le> 2 * (a mod b)" "round_even a b = a div b + 1"
    unfolding round_even_def Let_def by (cases "2 * (a mod b) < b \<or> 2 * (a mod b) = b \<and> even (a div b)") auto
  then show ?thesis
  proof cases
    case 1
    then have "real (2 * (a mod b)) \<le> real b" by (simp only: of_nat_le_iff)
    then have "real (a mod b) / real b \<le> 1 / 2" using b by (simp add: field_simps)
    then show ?thesis using 1(2) e by simp
  next
    case 2
    then have "real b \<le> real (2 * (a mod b))" by (simp only: of_nat_le_iff)
    then have "1 / 2 \<le> real (a mod b) / real b" using b by (simp add: field_simps)
    then show ?thesis using 2(2) e r by simp
  qed
qed

lemma round_even_bounds: "0 < b \<Longrightarrow> c * b \<le> a \<Longrightarrow> a \<le> d * b \<Longrightarrow> c \<le> round_even a b \<and> round_even a b \<le> d"
proof -
  assume b: "0 < b" "c * b \<le> a" "a \<le> d * b"
  have c: "c \<le> a div b" using b(1,2) by (simp add: less_eq_div_iff_mult_less_eq)
  have "a div b < d \<or> a div b = d \<and> a mod b = 0"
  proof (cases "a div b < d")
    case False
    have "d * b \<le> a div b * b" using False by simp
    then have "a div b * b = d * b" "a mod b = 0" using b(3) div_mult_mod_eq [of a b] by linarith+
    then show ?thesis using b(1) by simp
  qed simp
  then show ?thesis using c b(1) by (auto simp: round_even_def Let_def)
qed

lemma fp_div_ok:
  assumes "fp_ok x" "fp_ok y"
  shows "fp_ok (fp_div x y)"
proof -
  have m: "2 ^ 52 \<le> fmant x" "fmant x < 2 ^ 53" "2 ^ 52 \<le> fmant y" "fmant y < 2 ^ 53" "0 < fmant y"
    using assms by (simp_all add: fp_ok_def)
  show ?thesis
  proof (cases "fmant y \<le> fmant x")
    case True
    have "2 ^ 52 * fmant y \<le> fmant x * 2 ^ 52" using True by simp
    moreover have "fmant x * 2 ^ 52 \<le> (2 ^ 53 - 1) * fmant y" using m by simp
    ultimately have "2 ^ 52 \<le> round_even (fmant x * 2 ^ 52) (fmant y) \<and> round_even (fmant x * 2 ^ 52) (fmant y) \<le> 2 ^ 53 - 1"
      using m(5) by (intro round_even_bounds) simp_all
    then show ?thesis using True by (simp add: fp_div_def fp_ok_def)
  next
    case False
    have "2 ^ 52 * fmant y \<le> fmant x * 2 ^ 53" using m by simp
    moreover have "fmant x * 2 ^ 53 \<le> (2 ^ 53 - 1) * fmant y" using m False by simp
    ultimately have "2 ^ 52 \<le> round_even (fmant x * 2 ^ 53) (fmant y) \<and> round_even (fmant x * 2 ^ 53) (fmant y) \<le> 2 ^ 53 - 1"
      using m(5) by (intro round_even_bounds) simp_all
    then show ?thesis using False by (simp add: fp_div_def fp_ok_def)
  qed
qed

lemma fval_quotient:
  assumes "fp_ok y"
  shows "fval x / fval y = real (fmant x * 2 ^ k) / real (fmant y) * 2 powi (fexp x - fexp y - int k)"
  using assms by (simp add: fval_def fp_ok_def power_int_diff field_simps power_int_add)

lemma fp_div_near:
  assumes "fp_ok x" "fp_ok y"
  shows "\<bar>fval (fp_div x y) - fval x / fval y\<bar> \<le> 2 powi (fexp (fp_div x y) - 54)"
proof -
  let ?k = "if fmant y \<le> fmant x then 52 else 53 :: nat"
  let ?a = "fmant x * 2 ^ ?k" let ?e = "fexp (fp_div x y) - 53"
  have y: "0 < fmant y" using assms(2) by (simp add: fp_ok_def)
  have d: "fmant (fp_div x y) = round_even ?a (fmant y)" "?e = fexp x - fexp y - int ?k"
    by (simp_all add: fp_div_def)
  have "fval (fp_div x y) - fval x / fval y = (real (round_even ?a (fmant y)) - real ?a / real (fmant y)) * 2 powi ?e"
    unfolding fval_quotient [OF assms(2), of x ?k] d(2) [symmetric] by (simp only: fval_def d(1) left_diff_distrib)
  then have "\<bar>fval (fp_div x y) - fval x / fval y\<bar> \<le> 1 / 2 * 2 powi ?e"
    using round_even_near [OF y, of ?a] by (simp add: abs_mult mult_right_mono)
  also have "\<dots> = 2 powi (fexp (fp_div x y) - 54)" by (simp add: power_int_diff)
  finally show ?thesis .
qed

lemma fval_less: "fp_ok x \<Longrightarrow> fval x < 2 powi (fexp x)"
proof -
  assume "fp_ok x"
  then have "real (fmant x) < 2 ^ 53" by (simp add: fp_ok_def flip: of_nat_less_iff)
  then have "fval x < 2 ^ 53 * 2 powi (fexp x - 53)" unfolding fval_def by (rule mult_strict_right_mono) simp
  also have "\<dots> = 2 powi (fexp x)" by (simp add: power_int_diff)
  finally show ?thesis .
qed

lemma fp_less_fval:
  assumes "fp_ok x" "fp_ok y" "\<not> fp_less y x"
  shows "fexp x < fexp y \<or> fexp x = fexp y \<and> fmant x \<le> fmant y"
  using assms by (auto simp: fp_less_def)

section \<open>Multiplier and shift\<close>

lemma fixed_near: "\<bar>real ((m + 2 ^ 37) div 2 ^ 38) - real m / 2 ^ 38\<bar> \<le> 1 / 2"
proof -
  let ?q = "(m + 2 ^ 37) div 2 ^ 38"
  have "?q * 2 ^ 38 \<le> m + 2 ^ 37" "m + 2 ^ 37 < (?q + 1) * 2 ^ 38" by simp_all
  then have "real (?q * 2 ^ 38) \<le> real (m + 2 ^ 37)" "real (m + 2 ^ 37) < real ((?q + 1) * 2 ^ 38)"
    by (simp_all only: of_nat_le_iff of_nat_less_iff)
  then show ?thesis by (simp add: abs_le_iff field_simps)
qed

text \<open>What \<open>computeQuantizationParameters\<close> promises of the multiplier \<open>m\<close> and shift \<open>k\<close> of a scale.\<close>

definition quantises :: "fp \<Rightarrow> nat \<Rightarrow> int \<Rightarrow> bool" where
  "quantises s m k =
    (m = 0 \<and> k = 0 \<and> fexp s \<le> -16 \<or>
     2 ^ 14 \<le> m \<and> m < 2 ^ 15 \<and> -15 \<le> k \<and> (k = fexp s \<or> k = fexp s + 1 \<and> m = 2 ^ 14) \<and>
     \<bar>real m * 2 powi (k - 15) - fval s\<bar> \<le> 2 powi (fexp s - 16))"

lemma computeQuantizationParameters_ok:
  assumes "fp_ok s"
  shows "\<exists>m k. computeQuantizationParameters s = Inr (word_of_nat m, word_of_int k) \<and> quantises s m k"
proof (cases "fp_less s fp_1em6")
  case True
  then show ?thesis
    by (intro exI [of _ 0]) (auto simp: computeQuantizationParameters_def quantises_def fp_less_def fp_1em6_def)
next
  case False
  let ?q = "(fmant s + 2 ^ 37) div 2 ^ 38"
  have "2 ^ 14 * 2 ^ 38 \<le> fmant s + 2 ^ 37" "fmant s + 2 ^ 37 < (2 ^ 15 + 1) * 2 ^ 38" using assms by (simp_all add: fp_ok_def)
  then have "?q < 2 ^ 15 + 1" and q: "2 ^ 14 \<le> ?q"
    by (simp_all only: less_mult_imp_div_less less_eq_div_iff_mult_less_eq zero_less_numeral zero_less_power)
  then have q: "2 ^ 14 \<le> ?q" "?q \<le> 2 ^ 15" by simp_all
  have "\<bar>real ?q * 2 powi (fexp s - 15) - fval s\<bar> = \<bar>real ?q - real (fmant s) / 2 ^ 38\<bar> * 2 powi (fexp s - 15)"
  proof -
    have "fval s = real (fmant s) / 2 ^ 38 * 2 powi (fexp s - 15)" by (simp add: fval_def power_int_diff)
    then show ?thesis by (simp only: left_diff_distrib [symmetric] abs_mult) simp
  qed
  also have "\<dots> \<le> 1 / 2 * 2 powi (fexp s - 15)" by (rule mult_right_mono [OF fixed_near]) simp
  also have "\<dots> = 2 powi (fexp s - 16)" by (simp add: power_int_diff)
  finally have near: "\<bar>real ?q * 2 powi (fexp s - 15) - fval s\<bar> \<le> 2 powi (fexp s - 16)" .
  define m where "m = (if ?q = 2 ^ 15 then 2 ^ 14 else ?q)"
  define k where "k = (if ?q = 2 ^ 15 then fexp s + 1 else fexp s)"
  have mk: "real m * 2 powi (k - 15) = real ?q * 2 powi (fexp s - 15)" "2 ^ 14 \<le> m" "m < 2 ^ 15"
    using q by (auto simp: m_def k_def power_int_diff power_int_add)
  have c: "computeQuantizationParameters s =
      Inr (if k < -15 then (0, 0) else (word_of_nat m, word_of_int k))"
    using False q mk(3) unfolding computeQuantizationParameters_def
    by (auto simp: Let_def check_def m_def k_def)
  show ?thesis
  proof (cases "k < -15")
    case True
    then show ?thesis using c by (intro exI [of _ 0]) (auto simp: quantises_def k_def split: if_splits)
  next
    case False
    moreover from this have "quantises s m k"
      using mk near by (auto simp: quantises_def m_def k_def split: if_splits)
    ultimately show ?thesis using c by auto
  qed
qed

section \<open>Conversion of operands\<close>

text \<open>\<open>simulateRealValue\<close> on integers: \<open>x\<close> is the operand minus its zero point, \<open>n\<close> the number of places shifted out.\<close>

definition real_value :: "int \<Rightarrow> int \<Rightarrow> nat \<Rightarrow> int" where
  "real_value x m n = ((128 * x * m + (if 0 \<le> x * m then 2 ^ 14 else 1 - 2 ^ 14)) div 2 ^ 15) div 2 ^ n"

lemma sint_word_of_int_small:
  "- (2 ^ (LENGTH('a::len) - 1)) \<le> v \<Longrightarrow> v < 2 ^ (LENGTH('a) - 1) \<Longrightarrow> sint (word_of_int v :: 'a word) = v"
  by (simp add: signed_of_int signed_take_bit_int_eq_self)

lemma sint_bounds:
  "- 128 \<le> sint (a :: u8)" "sint a \<le> 127" "- 32768 \<le> sint (b :: u16)" "sint b \<le> 32767"
  using sint_greater_eq [of a] sint_less [of a] sint_greater_eq [of b] sint_less [of b] by simp_all

lemma scast_small: "sint w = v \<Longrightarrow> scast w = word_of_int v"
  by (simp only: scast_eq)

lemma ucast_word_of_int: "ucast (word_of_int v :: 'a::len word) = (word_of_int v :: 'b::len word)" if "LENGTH('b) \<le> LENGTH('a)"
  using that by (intro bit_word_eqI) (simp add: bit_simps)

lemma ucast_sint: "ucast (w :: 'a::len word) = (word_of_int (sint w) :: 'b::len word)" if "LENGTH('b) \<le> LENGTH('a)"
proof -
  have "w = word_of_int (sint w)" by simp
  then show ?thesis using ucast_word_of_int [where 'a = 'a and 'b = 'b, OF that, of "sint w"] by argo
qed

lemma mult_bound: "\<bar>x\<bar> \<le> a \<Longrightarrow> \<bar>m\<bar> \<le> b \<Longrightarrow> \<bar>x * m\<bar> \<le> a * (b :: int)"
  by (simp add: abs_mult mult_mono)

text \<open>A right shift of a value that is known as an integer.\<close>

lemma shift_within:
  assumes "- c \<le> v" "v < (c :: int)"
  shows "- c \<le> v div 2 ^ n \<and> v div 2 ^ n < c"
proof (cases "0 \<le> v")
  case True
  then have "v div 2 ^ n \<le> v div 1" by (intro zdiv_mono2) simp_all
  then show ?thesis using True assms pos_imp_zdiv_nonneg_iff [of "2 ^ n" v] by simp
next
  case False
  then have "v * 2 ^ n \<le> v * 1" by (intro mult_left_mono_neg) simp_all
  then have "v * 2 ^ n div 2 ^ n \<le> v div 2 ^ n" by (intro zdiv_mono1) simp_all
  moreover have "v div 2 ^ n < 0" using False by (intro div_neg_pos_less0) simp_all
  ultimately show ?thesis using False assms by simp
qed

lemma signed_drop_bit_small:
  assumes "sint (word_of_int v :: 'a::len word) = v"
  shows "signed_drop_bit n (word_of_int v :: 'a word) = word_of_int (v div 2 ^ n)"
proof (rule signed_word_eqI)
  have b: "- (2 ^ (LENGTH('a) - 1)) \<le> v" "v < 2 ^ (LENGTH('a) - 1)"
    using sint_greater_eq [of "word_of_int v :: 'a word"] sint_less [of "word_of_int v :: 'a word"] assms by simp_all
  have "sint (word_of_int (v div 2 ^ n) :: 'a word) = v div 2 ^ n"
    using shift_within [OF b, of n] by (intro sint_word_of_int_small) simp_all
  then show "sint (signed_drop_bit n (word_of_int v :: 'a word)) = sint (word_of_int (v div 2 ^ n) :: 'a word)"
    using assms by (simp add: sint_signed_drop_bit_eq drop_bit_int_def)
qed

lemma high_part: "- (2 ^ 30) \<le> v \<Longrightarrow> v < 2 ^ 30 \<Longrightarrow> - (2 ^ 15) \<le> v div 2 ^ 15 \<and> v div 2 ^ 15 < (2 ^ 15 :: int)"
  by simp linarith

lemma simulateRealValue_eq:
  assumes x: "x = sint val + sint (q_offset q)" "\<bar>x\<bar> \<le> 255"
    and m: "sint (q_multiplier q) = m" "0 \<le> m" and n: "sint (q_shift q) = - int n" "n \<le> 15"
  shows "simulateRealValue val q = Inr (word_of_int (real_value x m n))"
proof -
  have m2: "m < 2 ^ 15" using m(1) sint_bounds(4) [of "q_multiplier q"] by simp
  let ?v = "word_of_int (128 * x) :: u16"
  have "ucast (q_offset q) + scast val = (word_of_int x :: u16)"
    using x(1) by (simp only: ucast_sint scast_small [OF refl] wi_hom_add add.commute len_num0 len_num1 len_bit0 len_bit1 order_refl)
  then have v: "(ucast (q_offset q) + scast val :: u16) * push_bit left_shift 1 = ?v"
    by (simp add: left_shift_def mult.commute)
  have sv: "sint ?v = 128 * x" using x(2) by (intro sint_word_of_int_small) simp_all
  have nov: "?v \<noteq> 0x8000"
  proof
    assume "?v = 0x8000"
    then have "sint ?v = sint (0x8000 :: u16)" by simp
    then show False using sv x(2) by simp
  qed
  have b: "\<bar>x * m\<bar> \<le> 255 * (2 ^ 15 - 1)" using mult_bound [OF x(2), of m "2 ^ 15 - 1"] m(2) m2 by simp
  let ?r = "128 * x * m" let ?d = "if 0 \<le> x * m then 2 ^ 14 else 1 - 2 ^ 14 :: int"
  have raw: "scast ?v * scast (q_multiplier q) = (word_of_int ?r :: u32)"
    by (simp only: scast_small [OF sv] scast_small [OF m(1)] wi_hom_mult)
  define p where "p = x * m"
  have p: "?r = 128 * p" "- 8355585 \<le> p" "p \<le> 8355585" using b by (simp_all add: p_def abs_le_iff)
  have c: "- (2 ^ 30) < ?r" "?r < 2 ^ 30" unfolding p(1) using p(2,3) by simp_all
  then have sr: "sint (word_of_int ?r :: u32) = ?r" by (intro sint_word_of_int_small) simp_all
  have sg: "0 \<le> ?r \<longleftrightarrow> 0 \<le> x * m" unfolding p(1) p_def [symmetric] by simp
  have nudge: "(if 0 \<le> sint (word_of_int ?r :: u32) then push_bit 14 1 else 1 - push_bit 14 1) = (word_of_int ?d :: u32)"
    unfolding sr unfolding sg by (cases "0 \<le> x * m") simp_all
  define s where "s = (?r + ?d) div 2 ^ 15"
  have e: "- (2 ^ 30) \<le> ?r + ?d" "?r + ?d < 2 ^ 30" unfolding p(1) p_def [symmetric] using p(2,3) by simp_all
  then have sd: "sint (word_of_int (?r + ?d) :: u32) = ?r + ?d" by (intro sint_word_of_int_small) simp_all
  have s: "- (2 ^ 15) \<le> s" "s < 2 ^ 15" using high_part [OF e] unfolding s_def by simp_all
  have drop: "signed_drop_bit 15 (word_of_int ?r + word_of_int ?d :: u32) = word_of_int s"
    unfolding wi_hom_add signed_drop_bit_small [OF sd] s_def ..
  have s16: "sint (word_of_int s :: u16) = s" "sint (word_of_int s :: u32) = s"
    using s by (intro sint_word_of_int_small; simp)+
  have f: "- (2 ^ 15) \<le> s div 2 ^ n" "s div 2 ^ n < 2 ^ 15" using shift_within [OF s, of n] by simp_all
  have "scast (word_of_int (s div 2 ^ n) :: u16) = (word_of_int (s div 2 ^ n) :: u32)"
    using f by (intro scast_small sint_word_of_int_small) simp_all
  moreover have "scast (ucast (word_of_int s :: u32) :: u16) = (word_of_int s :: u32)"
    using s16(1) by (simp add: ucast_word_of_int scast_small)
  moreover have "signed_drop_bit n (word_of_int s :: u32) = word_of_int (s div 2 ^ n)" by (rule signed_drop_bit_small [OF s16(2)])
  moreover have "- sint (q_shift q) = int n" using n(1) by simp
  ultimately show ?thesis
    using nov n(2) unfolding simulateRealValue_def Let_def v raw nudge drop real_value_def s_def [symmetric]
    by (simp add: shr32_def ucast_word_of_int)
qed

section \<open>Bounds and accuracy\<close>

lemma real_value_bound:
  assumes "\<bar>x\<bar> \<le> 255" "0 \<le> m" "m \<le> 2 ^ 14 * 2 ^ n"
  shows "\<bar>real_value x m n\<bar> \<le> 16321"
proof -
  let ?d = "if 0 \<le> x * m then 2 ^ 14 else 1 - 2 ^ 14 :: int"
  define s where "s = (128 * x * m + ?d) div 2 ^ 15"
  have b: "\<bar>x * m\<bar> \<le> 255 * (2 ^ 14 * 2 ^ n)" using mult_bound [OF assms(1), of m "2 ^ 14 * 2 ^ n"] assms(2,3) by simp
  have "s * 2 ^ 15 \<le> 128 * x * m + ?d" "128 * x * m + ?d < (s + 1) * 2 ^ 15" unfolding s_def by simp_all
  moreover have "?d \<le> 2 ^ 14" "- (2 ^ 14) < ?d" by auto
  ultimately have s: "s \<le> 16320 * 2 ^ n" "- 16320 * 2 ^ n - 1 \<le> s" using b by (simp_all add: mult.assoc)
  have "s div 2 ^ n \<le> 16320 * 2 ^ n div 2 ^ n" by (rule zdiv_mono1 [OF s(1)]) simp
  moreover have "(- 16320 * 2 ^ n - 1) div 2 ^ n \<le> s div 2 ^ n" by (rule zdiv_mono1 [OF s(2)]) simp
  moreover have "(- 16320 * 2 ^ n - 1 :: int) div 2 ^ n = - 16321"
  proof -
    have "(- 16320 * 2 ^ n - 1 :: int) = - 1 + (- 16320) * 2 ^ n" by simp
    also have "\<dots> div 2 ^ n = - 16320 + (- 1) div 2 ^ n" by (rule div_mult_self1) simp
    finally have "(- 16320 * 2 ^ n - 1 :: int) div 2 ^ n = - 16320 + (- 1) div 2 ^ n" .
    then show ?thesis by (simp add: div_eq_minus1)
  qed
  ultimately show ?thesis by (simp add: real_value_def s_def abs_le_iff)
qed

lemma real_div_bounds: "real_of_int (a div b) \<le> a / b" "a / b - 1 < real_of_int (a div b)" if "0 < b" for a b :: int
proof -
  have "a div b * b \<le> a" "a < (a div b + 1) * b"
    using that div_mult_mod_eq [of a b] pos_mod_bound [of b a] pos_mod_sign [of b a] unfolding distrib_right mult_1 by linarith+
  then have "real_of_int (a div b * b) \<le> real_of_int a" "real_of_int a < real_of_int ((a div b + 1) * b)"
    by (simp_all only: of_int_le_iff of_int_less_iff)
  then have "real_of_int (a div b) * b \<le> a" "real_of_int a < (real_of_int (a div b) + 1) * b" by simp_all
  then show "real_of_int (a div b) \<le> a / b" "a / b - 1 < real_of_int (a div b)"
    using that by (simp_all add: field_simps)
qed

lemma real_value_near:
  fixes x m :: int and n :: nat
  defines "e \<equiv> 128 * x * m / 2 ^ 15 / 2 ^ n"
  shows "real_value x m n \<le> e + 1 / 2 / 2 ^ n" "e - 3 / 2 / 2 ^ n - of_bool (0 < n) < real_value x m n"
proof -
  let ?d = "if 0 \<le> x * m then 2 ^ 14 else 1 - 2 ^ 14 :: int"
  define s where "s = (128 * x * m + ?d) div 2 ^ 15"
  have d: "real_of_int ?d \<le> 2 ^ 14" "- (2 ^ 14) < real_of_int ?d" by auto
  have q: "(real_of_int (128 * x * m + ?d)) / 2 ^ 15 = 128 * x * m / 2 ^ 15 + real_of_int ?d / 2 ^ 15" by (simp add: add_divide_distrib)
  have "s \<le> 128 * x * m / 2 ^ 15 + real_of_int ?d / 2 ^ 15" "128 * x * m / 2 ^ 15 + real_of_int ?d / 2 ^ 15 - 1 < s"
    using real_div_bounds [of "2 ^ 15" "128 * x * m + ?d"] unfolding s_def by (simp_all add: add_divide_distrib)
  then have s: "s \<le> 128 * x * m / 2 ^ 15 + 1 / 2" "128 * x * m / 2 ^ 15 - 3 / 2 < s" using d by simp_all
  have v: "real_value x m n = s div 2 ^ n" by (simp add: real_value_def s_def)
  have "real_of_int (s div 2 ^ n) \<le> s / 2 ^ n" using real_div_bounds(1) [of "2 ^ n" s] by simp
  also have "\<dots> \<le> (128 * x * m / 2 ^ 15 + 1 / 2) / 2 ^ n" by (rule divide_right_mono [OF s(1)]) simp
  finally show "real_value x m n \<le> e + 1 / 2 / 2 ^ n" unfolding v e_def by (simp add: add_divide_distrib)
  have "e - 3 / 2 / 2 ^ n = (128 * x * m / 2 ^ 15 - 3 / 2) / 2 ^ n" unfolding e_def by (simp add: diff_divide_distrib)
  also have "\<dots> < s / 2 ^ n" by (rule divide_strict_right_mono [OF s(2)]) simp
  also have "\<dots> \<le> s div 2 ^ n + of_bool (0 < n)"
    using real_div_bounds(2) [of "2 ^ n" s] by (cases "n = 0") simp_all
  finally show "e - 3 / 2 / 2 ^ n - of_bool (0 < n) < real_value x m n" unfolding v by simp
qed

text \<open>Division of a scale by twice the larger one: the quotient is one half or has a negative exponent.\<close>

lemma half_scale:
  assumes "fp_ok a" "fp_ok c" "\<not> fp_less c a"
  shows "fexp (fp_div a (fp_scale 1 c)) < 0 \<or> fexp (fp_div a (fp_scale 1 c)) = 0 \<and> fmant (fp_div a (fp_scale 1 c)) = 2 ^ 52"
proof -
  have "round_even (n * 4503599627370496) n = 4503599627370496" if "0 < n" for n
    using that by (simp add: round_even_def Let_def)
  then show ?thesis
    using assms fp_less_fval [OF assms] by (auto simp: fp_div_def fp_scale_def fp_ok_def)
qed

lemma quantises_half:
  assumes "quantises d m k" "fexp d < 0 \<or> fexp d = 0 \<and> fmant d = 2 ^ 52"
  shows "-15 \<le> k \<and> k \<le> 0 \<and> m \<le> 2 ^ 14 * 2 ^ nat (- k)"
proof (cases "fexp d < 0")
  case True
  then consider "m = 0" "k = 0" | "k = fexp d" "m < 2 ^ 15" "-15 \<le> k" | "k = fexp d + 1" "m = 2 ^ 14" "-15 \<le> k"
    using assms(1) by (auto simp: quantises_def)
  then show ?thesis
  proof cases
    case 2
    then have "(2 :: nat) ^ 1 \<le> 2 ^ nat (- k)" using True by (intro power_increasing) simp_all
    then show ?thesis using 2 True by simp
  qed (use True in simp_all)
next
  case False
  then have d: "fexp d = 0" "fval d = 1 / 2" using assms(2) by (simp_all add: fval_def)
  then consider "k = 0" "\<bar>real m / 32768 - 1 / 2\<bar> \<le> 1 / 65536" | "k = 1" "m = 2 ^ 14" "\<bar>real m / 16384 - 1 / 2\<bar> \<le> 1 / 65536"
    using assms(1) by (auto simp: quantises_def)
  then show ?thesis
  proof cases
    case 1
    then have "real m < 16385" by linarith
    then have "m < 2 ^ 14 + 1" by simp
    then show ?thesis using 1(1) by simp
  qed (simp add: abs_le_iff)
qed

lemma operand_near:
  assumes d: "d = fp_div a b" "fp_ok a" "fp_ok b" and q: "quantises d m k" "k \<le> 0" and x: "\<bar>x\<bar> \<le> 255"
  defines "v \<equiv> real_value x (int m) (nat (- k))" and "r \<equiv> 128 * x * (fval a / fval b)"
  shows "-2 < v - r \<and> v - r < 1"
proof (cases "m = 0")
  case True
  then have k: "k = 0" "fexp d \<le> -16" using q(1) by (auto simp: quantises_def)
  have v: "v = 0" unfolding v_def True k by (simp add: real_value_def)
  have p: "(2 :: real) powi fexp d \<le> 2 powi (-16)" "(2 :: real) powi (fexp d - 54) \<le> 2 powi (-70)"
    using k(2) by (intro power_int_increasing; simp)+
  have "fval d < 2 powi fexp d" using fval_less [OF fp_div_ok [OF d(2,3)]] d(1) by simp
  then have "fval a / fval b \<le> 2 powi (-16) + 2 powi (-70)"
    using fp_div_near [OF d(2,3)] p unfolding d(1) by linarith
  moreover have "0 < fval a / fval b" using fval_pos [OF d(2)] fval_pos [OF d(3)] by simp
  ultimately have "\<bar>fval a / fval b\<bar> \<le> 2 powi (-16) + 2 powi (-70)" by simp
  moreover have "\<bar>real_of_int x\<bar> \<le> 255" using x by linarith
  ultimately have "\<bar>real_of_int x\<bar> * \<bar>fval a / fval b\<bar> \<le> 255 * (2 powi (-16) + 2 powi (-70))"
    by (intro mult_mono) simp_all
  moreover have "\<bar>r\<bar> = 128 * (\<bar>real_of_int x\<bar> * \<bar>fval a / fval b\<bar>)" by (simp only: r_def abs_mult mult.assoc abs_numeral)
  ultimately have "\<bar>r\<bar> \<le> 128 * (255 * (2 powi (-16) + 2 powi (-70)))" by linarith
  moreover have "128 * (255 * (2 powi (-16) + 2 powi (-70))) < (1 :: real)" by (simp add: power_int_def power_divide)
  ultimately show ?thesis unfolding v by linarith
next
  case False
  define n where "n = nat (- k)"
  have k: "k = - int n" "fexp d \<le> k" and near: "\<bar>real m * 2 powi (k - 15) - fval d\<bar> \<le> 2 powi (fexp d - 16)"
    using q False by (auto simp: quantises_def n_def)
  let ?P = "2 ^ n :: real"
  have p: "(2 :: real) powi (fexp d - 16) \<le> 2 powi (k - 16)" "(2 :: real) powi (fexp d - 54) \<le> 2 powi (k - 54)"
    using k(2) by (intro power_int_increasing; simp)+
  have "\<bar>fval d - fval a / fval b\<bar> \<le> 2 powi (k - 54)" using fp_div_near [OF d(2,3)] p(2) d(1) by simp
  then have "\<bar>real m * 2 powi (k - 15) - fval a / fval b\<bar> \<le> 2 powi (k - 16) + 2 powi (k - 54)"
    using near p(1) by linarith
  also have "\<dots> = (1 / 65536 + 1 / 2 ^ 54) / ?P" by (simp add: k(1) power_int_diff power_int_minus field_simps)
  finally have g: "\<bar>real m / 2 ^ 15 / ?P - fval a / fval b\<bar> \<le> (1 / 65536 + 1 / 2 ^ 54) / ?P"
    by (simp add: k(1) power_int_diff power_int_minus field_simps)
  have "\<bar>real_of_int x\<bar> \<le> 255" using x by linarith
  then have "\<bar>real_of_int x\<bar> * \<bar>real m / 2 ^ 15 / ?P - fval a / fval b\<bar> \<le> 255 * ((1 / 65536 + 1 / 2 ^ 54) / ?P)"
    using g by (intro mult_mono) simp_all
  moreover have "128 * real_of_int x * int m / 2 ^ 15 / ?P - r = 128 * (real_of_int x * (real m / 2 ^ 15 / ?P - fval a / fval b))"
    by (simp add: r_def right_diff_distrib)
  ultimately have e: "\<bar>128 * real_of_int x * int m / 2 ^ 15 / ?P - r\<bar> \<le> 128 * (255 * ((1 / 65536 + 1 / 2 ^ 54) / ?P))"
    by (simp add: abs_mult)
  also have "\<dots> < 1 / 2 / ?P" by (simp add: field_simps)
  finally have e: "\<bar>128 * real_of_int x * int m / 2 ^ 15 / ?P - r\<bar> < 1 / 2 / ?P" .
  have v: "v \<le> 128 * real_of_int x * int m / 2 ^ 15 / ?P + 1 / 2 / ?P"
      "128 * real_of_int x * int m / 2 ^ 15 / ?P - 3 / 2 / ?P - of_bool (0 < n) < v"
    using real_value_near [of x "int m" n] unfolding v_def n_def [symmetric] by simp_all
  define u where "u = 1 / ?P"
  have u: "1 / 2 / ?P = u / 2" "3 / 2 / ?P = 3 / 2 * u" by (simp_all add: u_def)
  have "0 < u" "u \<le> 1" "0 < n \<Longrightarrow> u \<le> 1 / 2" using self_le_power [of "2 :: real" n] by (simp_all add: u_def field_simps)
  then have "of_bool (0 < n) + 2 * u \<le> 2" "0 < u" "u \<le> 1" by (cases "n = 0"; simp)+
  then show ?thesis using v e unfolding u by linarith
qed

section \<open>The parameters of an addition\<close>

text \<open>The tensors of a quantised addition: scales are positive floats and zero points are 8-bit values.\<close>

definition quantised_tensor :: "tensor_params \<Rightarrow> bool" where
  "quantised_tensor t = (float_scale (scale t) \<and> -128 \<le> sint (zero_point t) \<and> sint (zero_point t) \<le> 127)"

text \<open>What the constructor computes for an operand: multiplier \<open>m\<close>, shift \<open>- n\<close> and the negated zero point.\<close>

definition operand_quant :: "tensor_params \<Rightarrow> fp \<Rightarrow> QuantizationData \<Rightarrow> bool" where
  "operand_quant t c q = (\<exists>m n. q = \<lparr>q_offset = - zero_point t, q_shift = word_of_int (- int n), q_multiplier = word_of_nat m\<rparr> \<and>
     n \<le> 15 \<and> m < 2 ^ 15 \<and> m \<le> 2 ^ 14 * 2 ^ n \<and> quantises (fp_div (scale t) (fp_scale 1 c)) m (- int n))"

lemma operand_parameters:
  assumes "float_scale (scale t)" "fp_ok c" "\<not> fp_less c (scale t)"
  shows "\<exists>m s. computeQuantizationParameters (fp_div (scale t) (fp_scale 1 c)) = Inr (m, s) \<and>
    operand_quant t c \<lparr>q_offset = - zero_point t, q_shift = s, q_multiplier = m\<rparr>"
proof -
  let ?d = "fp_div (scale t) (fp_scale 1 c)"
  have a: "fp_ok (scale t)" "fp_ok (fp_scale 1 c)" using assms(1,2) by (simp_all add: float_scale_def fp_ok_def fp_scale_def)
  obtain m k where q: "computeQuantizationParameters ?d = Inr (word_of_nat m, word_of_int k)" "quantises ?d m k"
    using computeQuantizationParameters_ok [OF fp_div_ok [OF a]] by blast
  have "-15 \<le> k \<and> k \<le> 0 \<and> m \<le> 2 ^ 14 * 2 ^ nat (- k)"
    by (rule quantises_half [OF q(2) half_scale [OF a(1) assms(2,3)]])
  moreover have "m < 2 ^ 15" using q(2) by (auto simp: quantises_def)
  ultimately have "operand_quant t c \<lparr>q_offset = - zero_point t, q_shift = word_of_int k, q_multiplier = word_of_nat m\<rparr>"
    unfolding operand_quant_def using q(2) by - (rule exI [where x = m], rule exI [where x = "nat (- k)"], simp, linarith)
  with q(1) show ?thesis by blast
qed

lemma fp_max_facts:
  "fp_ok a \<Longrightarrow> fp_ok b \<Longrightarrow> fp_ok (fp_max a b)" "\<not> fp_less (fp_max a b) a" "\<not> fp_less (fp_max a b) b"
  by (auto simp: fp_max_def fp_less_def)

lemma new_VTAALUOp_ok:
  assumes "quantised_tensor in1" "quantised_tensor in2" "quantised_tensor out"
  defines "c \<equiv> fp_max (scale in1) (scale in2)"
  shows "\<exists>op m k. new_VTAALUOp in1 in2 out = Inr op \<and> operand_quant in1 c (input1quant op) \<and> operand_quant in2 c (input2quant op) \<and>
    outputquant op = \<lparr>q_offset = zero_point out, q_shift = word_of_int k, q_multiplier = word_of_nat m\<rparr> \<and>
    quantises (fp_div (fp_scale 1 c) (fp_scale 7 (scale out))) m k"
proof -
  have f: "float_scale (scale in1)" "float_scale (scale in2)" "fp_ok (scale in1)" "fp_ok (scale in2)" "fp_ok (fp_scale 7 (scale out))"
    using assms(1-3) by (simp_all add: quantised_tensor_def float_scale_def fp_scale_def fp_ok_def)
  have c: "fp_ok c" "\<not> fp_less c (scale in1)" "\<not> fp_less c (scale in2)" unfolding c_def using fp_max_facts f(3,4) by auto
  then have c1: "fp_ok (fp_scale 1 c)" by (simp add: fp_ok_def fp_scale_def)
  obtain m1 s1 where p1: "computeQuantizationParameters (fp_div (scale in1) (fp_scale 1 c)) = Inr (m1, s1)"
      "operand_quant in1 c \<lparr>q_offset = - zero_point in1, q_shift = s1, q_multiplier = m1\<rparr>"
    using operand_parameters [OF f(1) c(1,2)] by blast
  obtain m2 s2 where p2: "computeQuantizationParameters (fp_div (scale in2) (fp_scale 1 c)) = Inr (m2, s2)"
      "operand_quant in2 c \<lparr>q_offset = - zero_point in2, q_shift = s2, q_multiplier = m2\<rparr>"
    using operand_parameters [OF f(2) c(1,3)] by blast
  obtain m k where p3: "computeQuantizationParameters (fp_div (fp_scale 1 c) (fp_scale 7 (scale out))) = Inr (word_of_nat m, word_of_int k)"
      "quantises (fp_div (fp_scale 1 c) (fp_scale 7 (scale out))) m k"
    using computeQuantizationParameters_ok [OF fp_div_ok [OF c1 f(5)]] by blast
  show ?thesis using p1 p2 p3 by (auto simp: new_VTAALUOp_def left_shift_def c_def)
qed

lemma operand_converts:
  assumes "operand_quant t c q" "quantised_tensor t" "fp_ok c"
  shows "\<exists>v. simulateRealValue val q = Inr (word_of_int v) \<and> \<bar>v\<bar> \<le> 16321 \<and>
    (let r = 128 * (sint val - sint (zero_point t)) * (fval (scale t) / (2 * fval c)) in -2 < v - r \<and> v - r < 1)"
proof -
  obtain m n where q: "q = \<lparr>q_offset = - zero_point t, q_shift = word_of_int (- int n), q_multiplier = word_of_nat m\<rparr>"
      "n \<le> 15" "m < 2 ^ 15" "m \<le> 2 ^ 14 * 2 ^ n" "quantises (fp_div (scale t) (fp_scale 1 c)) m (- int n)"
    using assms(1) by (auto simp: operand_quant_def)
  define x where "x = sint val - sint (zero_point t)"
  have z: "-128 \<le> sint (zero_point t)" "sint (zero_point t) \<le> 127" using assms(2) by (simp_all add: quantised_tensor_def)
  then have "sint (- zero_point t) = - sint (zero_point t)"
  proof -
    have "- zero_point t = word_of_int (- sint (zero_point t))" by simp
    moreover have "sint (word_of_int (- sint (zero_point t)) :: u32) = - sint (zero_point t)"
      using z by (intro sint_word_of_int_small) simp_all
    ultimately show ?thesis by argo
  qed
  then have x: "x = sint val + sint (q_offset q)" "\<bar>x\<bar> \<le> 255" using z sint_bounds(1,2) [of val] by (simp_all add: x_def q(1))
  have "sint (word_of_int (int m) :: u16) = int m" using q(3) by (intro sint_word_of_int_small) simp_all
  then have m: "sint (q_multiplier q) = int m" by (simp add: q(1))
  have "sint (word_of_int (- int n) :: u16) = - int n" using q(2) by (intro sint_word_of_int_small) simp_all
  then have n: "sint (q_shift q) = - int n" by (simp add: q(1))
  let ?v = "real_value x (int m) n"
  have "simulateRealValue val q = Inr (word_of_int ?v)" by (rule simulateRealValue_eq [OF x m _ n q(2)]) simp
  moreover have "\<bar>?v\<bar> \<le> 16321" using q(4) of_nat_mono [OF q(4), where 'a = int] by (intro real_value_bound x(2)) simp_all
  moreover have "-2 < ?v - 128 * x * (fval (scale t) / fval (fp_scale 1 c)) \<and> ?v - 128 * x * (fval (scale t) / fval (fp_scale 1 c)) < 1"
    using operand_near [OF refl _ _ q(5) _ x(2)] assms(2,3) by (simp add: quantised_tensor_def float_scale_def fp_ok_def fp_scale_def)
  ultimately show ?thesis by (auto simp: x_def fval_scale Let_def)
qed

lemma fp_less_iff:
  assumes "fp_ok x" "fp_ok y"
  shows "fp_less x y \<longleftrightarrow> fval x < fval y"
proof -
  have lt: "fval a < fval b" if "fp_ok a" "fp_ok b" "fexp a < fexp b" for a b
  proof -
    have "fval a < 2 powi fexp a" by (rule fval_less [OF that(1)])
    also have "\<dots> \<le> 2 powi (fexp b - 1)" using that(3) by (intro power_int_increasing) simp_all
    also have "\<dots> = 2 ^ 52 * 2 powi (fexp b - 53)" by (simp add: power_int_diff)
    also have "\<dots> \<le> fval b" unfolding fval_def using that(2) by (intro mult_right_mono) (simp_all add: fp_ok_def)
    finally show ?thesis .
  qed
  have eq: "fval a < fval b \<longleftrightarrow> fmant a < fmant b" if "fexp a = fexp b" for a b
    using that by (simp add: fval_def)
  consider "fexp x < fexp y" | "fexp y < fexp x" | "fexp x = fexp y" by linarith
  then show ?thesis
    using lt [of x y] lt [of y x] eq [of x y] assms by cases (auto simp: fp_less_def)
qed

lemma fval_max: "fp_ok a \<Longrightarrow> fp_ok b \<Longrightarrow> fval (fp_max a b) = max (fval a) (fval b)"
  by (auto simp: fp_max_def fp_less_iff)

text \<open>The rounding is not symmetric: a negative operand whose rescaled value is an integer is converted to the next
  lower one, while the positive operand of the same size is converted exactly.\<close>

lemma negative_operand_biased:
  assumes "2 ^ 15 dvd 128 * x * m"
  shows "real_value x m 0 = 128 * x * m div 2 ^ 15 - of_bool (x * m < 0)"
proof -
  obtain k where k: "128 * x * m = 2 ^ 15 * k" using assms by (rule dvdE)
  have "(2 ^ 15 * k + 2 ^ 14) div 2 ^ 15 = k" "(2 ^ 15 * k + (1 - 2 ^ 14)) div 2 ^ 15 = k - 1" by simp_all
  then show ?thesis by (simp add: real_value_def k)
qed

section \<open>Property\<close>

text \<open>C31: for tensors with positive floating-point scales and 8-bit zero points the constructor of an addition succeeds, and
  every 8-bit operand is then converted without undefined behaviour to a value of at most 15 bits that differs from the exact
  value - the operand minus its zero point, times \<open>2\<^sup>7\<close>, times its scale over twice the larger scale - by less than two
  units below and one above.\<close>

theorem operands_convert_accurately:
  assumes "quantised_tensor in1" "quantised_tensor in2" "quantised_tensor out"
  shows "\<exists>op. new_VTAALUOp in1 in2 out = Inr op \<and>
    (\<forall>(t, q) \<in> {(in1, input1quant op), (in2, input2quant op)}. \<forall>val. \<exists>v.
       simulateRealValue val q = Inr (word_of_int v) \<and> \<bar>v\<bar> < 2 ^ 14 \<and>
       (let r = 2 ^ 7 * (sint val - sint (zero_point t)) * (fval (scale t) / (2 * max (fval (scale in1)) (fval (scale in2)))) in
        -2 < v - r \<and> v - r < 1))"
proof -
  let ?c = "fp_max (scale in1) (scale in2)"
  have f: "fp_ok (scale in1)" "fp_ok (scale in2)" using assms(1,2) by (simp_all add: quantised_tensor_def float_scale_def)
  note c = fp_max_facts(1) [OF f] and mx = fval_max [OF f]
  obtain op where op: "new_VTAALUOp in1 in2 out = Inr op" "operand_quant in1 ?c (input1quant op)" "operand_quant in2 ?c (input2quant op)"
    using new_VTAALUOp_ok [OF assms] by blast
  have "\<exists>v. simulateRealValue val q = Inr (word_of_int v) \<and> \<bar>v\<bar> < 2 ^ 14 \<and>
      (let r = 2 ^ 7 * (sint val - sint (zero_point t)) * (fval (scale t) / (2 * max (fval (scale in1)) (fval (scale in2)))) in
       -2 < v - r \<and> v - r < 1)" if "operand_quant t ?c q" "quantised_tensor t" for t q val
    using operand_converts [OF that c, of val] unfolding mx by fastforce
  with op assms(1,2) show ?thesis by blast
qed

definition ex_params :: "nat \<Rightarrow> int \<Rightarrow> u32 \<Rightarrow> tensor_params" where
  "ex_params m e z = \<lparr>scale = \<lparr>fmant = m * 2 ^ 29, fexp = e\<rparr>, zero_point = z\<rparr>"

theorem operands_convert_accurately_witness:
  "\<exists>op v. new_VTAALUOp (ex_params 0xC00000 0 3) (ex_params 0x900000 (-2) (- 5)) (ex_params 0x800000 0 0) = Inr op \<and>
     simulateRealValue 0x64 (input1quant op) = Inr (word_of_int v) \<and> \<bar>v\<bar> < 2 ^ 14"
proof -
  have q: "quantised_tensor (ex_params 0xC00000 0 3)" "quantised_tensor (ex_params 0x900000 (-2) (- 5))" "quantised_tensor (ex_params 0x800000 0 0)"
    by (simp_all add: quantised_tensor_def ex_params_def float_scale_def fp_ok_def)
  show ?thesis using operands_convert_accurately [OF q] by fastforce
qed

end
