(* ===== verification/Vta_Spec.thy ===== *)
theory Vta_Spec
  imports Prelude
begin

text \<open>
  The accelerator's configuration and instruction set: \<open>vta_params.hpp\<close> (the chosen logarithms;
  the register map is in \<open>Vta_Hw\<close>), \<open>hw_spec_const.h\<close> (derived sizes, opcodes, memory ids) and \<open>hw_spec.h\<close> (the
  instruction and micro-op structs). A struct of C bit-fields is a \<open>record\<close> whose fields are words of
  the declared width, so an assignment to a field truncates as the C++ does; \<open>VTAInsn\<close>, a union in
  the code, is a datatype tagged by the opcode. Encodings to the two 64-bit storage units and to
  bytes follow the bit-field allocation of the ABI, and the codec locale derives from a fixed-size
  encoding that an array of encoded elements can be read back element by element.
\<close>

section \<open>Configuration (vta\_params.hpp)\<close>
definition VTA_COHERENT_ACCESSES :: bool where "VTA_COHERENT_ACCESSES = False"
definition VTA_LOG_ACC_BUFF_SIZE :: nat where [spec_consts]: "VTA_LOG_ACC_BUFF_SIZE = 17"
definition VTA_LOG_ACC_WIDTH :: nat where [spec_consts]: "VTA_LOG_ACC_WIDTH = 5"
definition VTA_LOG_BATCH :: nat where [spec_consts]: "VTA_LOG_BATCH = 0"
definition VTA_LOG_BLOCK :: nat where [spec_consts]: "VTA_LOG_BLOCK = 4"
definition VTA_LOG_BLOCK_IN :: nat where [spec_consts]: "VTA_LOG_BLOCK_IN = 4"
definition VTA_LOG_BLOCK_OUT :: nat where [spec_consts]: "VTA_LOG_BLOCK_OUT = 4"
definition VTA_LOG_BUS_WIDTH :: nat where [spec_consts]: "VTA_LOG_BUS_WIDTH = 6"
definition VTA_LOG_INP_BUFF_SIZE :: nat where [spec_consts]: "VTA_LOG_INP_BUFF_SIZE = 15"
definition VTA_LOG_INP_WIDTH :: nat where [spec_consts]: "VTA_LOG_INP_WIDTH = 3"
definition VTA_LOG_OUT_BUFF_SIZE :: nat where [spec_consts]: "VTA_LOG_OUT_BUFF_SIZE = 15"
definition VTA_LOG_OUT_WIDTH :: nat where [spec_consts]: "VTA_LOG_OUT_WIDTH = 3"
definition VTA_LOG_UOP_BUFF_SIZE :: nat where [spec_consts]: "VTA_LOG_UOP_BUFF_SIZE = 15"
definition VTA_LOG_WGT_BUFF_SIZE :: nat where [spec_consts]: "VTA_LOG_WGT_BUFF_SIZE = 18"
definition VTA_LOG_WGT_WIDTH :: nat where [spec_consts]: "VTA_LOG_WGT_WIDTH = 3"

section \<open>Derived sizes and encodings (hw\_spec\_const.h)\<close>
definition VTA_LOG_INS_WIDTH :: nat where [spec_consts]: "VTA_LOG_INS_WIDTH = 7"
definition VTA_INS_WIDTH :: nat where [spec_consts]: "VTA_INS_WIDTH = 2 ^ VTA_LOG_INS_WIDTH"
definition VTA_LOG_UOP_WIDTH :: nat where [spec_consts]: "VTA_LOG_UOP_WIDTH = 5"
definition VTA_UOP_WIDTH :: nat where [spec_consts]: "VTA_UOP_WIDTH = 2 ^ VTA_LOG_UOP_WIDTH"
definition VTA_WGT_WIDTH :: nat where [spec_consts]: "VTA_WGT_WIDTH = 2 ^ VTA_LOG_WGT_WIDTH"
definition VTA_INP_WIDTH :: nat where [spec_consts]: "VTA_INP_WIDTH = 2 ^ VTA_LOG_INP_WIDTH"
definition VTA_OUT_WIDTH :: nat where [spec_consts]: "VTA_OUT_WIDTH = 2 ^ VTA_LOG_OUT_WIDTH"
definition VTA_ACC_WIDTH :: nat where [spec_consts]: "VTA_ACC_WIDTH = 2 ^ VTA_LOG_ACC_WIDTH"
definition VTA_BATCH :: nat where [spec_consts]: "VTA_BATCH = 2 ^ VTA_LOG_BATCH"
definition VTA_BLOCK_IN :: nat where [spec_consts]: "VTA_BLOCK_IN = 2 ^ VTA_LOG_BLOCK_IN"
definition VTA_BLOCK_OUT :: nat where [spec_consts]: "VTA_BLOCK_OUT = 2 ^ VTA_LOG_BLOCK_OUT"
definition VTA_UOP_BUFF_SIZE :: nat where [spec_consts]: "VTA_UOP_BUFF_SIZE = 2 ^ VTA_LOG_UOP_BUFF_SIZE"
definition VTA_WGT_BUFF_SIZE :: nat where [spec_consts]: "VTA_WGT_BUFF_SIZE = 2 ^ VTA_LOG_WGT_BUFF_SIZE"
definition VTA_INP_BUFF_SIZE :: nat where [spec_consts]: "VTA_INP_BUFF_SIZE = 2 ^ VTA_LOG_INP_BUFF_SIZE"
definition VTA_ACC_BUFF_SIZE :: nat where [spec_consts]: "VTA_ACC_BUFF_SIZE = 2 ^ VTA_LOG_ACC_BUFF_SIZE"
definition VTA_INP_MATRIX_WIDTH :: nat where [spec_consts]: "VTA_INP_MATRIX_WIDTH = VTA_INP_WIDTH * VTA_BATCH * VTA_BLOCK_IN"
definition VTA_WGT_MATRIX_WIDTH :: nat where [spec_consts]: "VTA_WGT_MATRIX_WIDTH = VTA_WGT_WIDTH * VTA_BLOCK_OUT * VTA_BLOCK_IN"
definition VTA_ACC_MATRIX_WIDTH :: nat where [spec_consts]: "VTA_ACC_MATRIX_WIDTH = VTA_ACC_WIDTH * VTA_BATCH * VTA_BLOCK_OUT"
definition VTA_OUT_MATRIX_WIDTH :: nat where [spec_consts]: "VTA_OUT_MATRIX_WIDTH = VTA_OUT_WIDTH * VTA_BATCH * VTA_BLOCK_OUT"
definition VTA_INS_ELEM_BYTES :: nat where [spec_consts]: "VTA_INS_ELEM_BYTES = VTA_INS_WIDTH div 8"
definition VTA_UOP_ELEM_BYTES :: nat where [spec_consts]: "VTA_UOP_ELEM_BYTES = VTA_UOP_WIDTH div 8"
definition VTA_INP_ELEM_BYTES :: nat where [spec_consts]: "VTA_INP_ELEM_BYTES = VTA_INP_MATRIX_WIDTH div 8"
definition VTA_WGT_ELEM_BYTES :: nat where [spec_consts]: "VTA_WGT_ELEM_BYTES = VTA_WGT_MATRIX_WIDTH div 8"
definition VTA_ACC_ELEM_BYTES :: nat where [spec_consts]: "VTA_ACC_ELEM_BYTES = VTA_ACC_MATRIX_WIDTH div 8"
definition VTA_OUT_ELEM_BYTES :: nat where [spec_consts]: "VTA_OUT_ELEM_BYTES = VTA_OUT_MATRIX_WIDTH div 8"
definition VTA_UOP_BUFF_DEPTH :: nat where [spec_consts]: "VTA_UOP_BUFF_DEPTH = VTA_UOP_BUFF_SIZE div VTA_UOP_ELEM_BYTES"
definition VTA_LOG_UOP_BUFF_DEPTH :: nat where [spec_consts]: "VTA_LOG_UOP_BUFF_DEPTH = VTA_LOG_UOP_BUFF_SIZE - VTA_LOG_UOP_WIDTH + 3"
definition VTA_WGT_BUFF_DEPTH :: nat where [spec_consts]: "VTA_WGT_BUFF_DEPTH = VTA_WGT_BUFF_SIZE div VTA_WGT_ELEM_BYTES"
definition VTA_LOG_WGT_BUFF_DEPTH :: nat where [spec_consts]:
  "VTA_LOG_WGT_BUFF_DEPTH =
     VTA_LOG_WGT_BUFF_SIZE - VTA_LOG_BLOCK_OUT - VTA_LOG_BLOCK_IN - VTA_LOG_WGT_WIDTH + 3"
definition VTA_INP_BUFF_DEPTH :: nat where [spec_consts]: "VTA_INP_BUFF_DEPTH = VTA_INP_BUFF_SIZE div VTA_INP_ELEM_BYTES"
definition VTA_LOG_INP_BUFF_DEPTH :: nat where [spec_consts]:
  "VTA_LOG_INP_BUFF_DEPTH =
     VTA_LOG_INP_BUFF_SIZE - VTA_LOG_BATCH - VTA_LOG_BLOCK_IN - VTA_LOG_INP_WIDTH + 3"
definition VTA_ACC_BUFF_DEPTH :: nat where [spec_consts]: "VTA_ACC_BUFF_DEPTH = VTA_ACC_BUFF_SIZE div VTA_ACC_ELEM_BYTES"
definition VTA_LOG_ACC_BUFF_DEPTH :: nat where [spec_consts]:
  "VTA_LOG_ACC_BUFF_DEPTH =
     VTA_LOG_ACC_BUFF_SIZE - VTA_LOG_BATCH - VTA_LOG_BLOCK_OUT - VTA_LOG_ACC_WIDTH + 3"
definition VTA_OPCODE_BIT_WIDTH :: nat where [spec_consts]: "VTA_OPCODE_BIT_WIDTH = 3"
definition VTA_ALU_OPCODE_BIT_WIDTH :: nat where [spec_consts]: "VTA_ALU_OPCODE_BIT_WIDTH = 3"
definition VTA_MEMOP_ID_BIT_WIDTH :: nat where [spec_consts]: "VTA_MEMOP_ID_BIT_WIDTH = 3"
definition VTA_MEMOP_SRAM_ADDR_BIT_WIDTH :: nat where [spec_consts]: "VTA_MEMOP_SRAM_ADDR_BIT_WIDTH = 16"
definition VTA_MEMOP_DRAM_ADDR_BIT_WIDTH :: nat where [spec_consts]: "VTA_MEMOP_DRAM_ADDR_BIT_WIDTH = 32"
definition VTA_MEMOP_SIZE_BIT_WIDTH :: nat where [spec_consts]: "VTA_MEMOP_SIZE_BIT_WIDTH = 16"
definition VTA_MEMOP_STRIDE_BIT_WIDTH :: nat where [spec_consts]: "VTA_MEMOP_STRIDE_BIT_WIDTH = 16"
definition VTA_MEMOP_PAD_BIT_WIDTH :: nat where [spec_consts]: "VTA_MEMOP_PAD_BIT_WIDTH = 4"
definition VTA_LOOP_ITER_WIDTH :: nat where [spec_consts]: "VTA_LOOP_ITER_WIDTH = 14"
definition VTA_ALUOP_IMM_BIT_WIDTH :: nat where [spec_consts]: "VTA_ALUOP_IMM_BIT_WIDTH = 16"

text \<open>Opcodes, ALU opcodes and memory ids are values of their fields.\<close>
definition VTA_OPCODE_LOAD :: "3 word" where [spec_consts]: "VTA_OPCODE_LOAD = 0"
definition VTA_OPCODE_STORE :: "3 word" where [spec_consts]: "VTA_OPCODE_STORE = 1"
definition VTA_OPCODE_GEMM :: "3 word" where [spec_consts]: "VTA_OPCODE_GEMM = 2"
definition VTA_OPCODE_FINISH :: "3 word" where [spec_consts]: "VTA_OPCODE_FINISH = 3"
definition VTA_OPCODE_ALU :: "3 word" where [spec_consts]: "VTA_OPCODE_ALU = 4"
definition VTA_ALU_OPCODE_MIN :: "3 word" where [spec_consts]: "VTA_ALU_OPCODE_MIN = 0"
definition VTA_ALU_OPCODE_MAX :: "3 word" where [spec_consts]: "VTA_ALU_OPCODE_MAX = 1"
definition VTA_ALU_OPCODE_ADD :: "3 word" where [spec_consts]: "VTA_ALU_OPCODE_ADD = 2"
definition VTA_ALU_OPCODE_SHR :: "3 word" where [spec_consts]: "VTA_ALU_OPCODE_SHR = 3"
definition VTA_ALU_OPCODE_MUL :: "3 word" where [spec_consts]: "VTA_ALU_OPCODE_MUL = 4"
definition VTA_MEM_ID_UOP :: "3 word" where [spec_consts]: "VTA_MEM_ID_UOP = 0"
definition VTA_MEM_ID_WGT :: "3 word" where [spec_consts]: "VTA_MEM_ID_WGT = 1"
definition VTA_MEM_ID_INP :: "3 word" where [spec_consts]: "VTA_MEM_ID_INP = 2"
definition VTA_MEM_ID_ACC :: "3 word" where [spec_consts]: "VTA_MEM_ID_ACC = 3"
definition VTA_MEM_ID_OUT :: "3 word" where [spec_consts]: "VTA_MEM_ID_OUT = 4"
definition VTA_MEM_ID_ACC_8BIT :: "3 word" where [spec_consts]: "VTA_MEM_ID_ACC_8BIT = 5"

section \<open>Instructions (hw\_spec.h)\<close>

record VTAGenericInsn =
  opcode :: "3 word"
  pop_prev_dep :: bool
  pop_next_dep :: bool
  push_prev_dep :: bool
  push_next_dep :: bool

record VTAMemInsn = VTAGenericInsn +
  memory_type :: "3 word"
  sram_base :: "16 word"
  dram_base :: "32 word"
  y_size :: "16 word"
  x_size :: "16 word"
  x_stride :: "16 word"
  y_pad_0 :: "4 word"
  y_pad_1 :: "4 word"
  x_pad_0 :: "4 word"
  x_pad_1 :: "4 word"

record VTAGemInsn = VTAGenericInsn +
  reset_reg :: bool
  uop_bgn :: "13 word"
  uop_end :: "14 word"
  iter_out :: "14 word"
  iter_in :: "14 word"
  dst_factor_out :: "11 word"
  dst_factor_in :: "11 word"
  src_factor_out :: "11 word"
  src_factor_in :: "11 word"
  wgt_factor_out :: "10 word"
  wgt_factor_in :: "10 word"

record VTAAluInsn = VTAGenericInsn +
  reset_reg_a :: bool
  uop_bgn_a :: "13 word"
  uop_end_a :: "14 word"
  iter_out_a :: "14 word"
  iter_in_a :: "14 word"
  dst_factor_out_a :: "11 word"
  dst_factor_in_a :: "11 word"
  src_factor_out_a :: "11 word"
  src_factor_in_a :: "11 word"
  alu_opcode :: "3 word"
  use_imm :: bool
  imm :: "16 word"

datatype VTAInsn =
    MemInsn VTAMemInsn
  | GemInsn VTAGemInsn
  | AluInsn VTAAluInsn

record VTAUop =
  dst_idx :: "11 word"
  src_idx :: "11 word"
  wgt_idx :: "10 word"

section \<open>Storage units\<close>

definition hdr_fields :: "'a VTAGenericInsn_scheme \<Rightarrow> (nat \<times> nat) list" where
  "hdr_fields i =
    [(VTA_OPCODE_BIT_WIDTH, unat (opcode i)), (1, of_bool (pop_prev_dep i)),
     (1, of_bool (pop_next_dep i)), (1, of_bool (push_prev_dep i)), (1, of_bool (push_next_dep i))]"

definition mem_units :: "VTAMemInsn \<Rightarrow> u64 \<times> u64" where
  "mem_units i =
    (word_of_nat (pack (hdr_fields i @
       [(VTA_MEMOP_ID_BIT_WIDTH, unat (memory_type i)),
        (VTA_MEMOP_SRAM_ADDR_BIT_WIDTH, unat (sram_base i)),
        (VTA_MEMOP_DRAM_ADDR_BIT_WIDTH, unat (dram_base i))])),
     word_of_nat (pack
       [(VTA_MEMOP_SIZE_BIT_WIDTH, unat (y_size i)), (VTA_MEMOP_SIZE_BIT_WIDTH, unat (x_size i)),
        (VTA_MEMOP_STRIDE_BIT_WIDTH, unat (x_stride i)),
        (VTA_MEMOP_PAD_BIT_WIDTH, unat (y_pad_0 i)), (VTA_MEMOP_PAD_BIT_WIDTH, unat (y_pad_1 i)),
        (VTA_MEMOP_PAD_BIT_WIDTH, unat (x_pad_0 i)), (VTA_MEMOP_PAD_BIT_WIDTH, unat (x_pad_1 i))]))"

definition gem_units :: "VTAGemInsn \<Rightarrow> u64 \<times> u64" where
  "gem_units i =
    (word_of_nat (pack (hdr_fields i @
       [(1, of_bool (reset_reg i)), (VTA_LOG_UOP_BUFF_DEPTH, unat (uop_bgn i)),
        (VTA_LOG_UOP_BUFF_DEPTH + 1, unat (uop_end i)),
        (VTA_LOOP_ITER_WIDTH, unat (iter_out i)), (VTA_LOOP_ITER_WIDTH, unat (iter_in i))])),
     word_of_nat (pack
       [(VTA_LOG_ACC_BUFF_DEPTH, unat (dst_factor_out i)),
        (VTA_LOG_ACC_BUFF_DEPTH, unat (dst_factor_in i)),
        (VTA_LOG_INP_BUFF_DEPTH, unat (src_factor_out i)),
        (VTA_LOG_INP_BUFF_DEPTH, unat (src_factor_in i)),
        (VTA_LOG_WGT_BUFF_DEPTH, unat (wgt_factor_out i)),
        (VTA_LOG_WGT_BUFF_DEPTH, unat (wgt_factor_in i))]))"

definition alu_units :: "VTAAluInsn \<Rightarrow> u64 \<times> u64" where
  "alu_units i =
    (word_of_nat (pack (hdr_fields i @
       [(1, of_bool (reset_reg_a i)), (VTA_LOG_UOP_BUFF_DEPTH, unat (uop_bgn_a i)),
        (VTA_LOG_UOP_BUFF_DEPTH + 1, unat (uop_end_a i)),
        (VTA_LOOP_ITER_WIDTH, unat (iter_out_a i)), (VTA_LOOP_ITER_WIDTH, unat (iter_in_a i))])),
     word_of_nat (pack
       [(VTA_LOG_ACC_BUFF_DEPTH, unat (dst_factor_out_a i)),
        (VTA_LOG_ACC_BUFF_DEPTH, unat (dst_factor_in_a i)),
        (VTA_LOG_ACC_BUFF_DEPTH, unat (src_factor_out_a i)),
        (VTA_LOG_ACC_BUFF_DEPTH, unat (src_factor_in_a i)),
        (VTA_ALU_OPCODE_BIT_WIDTH, unat (alu_opcode i)), (1, of_bool (use_imm i)),
        (VTA_ALUOP_IMM_BIT_WIDTH, unat (imm i))]))"

definition uop_unit :: "VTAUop \<Rightarrow> u32" where
  "uop_unit u = word_of_nat (pack
     [(VTA_LOG_ACC_BUFF_DEPTH, unat (dst_idx u)),
      (max VTA_LOG_ACC_BUFF_DEPTH VTA_LOG_INP_BUFF_DEPTH, unat (src_idx u)),
      (VTA_LOG_WGT_BUFF_DEPTH, unat (wgt_idx u))])"

text \<open>Reading a field of the union: \<open>len\<close> bits of a unit from bit \<open>off\<close>.\<close>

definition field :: "nat \<Rightarrow> nat \<Rightarrow> u64 \<Rightarrow> 'a::len word" where
  "field off len u = word_of_nat (unat u div 2 ^ off mod 2 ^ len)"

definition flag :: "nat \<Rightarrow> u64 \<Rightarrow> bool" where
  "flag off u = odd (unat u div 2 ^ off)"

definition units_mem :: "u64 \<times> u64 \<Rightarrow> VTAMemInsn" where
  "units_mem p = (let lo = fst p; hi = snd p in
     \<lparr>opcode = field 0 3 lo, pop_prev_dep = flag 3 lo, pop_next_dep = flag 4 lo,
      push_prev_dep = flag 5 lo, push_next_dep = flag 6 lo,
      memory_type = field 7 3 lo, sram_base = field 10 16 lo, dram_base = field 26 32 lo,
      y_size = field 0 16 hi, x_size = field 16 16 hi, x_stride = field 32 16 hi,
      y_pad_0 = field 48 4 hi, y_pad_1 = field 52 4 hi,
      x_pad_0 = field 56 4 hi, x_pad_1 = field 60 4 hi\<rparr>)"

definition units_gem :: "u64 \<times> u64 \<Rightarrow> VTAGemInsn" where
  "units_gem p = (let lo = fst p; hi = snd p in
     \<lparr>opcode = field 0 3 lo, pop_prev_dep = flag 3 lo, pop_next_dep = flag 4 lo,
      push_prev_dep = flag 5 lo, push_next_dep = flag 6 lo,
      reset_reg = flag 7 lo, uop_bgn = field 8 13 lo, uop_end = field 21 14 lo,
      iter_out = field 35 14 lo, iter_in = field 49 14 lo,
      dst_factor_out = field 0 11 hi, dst_factor_in = field 11 11 hi,
      src_factor_out = field 22 11 hi, src_factor_in = field 33 11 hi,
      wgt_factor_out = field 44 10 hi, wgt_factor_in = field 54 10 hi\<rparr>)"

definition units_alu :: "u64 \<times> u64 \<Rightarrow> VTAAluInsn" where
  "units_alu p = (let lo = fst p; hi = snd p in
     \<lparr>opcode = field 0 3 lo, pop_prev_dep = flag 3 lo, pop_next_dep = flag 4 lo,
      push_prev_dep = flag 5 lo, push_next_dep = flag 6 lo,
      reset_reg_a = flag 7 lo, uop_bgn_a = field 8 13 lo, uop_end_a = field 21 14 lo,
      iter_out_a = field 35 14 lo, iter_in_a = field 49 14 lo,
      dst_factor_out_a = field 0 11 hi, dst_factor_in_a = field 11 11 hi,
      src_factor_out_a = field 22 11 hi, src_factor_in_a = field 33 11 hi,
      alu_opcode = field 44 3 hi, use_imm = flag 47 hi, imm = field 48 16 hi\<rparr>)"

definition unit_uop :: "u32 \<Rightarrow> VTAUop" where
  "unit_uop w = \<lparr>dst_idx = word_of_nat (unat w mod 2 ^ 11),
     src_idx = word_of_nat (unat w div 2 ^ 11 mod 2 ^ 11),
     wgt_idx = word_of_nat (unat w div 2 ^ 22 mod 2 ^ 10)\<rparr>"

text \<open>The union, and the opcode it is read by (the switch of \<open>Device::Run\<close> and the
  \<open>VTA_OPCODE_*\<close> tests of the runtime).\<close>

fun insn_units :: "VTAInsn \<Rightarrow> u64 \<times> u64" where
  "insn_units (MemInsn i) = mem_units i"
| "insn_units (GemInsn i) = gem_units i"
| "insn_units (AluInsn i) = alu_units i"

definition units_insn :: "u64 \<times> u64 \<Rightarrow> VTAInsn option" where
  "units_insn p = (let c = (field 0 3 (fst p) :: 3 word) in
     if c = VTA_OPCODE_LOAD \<or> c = VTA_OPCODE_STORE then Some (MemInsn (units_mem p))
     else if c = VTA_OPCODE_GEMM \<or> c = VTA_OPCODE_FINISH then Some (GemInsn (units_gem p))
     else if c = VTA_OPCODE_ALU then Some (AluInsn (units_alu p))
     else None)"

fun insn_opcode :: "VTAInsn \<Rightarrow> 3 word" where
  "insn_opcode (MemInsn i) = opcode i"
| "insn_opcode (GemInsn i) = opcode i"
| "insn_opcode (AluInsn i) = opcode i"

fun insn_deps :: "VTAInsn \<Rightarrow> VTAGenericInsn" where
  "insn_deps (MemInsn i) = VTAGenericInsn.truncate i"
| "insn_deps (GemInsn i) = VTAGenericInsn.truncate i"
| "insn_deps (AluInsn i) = VTAGenericInsn.truncate i"

text \<open>\<open>reinterpret_cast<const VTAMemInsn*>(insn)\<close> and its siblings.\<close>

fun as_mem :: "VTAInsn \<Rightarrow> VTAMemInsn" where
  "as_mem (MemInsn i) = i"
| "as_mem i = units_mem (insn_units i)"

fun as_gem :: "VTAInsn \<Rightarrow> VTAGemInsn" where
  "as_gem (GemInsn i) = i"
| "as_gem i = units_gem (insn_units i)"

fun as_alu :: "VTAInsn \<Rightarrow> VTAAluInsn" where
  "as_alu (AluInsn i) = i"
| "as_alu i = units_alu (insn_units i)"

fun tag_ok :: "VTAInsn \<Rightarrow> bool" where
  "tag_ok (MemInsn i) = (opcode i = VTA_OPCODE_LOAD \<or> opcode i = VTA_OPCODE_STORE)"
| "tag_ok (GemInsn i) = (opcode i = VTA_OPCODE_GEMM \<or> opcode i = VTA_OPCODE_FINISH)"
| "tag_ok (AluInsn i) = (opcode i = VTA_OPCODE_ALU)"

definition insn_bytes :: "VTAInsn \<Rightarrow> bytes" where
  "insn_bytes i = le_bytes 8 (unat (fst (insn_units i))) @ le_bytes 8 (unat (snd (insn_units i)))"

definition bytes_insn :: "bytes \<Rightarrow> VTAInsn option" where
  "bytes_insn bs = units_insn (word_of_nat (le_value (take 8 bs)), word_of_nat (le_value (drop 8 bs)))"

definition uop_bytes :: "VTAUop \<Rightarrow> bytes" where
  "uop_bytes u = le_bytes 4 (unat (uop_unit u))"

definition bytes_uop :: "bytes \<Rightarrow> VTAUop option" where
  "bytes_uop bs = Some (unit_uop (word_of_nat (le_value bs)))"

section \<open>Facts on the layout\<close>

lemma unit_alloc_values:
  "alloc_units 64 [] [3, 1, 1, 1, 1, 3, 16, 32, 16, 16, 16, 4, 4, 4, 4] =
     [[3, 1, 1, 1, 1, 3, 16, 32], [16, 16, 16, 4, 4, 4, 4]]"
  "alloc_units 64 [] [3, 1, 1, 1, 1, 1, 13, 14, 14, 14, 11, 11, 11, 11, 10, 10] =
     [[3, 1, 1, 1, 1, 1, 13, 14, 14, 14], [11, 11, 11, 11, 10, 10]]"
  "alloc_units 64 [] [3, 1, 1, 1, 1, 1, 13, 14, 14, 14, 11, 11, 11, 11, 3, 1, 16] =
     [[3, 1, 1, 1, 1, 1, 13, 14, 14, 14], [11, 11, 11, 11, 3, 1, 16]]"
  by simp_all

lemma pack_u64:
  "sum_list (map fst fs) \<le> 64 \<Longrightarrow> unat (word_of_nat (pack fs) :: u64) = pack fs"
proof -
  assume "sum_list (map fst fs) \<le> 64"
  then have "pack fs < 2 ^ 64"
    using pack_bound [of fs] power_increasing [of "sum_list (map fst fs)" 64 "2::nat"] by simp
  then show ?thesis by (simp add: unat_of_nat take_bit_nat_eq_self)
qed

text \<open>Field \<open>k\<close> of a packed unit is read back at the sum of the widths before it.\<close>

lemma pack_nth:
  "k < length fs \<Longrightarrow>
   pack fs div 2 ^ sum_list (map fst (take k fs)) mod 2 ^ fst (fs ! k) = snd (fs ! k) mod 2 ^ fst (fs ! k)"
proof (induction fs arbitrary: k)
  case (Cons f fs)
  show ?case
  proof (cases k)
    case (Suc j)
    have "(snd f mod 2 ^ fst f + 2 ^ fst f * pack fs) div 2 ^ (fst f + sum_list (map fst (take j fs)))
        = pack fs div 2 ^ sum_list (map fst (take j fs))"
      by (simp add: power_add div_mult2_eq)
    with Suc Cons show ?thesis by simp
  qed simp
qed simp

lemma field_pack:
  assumes "sum_list (map fst fs) \<le> 64" "k < length fs" "off = sum_list (map fst (take k fs))"
    "fs ! k = (LENGTH('a), unat (w :: 'a::len word))" "n = LENGTH('a)"
  shows "field off n (word_of_nat (pack fs)) = w"
  using pack_nth [OF assms(2)] assms by (simp add: field_def pack_u64)

lemma flag_pack:
  assumes "sum_list (map fst fs) \<le> 64" "k < length fs" "off = sum_list (map fst (take k fs))"
    "fs ! k = (1, of_bool b)"
  shows "flag off (word_of_nat (pack fs)) = b"
  using pack_nth [OF assms(2)] assms by (auto simp: flag_def pack_u64 odd_iff_mod_2_eq_one)

lemmas unit_defs = units_mem_def mem_units_def units_gem_def gem_units_def units_alu_def
  alu_units_def hdr_fields_def Let_def spec_consts

lemmas packed_fields =
  field_pack [where k = 0] field_pack [where k = 1] field_pack [where k = 2] field_pack [where k = 3]
  field_pack [where k = 4] field_pack [where k = 5] field_pack [where k = 6] field_pack [where k = 7]
  field_pack [where k = 8] field_pack [where k = 9]
  flag_pack [where k = 1] flag_pack [where k = 2] flag_pack [where k = 3] flag_pack [where k = 4]
  flag_pack [where k = 5]

lemma units_mem_units [simp]: "units_mem (mem_units i) = i"
  by (rule VTAMemInsn.equality) (simp_all add: unit_defs packed_fields del: pack.simps)

lemma units_gem_units [simp]: "units_gem (gem_units i) = i"
  by (rule VTAGemInsn.equality) (simp_all add: unit_defs packed_fields del: pack.simps)

lemma units_alu_units [simp]: "units_alu (alu_units i) = i"
  by (rule VTAAluInsn.equality) (simp_all add: unit_defs packed_fields del: pack.simps)

lemma opcode_of_units [simp]: "field 0 3 (fst (insn_units i)) = insn_opcode i"
  by (cases i) (simp_all add: unit_defs packed_fields del: pack.simps)

lemma unit_uop_unit [simp]: "unit_uop (uop_unit u) = u"
proof -
  let ?fs = "[(11, unat (dst_idx u)), (11, unat (src_idx u)), (10, unat (wgt_idx u))]"
  have "pack ?fs < 2 ^ 32" using pack_bound [of ?fs] by simp
  then have w: "unat (uop_unit u) = pack ?fs"
    by (simp add: uop_unit_def spec_consts unat_of_nat take_bit_nat_eq_self del: pack.simps)
  show ?thesis
    using pack_nth [of 0 ?fs] pack_nth [of 1 ?fs] pack_nth [of 2 ?fs]
    by (intro VTAUop.equality) (simp_all add: unit_uop_def w del: pack.simps)
qed

text \<open>Every opcode is decoded by the struct it was written with.\<close>

lemma units_insn_units: "tag_ok i \<Longrightarrow> units_insn (insn_units i) = Some i"
  using opcode_of_units [of i] by (cases i) (auto simp: units_insn_def spec_consts Let_def)

lemma tag_ok_units_insn: "units_insn p = Some i \<Longrightarrow> tag_ok i"
  by (auto simp: units_insn_def units_mem_def units_gem_def units_alu_def Let_def split: if_splits)

section \<open>Arrays of encoded elements\<close>

text \<open>
  The codec interface, for what the runtime and the simulator share for the instruction and the micro-op buffers:
  elements of a fixed size, written one after the other and read back by index.
\<close>

interpretation insn_code: fixed_codec insn_bytes bytes_insn 16 tag_ok
proof
  fix i :: VTAInsn
  show "length (insn_bytes i) = 16" by (simp add: insn_bytes_def)
  assume "tag_ok i"
  then show "bytes_insn (insn_bytes i) = Some i"
    by (simp add: bytes_insn_def insn_bytes_def le_value_le_bytes units_insn_units)
qed

interpretation uop_code: fixed_codec uop_bytes bytes_uop 4 "\<lambda>_. True"
  by unfold_locales (simp_all add: uop_bytes_def bytes_uop_def le_value_le_bytes)

definition sample_load :: VTAInsn where
  "sample_load = MemInsn \<lparr>opcode = VTA_OPCODE_LOAD, pop_prev_dep = False, pop_next_dep = True,
     push_prev_dep = False, push_next_dep = True, memory_type = VTA_MEM_ID_INP, sram_base = 5,
     dram_base = 70000, y_size = 2, x_size = 3, x_stride = 7, y_pad_0 = 1, y_pad_1 = 0,
     x_pad_0 = 15, x_pad_1 = 2\<rparr>"

text \<open>C1: an array of instructions written to memory as the runtime stages it (16 bytes each, the
  bit-fields allocated from the least significant bit, two 64-bit units) is read back at every index
  as the instruction that was written, whatever surrounds the array, provided each one was written
  through the struct its opcode selects.\<close>

theorem insn_array_roundtrip:
  assumes "k < length is" "tag_ok (is ! k)"
  shows "bytes_insn (slice (length pre + VTA_INS_ELEM_BYTES * k) VTA_INS_ELEM_BYTES
           (pre @ concat (map insn_bytes is) @ post)) = Some (is ! k)"
  using insn_code.array_read [OF assms, of pre post] by (simp add: spec_consts)


theorem insn_array_roundtrip_witness:
  "bytes_insn (slice (length [7 :: u8] + VTA_INS_ELEM_BYTES * 1) VTA_INS_ELEM_BYTES
     ([7] @ concat (map insn_bytes [sample_load, sample_load]) @ [9])) = Some sample_load"
  using insn_array_roundtrip [of 1 "[sample_load, sample_load]" "[7]" "[9]"]
  by (simp add: sample_load_def)

end
