(* ===== verification/Vta_Tlpp.thy ===== *)
theory Vta_Tlpp
  imports Vta_Spec
begin

text \<open>
  The task-level pipeline of the simulator (\<open>sim_tlpp.cc\<close>, \<open>sim_tlpp.h\<close>): three cores with an
  instruction queue each, four dependency-token queues between them, and the event queue that wakes
  a core when a token is pushed for it. A token queue holds only the constant 1 and is represented
  by its length. The function that executes an instruction (\<open>run_fsim_function_\<close>) and the random
  first core are parameters. The do-while loop of \<open>TlppSynchronization\<close> may run forever, so it is a
  partial function: \<open>None\<close> is divergence. Shown: the scheduler misses no core that can run, the
  outcome of a round does not depend on the core it starts with, a stream that can be executed in
  program order is executed to the end, and when the loop returns.
\<close>

section \<open>State\<close>

datatype CORE_TYPE = COREGEMM | CORELOAD | CORESTORE | COREMAX

datatype dep_queue = l2g_q | s2g_q | g2l_q | g2s_q

record 'd tlpp =
  insnq_array :: "CORE_TYPE \<Rightarrow> VTAInsn list"
  dep_q :: "dep_queue \<Rightarrow> nat"
  dep_push_event :: "CORE_TYPE list"
  finished :: bool
  fsim :: 'd

definition tlpp_init :: "'d \<Rightarrow> 'd tlpp" where
  "tlpp_init d = \<lparr>insnq_array = (\<lambda>_. []), dep_q = (\<lambda>_. 0), dep_push_event = [], finished = False, fsim = d\<rparr>"

section \<open>Operations\<close>

definition Clear :: "'d tlpp \<Rightarrow> 'd tlpp" where
  "Clear s = s\<lparr>insnq_array := (\<lambda>_. []), finished := False\<rparr>"

definition GetCoreType :: "VTAInsn \<Rightarrow> CORE_TYPE" where
  "GetCoreType insn = (let code = insn_opcode insn; mt = memory_type (as_mem insn) in
     if code = VTA_OPCODE_GEMM \<or> code = VTA_OPCODE_ALU then COREGEMM
     else if code = VTA_OPCODE_LOAD then
       (if mt = VTA_MEM_ID_INP \<or> mt = VTA_MEM_ID_WGT then CORELOAD else COREGEMM)
     else if code = VTA_OPCODE_STORE then CORESTORE
     else COREGEMM)"

text \<open>\<open>if (on && q->size() == 0)\<close>, \<open>if (on) q->pop()\<close> and the push with its event, on a queue
  pointer that may be null.\<close>

definition q_waits :: "bool \<Rightarrow> dep_queue option \<Rightarrow> 'd tlpp \<Rightarrow> bool res" where
  "q_waits on q s =
    (if on then (case q of None \<Rightarrow> Inl NullDeref | Some k \<Rightarrow> Inr (dep_q s k = 0)) else Inr False)"

definition q_pop :: "bool \<Rightarrow> dep_queue option \<Rightarrow> 'd tlpp \<Rightarrow> 'd tlpp res" where
  "q_pop on q s =
    (if on then (case q of None \<Rightarrow> Inl NullDeref
                   | Some k \<Rightarrow> Inr (s\<lparr>dep_q := (dep_q s)(k := dep_q s k - 1)\<rparr>))
     else Inr s)"

definition q_push :: "bool \<Rightarrow> dep_queue option \<Rightarrow> CORE_TYPE \<Rightarrow> 'd tlpp \<Rightarrow> 'd tlpp res" where
  "q_push on q c s =
    (if on then (case q of None \<Rightarrow> Inl NullDeref
                   | Some k \<Rightarrow> Inr (s\<lparr>dep_q := (dep_q s)(k := dep_q s k + 1),
                                      dep_push_event := dep_push_event s @ [c]\<rparr>))
     else Inr s)"

definition DependencyProcess ::
  "bool \<Rightarrow> VTAGenericInsn \<Rightarrow> dep_queue option \<Rightarrow> dep_queue option \<Rightarrow> dep_queue option \<Rightarrow> dep_queue option
   \<Rightarrow> CORE_TYPE \<Rightarrow> CORE_TYPE \<Rightarrow> 'd tlpp \<Rightarrow> (bool \<times> 'd tlpp) res" where
  "DependencyProcess before_run d pop_prev_q pop_next_q push_prev_q push_next_q to_prev to_next s =
    (if before_run then
       res_bind (q_waits (pop_prev_dep d) pop_prev_q s) (\<lambda>w. if w then Inr (False, s) else
       res_bind (q_waits (pop_next_dep d) pop_next_q s) (\<lambda>w. if w then Inr (False, s) else
       res_bind (q_pop (pop_next_dep d) pop_next_q s) (\<lambda>s.
       res_bind (q_pop (pop_prev_dep d) pop_prev_q s) (\<lambda>s. Inr (True, s)))))
     else
       res_bind (q_push (push_prev_dep d) push_prev_q to_prev s) (\<lambda>s.
       res_bind (q_push (push_next_dep d) push_next_q to_next s) (\<lambda>s. Inr (True, s))))"

definition InsnDependencyCheck :: "VTAInsn \<Rightarrow> bool \<Rightarrow> 'd tlpp \<Rightarrow> (bool \<times> 'd tlpp) res" where
  "InsnDependencyCheck insn before_run s = (let d = insn_deps insn in
    (case GetCoreType insn of
       COREGEMM \<Rightarrow> DependencyProcess before_run d (Some l2g_q) (Some s2g_q) (Some g2l_q) (Some g2s_q)
                     CORELOAD CORESTORE s
     | CORELOAD \<Rightarrow> DependencyProcess before_run d None (Some g2l_q) None (Some l2g_q) COREMAX COREGEMM s
     | CORESTORE \<Rightarrow> DependencyProcess before_run d (Some g2s_q) None (Some s2g_q) None COREGEMM COREMAX s
     | COREMAX \<Rightarrow> Inl (Aborted ''assert(0)'')))"

definition TlppPushInsn :: "VTAInsn \<Rightarrow> 'd tlpp \<Rightarrow> 'd tlpp" where
  "TlppPushInsn insn s = (let c = GetCoreType insn in
     s\<lparr>insnq_array := (insnq_array s)(c := insnq_array s c @ [insn])\<rparr>)"

definition PickFrontInsn :: "CORE_TYPE \<Rightarrow> 'd tlpp \<Rightarrow> VTAInsn option res" where
  "PickFrontInsn c s =
    (if c = COREMAX then Inl OutOfBounds
     else case insnq_array s c of [] \<Rightarrow> Inr None | i # _ \<Rightarrow> Inr (Some i))"

definition ConsumeFrontInsn :: "CORE_TYPE \<Rightarrow> 'd tlpp \<Rightarrow> 'd tlpp" where
  "ConsumeFrontInsn c s = s\<lparr>insnq_array := (insnq_array s)(c := tl (insnq_array s c))\<rparr>"

text \<open>One turn of the loop of \<open>CoreRun\<close>; \<open>None\<close> leaves the loop.\<close>

definition core_turn :: "(VTAInsn \<Rightarrow> 'd \<Rightarrow> 'd res) \<Rightarrow> CORE_TYPE \<Rightarrow> 'd tlpp \<Rightarrow> 'd tlpp option res" where
  "core_turn run c s =
    res_bind (PickFrontInsn c s) (\<lambda>pick. case pick of None \<Rightarrow> Inr None | Some insn \<Rightarrow>
      res_bind (InsnDependencyCheck insn True s) (\<lambda>(ok, s1).
      if \<not> ok then Inr None else
      res_bind (run insn (fsim s1)) (\<lambda>d.
      res_bind (InsnDependencyCheck insn False (s1\<lparr>fsim := d\<rparr>)) (\<lambda>(_, s2).
      Inr (Some (ConsumeFrontInsn c (s2\<lparr>finished := (insn_opcode insn = VTA_OPCODE_FINISH)\<rparr>)))))))"

definition waiting :: "'d tlpp \<Rightarrow> nat" where
  "waiting s = length (insnq_array s COREGEMM) + length (insnq_array s CORELOAD)
     + length (insnq_array s CORESTORE)"

definition work :: "'d tlpp \<Rightarrow> nat" where
  "work s = 3 * waiting s + length (dep_push_event s)"

section \<open>The effect of a turn\<close>

text \<open>Which queues an instruction pops and pushes, whom it wakes, and that none of them is null.\<close>

definition pops :: "VTAInsn \<Rightarrow> dep_queue list" where
  "pops i = (let d = insn_deps i in case GetCoreType i of
      COREGEMM \<Rightarrow> (if pop_prev_dep d then [l2g_q] else []) @ (if pop_next_dep d then [s2g_q] else [])
    | CORELOAD \<Rightarrow> (if pop_next_dep d then [g2l_q] else [])
    | CORESTORE \<Rightarrow> (if pop_prev_dep d then [g2s_q] else [])
    | COREMAX \<Rightarrow> [])"

definition pushes :: "VTAInsn \<Rightarrow> dep_queue list" where
  "pushes i = (let d = insn_deps i in case GetCoreType i of
      COREGEMM \<Rightarrow> (if push_prev_dep d then [g2l_q] else []) @ (if push_next_dep d then [g2s_q] else [])
    | CORELOAD \<Rightarrow> (if push_next_dep d then [l2g_q] else [])
    | CORESTORE \<Rightarrow> (if push_prev_dep d then [s2g_q] else [])
    | COREMAX \<Rightarrow> [])"

fun consumer :: "dep_queue \<Rightarrow> CORE_TYPE" where
  "consumer l2g_q = COREGEMM"
| "consumer s2g_q = COREGEMM"
| "consumer g2l_q = CORELOAD"
| "consumer g2s_q = CORESTORE"

fun producer :: "dep_queue \<Rightarrow> CORE_TYPE" where
  "producer l2g_q = CORELOAD"
| "producer s2g_q = CORESTORE"
| "producer g2l_q = COREGEMM"
| "producer g2s_q = COREGEMM"

definition dep_ok :: "VTAInsn \<Rightarrow> bool" where
  "dep_ok i = (let d = insn_deps i in case GetCoreType i of
      CORELOAD \<Rightarrow> \<not> pop_prev_dep d \<and> \<not> push_prev_dep d
    | CORESTORE \<Rightarrow> \<not> pop_next_dep d \<and> \<not> push_next_dep d
    | _ \<Rightarrow> True)"

definition ready :: "VTAInsn \<Rightarrow> (dep_queue \<Rightarrow> nat) \<Rightarrow> bool" where
  "ready i t = list_all (\<lambda>q. 0 < t q) (pops i)"

definition tok_step :: "VTAInsn \<Rightarrow> (dep_queue \<Rightarrow> nat) \<Rightarrow> dep_queue \<Rightarrow> nat" where
  "tok_step i t q = t q - of_bool (q \<in> set (pops i)) + of_bool (q \<in> set (pushes i))"

lemma GetCoreType_not_max [simp]: "GetCoreType i \<noteq> COREMAX"
  by (simp add: GetCoreType_def Let_def)

lemma pops_consumer: "q \<in> set (pops i) \<Longrightarrow> consumer q = GetCoreType i"
  by (auto simp: pops_def Let_def split: CORE_TYPE.splits if_splits)

lemma pushes_producer: "q \<in> set (pushes i) \<Longrightarrow> producer q = GetCoreType i"
  by (auto simp: pushes_def Let_def split: CORE_TYPE.splits if_splits)

lemma length_pushes: "length (pushes i) \<le> 2"
  by (auto simp: pushes_def Let_def split: CORE_TYPE.splits)

lemmas dep_defs = InsnDependencyCheck_def DependencyProcess_def q_waits_def q_pop_def q_push_def Let_def

lemma check_before:
  "dep_ok i \<Longrightarrow> InsnDependencyCheck i True s =
     (if ready i (dep_q s) then
        Inr (True, s\<lparr>dep_q := (\<lambda>q. dep_q s q - of_bool (q \<in> set (pops i)))\<rparr>)
      else Inr (False, s))"
  by (cases "GetCoreType i")
    (auto simp: dep_defs dep_ok_def ready_def pops_def fun_upd_def fun_eq_iff
      intro!: arg_cong [where f = "\<lambda>f. s\<lparr>dep_q := f\<rparr>"])

lemma check_after:
  "dep_ok i \<Longrightarrow> InsnDependencyCheck i False s =
     Inr (True, s\<lparr>dep_q := (\<lambda>q. dep_q s q + of_bool (q \<in> set (pushes i))),
                  dep_push_event := dep_push_event s @ map consumer (pushes i)\<rparr>)"
  by (cases "GetCoreType i")
    (auto simp: dep_defs dep_ok_def pushes_def fun_upd_def fun_eq_iff
      intro!: arg_cong2 [where f = "\<lambda>f g. s\<lparr>dep_q := f, dep_push_event := g\<rparr>"])

lemma check_dep_ok:
  assumes "InsnDependencyCheck i True s = Inr (True, s1)" "InsnDependencyCheck i False s' = Inr r"
  shows "dep_ok i"
  using assms by (cases "GetCoreType i")
    (auto simp: dep_defs dep_ok_def split: if_splits option.splits)

lemma check_waits: "InsnDependencyCheck i True s = Inr (False, s1) \<Longrightarrow> \<not> ready i (dep_q s)"
  by (cases "GetCoreType i")
    (auto simp: dep_defs ready_def pops_def split: if_splits option.splits)

definition can_run :: "CORE_TYPE \<Rightarrow> 'd tlpp \<Rightarrow> bool" where
  "can_run c s = (case insnq_array s c of [] \<Rightarrow> False | i # _ \<Rightarrow> ready i (dep_q s))"

definition after_turn :: "CORE_TYPE \<Rightarrow> VTAInsn \<Rightarrow> VTAInsn list \<Rightarrow> 'd \<Rightarrow> 'd tlpp \<Rightarrow> 'd tlpp" where
  "after_turn c i rest d s =
    s\<lparr>insnq_array := (insnq_array s)(c := rest), dep_q := tok_step i (dep_q s),
      dep_push_event := dep_push_event s @ map consumer (pushes i),
      finished := (insn_opcode i = VTA_OPCODE_FINISH), fsim := d\<rparr>"

lemma core_turn_Some:
  "core_turn run c s = Inr (Some s') \<longleftrightarrow>
   (\<exists>i rest d. c \<noteq> COREMAX \<and> insnq_array s c = i # rest \<and> dep_ok i \<and> ready i (dep_q s) \<and>
      run i (fsim s) = Inr d \<and> s' = after_turn c i rest d s)" (is "?L = ?R")
proof
  assume ?L
  then obtain i rest s1 d r where h: "c \<noteq> COREMAX" "insnq_array s c = i # rest"
    "InsnDependencyCheck i True s = Inr (True, s1)" "run i (fsim s1) = Inr d"
    "InsnDependencyCheck i False (s1\<lparr>fsim := d\<rparr>) = Inr r"
    "s' = ConsumeFrontInsn c (snd r\<lparr>finished := (insn_opcode i = VTA_OPCODE_FINISH)\<rparr>)"
    by (cases "insnq_array s c"; cases "c = COREMAX")
      (auto simp: core_turn_def PickFrontInsn_def split_def split: if_splits)
  have ok: "dep_ok i" by (rule check_dep_ok [OF h(3,5)])
  then have "ready i (dep_q s)" and s1: "s1 = s\<lparr>dep_q := (\<lambda>q. dep_q s q - of_bool (q \<in> set (pops i)))\<rparr>"
    using h(3) check_before [OF ok, of s] by (auto split: if_splits)
  moreover have "snd r = s1\<lparr>fsim := d, dep_q := (\<lambda>q. dep_q s1 q + of_bool (q \<in> set (pushes i))),
      dep_push_event := dep_push_event s1 @ map consumer (pushes i)\<rparr>"
    using h(5) check_after [OF ok, of "s1\<lparr>fsim := d\<rparr>"] by auto
  ultimately show ?R
    using h ok by (intro exI [of _ i] exI [of _ rest] exI [of _ d])
      (simp add: after_turn_def ConsumeFrontInsn_def tok_step_def [abs_def])
next
  assume ?R
  then obtain i rest d where "c \<noteq> COREMAX" "insnq_array s c = i # rest" "dep_ok i" "ready i (dep_q s)"
      "run i (fsim s) = Inr d" "s' = after_turn c i rest d s" by blast
  then show ?L
    by (simp add: core_turn_def PickFrontInsn_def check_before check_after after_turn_def
        ConsumeFrontInsn_def tok_step_def [abs_def])
qed

lemma core_turn_None: "core_turn run c s = Inr None \<Longrightarrow> c \<noteq> COREMAX \<and> \<not> can_run c s"
  by (cases "insnq_array s c"; cases "c = COREMAX")
    (auto simp: core_turn_def PickFrontInsn_def can_run_def split_def split: if_splits
      dest: check_waits [where s = s])

lemma waiting_after_turn:
  "c \<noteq> COREMAX \<Longrightarrow> insnq_array s c = i # rest \<Longrightarrow> Suc (waiting (after_turn c i rest d s)) = waiting s"
  by (cases c) (auto simp: waiting_def after_turn_def)

lemma work_after_turn:
  assumes "c \<noteq> COREMAX" "insnq_array s c = i # rest"
  shows "work (after_turn c i rest d s) < work s"
proof -
  have "length (dep_push_event (after_turn c i rest d s)) \<le> length (dep_push_event s) + 2"
    using length_pushes [of i] by (simp add: after_turn_def)
  with waiting_after_turn [OF assms, of d] show ?thesis by (simp add: work_def)
qed

section \<open>The loops\<close>

function CoreRun :: "(VTAInsn \<Rightarrow> 'd \<Rightarrow> 'd res) \<Rightarrow> CORE_TYPE \<Rightarrow> 'd tlpp \<Rightarrow> 'd tlpp res" where
  "CoreRun run c s =
    (case core_turn run c s of
       Inl e \<Rightarrow> Inl e
     | Inr None \<Rightarrow> Inr s
     | Inr (Some s') \<Rightarrow> CoreRun run c s')"
  by pat_completeness auto
termination
  by (relation "measure (\<lambda>(run, c, s). work s)") (auto simp: core_turn_Some intro: work_after_turn)

declare CoreRun.simps [simp del]

text \<open>An invariant of every turn is one of \<open>CoreRun\<close>, which ends with its core unable to run.\<close>

lemma CoreRun_rule:
  assumes "CoreRun run c s = Inr s'" "P s"
    and "\<And>s i rest d. P s \<Longrightarrow> insnq_array s c = i # rest \<Longrightarrow> dep_ok i \<Longrightarrow> ready i (dep_q s) \<Longrightarrow>
           c \<noteq> COREMAX \<Longrightarrow> P (after_turn c i rest d s)"
  shows "P s' \<and> \<not> can_run c s' \<and> c \<noteq> COREMAX"
  using assms
proof (induction run c s rule: CoreRun.induct)
  case (1 run c s)
  show ?case
  proof (cases "core_turn run c s")
    case (Inl e)
    then show ?thesis using "1.prems" by (simp add: CoreRun.simps)
  next
    case (Inr r)
    show ?thesis
    proof (cases r)
      case None
      then show ?thesis using "1.prems" Inr core_turn_None [of run c s] by (simp add: CoreRun.simps [of run c s])
    next
      case (Some t)
      then obtain i rest d where t: "c \<noteq> COREMAX" "insnq_array s c = i # rest" "dep_ok i"
        "ready i (dep_q s)" "t = after_turn c i rest d s"
        using Inr by (auto simp: core_turn_Some)
      then have "P t" using "1.prems" by blast
      moreover have "CoreRun run c t = Inr s'"
        using "1.prems"(1) Inr Some by (simp add: CoreRun.simps [of run c s])
      ultimately show ?thesis using "1.IH" [OF Inr Some] "1.prems"(3) by blast
    qed
  qed
qed

lemma CoreRun_work: "CoreRun run c s = Inr s' \<Longrightarrow> work s' \<le> work s"
  using CoreRun_rule [of run c s s' "\<lambda>t. work t \<le> work s"] work_after_turn
  by (meson le_trans less_imp_le order_refl)

function EventProcess :: "(VTAInsn \<Rightarrow> 'd \<Rightarrow> 'd res) \<Rightarrow> 'd tlpp \<Rightarrow> 'd tlpp res" where
  "EventProcess run s =
    (case dep_push_event s of
       [] \<Rightarrow> Inr s
     | c # cs \<Rightarrow> (case CoreRun run c (s\<lparr>dep_push_event := cs\<rparr>) of
           Inl e \<Rightarrow> Inl e
         | Inr s' \<Rightarrow> EventProcess run s'))"
  by pat_completeness auto
termination
proof (relation "measure (\<lambda>(run, s). work s)")
  fix run :: "VTAInsn \<Rightarrow> 'd \<Rightarrow> 'd res" and s s' :: "'d tlpp" and c cs
  assume "dep_push_event s = c # cs" "CoreRun run c (s\<lparr>dep_push_event := cs\<rparr>) = Inr s'"
  then show "((run, s'), run, s) \<in> measure (\<lambda>(run, s). work s)"
    using CoreRun_work [of run c "s\<lparr>dep_push_event := cs\<rparr>" s'] by (simp add: work_def waiting_def)
qed simp

declare EventProcess.simps [simp del]

definition core_of :: "nat \<Rightarrow> CORE_TYPE" where
  "core_of n = (if n = 0 then COREGEMM else if n = 1 then CORELOAD else if n = 2 then CORESTORE else COREMAX)"

text \<open>The body of the do-while loop of \<open>TlppSynchronization\<close>, \<open>rnd\<close> being the value of \<open>rand_r\<close>.\<close>

definition sync_round :: "(VTAInsn \<Rightarrow> 'd \<Rightarrow> 'd res) \<Rightarrow> nat \<Rightarrow> 'd tlpp \<Rightarrow> 'd tlpp res" where
  "sync_round run rnd s =
    res_bind (fold_res (\<lambda>i. CoreRun run (core_of ((rnd mod 3 + i) mod 3))) [0..<3] s) (EventProcess run)"

partial_function (option) sync_loop ::
  "(VTAInsn \<Rightarrow> 'd \<Rightarrow> 'd res) \<Rightarrow> (nat \<Rightarrow> nat) \<Rightarrow> nat \<Rightarrow> 'd tlpp \<Rightarrow> 'd tlpp res option" where
  "sync_loop run rnd k s =
    (case sync_round run (rnd k) s of
       Inl e \<Rightarrow> Some (Inl e)
     | Inr s' \<Rightarrow> if finished s' then Some (Inr (Clear s')) else sync_loop run rnd (Suc k) s')"

definition TlppSynchronization ::
  "(VTAInsn \<Rightarrow> 'd \<Rightarrow> 'd res) \<Rightarrow> (nat \<Rightarrow> nat) \<Rightarrow> 'd tlpp \<Rightarrow> 'd tlpp res option" where
  "TlppSynchronization run rnd s = sync_loop run rnd 0 (s\<lparr>finished := False\<rparr>)"

section \<open>No core that can run is missed\<close>

definition queue_ok :: "(CORE_TYPE \<Rightarrow> VTAInsn list) \<Rightarrow> bool" where
  "queue_ok q = (\<forall>c. \<forall>i \<in> set (q c). GetCoreType i = c)"

definition scheduled :: "CORE_TYPE set \<Rightarrow> 'd tlpp \<Rightarrow> bool" where
  "scheduled R s = (queue_ok (insnq_array s) \<and> (\<forall>c \<in> R. can_run c s \<longrightarrow> c \<in> set (dep_push_event s)))"

lemma can_run_event [simp]: "can_run c (s\<lparr>dep_push_event := es\<rparr>) = can_run c s"
  by (simp add: can_run_def split: list.splits)

lemma queue_ok_consume: "queue_ok q \<Longrightarrow> q c = i # rest \<Longrightarrow> queue_ok (q(c := rest))"
  by (auto simp: queue_ok_def)

lemma queue_okD: "queue_ok q \<Longrightarrow> q c = i # rest \<Longrightarrow> GetCoreType i = c"
  by (auto simp: queue_ok_def)

lemma queue_ok_max: "queue_ok q \<Longrightarrow> q COREMAX = []"
  by (cases "q COREMAX") (auto dest: queue_okD)

lemma scheduled_turn:
  assumes "scheduled (R - {c}) s" "insnq_array s c = i # rest"
  shows "scheduled (R - {c}) (after_turn c i rest d s)"
proof -
  have qo: "queue_ok (insnq_array s)" and ci: "GetCoreType i = c"
    using assms by (auto simp: scheduled_def dest: queue_okD)
  have "c' \<in> set (dep_push_event s) \<or> c' \<in> consumer ` set (pushes i)"
    if c': "c' \<in> R" "c' \<noteq> c" and run: "can_run c' (after_turn c i rest d s)" for c'
  proof (cases "can_run c' s")
    case True
    then show ?thesis using assms(1) c' by (auto simp: scheduled_def)
  next
    case False
    from run c' obtain j js where j: "insnq_array s c' = j # js" "ready j (tok_step i (dep_q s))"
      by (auto simp: can_run_def after_turn_def split: list.splits)
    with False obtain q where q: "q \<in> set (pops j)" "dep_q s q = 0"
      by (auto simp: can_run_def ready_def list_all_iff)
    have cq: "consumer q = c'" using pops_consumer [OF q(1)] queue_okD [OF qo j(1)] by simp
    have "0 < tok_step i (dep_q s) q" using j(2) q(1) by (simp add: ready_def list_all_iff)
    then have "q \<in> set (pushes i)" using q(2) by (auto simp: tok_step_def split: if_splits)
    with cq show ?thesis by auto
  qed
  moreover have "queue_ok (insnq_array (after_turn c i rest d s))"
    using queue_ok_consume [OF qo assms(2)] by (simp add: after_turn_def)
  ultimately show ?thesis by (auto simp: scheduled_def after_turn_def)
qed

lemma scheduled_CoreRun:
  assumes "CoreRun run c s = Inr s'" "scheduled (R - {c}) s"
  shows "scheduled (insert c R) s'"
proof -
  have "scheduled (R - {c}) s' \<and> \<not> can_run c s' \<and> c \<noteq> COREMAX"
    by (rule CoreRun_rule [OF assms(1), where P = "scheduled (R - {c})", OF assms(2)])
      (rule scheduled_turn)
  then show ?thesis by (auto simp: scheduled_def)
qed

lemma EventProcess_rule:
  assumes "EventProcess run s = Inr s'" "P s"
    and "\<And>s c cs s'. P s \<Longrightarrow> dep_push_event s = c # cs \<Longrightarrow>
           CoreRun run c (s\<lparr>dep_push_event := cs\<rparr>) = Inr s' \<Longrightarrow> P s'"
  shows "P s' \<and> dep_push_event s' = []"
  using assms
proof (induction run s rule: EventProcess.induct)
  case (1 run s)
  show ?case
  proof (cases "dep_push_event s")
    case Nil
    then show ?thesis using "1.prems" by (simp add: EventProcess.simps [of run s])
  next
    case (Cons c cs)
    then obtain t where t: "CoreRun run c (s\<lparr>dep_push_event := cs\<rparr>) = Inr t" "EventProcess run t = Inr s'"
      using "1.prems"(1) by (auto simp: EventProcess.simps [of run s] split: sum.splits)
    show ?thesis
      by (rule "1.IH" [OF Cons t(1) t(2)]) (use "1.prems"(2,3) Cons t(1) in blast)+
  qed
qed

lemma round_cores:
  "fold_res (\<lambda>i. CoreRun run (core_of ((r mod 3 + i) mod 3))) [0..<3] s =
   (let a = core_of (r mod 3); b = core_of ((r mod 3 + 1) mod 3); c = core_of ((r mod 3 + 2) mod 3) in
    res_bind (CoreRun run a s) (\<lambda>s. res_bind (CoreRun run b s) (CoreRun run c)))"
  by (simp add: upt_rec [of _ 3] res_bind_def split: sum.splits)

lemma round_covers:
  "{core_of (r mod 3), core_of ((r mod 3 + 1) mod 3), core_of ((r mod 3 + 2) mod 3)} = {COREGEMM, CORELOAD, CORESTORE}"
proof -
  have "r mod 3 = 0 \<or> r mod 3 = 1 \<or> r mod 3 = 2" by arith
  then show ?thesis by (auto simp: core_of_def)
qed

lemma core_set: "c \<in> {COREGEMM, CORELOAD, CORESTORE} \<or> c = COREMAX"
  by (cases c) auto

lemma quiescent_after_round:
  assumes "sync_round run r s = Inr s'" "queue_ok (insnq_array s)"
  shows "\<not> can_run c s'" "dep_push_event s' = []" "queue_ok (insnq_array s')"
proof -
  define x y z where "x = core_of (r mod 3)" "y = core_of ((r mod 3 + 1) mod 3)" "z = core_of ((r mod 3 + 2) mod 3)"
  then obtain s1 s2 s3 where run: "CoreRun run x s = Inr s1" "CoreRun run y s1 = Inr s2"
      "CoreRun run z s2 = Inr s3" "EventProcess run s3 = Inr s'"
    using assms(1) by (auto simp: sync_round_def round_cores Let_def)
  have "scheduled {x} s1" using scheduled_CoreRun [OF run(1), of "{}"] assms(2) by (simp add: scheduled_def)
  then have "scheduled {y, x} s2" using scheduled_CoreRun [OF run(2), of "{x}"] by (auto simp: scheduled_def)
  then have "scheduled {z, y, x} s3" using scheduled_CoreRun [OF run(3), of "{y, x}"] by (auto simp: scheduled_def)
  then have all: "scheduled {COREGEMM, CORELOAD, CORESTORE} s3"
    using round_covers [of r] unfolding x_y_z_def by (metis insert_commute)
  have "scheduled {COREGEMM, CORELOAD, CORESTORE} s' \<and> dep_push_event s' = []"
  proof (rule EventProcess_rule [OF run(4), where P = "scheduled {COREGEMM, CORELOAD, CORESTORE}", OF all])
    fix s c cs s' assume h: "scheduled {COREGEMM, CORELOAD, CORESTORE} (s :: 'a tlpp)"
      "dep_push_event s = c # cs" "CoreRun run c (s\<lparr>dep_push_event := cs\<rparr>) = Inr s'"
    then have "scheduled ({COREGEMM, CORELOAD, CORESTORE} - {c}) (s\<lparr>dep_push_event := cs\<rparr>)"
      by (auto simp: scheduled_def)
    from scheduled_CoreRun [OF h(3) this] show "scheduled {COREGEMM, CORELOAD, CORESTORE} s'"
      by (auto simp: scheduled_def)
  qed
  then show "dep_push_event s' = []" "queue_ok (insnq_array s')" "\<not> can_run c s'"
    using core_set [of c] by (auto simp: scheduled_def can_run_def dest!: queue_ok_max)
qed

section \<open>The outcome does not depend on the schedule\<close>

text \<open>Steps that close a diamond reach one normal form, if any, whatever the order.\<close>

locale diamond =
  fixes step :: "'a \<Rightarrow> 'a \<Rightarrow> bool" and inv :: "'a \<Rightarrow> bool"
  assumes inv_step: "inv x \<Longrightarrow> step x y \<Longrightarrow> inv y"
    and close: "inv x \<Longrightarrow> step x y \<Longrightarrow> step x z \<Longrightarrow> y = z \<or> (\<exists>w. step y w \<and> step z w)"
begin

definition normal :: "'a \<Rightarrow> bool" where
  "normal x = (\<forall>y. \<not> step x y)"

lemma normal_form_shift:
  "inv x \<Longrightarrow> (step ^^ n) x t \<Longrightarrow> normal t \<Longrightarrow> step x y \<Longrightarrow> \<exists>m. n = Suc m \<and> (step ^^ m) y t"
proof (induction n arbitrary: x y)
  case 0
  then show ?case by (simp add: normal_def)
next
  case (Suc n)
  then obtain z where z: "step x z" "(step ^^ n) z t" by (meson relpowp_Suc_D2)
  show ?case
  proof (cases "y = z")
    case True
    with z show ?thesis by blast
  next
    case False
    with close [OF Suc.prems(1,4) z(1)] obtain w where w: "step y w" "step z w" by blast
    from Suc.IH [OF inv_step [OF Suc.prems(1) z(1)] z(2) Suc.prems(3) w(2)]
    obtain m where "n = Suc m" "(step ^^ m) w t" by blast
    with w(1) show ?thesis by (blast intro: relpowp_Suc_I2)
  qed
qed

lemma unique_normal_form:
  assumes "inv x" "step\<^sup>*\<^sup>* x t" "step\<^sup>*\<^sup>* x u" "normal t" "normal u"
  shows "t = u"
proof -
  obtain n where "(step ^^ n) x u" using assms(3) by (blast dest: rtranclp_imp_relpowp)
  with assms(2,1) show ?thesis
  proof (induction arbitrary: n rule: converse_rtranclp_induct)
    case base
    then show ?case using assms(4) by (cases n) (auto simp: normal_def simp del: relpowp.simps(2) dest!: relpowp_Suc_D2)
  next
    case (step x y)
    then show ?case using normal_form_shift [OF step.prems(1,2) assms(5) step.hyps(1)] inv_step by blast
  qed
qed

end

type_synonym ctrl = "(CORE_TYPE \<Rightarrow> VTAInsn list) \<times> (dep_queue \<Rightarrow> nat)"

definition ctrl_of :: "'d tlpp \<Rightarrow> ctrl" where
  "ctrl_of s = (insnq_array s, dep_q s)"

inductive ctrl_step :: "ctrl \<Rightarrow> ctrl \<Rightarrow> bool" where
  "q c = i # rest \<Longrightarrow> ready i t \<Longrightarrow> ctrl_step (q, t) (q(c := rest), tok_step i t)"

inductive_cases ctrl_stepE: "ctrl_step (q, t) y"

lemma tok_step_commute:
  assumes "GetCoreType i \<noteq> GetCoreType j" "ready i t" "ready j t"
  shows "tok_step j (tok_step i t) = tok_step i (tok_step j t)" "ready j (tok_step i t)"
proof -
  have dis: "q \<in> set (pops i) \<Longrightarrow> q \<notin> set (pops j)" for q
    using assms(1) pops_consumer by metis
  show "tok_step j (tok_step i t) = tok_step i (tok_step j t)"
    using assms(2,3) dis by (auto simp: fun_eq_iff tok_step_def ready_def list_all_iff)
  show "ready j (tok_step i t)"
    using assms(3) dis by (auto simp: tok_step_def ready_def list_all_iff)
qed

interpretation pipeline: diamond ctrl_step "\<lambda>x. queue_ok (fst x)"
proof
  fix x y assume "queue_ok (fst x)" "ctrl_step x y"
  then show "queue_ok (fst y)" by (auto elim!: ctrl_step.cases intro: queue_ok_consume)
next
  fix x y z assume qo: "queue_ok (fst x)" and y: "ctrl_step x y" and z: "ctrl_step x z"
  obtain q t where x: "x = (q, t)" by (cases x)
  obtain a i is' where a: "q a = i # is'" "ready i t" "y = (q(a := is'), tok_step i t)"
    using y x by (auto elim: ctrl_stepE)
  obtain b j js where b: "q b = j # js" "ready j t" "z = (q(b := js), tok_step j t)"
    using z x by (auto elim: ctrl_stepE)
  show "y = z \<or> (\<exists>w. ctrl_step y w \<and> ctrl_step z w)"
  proof (cases "a = b")
    case True
    with a b show ?thesis by simp
  next
    case False
    have ne: "GetCoreType i \<noteq> GetCoreType j" using False queue_okD [of q] qo x a(1) b(1) by auto
    have "ctrl_step y (q(a := is', b := js), tok_step j (tok_step i t))"
      using ctrl_step.intros [of "q(a := is')" b j js "tok_step i t"] a b False tok_step_commute(2) [OF ne]
      by simp
    moreover have "ctrl_step z (q(b := js, a := is'), tok_step i (tok_step j t))"
      using ctrl_step.intros [of "q(b := js)" a i is' "tok_step j t"] a b False
        tok_step_commute(2) [OF ne [symmetric]] by simp
    ultimately show ?thesis
      using tok_step_commute(1) [OF ne a(2) b(2)] fun_upd_twist [OF False, of q is' js] by auto
  qed
qed

lemma normal_iff: "pipeline.normal (ctrl_of s) \<longleftrightarrow> (\<forall>c. \<not> can_run c s)"
  unfolding pipeline.normal_def ctrl_of_def can_run_def
  by (fastforce elim: ctrl_stepE intro: ctrl_step.intros split: list.splits)

lemma CoreRun_ctrl:
  assumes "CoreRun run c s = Inr s'"
  shows "ctrl_step\<^sup>*\<^sup>* (ctrl_of s) (ctrl_of s')"
proof -
  have "ctrl_step\<^sup>*\<^sup>* (ctrl_of s) (ctrl_of s') \<and> \<not> can_run c s' \<and> c \<noteq> COREMAX"
  proof (rule CoreRun_rule [OF assms, where P = "\<lambda>u. ctrl_step\<^sup>*\<^sup>* (ctrl_of s) (ctrl_of u)"])
    fix u i rest d assume h: "ctrl_step\<^sup>*\<^sup>* (ctrl_of s) (ctrl_of u)" "insnq_array u c = i # rest" "ready i (dep_q u)"
    have "ctrl_step (ctrl_of u) (ctrl_of (after_turn c i rest d u))"
      using ctrl_step.intros [of "insnq_array u", OF h(2,3)] by (simp add: ctrl_of_def after_turn_def)
    with h(1) show "ctrl_step\<^sup>*\<^sup>* (ctrl_of s) (ctrl_of (after_turn c i rest d u))" by (rule rtranclp.rtrancl_into_rtrancl)
  qed simp
  then show ?thesis by simp
qed

lemma ctrl_of_event [simp]: "ctrl_of (s\<lparr>dep_push_event := es\<rparr>) = ctrl_of s"
  by (simp add: ctrl_of_def)

lemma sync_round_ctrl:
  assumes "sync_round run r s = Inr s'"
  shows "ctrl_step\<^sup>*\<^sup>* (ctrl_of s) (ctrl_of s')"
proof -
  obtain s1 s2 s3 where "CoreRun run (core_of (r mod 3)) s = Inr s1"
      "CoreRun run (core_of ((r mod 3 + 1) mod 3)) s1 = Inr s2"
      "CoreRun run (core_of ((r mod 3 + 2) mod 3)) s2 = Inr s3" and ev: "EventProcess run s3 = Inr s'"
    using assms by (auto simp: sync_round_def round_cores Let_def)
  then have "ctrl_step\<^sup>*\<^sup>* (ctrl_of s) (ctrl_of s3)" by (meson CoreRun_ctrl rtranclp_trans)
  moreover have "ctrl_step\<^sup>*\<^sup>* (ctrl_of s3) (ctrl_of s') \<and> dep_push_event s' = []"
    by (rule EventProcess_rule [OF ev, where P = "\<lambda>u. ctrl_step\<^sup>*\<^sup>* (ctrl_of s3) (ctrl_of u)"])
      (auto dest!: CoreRun_ctrl)
  ultimately show ?thesis by auto
qed

section \<open>A round does not fail\<close>

definition runnable :: "(VTAInsn \<Rightarrow> 'd \<Rightarrow> 'd res) \<Rightarrow> VTAInsn \<Rightarrow> bool" where
  "runnable run i = (dep_ok i \<and> (\<forall>d. \<exists>d'. run i d = Inr d'))"

definition streams_ok :: "(VTAInsn \<Rightarrow> 'd \<Rightarrow> 'd res) \<Rightarrow> 'd tlpp \<Rightarrow> bool" where
  "streams_ok run s = ((\<forall>c. list_all (runnable run) (insnq_array s c)) \<and> COREMAX \<notin> set (dep_push_event s))"

lemma consumer_not_max [simp]: "consumer q \<noteq> COREMAX" "COREMAX \<noteq> consumer q"
  by (cases q; simp)+

lemma streams_ok_head:
  "streams_ok run s \<Longrightarrow> insnq_array s c = i # rest \<Longrightarrow> runnable run i \<and> list_all (runnable run) rest"
  by (simp add: streams_ok_def) (metis list.pred_inject(2))

lemma streams_ok_turn:
  "streams_ok run s \<Longrightarrow> insnq_array s c = i # rest \<Longrightarrow> streams_ok run (after_turn c i rest d s)"
  using streams_ok_head [of run s c i rest] by (auto simp: streams_ok_def after_turn_def)

lemma core_turn_total:
  assumes "streams_ok run s" "c \<noteq> COREMAX"
  shows "\<exists>r. core_turn run c s = Inr r"
proof (cases "insnq_array s c")
  case Nil
  then show ?thesis using assms by (simp add: core_turn_def PickFrontInsn_def)
next
  case (Cons i rest)
  then have i: "dep_ok i" "\<exists>d'. run i d = Inr d'" for d
    using streams_ok_head [OF assms(1) Cons] by (simp_all add: runnable_def)
  obtain d where d: "run i (fsim s) = Inr d" using i(2) by blast
  show ?thesis
  proof (cases "ready i (dep_q s)")
    case True
    then have "core_turn run c s = Inr (Some (after_turn c i rest d s))"
      using core_turn_Some [of run c s] Cons assms(2) i(1) d by blast
    then show ?thesis by blast
  next
    case False
    then have "core_turn run c s = Inr None"
      using Cons assms(2) i(1) by (simp add: core_turn_def PickFrontInsn_def check_before)
    then show ?thesis by blast
  qed
qed

lemma CoreRun_total:
  "streams_ok run s \<Longrightarrow> c \<noteq> COREMAX \<Longrightarrow> \<exists>s'. CoreRun run c s = Inr s' \<and> streams_ok run s'"
proof (induction run c s rule: CoreRun.induct)
  case (1 run c s)
  then obtain r where r: "core_turn run c s = Inr r" using core_turn_total by blast
  show ?case
  proof (cases r)
    case None
    then show ?thesis using "1.prems" r by (simp add: CoreRun.simps [of run c s])
  next
    case (Some t)
    then have "streams_ok run t" using r "1.prems"(1) by (auto simp: core_turn_Some intro: streams_ok_turn)
    from "1.IH" [OF r Some this "1.prems"(2)] show ?thesis
      using r Some by (simp add: CoreRun.simps [of run c s])
  qed
qed

lemma EventProcess_total: "streams_ok run s \<Longrightarrow> \<exists>s'. EventProcess run s = Inr s' \<and> streams_ok run s'"
proof (induction run s rule: EventProcess.induct)
  case (1 run s)
  show ?case
  proof (cases "dep_push_event s")
    case Nil
    then show ?thesis using "1.prems" by (simp add: EventProcess.simps [of run s])
  next
    case (Cons c cs)
    with "1.prems" have "streams_ok run (s\<lparr>dep_push_event := cs\<rparr>)" "c \<noteq> COREMAX"
      by (auto simp: streams_ok_def)
    from CoreRun_total [OF this] obtain t where
      t: "CoreRun run c (s\<lparr>dep_push_event := cs\<rparr>) = Inr t" "streams_ok run t" by blast
    from "1.IH" [OF Cons t] t(1) Cons show ?thesis by (simp add: EventProcess.simps [of run s])
  qed
qed

lemma core_of_round [simp]: "core_of (n mod 3) \<noteq> COREMAX"
proof -
  have "n mod 3 = 0 \<or> n mod 3 = 1 \<or> n mod 3 = 2" by arith
  then show ?thesis by (auto simp: core_of_def)
qed

lemma sync_round_total:
  assumes "streams_ok run s"
  shows "\<exists>s'. sync_round run r s = Inr s' \<and> streams_ok run s'"
proof -
  have "\<exists>t. fold_res (\<lambda>i. CoreRun run (core_of ((r mod 3 + i) mod 3))) [0..<3] s = Inr t \<and> streams_ok run t"
    by (rule fold_res_invariant [where I = "streams_ok run", OF assms]) (simp add: CoreRun_total)
  then show ?thesis using EventProcess_total by (auto simp: sync_round_def)
qed

section \<open>Program order\<close>

text \<open>The reference execution: one instruction after the other in the order they were pushed.\<close>

fun seq_run :: "VTAInsn list \<Rightarrow> (dep_queue \<Rightarrow> nat) \<Rightarrow> (dep_queue \<Rightarrow> nat) option" where
  "seq_run [] t = Some t"
| "seq_run (i # is) t = (if ready i t then seq_run is (tok_step i t) else None)"

definition split_cores :: "VTAInsn list \<Rightarrow> CORE_TYPE \<Rightarrow> VTAInsn list" where
  "split_cores is c = filter (\<lambda>i. GetCoreType i = c) is"

lemma TlppPushInsn_all:
  "insnq_array (fold TlppPushInsn is s) c = insnq_array s c @ split_cores is c"
  "dep_q (fold TlppPushInsn is s) = dep_q s"
  "dep_push_event (fold TlppPushInsn is s) = dep_push_event s"
  "fsim (fold TlppPushInsn is s) = fsim s"
  by (induction "is" arbitrary: s) (simp_all add: TlppPushInsn_def split_cores_def Let_def)

lemma queue_ok_split [simp]: "queue_ok (split_cores is)"
  by (auto simp: queue_ok_def split_cores_def)

lemma seq_run_ctrl: "seq_run is t = Some t' \<Longrightarrow> ctrl_step\<^sup>*\<^sup>* (split_cores is, t) (\<lambda>_. [], t')"
proof (induction "is" arbitrary: t)
  case Nil
  then show ?case by (simp add: split_cores_def [abs_def])
next
  case (Cons i rest)
  then have r: "ready i t" "seq_run rest (tok_step i t) = Some t'" by (auto split: if_splits)
  have "split_cores (i # rest) (GetCoreType i) = i # split_cores rest (GetCoreType i)"
    by (simp add: split_cores_def)
  moreover have "(split_cores (i # rest))(GetCoreType i := split_cores rest (GetCoreType i)) = split_cores rest"
    by (auto simp: fun_eq_iff split_cores_def)
  ultimately have "ctrl_step (split_cores (i # rest), t) (split_cores rest, tok_step i t)"
    using ctrl_step.intros [of "split_cores (i # rest)" "GetCoreType i"] r(1) by metis
  then show ?case using Cons.IH [OF r(2)] by (rule converse_rtranclp_into_rtranclp)
qed

lemma stream_completes:
  assumes "\<And>c. insnq_array s c = []" "dep_push_event s = []" "list_all (runnable run) is"
    and "seq_run is (dep_q s) = Some t"
  shows "\<exists>s'. sync_round run r (fold TlppPushInsn is s) = Inr s' \<and>
           (\<forall>c. insnq_array s' c = []) \<and> dep_q s' = t"
proof -
  let ?s = "fold TlppPushInsn is s"
  have q: "insnq_array ?s = split_cores is" using assms(1) by (auto simp: TlppPushInsn_all fun_eq_iff)
  have "streams_ok run ?s"
    using assms(2,3) by (auto simp: streams_ok_def q TlppPushInsn_all split_cores_def list_all_iff)
  then obtain s' where s': "sync_round run r ?s = Inr s'" using sync_round_total by blast
  have "ctrl_of s' = (\<lambda>_. [], t)"
  proof (rule pipeline.unique_normal_form)
    show "queue_ok (fst (ctrl_of ?s))" by (simp add: ctrl_of_def q)
    show "ctrl_step\<^sup>*\<^sup>* (ctrl_of ?s) (ctrl_of s')" by (rule sync_round_ctrl [OF s'])
    show "ctrl_step\<^sup>*\<^sup>* (ctrl_of ?s) (\<lambda>_. [], t)"
      using seq_run_ctrl [OF assms(4)] by (simp add: ctrl_of_def q TlppPushInsn_all)
    show "pipeline.normal (ctrl_of s')"
      unfolding normal_iff using quiescent_after_round(1) [OF s'] by (simp add: q)
    show "pipeline.normal (\<lambda>_. [], t)" by (auto simp: pipeline.normal_def elim: ctrl_stepE)
  qed
  then have "insnq_array s' = (\<lambda>_. [])" "dep_q s' = t" by (simp_all add: ctrl_of_def)
  with s' show ?thesis by auto
qed

section \<open>When the loop returns\<close>

definition stuck :: "(VTAInsn \<Rightarrow> 'd \<Rightarrow> 'd res) \<Rightarrow> 'd tlpp \<Rightarrow> bool" where
  "stuck run s = (streams_ok run s \<and> (\<forall>c. \<not> can_run c s) \<and> dep_push_event s = [] \<and> \<not> finished s)"

lemma stuck_round: "stuck run s \<Longrightarrow> sync_round run r s = Inr s"
proof -
  assume st: "stuck run s"
  have "CoreRun run c s = Inr s" if c: "c \<noteq> COREMAX" for c
  proof -
    obtain x where x: "core_turn run c s = Inr x" using core_turn_total [OF _ c] st unfolding stuck_def by blast
    moreover have "x = None"
      using st x by (cases x) (auto simp: stuck_def core_turn_Some can_run_def split: list.splits)
    ultimately show ?thesis by (simp add: CoreRun.simps [of run c s])
  qed
  then show ?thesis
    using st by (simp add: sync_round_def round_cores Let_def stuck_def EventProcess.simps [of run s])
qed

lemma stuck_diverges: "stuck run s \<Longrightarrow> sync_loop run rnd k s = None"
proof (rule ccontr)
  assume st: "stuck run s" and "sync_loop run rnd k s \<noteq> None"
  then obtain y where "sync_loop run rnd k s = Some y" by blast
  then have "stuck run s \<longrightarrow> False"
  proof (induction rule: sync_loop.raw_induct [rotated, consumes 1, case_names step])
    case (step rec run rnd k s y)
    then show ?case by (auto simp: stuck_round split: if_splits) (auto simp: stuck_def)
  qed
  with st show False by simp
qed

section \<open>A sample stream\<close>

definition mem_insn :: "3 word \<Rightarrow> 3 word \<Rightarrow> bool \<Rightarrow> bool \<Rightarrow> bool \<Rightarrow> bool \<Rightarrow> VTAInsn" where
  "mem_insn op mt a b c d = MemInsn \<lparr>opcode = op, pop_prev_dep = a, pop_next_dep = b,
     push_prev_dep = c, push_next_dep = d, memory_type = mt, sram_base = 0, dram_base = 0, y_size = 1,
     x_size = 1, x_stride = 1, y_pad_0 = 0, y_pad_1 = 0, x_pad_0 = 0, x_pad_1 = 0\<rparr>"

definition gem_insn :: "3 word \<Rightarrow> bool \<Rightarrow> bool \<Rightarrow> bool \<Rightarrow> bool \<Rightarrow> VTAInsn" where
  "gem_insn op a b c d = GemInsn \<lparr>opcode = op, pop_prev_dep = a, pop_next_dep = b,
     push_prev_dep = c, push_next_dep = d, reset_reg = False, uop_bgn = 0, uop_end = 1, iter_out = 1,
     iter_in = 1, dst_factor_out = 0, dst_factor_in = 0, src_factor_out = 0, src_factor_in = 0,
     wgt_factor_out = 0, wgt_factor_in = 0\<rparr>"

definition sample_stream :: "VTAInsn list" where
  "sample_stream =
    [mem_insn VTA_OPCODE_LOAD VTA_MEM_ID_INP False False False True,
     gem_insn VTA_OPCODE_GEMM True False False True,
     mem_insn VTA_OPCODE_STORE VTA_MEM_ID_OUT True False True False,
     gem_insn VTA_OPCODE_FINISH False True False False]"

definition count_run :: "VTAInsn \<Rightarrow> nat \<Rightarrow> nat res" where
  "count_run i n = Inr (Suc n)"

definition sample_tlpp :: "nat tlpp" where
  "sample_tlpp = fold TlppPushInsn sample_stream (tlpp_init 0)"

lemmas sample_defs = sample_stream_def mem_insn_def gem_insn_def spec_consts

lemma sample_runnable: "list_all (runnable count_run) sample_stream"
  by (simp add: sample_defs runnable_def dep_ok_def GetCoreType_def count_run_def VTAGenericInsn.truncate_def)

lemma sample_seq_run: "seq_run sample_stream (\<lambda>_. 0) = Some (\<lambda>_. 0)"
  by (simp add: sample_defs ready_def pops_def pushes_def GetCoreType_def VTAGenericInsn.truncate_def
      tok_step_def [abs_def] of_bool_def fun_eq_iff)

lemma sample_queue_ok: "queue_ok (insnq_array sample_tlpp)"
  by (auto simp: queue_ok_def sample_tlpp_def TlppPushInsn_all split_cores_def tlpp_init_def)

lemma sample_streams_ok: "streams_ok count_run sample_tlpp"
  using sample_runnable
  by (auto simp: streams_ok_def sample_tlpp_def TlppPushInsn_all split_cores_def tlpp_init_def list_all_iff)

section \<open>Properties\<close>

text \<open>a round of \<open>TlppSynchronization\<close> (three \<open>CoreRun\<close> calls from any first core, then the event
  pump) leaves no core that could still run: every core whose front instruction has its tokens was
  run or woken by an event.\<close>

lemma tlpp_round_quiescent:
  assumes "queue_ok (insnq_array s)" "sync_round run r s = Inr s'"
  shows "\<not> can_run c s' \<and> dep_push_event s' = []"
  using quiescent_after_round [OF assms(2,1)] by simp

text \<open>C3: which instructions a round executes and which tokens it leaves does not depend on the random
  first core, nor on what the executed instructions compute.\<close>

theorem tlpp_schedule_independent:
  assumes "queue_ok (insnq_array s)" "sync_round run r s = Inr s1" "sync_round run' r' s = Inr s2"
  shows "insnq_array s1 = insnq_array s2 \<and> dep_q s1 = dep_q s2"
proof -
  have "ctrl_of s1 = ctrl_of s2"
  proof (rule pipeline.unique_normal_form)
    show "queue_ok (fst (ctrl_of s))" using assms(1) by (simp add: ctrl_of_def)
    show "ctrl_step\<^sup>*\<^sup>* (ctrl_of s) (ctrl_of s1)" "ctrl_step\<^sup>*\<^sup>* (ctrl_of s) (ctrl_of s2)"
      using assms by (blast intro: sync_round_ctrl)+
    show "pipeline.normal (ctrl_of s1)" "pipeline.normal (ctrl_of s2)"
      unfolding normal_iff using assms quiescent_after_round(1) by blast+
  qed
  then show ?thesis by (simp add: ctrl_of_def)
qed

theorem tlpp_schedule_independent_witness:
  "\<exists>s1 s2. sync_round count_run 0 sample_tlpp = Inr s1 \<and> sync_round count_run 2 sample_tlpp = Inr s2 \<and>
     insnq_array s1 = insnq_array s2 \<and> dep_q s1 = dep_q s2"
proof -
  obtain s1 s2 where "sync_round count_run 0 sample_tlpp = Inr s1" "sync_round count_run 2 sample_tlpp = Inr s2"
    using sync_round_total [OF sample_streams_ok] by blast
  then show ?thesis using tlpp_schedule_independent [OF sample_queue_ok] by blast
qed

text \<open>C2: a stream whose instructions find their tokens when executed one by one in program order
  never deadlocks in the pipeline: a single round executes all of it, from any first core, and leaves
  the tokens the sequential execution leaves.\<close>

theorem tlpp_stream_completes:
  assumes "\<And>c. insnq_array s c = []" "dep_push_event s = []" "list_all (runnable run) is"
    and "seq_run is (dep_q s) = Some t"
  shows "\<exists>s'. sync_round run r (fold TlppPushInsn is s) = Inr s' \<and>
           (\<forall>c. insnq_array s' c = []) \<and> dep_q s' = t"
  using assms by (rule stream_completes)

theorem tlpp_stream_completes_witness:
  "\<exists>s'. sync_round count_run 2 (fold TlppPushInsn sample_stream (tlpp_init 0)) = Inr s' \<and>
     (\<forall>c. insnq_array s' c = []) \<and> dep_q s' = (\<lambda>_. 0)"
  using tlpp_stream_completes [of "tlpp_init 0" count_run sample_stream "\<lambda>_. 0" 2]
    sample_runnable sample_seq_run by (simp add: tlpp_init_def)

text \<open>C16: on a stream that cannot fail, \<open>TlppSynchronization\<close> returns exactly if the last instruction
  executed in its first round was a \<open>FINISH\<close>; otherwise the do-while loop runs forever.\<close>

theorem tlpp_sync_returns_iff:
  assumes "queue_ok (insnq_array s)" "streams_ok run s"
  shows "(\<exists>x. TlppSynchronization run rnd s = Some x) \<longleftrightarrow>
         (\<exists>s'. sync_round run (rnd 0) (s\<lparr>finished := False\<rparr>) = Inr s' \<and> finished s')"
proof -
  let ?s = "s\<lparr>finished := False\<rparr>"
  have ok: "streams_ok run ?s" using assms(2) by (simp add: streams_ok_def)
  then obtain s' where s': "sync_round run (rnd 0) ?s = Inr s'" "streams_ok run s'"
    using sync_round_total by blast
  have "\<not> finished s' \<Longrightarrow> stuck run s'"
    using quiescent_after_round [OF s'(1)] s'(2) assms(1) by (simp add: stuck_def)
  then show ?thesis
    using s'(1) by (auto simp: TlppSynchronization_def sync_loop.simps [of run rnd 0] stuck_diverges)
qed

theorem tlpp_sync_returns_iff_witness:
  "\<not> (\<exists>x. TlppSynchronization count_run (\<lambda>_. 0) (tlpp_init 0) = Some x)"
proof -
  have st: "stuck count_run (tlpp_init 0)"
    by (simp add: stuck_def streams_ok_def tlpp_init_def can_run_def)
  have eq: "(tlpp_init 0)\<lparr>finished := False\<rparr> = (tlpp_init 0 :: nat tlpp)" by (simp add: tlpp_init_def)
  have "queue_ok (insnq_array (tlpp_init 0 :: nat tlpp))" by (simp add: queue_ok_def tlpp_init_def)
  from tlpp_sync_returns_iff [OF this, of count_run "\<lambda>_. 0"] st stuck_round [OF st, of 0]
  show ?thesis unfolding eq by (auto simp: stuck_def)
qed

end
