(* ===== verification/Vta_Vmem.thy ===== *)
theory Vta_Vmem
  imports Prelude
begin

text \<open>
  The simulated device memory (\<open>virtual_memory.cc\<close>, \<open>virtual_memory.h\<close>): a page table from 4 KiB
  physical page numbers to host allocations, the map from host addresses to pages, and the free map
  that recycles them. Host addresses and sizes are 64-bit words, physical addresses 32-bit words
  (\<open>vta_phy_addr_t\<close>). The address that \<open>operator new\<close> returns is an argument of \<open>Alloc\<close>, with the
  freshness of a new allocation as a hypothesis (\<open>fresh\<close>); the mutex serialises the operations and
  has no other effect. A \<open>Page*\<close> in the table is the page value itself: pages are immutable and
  never null. Invariant \<open>vmm_wf\<close>, translation round trip, and disjointness of what \<open>Alloc\<close> hands out.
\<close>

section \<open>State\<close>

definition VTA_PAGE_BITS :: nat where [spec_consts]: "VTA_PAGE_BITS = 12"
definition VTA_PAGE_BYTES :: u64 where [spec_consts]: "VTA_PAGE_BYTES = 4096"

record Page =
  ptable_begin :: u64
  num_pages :: u64
  data :: u64

record vmm =
  ptable :: "Page list"
  pmap :: "(u64 \<times> Page) list"
  free_map :: "(u64 \<times> Page) list"

definition vmm_init :: vmm where
  "vmm_init = \<lparr>ptable = [], pmap = [], free_map = []\<rparr>"

section \<open>Operations\<close>

definition GetAddr :: "u64 \<Rightarrow> vmm \<Rightarrow> u64 res" where
  "GetAddr phy_addr s =
    res_bind (check (phy_addr \<noteq> 0) ''phy_addr != 0'') (\<lambda>_.
    let loc = drop_bit VTA_PAGE_BITS phy_addr - 1 in
    res_bind (check (unat loc < length (ptable s)) ''loc < ptable_.size()'') (\<lambda>_.
    let p = ptable s ! unat loc;
        offset = push_bit VTA_PAGE_BITS (loc - ptable_begin p) + and phy_addr (VTA_PAGE_BYTES - 1)
    in Inr (data p + offset)))"

definition in_block :: "u64 \<Rightarrow> u64 \<times> Page \<Rightarrow> bool" where
  "in_block buf e = (fst e \<le> buf \<and> buf < fst e + push_bit VTA_PAGE_BITS (num_pages (snd e)))"

definition GetPhyAddr :: "u64 \<Rightarrow> vmm \<Rightarrow> u32 res" where
  "GetPhyAddr buf s =
    res_bind
      (case map_of (pmap s) buf of
         Some p \<Rightarrow> Inr (p, 0)
       | None \<Rightarrow> (case List.find (in_block buf) (pmap s) of
            Some e \<Rightarrow> Inr (snd e, buf - fst e)
          | None \<Rightarrow> Inl (CheckFailed ''it != pmap_.end()'')))
      (\<lambda>(p, offset). Inr (ucast (push_bit VTA_PAGE_BITS (ptable_begin p + 1) + offset)))"

text \<open>\<open>std::multimap\<close>: sorted by key, an inserted element follows the ones of equal key.\<close>

fun mm_insert :: "u64 \<Rightarrow> Page \<Rightarrow> (u64 \<times> Page) list \<Rightarrow> (u64 \<times> Page) list" where
  "mm_insert k p [] = [(k, p)]"
| "mm_insert k p (e # es) = (if fst e \<le> k then e # mm_insert k p es else (k, p) # e # es)"

fun mm_take :: "u64 \<Rightarrow> (u64 \<times> Page) list \<Rightarrow> (Page \<times> (u64 \<times> Page) list) option" where
  "mm_take k [] = None"
| "mm_take k (e # es) =
    (if k \<le> fst e then Some (snd e, es)
     else map_option (\<lambda>(p, rest). (p, e # rest)) (mm_take k es))"

definition npages :: "u64 \<Rightarrow> u64" where
  "npages sz = (sz + VTA_PAGE_BYTES - 1) div VTA_PAGE_BYTES"

definition new_page :: "u64 \<Rightarrow> u64 \<Rightarrow> u64 \<Rightarrow> Page" where
  "new_page start npage addr = \<lparr>ptable_begin = start, num_pages = npage, data = addr\<rparr>"

definition Alloc :: "u64 \<Rightarrow> u64 \<Rightarrow> vmm \<Rightarrow> u64 \<times> vmm" where
  "Alloc addr sz s =
    (case mm_take (npages sz) (free_map s) of
       Some (p, rest) \<Rightarrow> (data p, s\<lparr>free_map := rest\<rparr>)
     | None \<Rightarrow>
         let p = new_page (word_of_nat (length (ptable s))) (npages sz) addr in
         (data p, s\<lparr>ptable := ptable s @ replicate (unat (npages sz)) p,
                    pmap := (data p, p) # filter (\<lambda>e. fst e \<noteq> data p) (pmap s)\<rparr>))"

definition Free :: "u64 \<Rightarrow> vmm \<Rightarrow> vmm res" where
  "Free addr s =
    (if pmap s = [] then Inr s
     else case map_of (pmap s) addr of
       None \<Rightarrow> Inl (CheckFailed ''it != pmap_.end()'')
     | Some p \<Rightarrow> Inr (s\<lparr>free_map := mm_insert (num_pages p) p (free_map s)\<rparr>))"

definition MemCopyFromHost :: "u64 \<Rightarrow> bytes \<Rightarrow> vmm \<Rightarrow> host \<Rightarrow> host res" where
  "MemCopyFromHost dst src s h = res_bind (GetAddr dst s) (\<lambda>a. Inr (mem_write h a src))"

definition MemCopyToHost :: "u64 \<Rightarrow> nat \<Rightarrow> vmm \<Rightarrow> host \<Rightarrow> bytes res" where
  "MemCopyToHost src sz s h = res_bind (GetAddr src s) (\<lambda>a. Inr (mem_read h a sz))"

section \<open>Invariant\<close>

definition pg_begin :: "Page \<Rightarrow> nat" where "pg_begin p = unat (ptable_begin p)"
definition pg_bytes :: "Page \<Rightarrow> nat" where "pg_bytes p = unat (num_pages p) * 4096"

text \<open>The bytes of an allocation; an allocation of zero pages still owns its address.\<close>

definition extent :: "Page \<Rightarrow> nat set" where
  "extent p = {unat (data p) ..< unat (data p) + max 1 (pg_bytes p)}"

definition page_wf :: "vmm \<Rightarrow> Page \<Rightarrow> bool" where
  "page_wf s p =
    (unat (data p) + pg_bytes p < 2 ^ 64 \<and> data p \<noteq> 0 \<and>
     pg_begin p + unat (num_pages p) \<le> length (ptable s) \<and>
     (\<forall>i < unat (num_pages p). ptable s ! (pg_begin p + i) = p))"

definition table_wf :: "vmm \<Rightarrow> bool" where
  "table_wf s =
    ((\<forall>e \<in> set (pmap s). fst e = data (snd e) \<and> page_wf s (snd e)) \<and>
     distinct (map fst (pmap s)) \<and>
     (\<forall>e \<in> set (pmap s). \<forall>e' \<in> set (pmap s).
        e \<noteq> e' \<longrightarrow> extent (snd e) \<inter> extent (snd e') = {}) \<and>
     (\<forall>loc < length (ptable s). \<exists>e \<in> set (pmap s).
        ptable s ! loc = snd e \<and> pg_begin (snd e) \<le> loc \<and>
        loc < pg_begin (snd e) + unat (num_pages (snd e))) \<and>
     length (ptable s) < 2 ^ 52)"

definition free_wf :: "(u64 \<times> Page) list \<Rightarrow> (u64 \<times> Page) list \<Rightarrow> bool" where
  "free_wf m es =
    ((\<forall>e \<in> set es. fst e = num_pages (snd e) \<and> (data (snd e), snd e) \<in> set m) \<and>
     distinct es \<and> sorted (map fst es))"

definition vmm_wf :: "vmm \<Rightarrow> bool" where
  "vmm_wf s = (table_wf s \<and> free_wf (pmap s) (free_map s))"

definition live :: "vmm \<Rightarrow> Page set" where
  "live s = snd ` set (pmap s) - snd ` set (free_map s)"

definition fresh :: "u64 \<Rightarrow> u64 \<Rightarrow> vmm \<Rightarrow> bool" where
  "fresh addr sz s =
    (addr \<noteq> 0 \<and> unat addr + unat (npages sz) * 4096 < 2 ^ 64 \<and>
     length (ptable s) + unat (npages sz) < 2 ^ 52 \<and>
     (\<forall>e \<in> set (pmap s). extent (snd e) \<inter>
        {unat addr ..< unat addr + max 1 (unat (npages sz) * 4096)} = {}))"

text \<open>The runs of a client that frees only what it holds: \<open>own\<close> records the requested sizes.\<close>

inductive vmm_run :: "(u64 \<Rightarrow> u64 option) \<Rightarrow> vmm \<Rightarrow> bool" where
  run_init: "vmm_run (\<lambda>_. None) vmm_init"
| run_alloc: "vmm_run own s \<Longrightarrow> fresh addr sz s \<Longrightarrow> unat sz + 4095 < 2 ^ 64 \<Longrightarrow>
    Alloc addr sz s = (a, s') \<Longrightarrow> vmm_run (own(a \<mapsto> sz)) s'"
| run_free: "vmm_run own s \<Longrightarrow> own a = Some sz \<Longrightarrow> Free a s = Inr s' \<Longrightarrow> vmm_run (own(a := None)) s'"

section \<open>The free map\<close>

lemma set_mm_insert [simp]: "set (mm_insert k p es) = insert (k, p) (set es)"
  by (induction es) auto

lemma sorted_mm_insert: "sorted (map fst es) \<Longrightarrow> sorted (map fst (mm_insert k p es))"
  by (induction es) (auto simp: not_le)

lemma distinct_mm_insert: "distinct es \<Longrightarrow> (k, p) \<notin> set es \<Longrightarrow> distinct (mm_insert k p es)"
  by (induction es) auto

lemma mm_take_Some:
  "mm_take k es = Some (p, rest) \<Longrightarrow>
   \<exists>pre post n. es = pre @ (n, p) # post \<and> rest = pre @ post \<and> k \<le> n"
proof (induction es arbitrary: p rest)
  case (Cons e es)
  show ?case
  proof (cases "k \<le> fst e")
    case True
    with Cons.prems show ?thesis by (intro exI [of _ "[]"] exI [of _ es]) (cases e, auto)
  next
    case False
    with Cons.prems obtain r where r: "mm_take k es = Some (p, r)" "rest = e # r"
      by (auto simp: split_def)
    from Cons.IH [OF r(1)] obtain pre post n
      where "es = pre @ (n, p) # post" "r = pre @ post" "k \<le> n" by blast
    with r(2) show ?thesis by (intro exI [of _ "e # pre"] exI [of _ post] exI [of _ n]) simp
  qed
qed simp

lemma mm_take_None: "mm_take k es = None \<Longrightarrow> e \<in> set es \<Longrightarrow> fst e < k"
  by (induction es) (auto simp: not_le split: if_splits)

section \<open>Every operation keeps the invariant\<close>

lemma vmm_wf_init [simp]: "vmm_wf vmm_init"
  by (simp add: vmm_wf_def table_wf_def free_wf_def vmm_init_def)

lemma table_wf_pageD:
  assumes "table_wf s" "(a, p) \<in> set (pmap s)"
  shows "a = data p" "page_wf s p"
  using assms by (force simp: table_wf_def)+

lemma table_wf_free_map [simp]: "table_wf (s\<lparr>free_map := es\<rparr>) = table_wf s"
  by (simp add: table_wf_def page_wf_def)

lemma free_wf_split:
  "free_wf m (pre @ (n, p) # post) \<Longrightarrow>
   free_wf m (pre @ post) \<and> p \<notin> snd ` set (pre @ post) \<and> n = num_pages p \<and> (data p, p) \<in> set m"
  unfolding free_wf_def
proof (intro conjI)
  assume h: "(\<forall>e \<in> set (pre @ (n, p) # post). fst e = num_pages (snd e) \<and> (data (snd e), snd e) \<in> set m) \<and>
    distinct (pre @ (n, p) # post) \<and> sorted (map fst (pre @ (n, p) # post))"
  then show "n = num_pages p" "(data p, p) \<in> set m" "distinct (pre @ post)"
    "\<forall>e \<in> set (pre @ post). fst e = num_pages (snd e) \<and> (data (snd e), snd e) \<in> set m" by auto
  from h have "sorted (map fst (pre @ (n, p) # post))" by blast
  then show "sorted (map fst (pre @ post))" by (simp add: sorted_append)
  show "p \<notin> snd ` set (pre @ post)"
  proof
    assume "p \<in> snd ` set (pre @ post)"
    then obtain e where e: "e \<in> set (pre @ post)" "p = snd e" by blast
    with h have "fst e = num_pages p" "n = num_pages p" by auto
    with e(2) have "e = (n, p)" by (simp add: prod_eq_iff)
    with e(1) h show False by auto
  qed
qed

lemma free_wf_insert:
  "free_wf m es \<Longrightarrow> (data p, p) \<in> set m \<Longrightarrow> p \<notin> snd ` set es \<Longrightarrow>
   free_wf m (mm_insert (num_pages p) p es)"
  by (auto simp: free_wf_def sorted_mm_insert intro!: distinct_mm_insert) (force simp: image_iff)

lemma vmm_wf_take_free:
  assumes "vmm_wf s" "mm_take k (free_map s) = Some (p, rest)"
  shows "vmm_wf (s\<lparr>free_map := rest\<rparr>)" "p \<notin> live s"
    "live (s\<lparr>free_map := rest\<rparr>) = insert p (live s)" "k \<le> num_pages p"
proof -
  from mm_take_Some [OF assms(2)] obtain pre post n where
    es: "free_map s = pre @ (n, p) # post" "rest = pre @ post" "k \<le> n" by blast
  then have f: "free_wf (pmap s) rest" "p \<notin> snd ` set rest" "n = num_pages p" "(data p, p) \<in> set (pmap s)"
    using assms(1) free_wf_split [of "pmap s" pre n p post] by (auto simp: vmm_wf_def)
  show "vmm_wf (s\<lparr>free_map := rest\<rparr>)" using assms(1) f by (simp add: vmm_wf_def)
  show "p \<notin> live s" using es(1) by (simp add: live_def)
  show "live (s\<lparr>free_map := rest\<rparr>) = insert p (live s)"
    using f(2,4) es by (force simp: live_def)
  show "k \<le> num_pages p" using es(3) f(3) by simp
qed


lemma fresh_extent:
  assumes "fresh addr sz s" "e \<in> set (pmap s)" "p = new_page b (npages sz) addr"
  shows "extent (snd e) \<inter> extent p = {}"
  using assms by (auto simp: fresh_def extent_def pg_bytes_def new_page_def)

lemma data_in_extent [simp]: "unat (data p) \<in> extent p"
  by (simp add: extent_def)

lemma fresh_not_key:
  assumes "table_wf s" "fresh addr sz s"
  shows "filter (\<lambda>e. fst e \<noteq> addr) (pmap s) = pmap s"
proof (rule filter_True, intro ballI notI)
  fix e assume e: "e \<in> set (pmap s)" "fst e = addr"
  then have "addr = data (snd e)" using assms(1) by (auto simp: table_wf_def)
  then have "unat addr \<in> extent (snd e)" by simp
  moreover have "unat addr \<in> extent (new_page 0 (npages sz) addr)" by (simp add: extent_def new_page_def)
  ultimately show False using fresh_extent [OF assms(2) e(1) refl, of 0] by blast
qed

lemma table_wf_new_page:
  assumes wf: "table_wf s" and fr: "fresh addr sz s"
    and p: "p = new_page (word_of_nat (length (ptable s))) (npages sz) addr"
  shows "table_wf (s\<lparr>ptable := ptable s @ replicate (unat (npages sz)) p, pmap := (addr, p) # pmap s\<rparr>)"
    (is "table_wf ?t")
proof -
  have len: "length (ptable s) < 2 ^ 52" using wf by (simp add: table_wf_def)
  then have b: "pg_begin p = length (ptable s)" "num_pages p = npages sz" "data p = addr"
    by (simp_all add: p new_page_def pg_begin_def unat_of_nat take_bit_nat_eq_self)
  have dis: "extent (snd e) \<inter> extent p = {}" if "e \<in> set (pmap s)" for e
    by (rule fresh_extent [OF fr that p])
  have old: "\<And>e e'. e \<in> set (pmap s) \<Longrightarrow> e' \<in> set (pmap s) \<Longrightarrow> e \<noteq> e' \<Longrightarrow>
      extent (snd e) \<inter> extent (snd e') = {}"
    using wf by (auto simp: table_wf_def)
  have key: "addr \<notin> fst ` set (pmap s)"
    using fresh_not_key [OF wf fr] by (auto simp: filter_id_conv)
  have "page_wf ?t p" using fr b by (simp add: page_wf_def fresh_def pg_bytes_def nth_append)
  moreover have "page_wf ?t (snd e)" if "e \<in> set (pmap s)" for e
    using that wf by (auto simp: table_wf_def page_wf_def nth_append)
  moreover have "\<exists>e \<in> set (pmap ?t). ptable ?t ! loc = snd e \<and> pg_begin (snd e) \<le> loc \<and>
      loc < pg_begin (snd e) + unat (num_pages (snd e))" if "loc < length (ptable ?t)" for loc
  proof (cases "loc < length (ptable s)")
    case True
    with wf show ?thesis by (fastforce simp: table_wf_def nth_append)
  next
    case False
    with that b show ?thesis by (intro bexI [of _ "(addr, p)"]) (auto simp: nth_append)
  qed
  moreover have "e \<noteq> e' \<Longrightarrow> extent (snd e) \<inter> extent (snd e') = {}"
    if "e \<in> set (pmap ?t)" "e' \<in> set (pmap ?t)" for e e'
    using that dis old by (cases "e \<in> set (pmap s)"; cases "e' \<in> set (pmap s)") (auto simp: Int_commute)
  ultimately show ?thesis
    using wf key b(3) fr unfolding table_wf_def by (simp add: fresh_def)
qed

lemma free_wf_mono: "free_wf m es \<Longrightarrow> free_wf (e # m) es"
  by (auto simp: free_wf_def)

text \<open>What \<open>Alloc\<close> returns, in both of its branches: a page that was not live and now is.\<close>

lemma Alloc_cases:
  assumes "vmm_wf s" "fresh addr sz s" "Alloc addr sz s = (a, s')"
  shows "vmm_wf s'" "\<exists>p. a = data p \<and> p \<notin> live s \<and> live s' = insert p (live s) \<and> npages sz \<le> num_pages p"
proof -
  have "vmm_wf s' \<and> (\<exists>p. a = data p \<and> p \<notin> live s \<and> live s' = insert p (live s) \<and> npages sz \<le> num_pages p)"
  proof (cases "mm_take (npages sz) (free_map s)")
    case (Some q)
    then obtain p rest where "mm_take (npages sz) (free_map s) = Some (p, rest)" by (cases q) auto
    with vmm_wf_take_free [OF assms(1) this] assms(3) show ?thesis
      by (intro conjI exI [of _ p]) (auto simp: Alloc_def)
  next
    case None
    define p where "p = new_page (word_of_nat (length (ptable s))) (npages sz) addr"
    have t: "table_wf s" using assms(1) by (simp add: vmm_wf_def)
    have s': "a = addr" "s' = s\<lparr>ptable := ptable s @ replicate (unat (npages sz)) p, pmap := (addr, p) # pmap s\<rparr>"
      using None assms(3) fresh_not_key [OF t assms(2)]
      by (auto simp: Alloc_def p_def Let_def new_page_def)
    have p: "data p = addr" "num_pages p = npages sz" by (simp_all add: p_def new_page_def)
    have new: "p \<notin> snd ` set (pmap s)"
      using fresh_extent [OF assms(2) _ p_def] data_in_extent by blast
    then have nf: "p \<notin> snd ` set (free_map s)"
      using assms(1) by (force simp: vmm_wf_def free_wf_def)
    have "vmm_wf s'" using table_wf_new_page [OF t assms(2) p_def] assms(1) s'(2)
      by (simp add: vmm_wf_def free_wf_mono)
    moreover have "live s' = insert p (live s)" using nf s'(2) by (auto simp: live_def)
    ultimately show ?thesis using p s'(1) new by (auto simp: live_def)
  qed
  then show "vmm_wf s'" "\<exists>p. a = data p \<and> p \<notin> live s \<and> live s' = insert p (live s) \<and> npages sz \<le> num_pages p"
    by auto
qed

lemma Free_live:
  assumes "vmm_wf s" "p \<in> live s"
  shows "\<exists>s'. Free (data p) s = Inr s' \<and> vmm_wf s' \<and> live s' = live s - {p}"
proof -
  have m: "(data p, p) \<in> set (pmap s)" and nf: "p \<notin> snd ` set (free_map s)"
    using assms by (auto simp: live_def vmm_wf_def dest: table_wf_pageD)
  have "map_of (pmap s) (data p) = Some p"
    using m assms(1) by (simp add: vmm_wf_def table_wf_def)
  then have "Free (data p) s = Inr (s\<lparr>free_map := mm_insert (num_pages p) p (free_map s)\<rparr>)"
    using m by (auto simp: Free_def)
  moreover have "vmm_wf (s\<lparr>free_map := mm_insert (num_pages p) p (free_map s)\<rparr>)"
    using assms(1) m nf by (simp add: vmm_wf_def free_wf_insert)
  ultimately show ?thesis by (auto simp: live_def)
qed

section \<open>Translation\<close>

lemma in_block_iff:
  assumes "page_wf s p"
  shows "in_block buf (data p, p) = (unat (data p) \<le> unat buf \<and> unat buf < unat (data p) + pg_bytes p)"
proof -
  have "unat (num_pages p) * 2 ^ 12 < 2 ^ 64" using assms by (simp add: page_wf_def pg_bytes_def)
  then have "unat (push_bit 12 (num_pages p)) = pg_bytes p"
    using unat_push_bit_exact [of "num_pages p" 12] by (simp add: pg_bytes_def)
  moreover from this have "unat (data p + push_bit 12 (num_pages p)) = unat (data p) + pg_bytes p"
    using assms by (simp add: page_wf_def unat_word_ariths(1))
  ultimately show ?thesis by (simp add: in_block_def spec_consts word_le_nat_alt word_less_nat_alt)
qed


lemma extent_unique:
  assumes "table_wf s" "(a, p) \<in> set (pmap s)" "(b, q) \<in> set (pmap s)" "x \<in> extent p" "x \<in> extent q"
  shows "p = q" "a = b"
proof -
  have "(a, p) = (b, q)"
    using assms unfolding table_wf_def by (metis IntI empty_iff snd_conv)
  then show "p = q" "a = b" by simp_all
qed

definition phys_of :: "Page \<Rightarrow> nat \<Rightarrow> nat" where
  "phys_of p off = (pg_begin p + 1) * 4096 + off"

lemma GetPhyAddr_in_page:
  assumes wf: "table_wf s" and m: "(data p, p) \<in> set (pmap s)"
    and off: "off < max 1 (pg_bytes p)" and buf: "buf = data p + word_of_nat off"
  shows "GetPhyAddr buf s = Inr (word_of_nat (phys_of p off))"
proof -
  have pw: "page_wf s p" using table_wf_pageD [OF wf m] by simp
  have o: "unat (data p) + off < 2 ^ 64" and o': "off < 2 ^ 64" using pw off by (auto simp: page_wf_def)
  have ub: "unat buf = unat (data p) + off"
    using o o' by (simp add: buf unat_word_ariths(1) unat_of_nat)
  then have ext: "unat buf \<in> extent p" using off by (simp add: extent_def)
  have dif: "buf - data p = word_of_nat off" by (simp add: buf)
  have beg: "ptable_begin p = word_of_nat (pg_begin p)" by (simp add: pg_begin_def)
  have "push_bit 12 (ptable_begin p + 1) + word_of_nat off = (word_of_nat (phys_of p off) :: u64)"
    by (simp add: phys_of_def beg push_bit_eq_mult algebra_simps)
  then have phys: "ucast (push_bit 12 (ptable_begin p + 1) + word_of_nat off) = (word_of_nat (phys_of p off) :: u32)"
    by (simp add: ucast_word_of_nat_32)
  show ?thesis
  proof (cases "map_of (pmap s) buf")
    case (Some q)
    then have q: "(buf, q) \<in> set (pmap s)" by (rule map_of_SomeD)
    with wf have "data q = buf" using table_wf_pageD by blast
    then have "q = p" using extent_unique [OF wf q m _ ext] data_in_extent [of q] by simp
    with \<open>data q = buf\<close> ub o' have "off = 0" by simp
    with phys Some \<open>q = p\<close> show ?thesis by (simp add: GetPhyAddr_def spec_consts)
  next
    case None
    have "off \<noteq> 0" using None m buf by (intro notI) (force simp: map_of_eq_None_iff)
    with off have "in_block buf (data p, p)" using ub by (simp add: in_block_iff [OF pw])
    then obtain e where e: "List.find (in_block buf) (pmap s) = Some e"
      using m by (cases "List.find (in_block buf) (pmap s)") (auto simp: find_None_iff)
    then have ein: "e \<in> set (pmap s)" "in_block buf e" by (auto simp: find_Some_iff)
    obtain a q where eq: "e = (a, q)" by (cases e)
    have aq: "a = data q" "page_wf s q" using table_wf_pageD [OF wf] ein(1) eq by auto
    then have "unat buf \<in> extent q" using ein(2) eq by (auto simp: in_block_iff extent_def)
    then have "q = p" using extent_unique [OF wf _ m _ ext] ein(1) eq by blast
    with phys None e eq aq dif show ?thesis by (simp add: GetPhyAddr_def spec_consts)
  qed
qed

lemma GetAddr_phys:
  assumes wf: "table_wf s" and m: "(data p, p) \<in> set (pmap s)" and off: "off < pg_bytes p"
  shows "GetAddr (word_of_nat (phys_of p off)) s = Inr (data p + word_of_nat off)"
proof -
  have pw: "page_wf s p" using table_wf_pageD [OF wf m] by simp
  have len: "pg_begin p + unat (num_pages p) \<le> length (ptable s)" "length (ptable s) < 2 ^ 52"
    and tab: "\<And>i. i < unat (num_pages p) \<Longrightarrow> ptable s ! (pg_begin p + i) = p"
    using pw wf by (auto simp: page_wf_def table_wf_def)
  have div: "off div 4096 < unat (num_pages p)"
    using off by (simp add: pg_bytes_def less_mult_imp_div_less)
  define ph where "ph = phys_of p off"
  have dph: "ph div 4096 = pg_begin p + off div 4096 + 1" and mph: "ph mod 4096 = off mod 4096"
    by (simp_all only: ph_def phys_of_def mod_mult_self3) simp
  have "ph div 4096 < 2 ^ 52" using dph div len by simp
  then have small: "ph < 2 ^ 64" by (simp add: div_less_iff_less_mult)
  define loc :: u64 where "loc = drop_bit 12 (word_of_nat ph) - 1"
  have "drop_bit 12 (word_of_nat ph :: u64) = word_of_nat (pg_begin p + off div 4096 + 1)"
    using small dph \<open>ph div 4096 < 2 ^ 52\<close> by (intro word_unat_eq_iff [THEN iffD2])
      (simp add: unat_drop_bit unat_word_of_nat_small del: of_nat_add of_nat_Suc)
  then have loc: "loc = word_of_nat (pg_begin p + off div 4096)" by (simp add: loc_def)
  have uloc: "unat loc = pg_begin p + off div 4096"
    using div len by (simp add: loc unat_word_of_nat_small del: of_nat_add)
  have diff: "loc - ptable_begin p = word_of_nat (off div 4096)"
    by (simp add: loc pg_begin_def)
  have "and (word_of_nat ph) 4095 = (word_of_nat (off mod 4096) :: u64)"
    using small mph by (intro word_unat_eq_iff [THEN iffD2])
      (simp add: unat_and_4095 unat_word_of_nat_small)
  then have "push_bit 12 (loc - ptable_begin p) + and (word_of_nat ph) 4095 = (word_of_nat off :: u64)"
    using word_of_nat_div_mod [where 'a = 64, of off 4096] by (simp add: diff push_bit_eq_mult)
  moreover have "(word_of_nat ph :: u64) \<noteq> 0"
    using small dph by (intro notI) (auto dest!: arg_cong [where f = unat] simp: unat_word_of_nat_small)
  ultimately show ?thesis
    using uloc div len tab by (simp add: GetAddr_def spec_consts Let_def ph_def [symmetric] loc_def [symmetric])
qed

section \<open>Runs\<close>

definition owns :: "(u64 \<Rightarrow> u64 option) \<Rightarrow> vmm \<Rightarrow> bool" where
  "owns own s = (vmm_wf s \<and> inj_on data (live s) \<and> data ` live s = dom own \<and>
     (\<forall>p \<in> live s. \<forall>sz. own (data p) = Some sz \<longrightarrow> unat sz \<le> pg_bytes p))"

lemma npages_enough: "unat sz + 4095 < 2 ^ 64 \<Longrightarrow> npages sz \<le> num_pages p \<Longrightarrow> unat sz \<le> pg_bytes p"
proof -
  assume a: "unat sz + 4095 < 2 ^ 64" and b: "npages sz \<le> num_pages p"
  have "unat (sz + VTA_PAGE_BYTES - 1) = unat sz + 4095"
    using a by (simp add: spec_consts unat_word_ariths(1))
  then have "unat (npages sz) = (unat sz + 4095) div 4096"
    by (simp add: npages_def unat_div) (simp add: spec_consts)
  then have "unat sz \<le> unat (npages sz) * 4096" by simp
  with b show ?thesis by (simp add: pg_bytes_def word_le_nat_alt)
qed

lemma live_disjoint:
  assumes "vmm_wf s" "p \<in> live s" "q \<in> live s" "p \<noteq> q"
  shows "extent p \<inter> extent q = {}"
  using assms by (auto simp: vmm_wf_def live_def dest: extent_unique)

lemma owns_Alloc:
  assumes o: "owns own s" and "fresh addr sz s" "unat sz + 4095 < 2 ^ 64" "Alloc addr sz s = (a, s')"
  shows "own a = None" "owns (own(a \<mapsto> sz)) s'"
proof -
  have wf: "vmm_wf s" using o by (simp add: owns_def)
  from Alloc_cases [OF wf assms(2,4)] obtain p where
    p: "vmm_wf s'" "a = data p" "p \<notin> live s" "live s' = insert p (live s)" "npages sz \<le> num_pages p" by blast
  have new: "a \<notin> data ` live s"
  proof
    assume "a \<in> data ` live s"
    then obtain q where q: "q \<in> live s" "data q = data p" using p(2) by auto
    with p have "extent p \<inter> extent q = {}" by (intro live_disjoint [OF p(1)]) auto
    with q(2) data_in_extent [of p] data_in_extent [of q] show False by (metis IntI empty_iff)
  qed
  then show "own a = None" using o by (auto simp: owns_def)
  have "data q \<noteq> data p" if "q \<in> live s" for q using new p(2) that by (metis imageI)
  then show "owns (own(a \<mapsto> sz)) s'"
    using o p new npages_enough [OF assms(3) p(5)] by (auto simp: owns_def)
qed

lemma owns_Free:
  assumes o: "owns own s" and "own a = Some sz"
  shows "\<exists>s'. Free a s = Inr s' \<and> owns (own(a := None)) s'"
proof -
  have "a \<in> data ` live s" using assms by (auto simp: owns_def)
  then obtain p where p: "p \<in> live s" "a = data p" by auto
  from Free_live [of s p] o p obtain s' where
    s': "Free a s = Inr s'" "vmm_wf s'" "live s' = live s - {p}" by (auto simp: owns_def)
  have "data ` (live s - {p}) = data ` live s - {a}"
    using o p by (auto simp: owns_def inj_on_def)
  with s' o p have "owns (own(a := None)) s'"
    by (auto simp: owns_def inj_on_diff)
  with s'(1) show ?thesis by blast
qed

lemma vmm_run_owns: "vmm_run own s \<Longrightarrow> owns own s"
proof (induction rule: vmm_run.induct)
  case run_init
  show ?case by (simp add: owns_def live_def) (simp add: vmm_init_def)
next
  case (run_alloc own s addr sz a s')
  then show ?case using owns_Alloc(2) by blast
next
  case (run_free own s a sz s')
  then show ?case using owns_Free [of own s a sz] by (auto simp del: fun_upd_apply)
qed

lemma vmm_run_block:
  assumes "vmm_run own s" "own a = Some n"
  obtains p where "p \<in> live s" "a = data p" "unat n \<le> pg_bytes p" "(data p, p) \<in> set (pmap s)" "table_wf s"
proof -
  have o: "owns own s" by (rule vmm_run_owns [OF assms(1)])
  then have "a \<in> data ` live s" using assms(2) by (auto simp: owns_def)
  then obtain p where p: "p \<in> live s" "a = data p" by auto
  with o assms(2) that [of p] show thesis
    by (auto simp: owns_def vmm_wf_def live_def dest: table_wf_pageD)
qed

lemma vmm_run_disjoint:
  assumes "vmm_run own s" "own a = Some n" "own b = Some m" "a \<noteq> b"
  shows "{unat a ..< unat a + unat n} \<inter> {unat b ..< unat b + unat m} = {}"
proof -
  obtain p q where p: "p \<in> live s" "a = data p" "unat n \<le> pg_bytes p"
    and q: "q \<in> live s" "b = data q" "unat m \<le> pg_bytes q"
    using vmm_run_block [OF assms(1,2)] vmm_run_block [OF assms(1,3)] by metis
  have "extent p \<inter> extent q = {}"
    using live_disjoint [of s p q] vmm_run_owns [OF assms(1)] p q assms(4) by (auto simp: owns_def)
  moreover have "{unat a ..< unat a + unat n} \<subseteq> extent p" "{unat b ..< unat b + unat m} \<subseteq> extent q"
    using p q by (auto simp: extent_def)
  ultimately show ?thesis by blast
qed

lemma vmm_run_byte:
  assumes "vmm_run own s" "own a = Some n" "i < unat n"
  shows "unat (a + word_of_nat i) = unat a + i"
proof -
  obtain p where p: "a = data p" "unat n \<le> pg_bytes p" "(data p, p) \<in> set (pmap s)" "table_wf s"
    using vmm_run_block [OF assms(1,2)] by metis
  with assms(3) have "unat a + i < 2 ^ 64" using table_wf_pageD(2) [OF p(4,3)] by (simp add: page_wf_def)
  then show ?thesis by (simp add: unat_word_ariths(1) unat_of_nat)
qed

lemma GetAddr_owned:
  assumes "vmm_run own s" "own a = Some n" "i < unat n" "length (ptable s) < 2 ^ 20 - 1"
  shows "\<exists>ph. GetPhyAddr (a + word_of_nat i) s = Inr ph \<and> GetAddr (ucast ph) s = Inr (a + word_of_nat i)"
proof -
  obtain p where p: "a = data p" "unat n \<le> pg_bytes p" "(data p, p) \<in> set (pmap s)" "table_wf s"
    using vmm_run_block [OF assms(1,2)] by metis
  have off: "i < pg_bytes p" using p assms(3) by simp
  have "pg_begin p + unat (num_pages p) < 2 ^ 20 - 1"
    using table_wf_pageD(2) [OF p(4,3)] assms(4) by (simp add: page_wf_def)
  then have "phys_of p i < 2 ^ 32" using off by (simp add: phys_of_def pg_bytes_def)
  then have "ucast (word_of_nat (phys_of p i) :: u32) = (word_of_nat (phys_of p i) :: u64)"
    by (simp add: unsigned_of_nat take_bit_nat_eq_self)
  with GetPhyAddr_in_page [OF p(4,3), of i] GetAddr_phys [OF p(4,3) off] off p(1) show ?thesis by simp
qed

definition sample_vmm :: vmm where
  "sample_vmm = snd (Alloc 0x20000 100 (snd (Alloc 0x10000 5000 vmm_init)))"

lemma sample_vmm_value: "sample_vmm = \<lparr>ptable = replicate 2 (new_page 0 2 0x10000) @ [new_page 2 1 0x20000],
   pmap = [(0x20000, new_page 2 1 0x20000), (0x10000, new_page 0 2 0x10000)], free_map = []\<rparr>"
  by (simp add: sample_vmm_def Alloc_def vmm_init_def npages_def spec_consts new_page_def Let_def)

lemma sample_vmm_length: "length (ptable sample_vmm) = 3"
  by (simp add: sample_vmm_value)

lemma sample_vmm_run: "vmm_run [0x10000 \<mapsto> 5000, 0x20000 \<mapsto> 100] sample_vmm"
proof -
  have "vmm_run [0x10000 \<mapsto> 5000] (snd (Alloc 0x10000 5000 vmm_init))"
    by (rule run_alloc [OF run_init, of "0x10000" 5000])
      (simp_all add: fresh_def vmm_init_def npages_def spec_consts Alloc_def Let_def new_page_def)
  then show ?thesis unfolding sample_vmm_def
    by (rule run_alloc [where addr = "0x20000" and sz = 100])
      (simp_all add: fresh_def vmm_init_def npages_def spec_consts Alloc_def Let_def new_page_def
         extent_def pg_bytes_def)
qed

section \<open>Properties\<close>



text \<open>C14: for every byte of an allocation the client holds, \<open>GetPhyAddr\<close> succeeds and \<open>GetAddr\<close> maps
  its 32-bit physical address back to the same host address, as long as the page table stays below
  the \<open>2^20\<close> pages that 32 bits can name.\<close>

theorem vmm_translation_roundtrip:
  assumes "vmm_run own s" "own a = Some n" "i < unat n" "length (ptable s) < 2 ^ 20 - 1"
  shows "res_bind (GetPhyAddr (a + word_of_nat i) s) (\<lambda>ph. GetAddr (ucast ph) s) = Inr (a + word_of_nat i)"
  using GetAddr_owned [OF assms] by auto

theorem vmm_translation_roundtrip_witness:
  "res_bind (GetPhyAddr (0x10000 + word_of_nat 4097) sample_vmm) (\<lambda>ph. GetAddr (ucast ph) sample_vmm)
   = Inr 0x11001"
  using vmm_translation_roundtrip [OF sample_vmm_run, of "0x10000" 5000 4097]
  by (simp add: sample_vmm_value)

text \<open>Data copied from the host to the physical address of an allocation the client holds is what a
  copy back returns, and no other allocation of the client changes.\<close>

lemma vmm_copy_roundtrip:
  assumes "vmm_run own s" "own a = Some n" "0 < length src" "length src \<le> unat n"
    and "length (ptable s) < 2 ^ 20 - 1"
  shows "\<exists>ph h'. GetPhyAddr a s = Inr ph \<and> MemCopyFromHost (ucast ph) src s h = Inr h' \<and>
           MemCopyToHost (ucast ph) (length src) s h' = Inr src \<and>
           (\<forall>b m i. own b = Some m \<and> b \<noteq> a \<and> i < unat m \<longrightarrow> h' (b + word_of_nat i) = h (b + word_of_nat i))"
proof -
  have n: "0 < unat n" using assms(3,4) by linarith
  have l: "length src \<le> 2 ^ 64" using assms(4) unat_less_width [of n] by simp
  obtain ph where ph: "GetPhyAddr a s = Inr ph" "GetAddr (ucast ph) s = Inr a"
    using GetAddr_owned [OF assms(1,2) n assms(5)] by auto
  have "mem_write h a src (b + word_of_nat i) = h (b + word_of_nat i)"
    if b: "own b = Some m" "b \<noteq> a" "i < unat m" for b m i
  proof (rule mem_write_other, intro allI impI notI)
    fix j assume j: "j < length src" "b + word_of_nat i = a + word_of_nat j"
    have "unat (b + word_of_nat i) \<in> {unat b ..< unat b + unat m}"
      using vmm_run_byte [OF assms(1) b(1,3)] b(3) by simp
    moreover have "unat (a + word_of_nat j) \<in> {unat a ..< unat a + unat n}"
      using vmm_run_byte [OF assms(1,2), of j] j(1) assms(4) by simp
    ultimately show False
      using vmm_run_disjoint [OF assms(1) b(1) assms(2) b(2)] j(2) by auto
  qed
  with ph l show ?thesis by (simp add: MemCopyFromHost_def MemCopyToHost_def mem_read_write)
qed

end
