(* ===== verification/Vta_Sim.thy ===== *)
theory Vta_Sim
  imports Vta_Tlpp Vta_Vmem
begin

text \<open>
  The functional simulator (\<open>sim_driver.cc\<close>): the bit packer, the on-chip memories with their 2-D
  loads and truncating stores, the execution of every instruction, the profiler and \<open>Device::Run\<close>.
  The data of \<open>SRAM<kBits, kLane, kMaxNumElem>\<close> is the flat list of its \<open>kMaxNumElem * kLane\<close> lanes,
  each a word of \<open>kBits\<close> bits (the bytes of the C++ array are the little-endian bytes of the lanes);
  DRAM is the host memory behind the translation of \<open>Vta_Vmem\<close>. 32-bit signed arithmetic is that of
  32-bit words (two's complement wrap-around, which GCC and Clang give it when it overflows); a
  shift by more than the width is a fault. \<open>spdlog\<close> messages have no effect on the state.
\<close>

unbundle bit_operations_syntax

section \<open>BitPacker\<close>

text \<open>\<open>data_\<close> as the 32-bit words it points to. On a little-endian machine element \<open>index\<close> of the
  8- and 16-bit views is the field of \<open>data_[index / kNumPackElem]\<close> at bit
  \<open>(index % kNumPackElem) * bits\<close>, the same field as in the sub-byte branch.\<close>

definition kNumPackElem :: "nat \<Rightarrow> nat" where
  "kNumPackElem bits = 32 div bits"

definition kMask :: "nat \<Rightarrow> u32" where
  "kMask bits = push_bit (if bits \<ge> 32 then 31 else bits) 1 - 1"

definition GetUnsigned :: "nat \<Rightarrow> u32 list \<Rightarrow> nat \<Rightarrow> u32" where
  "GetUnsigned bits ws index =
    (if bits = 32 then ws ! index
     else if bits = 16 \<or> bits = 8 then
       drop_bit (index mod kNumPackElem bits * bits) (ws ! (index div kNumPackElem bits)) AND kMask bits
     else
       drop_bit (index mod kNumPackElem bits) (ws ! (index div kNumPackElem bits)) AND kMask bits)"

definition GetSigned :: "nat \<Rightarrow> u32 list \<Rightarrow> nat \<Rightarrow> u32" where
  "GetSigned bits ws index =
    (if bits = 32 then ws ! index
     else let uvalue = drop_bit (index mod kNumPackElem bits * bits) (ws ! (index div kNumPackElem bits))
                    AND kMask bits;
              kleft = 32 - bits
          in signed_drop_bit kleft (push_bit kleft uvalue))"

definition SetUnsigned :: "nat \<Rightarrow> u32 list \<Rightarrow> nat \<Rightarrow> u32 \<Rightarrow> u32 list" where
  "SetUnsigned bits ws index v =
    (if bits = 32 then ws[index := v]
     else let offset = index div kNumPackElem bits; shift = index mod kNumPackElem bits * bits in
     ws[offset := (ws ! offset AND NOT (push_bit shift (kMask bits))) OR push_bit shift (v AND kMask bits)])"

definition SetSigned :: "nat \<Rightarrow> u32 list \<Rightarrow> nat \<Rightarrow> u32 \<Rightarrow> u32 list" where
  "SetSigned bits ws index v =
    (if bits = 32 then ws[index := v]
     else let offset = index div kNumPackElem bits; shift = index mod kNumPackElem bits * bits in
     ws[offset := (ws ! offset AND NOT (push_bit shift (kMask bits))) OR push_bit shift (v AND kMask bits)])"

section \<open>SRAM\<close>

text \<open>\<open>BeginPtr\<close>: the first lane of element \<open>index\<close>.\<close>

definition BeginPtr :: "nat \<Rightarrow> nat \<Rightarrow> nat \<Rightarrow> nat res" where
  "BeginPtr kLane kMaxNumElem index =
    res_bind (check (index < kMaxNumElem) ''index < kMaxNumElem'') (\<lambda>_. Inr (kLane * index))"

definition xtotal :: "VTAMemInsn \<Rightarrow> nat" where
  "xtotal op = unat (x_size op) + unat (x_pad_0 op) + unat (x_pad_1 op)"

definition ytotal :: "VTAMemInsn \<Rightarrow> nat" where
  "ytotal op = unat (y_size op) + unat (y_pad_0 op) + unat (y_pad_1 op)"

text \<open>The position in the SRAM (in elements) and in DRAM travel with the data, as the two pointers
  of the C++ loop do. \<open>rd a\<close> is the lane that the loop stores for the DRAM bytes at \<open>a\<close>, a lane taking
  \<open>lb\<close> bytes there.\<close>

definition memset0 :: "nat \<Rightarrow> nat \<Rightarrow> nat \<Rightarrow> 'w::zero list \<Rightarrow> 'w list" where
  "memset0 kLane pos n d = overwrite (kLane * pos) (replicate (kLane * n) 0) d"

definition copy_row :: "nat \<Rightarrow> nat \<Rightarrow> (u64 \<Rightarrow> 'w) \<Rightarrow> u64 \<Rightarrow> nat \<Rightarrow> nat \<Rightarrow> 'w list \<Rightarrow> 'w list" where
  "copy_row kLane lb rd ptr pos n d =
     overwrite (kLane * pos) (map (\<lambda>i. rd (ptr + word_of_nat (lb * i))) [0..<kLane * n]) d"

definition load_row ::
  "nat \<Rightarrow> nat \<Rightarrow> (u64 \<Rightarrow> 'w::zero) \<Rightarrow> VTAMemInsn \<Rightarrow> 'w list \<times> nat \<times> u64 \<Rightarrow> 'w list \<times> nat \<times> u64" where
  "load_row kLane lb rd op = (\<lambda>(d, pos, ptr).
    let d = memset0 kLane pos (unat (x_pad_0 op)) d; pos = pos + unat (x_pad_0 op);
        d = copy_row kLane lb rd ptr pos (unat (x_size op)) d; pos = pos + unat (x_size op);
        d = memset0 kLane pos (unat (x_pad_1 op)) d; pos = pos + unat (x_pad_1 op)
    in (d, pos, ptr + word_of_nat (lb * kLane * unat (x_stride op))))"

definition load_2d ::
  "nat \<Rightarrow> nat \<Rightarrow> nat \<Rightarrow> (u64 \<Rightarrow> 'w::zero) \<Rightarrow> u64 \<Rightarrow> VTAMemInsn \<Rightarrow> 'w list \<Rightarrow> 'w list res" where
  "load_2d kLane kMaxNumElem lb rd ptr op d =
    (let pos = unat (sram_base op); sram_end = pos + xtotal op * ytotal op in
     res_bind (check (sram_end \<le> kMaxNumElem) ''sram_end <= kMaxNumElem'') (\<lambda>_.
     let d = memset0 kLane pos (xtotal op * unat (y_pad_0 op)) d;
         pos = pos + xtotal op * unat (y_pad_0 op);
         (d, pos, ptr) = fold (\<lambda>_. load_row kLane lb rd op) [0..<unat (y_size op)] (d, pos, ptr)
     in Inr (memset0 kLane pos (xtotal op * unat (y_pad_1 op)) d)))"

definition kElemBytes :: "nat \<Rightarrow> nat \<Rightarrow> nat" where
  "kElemBytes kBits kLane = (kBits * kLane + 7) div 8"

text \<open>\<open>op->dram_base * kElemBytes\<close> is a product of 32-bit unsigned integers.\<close>

definition dram_addr :: "VTAMemInsn \<Rightarrow> nat \<Rightarrow> u64" where
  "dram_addr op elem_bytes = ucast (dram_base op * word_of_nat elem_bytes :: u32)"

definition load_bytes :: "VTAMemInsn \<Rightarrow> nat \<Rightarrow> u64" where
  "load_bytes op elem_bytes =
    scast (ucast (x_size op) * ucast (y_size op) * word_of_nat elem_bytes :: u32)"

definition lane8 :: "host \<Rightarrow> u64 \<Rightarrow> 8 word" where
  "lane8 h a = h a"

definition lane32 :: "host \<Rightarrow> u64 \<Rightarrow> 32 word" where
  "lane32 h a = word_of_nat (le_value (mem_read h a 4))"

definition lane_int8 :: "host \<Rightarrow> u64 \<Rightarrow> 32 word" where
  "lane_int8 h a = scast (h a)"

text \<open>\<open>Load\<close> for the three lane formats; the load counter is the caller's.\<close>

definition Load :: "nat \<Rightarrow> nat \<Rightarrow> nat \<Rightarrow> (host \<Rightarrow> u64 \<Rightarrow> 'w::zero) \<Rightarrow> VTAMemInsn \<Rightarrow> vmm \<Rightarrow> host \<Rightarrow> bool
   \<Rightarrow> 'w list \<Rightarrow> 'w list res" where
  "Load kBits kLane kMaxNumElem rd op dram h skip_exec d =
    (if skip_exec then Inr d else
     res_bind (GetAddr (dram_addr op (kElemBytes kBits kLane)) dram) (\<lambda>ptr.
     load_2d kLane kMaxNumElem (kBits div 8) (rd h) ptr op d))"

definition Load_int8 :: "nat \<Rightarrow> nat \<Rightarrow> nat \<Rightarrow> VTAMemInsn \<Rightarrow> vmm \<Rightarrow> host \<Rightarrow> bool \<Rightarrow> u32 list \<Rightarrow> u32 list res" where
  "Load_int8 kBits kLane kMaxNumElem op dram h skip_exec d =
    res_bind (check (kBits = VTA_ACC_WIDTH) ''kBits == VTA_ACC_WIDTH'') (\<lambda>_.
    res_bind (check (VTA_ACC_WIDTH = 32) ''VTA_ACC_WIDTH == 32'') (\<lambda>_.
    res_bind (check (VTA_INP_WIDTH = 8) ''VTA_INP_WIDTH == 8'') (\<lambda>_.
    if skip_exec then Inr d else
    let factor = VTA_ACC_WIDTH div VTA_INP_WIDTH in
    res_bind (GetAddr (ucast ((dram_base op * word_of_nat (kElemBytes kBits kLane) :: u32) div word_of_nat factor)) dram) (\<lambda>ptr.
    load_2d kLane kMaxNumElem 1 (lane_int8 h) ptr op d))))"

text \<open>\<open>TruncStore<target_bits>\<close> with 8-bit targets: each 32-bit lane is stored truncated; all index
  arithmetic is 32-bit unsigned.\<close>

definition trunc_lane :: "nat \<Rightarrow> VTAMemInsn \<Rightarrow> u64 \<Rightarrow> u32 list \<Rightarrow> nat \<times> nat \<times> nat \<Rightarrow> host \<Rightarrow> host res" where
  "trunc_lane kLane op dst d = (\<lambda>(y, x, i) h.
    let sram_base' = word_of_nat y * ucast (x_size op) + word_of_nat x :: u32;
        dram_base' = word_of_nat y * ucast (x_stride op) + word_of_nat x :: u32;
        src_index = sram_base' * word_of_nat kLane + word_of_nat i;
        dst_index = dram_base' * word_of_nat kLane + word_of_nat i
    in res_bind (nth_res d (kLane * unat (sram_base op) + unat src_index)) (\<lambda>v.
       Inr (h(dst + ucast dst_index := ucast v))))"

definition TruncStore :: "nat \<Rightarrow> nat \<Rightarrow> VTAMemInsn \<Rightarrow> vmm \<Rightarrow> u32 list \<Rightarrow> host \<Rightarrow> host res" where
  "TruncStore target_bits kLane op dram d h =
    res_bind (check (x_pad_0 op = 0) ''op->x_pad_0 == 0'') (\<lambda>_.
    res_bind (check (x_pad_1 op = 0) ''op->x_pad_1 == 0'') (\<lambda>_.
    res_bind (check (y_pad_0 op = 0) ''op->y_pad_0 == 0'') (\<lambda>_.
    res_bind (check (y_pad_1 op = 0) ''op->y_pad_1 == 0'') (\<lambda>_.
    let target_width = (target_bits * kLane + 7) div 8 in
    res_bind (GetAddr (dram_addr op target_width) dram) (\<lambda>dst.
    fold_res (\<lambda>y. fold_res (\<lambda>x. fold_res (\<lambda>i. trunc_lane kLane op dst d (y, x, i)) [0..<kLane])
       [0..<unat (x_size op)]) [0..<unat (y_size op)] h)))))"

section \<open>Profiler\<close>

record Profiler =
  inp_load_nbytes :: u64
  wgt_load_nbytes :: u64
  acc_load_nbytes :: u64
  uop_load_nbytes :: u64
  out_store_nbytes :: u64
  gemm_counter :: u64
  alu_counter :: u64
  debug_flag :: u64

definition prof_Clear :: "Profiler \<Rightarrow> Profiler" where
  "prof_Clear p = p\<lparr>inp_load_nbytes := 0, wgt_load_nbytes := 0, acc_load_nbytes := 0,
     uop_load_nbytes := 0, out_store_nbytes := 0, gemm_counter := 0, alu_counter := 0\<rparr>"

definition SkipExec :: "Profiler \<Rightarrow> bool" where
  "SkipExec p = (debug_flag p AND 1 \<noteq> 0)"

section \<open>Device\<close>

record device =
  finish_counter :: nat
  prof :: Profiler
  dram :: vmm
  hostmem :: host
  inp_sram :: "8 word list"
  wgt_sram :: "8 word list"
  acc_sram :: "32 word list"
  uop_sram :: "32 word list"

definition acc_lanes :: nat where [spec_consts]: "acc_lanes = VTA_BATCH * VTA_BLOCK_OUT"
definition inp_lanes :: nat where [spec_consts]: "inp_lanes = VTA_BATCH * VTA_BLOCK_IN"
definition wgt_lanes :: nat where [spec_consts]: "wgt_lanes = VTA_BLOCK_IN * VTA_BLOCK_OUT"

definition RunLoad :: "VTAMemInsn \<Rightarrow> device \<Rightarrow> device res" where
  "RunLoad op dev =
    (let p = prof dev; skip = SkipExec p; mt = memory_type op in
     if x_size op = 0 then Inr dev
     else if mt = VTA_MEM_ID_INP then
       res_bind (Load VTA_INP_WIDTH inp_lanes VTA_INP_BUFF_DEPTH lane8 op (dram dev) (hostmem dev) skip (inp_sram dev))
         (\<lambda>d. Inr (dev\<lparr>inp_sram := d, prof := p\<lparr>inp_load_nbytes :=
            inp_load_nbytes p + load_bytes op (kElemBytes VTA_INP_WIDTH inp_lanes)\<rparr>\<rparr>))
     else if mt = VTA_MEM_ID_WGT then
       res_bind (Load VTA_WGT_WIDTH wgt_lanes VTA_WGT_BUFF_DEPTH lane8 op (dram dev) (hostmem dev) skip (wgt_sram dev))
         (\<lambda>d. Inr (dev\<lparr>wgt_sram := d, prof := p\<lparr>wgt_load_nbytes :=
            wgt_load_nbytes p + load_bytes op (kElemBytes VTA_WGT_WIDTH wgt_lanes)\<rparr>\<rparr>))
     else if mt = VTA_MEM_ID_ACC then
       res_bind (Load VTA_ACC_WIDTH acc_lanes VTA_ACC_BUFF_DEPTH lane32 op (dram dev) (hostmem dev) skip (acc_sram dev))
         (\<lambda>d. Inr (dev\<lparr>acc_sram := d, prof := p\<lparr>acc_load_nbytes :=
            acc_load_nbytes p + load_bytes op (kElemBytes VTA_ACC_WIDTH acc_lanes)\<rparr>\<rparr>))
     else if mt = VTA_MEM_ID_UOP then
       res_bind (Load VTA_UOP_WIDTH 1 VTA_UOP_BUFF_DEPTH lane32 op (dram dev) (hostmem dev) False (uop_sram dev))
         (\<lambda>d. Inr (dev\<lparr>uop_sram := d, prof := p\<lparr>uop_load_nbytes :=
            uop_load_nbytes p + load_bytes op (kElemBytes VTA_UOP_WIDTH 1)\<rparr>\<rparr>))
     else if mt = VTA_MEM_ID_ACC_8BIT then
       res_bind (Load_int8 VTA_ACC_WIDTH acc_lanes VTA_ACC_BUFF_DEPTH op (dram dev) (hostmem dev) skip (acc_sram dev))
         (\<lambda>d. Inr (dev\<lparr>acc_sram := d, prof := p\<lparr>acc_load_nbytes :=
            acc_load_nbytes p + load_bytes op (kElemBytes VTA_ACC_WIDTH acc_lanes)\<rparr>\<rparr>))
     else Inr dev)"

definition RunStore :: "VTAMemInsn \<Rightarrow> device \<Rightarrow> device res" where
  "RunStore op dev =
    (let p = prof dev;
         n = (ucast (x_size op) * ucast (y_size op) * word_of_nat VTA_BATCH * word_of_nat VTA_BLOCK_OUT
                * word_of_nat VTA_OUT_WIDTH :: u32);
         dev' = dev\<lparr>prof := p\<lparr>out_store_nbytes := out_store_nbytes p + word_of_int (c_div (sint n) 8)\<rparr>\<rparr>
     in if x_size op = 0 then Inr dev
        else if memory_type op = VTA_MEM_ID_OUT then
          (if SkipExec p then Inr dev'
           else res_bind (TruncStore VTA_OUT_WIDTH acc_lanes op (dram dev) (acc_sram dev) (hostmem dev))
                  (\<lambda>h. Inr (dev'\<lparr>hostmem := h\<rparr>)))
        else Inr dev)"

definition loop_count :: "14 word \<Rightarrow> 14 word \<Rightarrow> 13 word \<Rightarrow> 14 word \<Rightarrow> u64" where
  "loop_count it_out it_in bgn fin = scast (ucast it_out * ucast it_in * (ucast fin - ucast bgn) :: u32)"

definition read_uop :: "nat \<Rightarrow> device \<Rightarrow> VTAUop res" where
  "read_uop uindex dev =
    res_bind (BeginPtr 1 VTA_UOP_BUFF_DEPTH uindex) (\<lambda>o'. Inr (unit_uop (uop_sram dev ! o')))"

text \<open>The affine index of a loop body, in 32-bit unsigned arithmetic.\<close>

definition affine :: "'a::len word \<Rightarrow> nat \<Rightarrow> 'b::len word \<Rightarrow> nat \<Rightarrow> 'b word \<Rightarrow> u32" where
  "affine base y f_out x f_in = ucast base + (word_of_nat y * ucast f_out + word_of_nat x * ucast f_in)"

definition gemm_dot :: "8 word list \<Rightarrow> 8 word list \<Rightarrow> nat \<Rightarrow> nat \<Rightarrow> nat \<Rightarrow> nat \<Rightarrow> u32 \<Rightarrow> u32" where
  "gemm_dot inp wgt io wo i j acc =
    fold (\<lambda>k sum. sum + scast (inp ! (io + (i * VTA_BLOCK_IN + k))) * scast (wgt ! (wo + (j * VTA_BLOCK_IN + k))))
      [0..<VTA_BLOCK_IN] acc"

definition gemm_block :: "8 word list \<Rightarrow> 8 word list \<Rightarrow> nat \<Rightarrow> nat \<Rightarrow> nat \<Rightarrow> u32 list \<Rightarrow> u32 list" where
  "gemm_block inp wgt ao io wo acc =
    fold (\<lambda>i. fold (\<lambda>j acc. let o' = ao + (i * VTA_BLOCK_OUT + j) in
        acc[o' := gemm_dot inp wgt io wo i j (acc ! o')]) [0..<VTA_BLOCK_OUT]) [0..<VTA_BATCH] acc"

definition gemm_iter :: "VTAGemInsn \<Rightarrow> nat \<times> nat \<times> nat \<Rightarrow> device \<Rightarrow> device res" where
  "gemm_iter op = (\<lambda>(y, x, uindex) dev.
    res_bind (read_uop uindex dev) (\<lambda>u.
    let acc_idx = unat (affine (dst_idx u) y (dst_factor_out op) x (dst_factor_in op));
        inp_idx = unat (affine (src_idx u) y (src_factor_out op) x (src_factor_in op));
        wgt_idx = unat (affine (wgt_idx u) y (wgt_factor_out op) x (wgt_factor_in op)) in
    res_bind (BeginPtr acc_lanes VTA_ACC_BUFF_DEPTH acc_idx) (\<lambda>ao.
    res_bind (BeginPtr inp_lanes VTA_INP_BUFF_DEPTH inp_idx) (\<lambda>io.
    res_bind (BeginPtr wgt_lanes VTA_WGT_BUFF_DEPTH wgt_idx) (\<lambda>wo.
    Inr (dev\<lparr>acc_sram := gemm_block (inp_sram dev) (wgt_sram dev) ao io wo (acc_sram dev)\<rparr>))))))"

definition reset_iter :: "VTAGemInsn \<Rightarrow> nat \<times> nat \<times> nat \<Rightarrow> device \<Rightarrow> device res" where
  "reset_iter op = (\<lambda>(y, x, uindex) dev.
    res_bind (read_uop uindex dev) (\<lambda>u.
    let acc_idx = unat (affine (dst_idx u) y (dst_factor_out op) x (dst_factor_in op)) in
    res_bind (BeginPtr acc_lanes VTA_ACC_BUFF_DEPTH acc_idx) (\<lambda>ao.
    Inr (dev\<lparr>acc_sram := fold (\<lambda>i acc. acc[ao + i := 0]) [0..<acc_lanes] (acc_sram dev)\<rparr>))))"

definition loop3 :: "(nat \<times> nat \<times> nat \<Rightarrow> 's \<Rightarrow> 's res) \<Rightarrow> nat \<Rightarrow> nat \<Rightarrow> nat \<Rightarrow> nat \<Rightarrow> 's \<Rightarrow> 's res" where
  "loop3 body n_out n_in bgn fin =
    fold_res (\<lambda>y. fold_res (\<lambda>x. fold_res (\<lambda>u. body (y, x, u)) [bgn..<fin]) [0..<n_in]) [0..<n_out]"

definition RunGEMM :: "VTAGemInsn \<Rightarrow> device \<Rightarrow> device res" where
  "RunGEMM op dev =
    (let p = prof dev; body = (if reset_reg op then reset_iter op else gemm_iter op);
         dev' = (if reset_reg op then dev else
           dev\<lparr>prof := p\<lparr>gemm_counter := gemm_counter p + loop_count (iter_out op) (iter_in op) (uop_bgn op) (uop_end op)\<rparr>\<rparr>)
     in if SkipExec p then Inr dev'
        else loop3 body (unat (iter_out op)) (unat (iter_in op)) (unat (uop_bgn op)) (unat (uop_end op)) dev')"

text \<open>The lambdas of \<open>RunALU_\<close>; \<open>None\<close> is the unknown opcode that is only logged.\<close>

definition alu_shr :: "u32 \<Rightarrow> u32 \<Rightarrow> u32 res" where
  "alu_shr x y =
    (if 0 \<le> sint y then
       (if sint y < 32 then Inr (signed_drop_bit (nat (sint y)) x) else Inl (Undefined ''x >> y''))
     else
       (if - sint y < 32 then Inr (push_bit (nat (- sint y)) x) else Inl (Undefined ''x << -y'')))"

definition alu_func :: "3 word \<Rightarrow> (u32 \<Rightarrow> u32 \<Rightarrow> u32 res) option" where
  "alu_func code =
    (if code = VTA_ALU_OPCODE_ADD then Some (\<lambda>x y. Inr (x + y))
     else if code = VTA_ALU_OPCODE_MAX then Some (\<lambda>x y. Inr (if sint x < sint y then y else x))
     else if code = VTA_ALU_OPCODE_MIN then Some (\<lambda>x y. Inr (if sint y < sint x then y else x))
     else if code = VTA_ALU_OPCODE_SHR then Some alu_shr
     else if code = VTA_ALU_OPCODE_MUL then Some (\<lambda>x y. Inr (x * y))
     else None)"

definition alu_iter :: "(u32 \<Rightarrow> u32 \<Rightarrow> u32 res) \<Rightarrow> VTAAluInsn \<Rightarrow> nat \<times> nat \<times> nat \<Rightarrow> device \<Rightarrow> device res" where
  "alu_iter func op = (\<lambda>(y, x, k) dev.
    res_bind (read_uop k dev) (\<lambda>u.
    let dst_index = unat (affine (dst_idx u) y (dst_factor_out_a op) x (dst_factor_in_a op));
        src_index = unat (affine (src_idx u) y (src_factor_out_a op) x (src_factor_in_a op)) in
    res_bind (BeginPtr acc_lanes VTA_ACC_BUFF_DEPTH dst_index) (\<lambda>d.
    res_bind (BeginPtr acc_lanes VTA_ACC_BUFF_DEPTH src_index) (\<lambda>s.
    res_bind (fold_res (\<lambda>k acc.
        res_bind (func (acc ! (d + k)) (if use_imm op then scast (imm op) else acc ! (s + k))) (\<lambda>v.
        Inr (acc[d + k := v]))) [0..<acc_lanes] (acc_sram dev)) (\<lambda>acc.
    Inr (dev\<lparr>acc_sram := acc\<rparr>))))))"

definition RunALU :: "VTAAluInsn \<Rightarrow> device \<Rightarrow> device res" where
  "RunALU op dev =
    (case alu_func (alu_opcode op) of
       None \<Rightarrow> Inr dev
     | Some func \<Rightarrow>
         (let p = prof dev;
              dev' = dev\<lparr>prof := p\<lparr>alu_counter := alu_counter p +
                loop_count (iter_out_a op) (iter_in_a op) (uop_bgn_a op) (uop_end_a op)\<rparr>\<rparr>
          in if SkipExec p then Inr dev'
             else loop3 (alu_iter func op) (unat (iter_out_a op)) (unat (iter_in_a op))
                    (unat (uop_bgn_a op)) (unat (uop_end_a op)) dev'))"

definition Run_Insn :: "VTAInsn \<Rightarrow> device \<Rightarrow> device res" where
  "Run_Insn insn dev = (let code = insn_opcode insn in
     if code = VTA_OPCODE_LOAD then RunLoad (as_mem insn) dev
     else if code = VTA_OPCODE_STORE then RunStore (as_mem insn) dev
     else if code = VTA_OPCODE_GEMM then RunGEMM (as_gem insn) dev
     else if code = VTA_OPCODE_ALU then RunALU (as_alu insn) dev
     else if code = VTA_OPCODE_FINISH then Inr (dev\<lparr>finish_counter := finish_counter dev + 1\<rparr>)
     else Inr dev)"

text \<open>\<open>Device::Run\<close>: the instructions are read where they lie in DRAM; an opcode outside the table is
  kept as a compute instruction that does nothing.\<close>

definition fetch_insn :: "host \<Rightarrow> u64 \<Rightarrow> VTAInsn" where
  "fetch_insn h a = (let bs = mem_read h a VTA_INS_ELEM_BYTES in
     case bytes_insn bs of Some i \<Rightarrow> i
     | None \<Rightarrow> GemInsn (units_gem (word_of_nat (le_value (take 8 bs)), word_of_nat (le_value (drop 8 bs)))))"

definition Device_Run :: "(nat \<Rightarrow> nat) \<Rightarrow> u32 \<Rightarrow> u32 \<Rightarrow> device tlpp \<Rightarrow> device tlpp res option" where
  "Device_Run rnd insn_phy_addr insn_count t =
    (case GetAddr (ucast insn_phy_addr) (dram (fsim t)) of
       Inl e \<Rightarrow> Some (Inl e)
     | Inr a \<Rightarrow>
         let t1 = t\<lparr>fsim := (fsim t)\<lparr>finish_counter := 0\<rparr>\<rparr>;
             t2 = fold (\<lambda>i. TlppPushInsn (fetch_insn (hostmem (fsim t)) (a + word_of_nat (VTA_INS_ELEM_BYTES * i))))
                    [0..<unat insn_count] t1
         in TlppSynchronization Run_Insn rnd t2)"

section \<open>Loads\<close>

definition row_data :: "nat \<Rightarrow> nat \<Rightarrow> (u64 \<Rightarrow> 'w::zero) \<Rightarrow> VTAMemInsn \<Rightarrow> u64 \<Rightarrow> 'w list" where
  "row_data kLane lb rd op ptr =
    replicate (kLane * unat (x_pad_0 op)) 0 @
    map (\<lambda>i. rd (ptr + word_of_nat (lb * i))) [0..<kLane * unat (x_size op)] @
    replicate (kLane * unat (x_pad_1 op)) 0"

definition row_ptr :: "nat \<Rightarrow> nat \<Rightarrow> VTAMemInsn \<Rightarrow> u64 \<Rightarrow> nat \<Rightarrow> u64" where
  "row_ptr kLane lb op ptr y = ptr + word_of_nat (y * (lb * kLane * unat (x_stride op)))"

lemma length_row_data [simp]: "length (row_data kLane lb rd op ptr) = kLane * xtotal op"
  by (simp add: row_data_def xtotal_def algebra_simps)

lemma load_row_splice:
  assumes "kLane * (pos + xtotal op) \<le> length d"
  shows "load_row kLane lb rd op (d, pos, ptr) =
    (overwrite (kLane * pos) (row_data kLane lb rd op ptr) d, pos + xtotal op, row_ptr kLane lb op ptr 1)"
proof -
  let ?A = "replicate (kLane * unat (x_pad_0 op)) (0 :: 'a)"
  let ?B = "map (\<lambda>i. rd (ptr + word_of_nat (lb * i))) [0..<kLane * unat (x_size op)]"
  let ?C = "replicate (kLane * unat (x_pad_1 op)) (0 :: 'a)"
  have len: "kLane * pos + length ?A + length ?B + length ?C \<le> length d"
    using assms by (simp add: xtotal_def algebra_simps)
  have "overwrite (kLane * pos + length ?A) ?B (overwrite (kLane * pos) ?A d) = overwrite (kLane * pos) (?A @ ?B) d"
    by (rule overwrite_adjacent) (use len in simp)
  moreover have "overwrite (kLane * pos + length (?A @ ?B)) ?C (overwrite (kLane * pos) (?A @ ?B) d)
      = overwrite (kLane * pos) ((?A @ ?B) @ ?C) d"
    by (rule overwrite_adjacent) (use len in simp)
  ultimately show ?thesis
    by (simp add: load_row_def memset0_def copy_row_def row_data_def row_ptr_def xtotal_def Let_def algebra_simps)
qed

lemma load_rows_splice:
  assumes "kLane * (pos + n * xtotal op) \<le> length d"
  shows "fold (\<lambda>_. load_row kLane lb rd op) [0..<n] (d, pos, ptr) =
    (overwrite (kLane * pos) (concat (map (\<lambda>y. row_data kLane lb rd op (row_ptr kLane lb op ptr y)) [0..<n])) d,
     pos + n * xtotal op, row_ptr kLane lb op ptr n)"
  using assms
proof (induction n)
  case 0
  then show ?case by (simp add: row_ptr_def)
next
  case (Suc n)
  let ?R = "concat (map (\<lambda>y. row_data kLane lb rd op (row_ptr kLane lb op ptr y)) [0..<n])"
  let ?r = "row_data kLane lb rd op (row_ptr kLane lb op ptr n)"
  have lR: "length ?R = kLane * (n * xtotal op)"
    by (subst length_concat_equal [where m = "kLane * xtotal op"]) auto
  have len: "kLane * (pos + n * xtotal op) + kLane * xtotal op \<le> length d"
    using Suc.prems by (simp add: algebra_simps)
  have "overwrite (kLane * pos + length ?R) ?r (overwrite (kLane * pos) ?R d) = overwrite (kLane * pos) (?R @ ?r) d"
    by (rule overwrite_adjacent) (use len in \<open>simp add: lR algebra_simps\<close>)
  moreover have "kLane * pos + length ?R = kLane * (pos + n * xtotal op)" by (simp add: lR algebra_simps)
  moreover have "row_ptr kLane lb op (row_ptr kLane lb op ptr n) 1 = row_ptr kLane lb op ptr (Suc n)"
    by (simp add: row_ptr_def algebra_simps)
  ultimately show ?case
    using Suc.IH len lR by (simp add: load_row_splice algebra_simps)
qed

text \<open>What \<open>load_2d\<close> writes: \<open>ytotal\<close> rows of \<open>xtotal\<close> elements, padding rows and columns zero.\<close>

definition padded_row :: "nat \<Rightarrow> nat \<Rightarrow> (u64 \<Rightarrow> 'w::zero) \<Rightarrow> VTAMemInsn \<Rightarrow> u64 \<Rightarrow> nat \<Rightarrow> 'w list" where
  "padded_row kLane lb rd op ptr r =
    (if unat (y_pad_0 op) \<le> r \<and> r < unat (y_pad_0 op) + unat (y_size op)
     then row_data kLane lb rd op (row_ptr kLane lb op ptr (r - unat (y_pad_0 op)))
     else replicate (kLane * xtotal op) 0)"

lemma length_padded_row [simp]: "length (padded_row kLane lb rd op ptr r) = kLane * xtotal op"
  by (simp add: padded_row_def)

lemma concat_zero_rows: "concat (map (\<lambda>_. replicate m (0 :: 'w::zero)) xs) = replicate (m * length xs) 0"
  by (induction xs) (simp_all add: replicate_add algebra_simps)

lemma load_2d_splice:
  assumes "length d = kLane * kMaxNumElem"
  shows "load_2d kLane kMaxNumElem lb rd ptr op d =
    (if unat (sram_base op) + xtotal op * ytotal op \<le> kMaxNumElem then
       Inr (overwrite (kLane * unat (sram_base op)) (concat (map (padded_row kLane lb rd op ptr) [0..<ytotal op])) d)
     else Inl (CheckFailed ''sram_end <= kMaxNumElem''))"
proof (cases "unat (sram_base op) + xtotal op * ytotal op \<le> kMaxNumElem")
  case True
  define b where "b = unat (sram_base op)"
  define y0 y1 ys where "y0 = unat (y_pad_0 op)" "y1 = unat (y_pad_1 op)" "ys = unat (y_size op)"
  define Z0 Z1 :: "'a list" where "Z0 = replicate (kLane * (xtotal op * y0)) 0" "Z1 = replicate (kLane * (xtotal op * y1)) 0"
  define R where "R = concat (map (\<lambda>y. row_data kLane lb rd op (row_ptr kLane lb op ptr y)) [0..<ys])"
  have yt: "ytotal op = y0 + ys + y1" by (simp add: ytotal_def y0_y1_ys_def)
  have lR: "length R = kLane * (ys * xtotal op)"
    unfolding R_def by (subst length_concat_equal [where m = "kLane * xtotal op"]) auto
  have lZ: "length Z0 = kLane * (xtotal op * y0)" "length Z1 = kLane * (xtotal op * y1)"
    by (simp_all add: Z0_Z1_def)
  have "kLane * (b + xtotal op * (y0 + ys + y1)) \<le> length d"
    using True assms by (simp add: b_def yt)
  then have len: "kLane * b + length Z0 + length R + length Z1 \<le> length d"
    by (simp add: lR lZ algebra_simps)
  have rows: "concat (map (padded_row kLane lb rd op ptr) [0..<ytotal op]) = Z0 @ R @ Z1"
  proof -
    have "[0..<ytotal op] = [0..<y0] @ map (\<lambda>y. y + y0) [0..<ys] @ map (\<lambda>y. y + (y0 + ys)) [0..<y1]"
      using upt_add_eq_append [of 0 "y0 + ys" y1] upt_add_eq_append [of 0 y0 ys]
      by (simp add: yt map_add_upt algebra_simps)
    moreover have "concat (map (padded_row kLane lb rd op ptr) [0..<y0]) = Z0"
      by (subst map_cong [OF refl, of _ _ "\<lambda>_. replicate (kLane * xtotal op) 0"])
        (auto simp: padded_row_def y0_y1_ys_def concat_zero_rows Z0_Z1_def algebra_simps)
    moreover have "concat (map (padded_row kLane lb rd op ptr) (map (\<lambda>y. y + (y0 + ys)) [0..<y1])) = Z1"
      unfolding map_map comp_def
      by (subst map_cong [OF refl, of _ _ "\<lambda>_. replicate (kLane * xtotal op) 0"])
        (auto simp: padded_row_def y0_y1_ys_def concat_zero_rows Z0_Z1_def algebra_simps)
    moreover have "concat (map (padded_row kLane lb rd op ptr) (map (\<lambda>y. y + y0) [0..<ys])) = R"
      unfolding R_def map_map comp_def
      by (intro arg_cong [where f = concat] map_cong) (auto simp: padded_row_def y0_y1_ys_def)
    ultimately show ?thesis by (simp only: map_append concat_append)
  qed
  have s1: "overwrite (kLane * b + length Z0) R (overwrite (kLane * b) Z0 d) = overwrite (kLane * b) (Z0 @ R) d"
    by (rule overwrite_adjacent) (use len in simp)
  have s2: "overwrite (kLane * b + length (Z0 @ R)) Z1 (overwrite (kLane * b) (Z0 @ R) d) = overwrite (kLane * b) ((Z0 @ R) @ Z1) d"
    by (rule overwrite_adjacent) (use len in simp)
  have l0: "length (overwrite (kLane * b) Z0 d) = length d" using len by simp
  have "fold (\<lambda>_. load_row kLane lb rd op) [0..<ys] (overwrite (kLane * b) Z0 d, b + xtotal op * y0, ptr) =
     (overwrite (kLane * b) (Z0 @ R) d, b + xtotal op * y0 + ys * xtotal op, row_ptr kLane lb op ptr ys)"
    using s1 len lZ lR l0
    by (subst load_rows_splice) (simp_all add: R_def algebra_simps)
  moreover have "load_2d kLane kMaxNumElem lb rd ptr op d =
      (case fold (\<lambda>_. load_row kLane lb rd op) [0..<ys] (overwrite (kLane * b) Z0 d, b + xtotal op * y0, ptr) of
         (d, pos, ptr) \<Rightarrow> Inr (overwrite (kLane * pos) Z1 d))"
    using True by (simp add: load_2d_def Let_def memset0_def Z0_Z1_def b_def y0_y1_ys_def)
  moreover have "kLane * (b + xtotal op * y0 + ys * xtotal op) = kLane * b + length (Z0 @ R)"
    by (simp add: lZ lR algebra_simps)
  ultimately show ?thesis using True s2 by (simp add: rows b_def)
qed (simp add: load_2d_def Let_def)

text \<open>The same, lane by lane.\<close>

definition load_lane :: "nat \<Rightarrow> nat \<Rightarrow> (u64 \<Rightarrow> 'w::zero) \<Rightarrow> u64 \<Rightarrow> VTAMemInsn \<Rightarrow> nat \<Rightarrow> nat \<Rightarrow> nat \<Rightarrow> 'w" where
  "load_lane kLane lb rd ptr op r c l =
    (if unat (y_pad_0 op) \<le> r \<and> r < unat (y_pad_0 op) + unat (y_size op) \<and>
        unat (x_pad_0 op) \<le> c \<and> c < unat (x_pad_0 op) + unat (x_size op)
     then rd (ptr + word_of_nat (lb * (kLane * ((r - unat (y_pad_0 op)) * unat (x_stride op) + (c - unat (x_pad_0 op))) + l)))
     else 0)"

lemma lane_addr:
  "ptr + word_of_nat (r * (lb * k * stride)) + word_of_nat (lb * (k * c + l)) =
   (ptr + word_of_nat (lb * (k * (r * stride + c) + l)) :: u64)"
  by (simp add: algebra_simps)

lemma padded_row_nth:
  assumes "c < xtotal op" "l < kLane"
  shows "padded_row kLane lb rd op ptr r ! (kLane * c + l) = load_lane kLane lb rd ptr op r c l"
proof -
  define x0 xs where "x0 = unat (x_pad_0 op)" "xs = unat (x_size op)"
  have "row_data kLane lb rd op q ! (kLane * c + l) =
      (if x0 \<le> c \<and> c < x0 + xs then rd (q + word_of_nat (lb * (kLane * (c - x0) + l))) else 0)" for q
  proof (cases "c < x0")
    case True
    then show ?thesis
      using assms(2) by (simp add: row_data_def nth_append lane_less x0_xs_def)
  next
    case False
    then have "row_data kLane lb rd op q ! (kLane * c + l) =
        (map (\<lambda>i. rd (q + word_of_nat (lb * i))) [0..<kLane * xs] @ replicate (kLane * unat (x_pad_1 op)) 0)
          ! (kLane * (c - x0) + l)"
      using assms(2) by (simp add: row_data_def nth_append lane_less lane_diff x0_xs_def del: of_nat_mult)
    moreover have "kLane * (c - x0) + l < kLane * xs + kLane * unat (x_pad_1 op)"
      using assms False lane_less [OF assms(2), of "c - x0" "xs + unat (x_pad_1 op)"]
      by (simp add: xtotal_def x0_xs_def distrib_left)
    ultimately show ?thesis
      using False assms(2) lane_less [OF assms(2), of "c - x0" xs] by (auto simp: nth_append)
  qed
  then show ?thesis
    using lane_less [OF assms(2), of c "xtotal op"] assms(1)
    by (auto simp: padded_row_def load_lane_def row_ptr_def x0_xs_def lane_addr simp del: of_nat_mult of_nat_add)
qed

lemma load_block_fits:
  assumes "length d = kLane * kMaxNumElem" "unat (sram_base op) + xtotal op * ytotal op \<le> kMaxNumElem"
  shows "length (concat (map (padded_row kLane lb rd op ptr) [0..<ytotal op])) = kLane * (xtotal op * ytotal op)"
    "kLane * unat (sram_base op) + length (concat (map (padded_row kLane lb rd op ptr) [0..<ytotal op])) \<le> length d"
proof -
  show lC: "length (concat (map (padded_row kLane lb rd op ptr) [0..<ytotal op])) = kLane * (xtotal op * ytotal op)"
    by (subst length_concat_equal [where m = "kLane * xtotal op"]) auto
  have "kLane * (unat (sram_base op) + xtotal op * ytotal op) \<le> kLane * kMaxNumElem"
    using assms(2) by (rule mult_le_mono2)
  then show "kLane * unat (sram_base op) + length (concat (map (padded_row kLane lb rd op ptr) [0..<ytotal op])) \<le> length d"
    using assms(1) by (simp only: lC distrib_left)
qed

lemma load_2d_lane:
  assumes "length d = kLane * kMaxNumElem" "load_2d kLane kMaxNumElem lb rd ptr op d = Inr d'"
    and "e < kMaxNumElem" "l < kLane"
  shows "d' ! (kLane * e + l) =
      (if unat (sram_base op) \<le> e \<and> e < unat (sram_base op) + xtotal op * ytotal op
       then load_lane kLane lb rd ptr op ((e - unat (sram_base op)) div xtotal op) ((e - unat (sram_base op)) mod xtotal op) l
       else d ! (kLane * e + l))"
proof -
  let ?b = "unat (sram_base op)"
  let ?C = "concat (map (padded_row kLane lb rd op ptr) [0..<ytotal op])"
  have d': "?b + xtotal op * ytotal op \<le> kMaxNumElem" "d' = overwrite (kLane * ?b) ?C d"
    using assms(2) unfolding load_2d_splice [OF assms(1)] by (auto split: if_splits)
  note lC = load_block_fits(1) [OF assms(1) d'(1), of lb rd ptr] and len = load_block_fits(2) [OF assms(1) d'(1), of lb rd ptr]
  have "kLane * (e + 1) \<le> kLane * kMaxNumElem" using assms(3) by (intro mult_le_mono2) simp
  then have idx: "kLane * e + l < length d" using assms(1,4) by (simp add: algebra_simps)
  have in_iff: "kLane * ?b \<le> kLane * e + l \<and> kLane * e + l < kLane * ?b + length ?C
      \<longleftrightarrow> ?b \<le> e \<and> e < ?b + xtotal op * ytotal op"
    unfolding lC by (rule lane_in_block [OF assms(4)])
  show "d' ! (kLane * e + l) = (if ?b \<le> e \<and> e < ?b + xtotal op * ytotal op
       then load_lane kLane lb rd ptr op ((e - ?b) div xtotal op) ((e - ?b) mod xtotal op) l
       else d ! (kLane * e + l))"
  proof (cases "?b \<le> e \<and> e < ?b + xtotal op * ytotal op")
    case True
    then have off: "kLane * e + l - kLane * ?b = kLane * (e - ?b) + l" by (simp add: diff_mult_distrib2)
    have xt: "0 < xtotal op" using True by (cases "xtotal op") auto
    have r: "(e - ?b) div xtotal op < ytotal op"
    proof -
      have "e - ?b < xtotal op * ytotal op" using True by linarith
      then show ?thesis using xt by (simp add: div_less_iff_less_mult mult.commute)
    qed
    have "?C ! (kLane * (e - ?b) + l) =
        map (padded_row kLane lb rd op ptr) [0..<ytotal op] ! ((e - ?b) div xtotal op) ! (kLane * ((e - ?b) mod xtotal op) + l)"
    proof -
      have "kLane * (e - ?b) + l < kLane * xtotal op * ytotal op"
        using True lane_less [OF assms(4), of "e - ?b" "xtotal op * ytotal op"] by (simp add: mult.assoc less_diff_conv2 add.commute)
      then show ?thesis
        by (subst nth_concat_equal [where m = "kLane * xtotal op"]) (auto simp: div_mod_scaled [OF assms(4)])
    qed
    also have "\<dots> = load_lane kLane lb rd ptr op ((e - ?b) div xtotal op) ((e - ?b) mod xtotal op) l"
      using r xt assms(4) by (simp add: padded_row_nth)
    finally show ?thesis using True in_iff off len idx by (simp add: d'(2) nth_overwrite)
  next
    case False
    then show ?thesis using in_iff len idx by (auto simp: d'(2) nth_overwrite)
  qed
qed

section \<open>Loops over micro-ops\<close>

definition iters :: "nat \<Rightarrow> nat \<Rightarrow> nat \<Rightarrow> nat \<Rightarrow> (nat \<times> nat \<times> nat) list" where
  "iters n_out n_in bgn fin = [(y, x, u). y \<leftarrow> [0..<n_out], x \<leftarrow> [0..<n_in], u \<leftarrow> [bgn..<fin]]"

lemma fold_res_concat: "fold_res f (concat xss) = fold_res (fold_res f) xss"
proof (induction xss)
  case (Cons xs xss)
  show ?case by (rule ext) (simp add: fold_res_append Cons.IH)
qed (simp add: fun_eq_iff)

lemma fold_res_map: "fold_res f (map g xs) = fold_res (\<lambda>x. f (g x)) xs"
proof (induction xs)
  case (Cons x xs)
  show ?case by (rule ext) (simp add: Cons.IH)
qed (simp add: fun_eq_iff)

lemma loop3_iters: "loop3 body n_out n_in bgn fin s = fold_res body (iters n_out n_in bgn fin) s"
  by (simp add: loop3_def iters_def fold_res_concat fold_res_map)

definition dev_wf :: "device \<Rightarrow> bool" where
  "dev_wf dev = (length (inp_sram dev) = inp_lanes * VTA_INP_BUFF_DEPTH \<and>
     length (wgt_sram dev) = wgt_lanes * VTA_WGT_BUFF_DEPTH \<and>
     length (acc_sram dev) = acc_lanes * VTA_ACC_BUFF_DEPTH \<and>
     length (uop_sram dev) = VTA_UOP_BUFF_DEPTH)"

text \<open>The indices an iteration uses.\<close>

definition gemm_acc :: "VTAGemInsn \<Rightarrow> u32 list \<Rightarrow> nat \<times> nat \<times> nat \<Rightarrow> nat" where
  "gemm_acc op us = (\<lambda>(y, x, u). unat (affine (dst_idx (unit_uop (us ! u))) y (dst_factor_out op) x (dst_factor_in op)))"

definition gemm_inp :: "VTAGemInsn \<Rightarrow> u32 list \<Rightarrow> nat \<times> nat \<times> nat \<Rightarrow> nat" where
  "gemm_inp op us = (\<lambda>(y, x, u). unat (affine (src_idx (unit_uop (us ! u))) y (src_factor_out op) x (src_factor_in op)))"

definition gemm_wgt :: "VTAGemInsn \<Rightarrow> u32 list \<Rightarrow> nat \<times> nat \<times> nat \<Rightarrow> nat" where
  "gemm_wgt op us = (\<lambda>(y, x, u). unat (affine (wgt_idx (unit_uop (us ! u))) y (wgt_factor_out op) x (wgt_factor_in op)))"

definition gemm_ok :: "VTAGemInsn \<Rightarrow> u32 list \<Rightarrow> nat \<times> nat \<times> nat \<Rightarrow> bool" where
  "gemm_ok op us it = (snd (snd it) < VTA_UOP_BUFF_DEPTH \<and> gemm_acc op us it < VTA_ACC_BUFF_DEPTH \<and>
     gemm_inp op us it < VTA_INP_BUFF_DEPTH \<and> gemm_wgt op us it < VTA_WGT_BUFF_DEPTH)"

text \<open>Row \<open>j\<close> of weight element \<open>w\<close> times input vector \<open>i\<close>, in 32-bit arithmetic.\<close>

definition dot :: "8 word list \<Rightarrow> 8 word list \<Rightarrow> nat \<Rightarrow> nat \<Rightarrow> nat \<Rightarrow> u32" where
  "dot inp wgt i w j = (\<Sum>k \<leftarrow> [0..<16]. scast (inp ! (16 * i + k)) * scast (wgt ! (256 * w + (16 * j + k))))"

lemma fold_sum: "fold (\<lambda>k s. s + f k) xs (a :: 'a::comm_monoid_add) = a + (\<Sum>k \<leftarrow> xs. f k)"
  by (induction xs arbitrary: a) (simp_all add: add.assoc)

lemma fold_update_length: "length (fold (\<lambda>k l. l[g k := f k l]) xs l) = length l"
  by (induction xs arbitrary: l) simp_all

lemma fold_update_nth:
  assumes "ao + n \<le> length l"
  shows "fold (\<lambda>k l. l[ao + k := f k (l ! (ao + k))]) [0..<n] l ! m =
    (if ao \<le> m \<and> m < ao + n then f (m - ao) (l ! m) else l ! m)"
  using assms
proof (induction n)
  case (Suc n)
  then show ?case
    by (auto simp: fold_update_length nth_list_update less_Suc_eq)
qed auto

section \<open>GEMM\<close>

lemma gemm_dot_eq:
  "gemm_dot inp wgt (16 * i) (256 * w) 0 j a = a + dot inp wgt i w j"
  by (simp add: gemm_dot_def dot_def fold_sum spec_consts mult.commute [of j] del: upt_Suc)

lemma gemm_block_nth:
  assumes "16 * a + 16 \<le> length acc"
  shows "gemm_block inp wgt (16 * a) (16 * i) (256 * w) acc ! m =
    (if 16 * a \<le> m \<and> m < 16 * a + 16 then acc ! m + dot inp wgt i w (m - 16 * a) else acc ! m)"
  unfolding gemm_block_def Let_def using fold_update_nth [OF assms, of "\<lambda>j. gemm_dot inp wgt (16 * i) (256 * w) 0 j" m]
  by (simp add: gemm_dot_eq spec_consts)

lemma length_gemm_block [simp]: "length (gemm_block inp wgt ao io wo acc) = length acc"
  by (simp add: gemm_block_def Let_def spec_consts fold_update_length)

lemma gemm_iter_eq:
  assumes "gemm_ok op (uop_sram dev) it"
  shows "gemm_iter op it dev = Inr (dev\<lparr>acc_sram := gemm_block (inp_sram dev) (wgt_sram dev)
     (16 * gemm_acc op (uop_sram dev) it) (16 * gemm_inp op (uop_sram dev) it)
     (256 * gemm_wgt op (uop_sram dev) it) (acc_sram dev)\<rparr>)"
  using assms by (cases it)
    (simp add: gemm_iter_def gemm_ok_def gemm_acc_def gemm_inp_def gemm_wgt_def read_uop_def BeginPtr_def
      Let_def spec_consts)

definition gemm_term :: "VTAGemInsn \<Rightarrow> device \<Rightarrow> nat \<Rightarrow> nat \<Rightarrow> nat \<times> nat \<times> nat \<Rightarrow> u32" where
  "gemm_term op dev a j it =
    (if gemm_acc op (uop_sram dev) it = a
     then dot (inp_sram dev) (wgt_sram dev) (gemm_inp op (uop_sram dev) it) (gemm_wgt op (uop_sram dev) it) j
     else 0)"

lemma gemm_term_acc [simp]: "gemm_term op (dev\<lparr>acc_sram := acc\<rparr>) = gemm_term op dev"
  by (simp add: fun_eq_iff gemm_term_def)

lemma gemm_loop:
  assumes "dev_wf dev" "list_all (gemm_ok op (uop_sram dev)) its"
  shows "\<exists>acc'. fold_res (gemm_iter op) its dev = Inr (dev\<lparr>acc_sram := acc'\<rparr>) \<and>
     length acc' = length (acc_sram dev) \<and>
     (\<forall>a j. a < 2048 \<and> j < 16 \<longrightarrow>
        acc' ! (16 * a + j) = acc_sram dev ! (16 * a + j) + (\<Sum>it \<leftarrow> its. gemm_term op dev a j it))"
  using assms
proof (induction its arbitrary: dev)
  case Nil
  then show ?case by (intro exI [of _ "acc_sram dev"]) simp
next
  case (Cons it its)
  let ?us = "uop_sram dev"
  define acc1 where "acc1 = gemm_block (inp_sram dev) (wgt_sram dev) (16 * gemm_acc op ?us it)
     (16 * gemm_inp op ?us it) (256 * gemm_wgt op ?us it) (acc_sram dev)"
  define dev1 where "dev1 = dev\<lparr>acc_sram := acc1\<rparr>"
  have step: "gemm_iter op it dev = Inr dev1"
    using Cons.prems gemm_iter_eq by (simp add: dev1_def acc1_def)
  have "dev_wf dev1" "list_all (gemm_ok op (uop_sram dev1)) its"
    using Cons.prems by (simp_all add: dev_wf_def dev1_def acc1_def)
  from Cons.IH [OF this] obtain acc' where acc':
    "fold_res (gemm_iter op) its dev1 = Inr (dev1\<lparr>acc_sram := acc'\<rparr>)" "length acc' = length acc1"
    "\<And>a j. a < 2048 \<Longrightarrow> j < 16 \<Longrightarrow> acc' ! (16 * a + j) = acc1 ! (16 * a + j) + (\<Sum>it \<leftarrow> its. gemm_term op dev a j it)"
    by (auto simp: dev1_def)
  have b: "16 * gemm_acc op ?us it + 16 \<le> length (acc_sram dev)"
    using Cons.prems by (auto simp: gemm_ok_def dev_wf_def spec_consts)
  have "acc1 ! (16 * a + j) = acc_sram dev ! (16 * a + j) + gemm_term op dev a j it" if "j < 16" for a j
    using that by (auto simp: acc1_def gemm_block_nth [OF b] gemm_term_def)
  with acc' step show ?case
    by (intro exI [of _ acc']) (simp add: dev1_def acc1_def add.assoc)
qed

lemma reset_loop:
  assumes "dev_wf dev" "list_all (\<lambda>it. snd (snd it) < VTA_UOP_BUFF_DEPTH \<and> gemm_acc op (uop_sram dev) it < VTA_ACC_BUFF_DEPTH) its"
  shows "\<exists>acc'. fold_res (reset_iter op) its dev = Inr (dev\<lparr>acc_sram := acc'\<rparr>) \<and>
     length acc' = length (acc_sram dev) \<and>
     (\<forall>a j. a < 2048 \<and> j < 16 \<longrightarrow> acc' ! (16 * a + j) =
        (if a \<in> gemm_acc op (uop_sram dev) ` set its then 0 else acc_sram dev ! (16 * a + j)))"
  using assms
proof (induction its arbitrary: dev)
  case Nil
  then show ?case by (intro exI [of _ "acc_sram dev"]) simp
next
  case (Cons it its)
  let ?us = "uop_sram dev" let ?a = "gemm_acc op (uop_sram dev) it"
  define acc1 where "acc1 = fold (\<lambda>i acc. acc[16 * ?a + i := 0]) [0..<16] (acc_sram dev)"
  define dev1 where "dev1 = dev\<lparr>acc_sram := acc1\<rparr>"
  have step: "reset_iter op it dev = Inr dev1"
    using Cons.prems by (cases it)
      (simp add: reset_iter_def gemm_acc_def read_uop_def BeginPtr_def Let_def dev1_def acc1_def spec_consts)
  have b: "16 * ?a + 16 \<le> length (acc_sram dev)" using Cons.prems by (auto simp: dev_wf_def spec_consts)
  have l1: "length acc1 = length (acc_sram dev)" unfolding acc1_def by (rule fold_update_length)
  have n1: "acc1 ! (16 * a + j) = (if a = ?a then 0 else acc_sram dev ! (16 * a + j))" if "j < 16" for a j
    unfolding acc1_def using that fold_update_nth [OF b, of "\<lambda>_ _. 0" "16 * a + j"] by auto
  have "dev_wf dev1"
    "list_all (\<lambda>it. snd (snd it) < VTA_UOP_BUFF_DEPTH \<and> gemm_acc op (uop_sram dev1) it < VTA_ACC_BUFF_DEPTH) its"
    using Cons.prems by (simp_all add: dev_wf_def dev1_def l1)
  from Cons.IH [OF this] obtain acc' where
    "fold_res (reset_iter op) its dev1 = Inr (dev1\<lparr>acc_sram := acc'\<rparr>)" "length acc' = length acc1"
    "\<And>a j. a < 2048 \<Longrightarrow> j < 16 \<Longrightarrow>
       acc' ! (16 * a + j) = (if a \<in> gemm_acc op ?us ` set its then 0 else acc1 ! (16 * a + j))"
    by (auto simp: dev1_def)
  with step n1 l1 show ?case by (intro exI [of _ acc']) (auto simp: dev1_def)
qed

section \<open>ALU\<close>

lemma alu_lanes:
  assumes "16 * d + n \<le> length acc" "n \<le> 16"
  shows "fold (\<lambda>k acc. acc[16 * d + k := g (acc ! (16 * d + k)) (if use then v else acc ! (16 * s + k))]) [0..<n] acc ! m
   = (if 16 * d \<le> m \<and> m < 16 * d + n then g (acc ! m) (if use then v else acc ! (16 * s + (m - 16 * d))) else acc ! m)"
  using assms
proof (induction n arbitrary: m)
  case (Suc n)
  have "\<not> (16 * d \<le> 16 * s + n \<and> 16 * s + n < 16 * d + n)" using Suc.prems(2) by arith
  with Suc.IH [of "16 * s + n"] Suc.IH [of "16 * d + n"] Suc.IH [of m] Suc.prems show ?case
    by (auto simp: fold_update_length nth_list_update less_Suc_eq)
qed auto

definition alu_dst :: "VTAAluInsn \<Rightarrow> u32 list \<Rightarrow> nat \<times> nat \<times> nat \<Rightarrow> nat" where
  "alu_dst op us = (\<lambda>(y, x, u). unat (affine (dst_idx (unit_uop (us ! u))) y (dst_factor_out_a op) x (dst_factor_in_a op)))"

definition alu_src :: "VTAAluInsn \<Rightarrow> u32 list \<Rightarrow> nat \<times> nat \<times> nat \<Rightarrow> nat" where
  "alu_src op us = (\<lambda>(y, x, u). unat (affine (src_idx (unit_uop (us ! u))) y (src_factor_out_a op) x (src_factor_in_a op)))"

definition alu_ok :: "VTAAluInsn \<Rightarrow> u32 list \<Rightarrow> nat \<times> nat \<times> nat \<Rightarrow> bool" where
  "alu_ok op us it = (snd (snd it) < VTA_UOP_BUFF_DEPTH \<and> alu_dst op us it < VTA_ACC_BUFF_DEPTH \<and>
     alu_src op us it < VTA_ACC_BUFF_DEPTH)"

definition alu_total :: "VTAAluInsn \<Rightarrow> (u32 \<Rightarrow> u32 \<Rightarrow> u32 res) \<Rightarrow> (u32 \<Rightarrow> u32 \<Rightarrow> u32) \<Rightarrow> bool" where
  "alu_total op func g = (\<forall>x y. (use_imm op \<longrightarrow> y = scast (imm op)) \<longrightarrow> func x y = Inr (g x y))"

definition alu_arg :: "VTAAluInsn \<Rightarrow> u32 list \<Rightarrow> u32 list \<Rightarrow> nat \<times> nat \<times> nat \<Rightarrow> nat \<Rightarrow> u32" where
  "alu_arg op us acc it j = (if use_imm op then scast (imm op) else acc ! (16 * alu_src op us it + j))"

lemma alu_iter_eq:
  assumes "dev_wf dev" "alu_ok op (uop_sram dev) it" "alu_total op func g"
  shows "\<exists>acc'. alu_iter func op it dev = Inr (dev\<lparr>acc_sram := acc'\<rparr>) \<and> length acc' = length (acc_sram dev) \<and>
     (\<forall>a j. j < 16 \<longrightarrow> acc' ! (16 * a + j) =
        (if a = alu_dst op (uop_sram dev) it
         then g (acc_sram dev ! (16 * a + j)) (alu_arg op (uop_sram dev) (acc_sram dev) it j)
         else acc_sram dev ! (16 * a + j)))"
proof -
  let ?d = "alu_dst op (uop_sram dev) it" let ?s = "alu_src op (uop_sram dev) it"
  let ?body = "\<lambda>k acc. acc[16 * ?d + k := g (acc ! (16 * ?d + k)) (if use_imm op then scast (imm op) else acc ! (16 * ?s + k))]"
  define acc' where "acc' = fold ?body [0..<16] (acc_sram dev)"
  let ?fbody = "\<lambda>k acc. res_bind (func (acc ! (16 * ?d + k)) (if use_imm op then scast (imm op) else acc ! (16 * ?s + k)))
      (\<lambda>v. Inr (acc[16 * ?d + k := v]))"
  have "alu_iter func op it dev = res_bind (fold_res ?fbody [0..<16] (acc_sram dev)) (\<lambda>acc. Inr (dev\<lparr>acc_sram := acc\<rparr>))"
    using assms(2) unfolding alu_iter_def alu_ok_def alu_dst_def alu_src_def
    by (cases it) (simp add: read_uop_def BeginPtr_def Let_def spec_consts del: fold_res.simps upt_Suc cong: if_cong)
  moreover have "fold_res ?fbody [0..<16] (acc_sram dev) = Inr acc'"
    unfolding acc'_def using assms(3)
    by (intro fold_res_pure [where I = "\<lambda>_. True"]) (auto simp: alu_total_def)
  ultimately have step: "alu_iter func op it dev = Inr (dev\<lparr>acc_sram := acc'\<rparr>)" by simp
  have b: "16 * ?d + 16 \<le> length (acc_sram dev)" using assms by (auto simp: alu_ok_def dev_wf_def spec_consts)
  have "length acc' = length (acc_sram dev)" unfolding acc'_def by (rule fold_update_length)
  moreover have "acc' ! (16 * a + j) = (if a = ?d
       then g (acc_sram dev ! (16 * a + j)) (alu_arg op (uop_sram dev) (acc_sram dev) it j)
       else acc_sram dev ! (16 * a + j))" if "j < 16" for a j
    unfolding acc'_def using that
      alu_lanes [OF b, where m = "16 * a + j" and g = g and s = ?s and use = "use_imm op" and v = "scast (imm op)"]
    by (cases "a = ?d") (auto simp: alu_arg_def)
  ultimately show ?thesis using step by blast
qed

text \<open>Iterations that write different elements and read none that another one writes act as one
  parallel assignment.\<close>

definition alu_independent :: "VTAAluInsn \<Rightarrow> u32 list \<Rightarrow> (nat \<times> nat \<times> nat) list \<Rightarrow> bool" where
  "alu_independent op us its = (distinct (map (alu_dst op us) its) \<and>
     (use_imm op \<or> (\<forall>it \<in> set its. \<forall>it' \<in> set its. alu_src op us it = alu_dst op us it' \<longrightarrow> it = it')))"

lemma alu_loop:
  assumes "dev_wf dev" "list_all (alu_ok op (uop_sram dev)) its" "alu_total op func g"
    and "alu_independent op (uop_sram dev) its"
  shows "\<exists>acc'. fold_res (alu_iter func op) its dev = Inr (dev\<lparr>acc_sram := acc'\<rparr>) \<and>
     length acc' = length (acc_sram dev) \<and>
     (\<forall>j < 16. (\<forall>it \<in> set its. acc' ! (16 * alu_dst op (uop_sram dev) it + j) =
          g (acc_sram dev ! (16 * alu_dst op (uop_sram dev) it + j)) (alu_arg op (uop_sram dev) (acc_sram dev) it j)) \<and>
       (\<forall>a. a \<notin> alu_dst op (uop_sram dev) ` set its \<longrightarrow> acc' ! (16 * a + j) = acc_sram dev ! (16 * a + j)))"
  using assms
proof (induction its arbitrary: dev)
  case Nil
  then show ?case by (intro exI [of _ "acc_sram dev"]) simp
next
  case (Cons it its)
  let ?us = "uop_sram dev"
  obtain acc1 where acc1: "alu_iter func op it dev = Inr (dev\<lparr>acc_sram := acc1\<rparr>)" "length acc1 = length (acc_sram dev)"
    "\<And>a j. j < 16 \<Longrightarrow> acc1 ! (16 * a + j) = (if a = alu_dst op ?us it
         then g (acc_sram dev ! (16 * a + j)) (alu_arg op ?us (acc_sram dev) it j) else acc_sram dev ! (16 * a + j))"
    using alu_iter_eq [OF Cons.prems(1) _ Cons.prems(3)] Cons.prems(2) by (metis list.pred_inject(2))
  define dev1 where "dev1 = dev\<lparr>acc_sram := acc1\<rparr>"
  have "dev_wf dev1" "list_all (alu_ok op (uop_sram dev1)) its" "alu_independent op (uop_sram dev1) its"
    using Cons.prems acc1(2) by (auto simp: dev1_def dev_wf_def alu_independent_def)
  from Cons.IH [OF this(1,2) Cons.prems(3) this(3)] obtain acc' where
    f: "fold_res (alu_iter func op) its dev1 = Inr (dev1\<lparr>acc_sram := acc'\<rparr>)" "length acc' = length acc1"
    and w: "\<And>j it. j < 16 \<Longrightarrow> it \<in> set its \<Longrightarrow> acc' ! (16 * alu_dst op ?us it + j) =
       g (acc1 ! (16 * alu_dst op ?us it + j)) (alu_arg op ?us acc1 it j)"
    and o: "\<And>j a. j < 16 \<Longrightarrow> a \<notin> alu_dst op ?us ` set its \<Longrightarrow> acc' ! (16 * a + j) = acc1 ! (16 * a + j)"
    unfolding dev1_def by (simp; metis)
  have ne: "alu_dst op ?us it \<notin> alu_dst op ?us ` set its"
    using Cons.prems(4) by (simp add: alu_independent_def)
  have arg: "alu_arg op ?us acc1 it' j = alu_arg op ?us (acc_sram dev) it' j" if "it' \<in> set its" "j < 16" for it' j
    using that Cons.prems(4) ne acc1(3) by (auto simp: alu_arg_def alu_independent_def)
  have "acc' ! (16 * alu_dst op ?us it' + j) =
      g (acc_sram dev ! (16 * alu_dst op ?us it' + j)) (alu_arg op ?us (acc_sram dev) it' j)"
    if "it' \<in> set (it # its)" "j < 16" for it' j
  proof (cases "it' = it")
    case True
    then show ?thesis using o [OF that(2) ne] acc1(3) [OF that(2)] by simp
  next
    case False
    with that have i: "it' \<in> set its" by simp
    with ne have "alu_dst op ?us it' \<noteq> alu_dst op ?us it" by (metis imageI)
    then show ?thesis using w [OF that(2) i] arg [OF i that(2)] acc1(3) [OF that(2)] by simp
  qed
  moreover have "acc' ! (16 * a + j) = acc_sram dev ! (16 * a + j)"
    if "a \<notin> alu_dst op ?us ` set (it # its)" "j < 16" for a j
    using that o [of j a] acc1(3) [of j a] by auto
  ultimately show ?case
    using f acc1(1,2) by (intro exI [of _ acc']) (auto simp: dev1_def)
qed

section \<open>Stores\<close>

lemma fold_fun_upd_other: "x \<notin> a ` set its \<Longrightarrow> fold (\<lambda>it h. h(a it := v it)) its h x = h x"
  by (induction its arbitrary: h) auto

lemma fold_fun_upd_at:
  assumes "inj_on a (set its)" "it \<in> set its"
  shows "fold (\<lambda>it h. h(a it := v it)) its h (a it) = v it"
  using assms
proof (induction its arbitrary: h)
  case (Cons j its)
  show ?case
  proof (cases "it \<in> set its")
    case True
    then show ?thesis using Cons by (simp del: fun_upd_apply)
  next
    case False
    with Cons.prems have "it = j" "a j \<notin> a ` set its" by (auto simp: inj_on_def)
    then show ?thesis by (simp add: fold_fun_upd_other del: fun_upd_apply) simp
  qed
qed simp

definition store_addr :: "VTAMemInsn \<Rightarrow> u64 \<Rightarrow> nat \<times> nat \<times> nat \<Rightarrow> u64" where
  "store_addr op dst = (\<lambda>(y, x, i). dst + word_of_nat (16 * (y * unat (x_stride op) + x) + i))"

definition store_lane :: "VTAMemInsn \<Rightarrow> nat \<times> nat \<times> nat \<Rightarrow> nat" where
  "store_lane op = (\<lambda>(y, x, i). 16 * (unat (sram_base op) + (y * unat (x_size op) + x)) + i)"

definition in_store :: "VTAMemInsn \<Rightarrow> nat \<times> nat \<times> nat \<Rightarrow> bool" where
  "in_store op = (\<lambda>(y, x, i). y < unat (y_size op) \<and> x < unat (x_size op) \<and> i < 16)"

lemma set_iters: "set (iters n m a b) = {(y, x, u). y < n \<and> x < m \<and> a \<le> u \<and> u < b}"
  by (auto simp: iters_def image_iff)

lemma row_col_bound: "y < n \<Longrightarrow> x < m \<Longrightarrow> m \<le> k \<Longrightarrow> y * k + x < n * (k :: nat)"
proof -
  assume "y < n" "x < m" "m \<le> k"
  then have "y * k + x < Suc y * k" by simp
  also have "\<dots> \<le> n * k" using \<open>y < n\<close> by (intro mult_le_mono1) simp
  finally show ?thesis .
qed

lemma trunc_lane_eq:
  assumes "in_store op it" "unat (x_size op) \<le> unat (x_stride op)"
    and "16 * (unat (y_size op) * unat (x_stride op)) \<le> 2 ^ 32"
    and "store_lane op it < length d"
  shows "trunc_lane 16 op dst d it h = Inr (h(store_addr op dst it := ucast (d ! store_lane op it)))"
proof -
  obtain y x i where it: "it = (y, x, i)" "y < unat (y_size op)" "x < unat (x_size op)" "i < 16"
    using assms(1) by (cases it) (auto simp: in_store_def)
  have b: "16 * (y * k + x) + i < 2 ^ 32" if "unat (x_size op) \<le> k" "k \<le> unat (x_stride op)" for k
  proof -
    have "y * k + x < unat (y_size op) * k" by (rule row_col_bound [OF it(2,3) that(1)])
    also have "\<dots> \<le> unat (y_size op) * unat (x_stride op)" using that(2) by simp
    finally have "y * k + x + 1 \<le> unat (y_size op) * unat (x_stride op)" by simp
    then have "16 * (y * k + x + 1) \<le> 16 * (unat (y_size op) * unat (x_stride op))" by (rule mult_le_mono2)
    also note assms(3)
    finally show ?thesis using it(4) by simp
  qed
  have w: "(word_of_nat y * ucast (k :: 16 word) + word_of_nat x) * 16 + word_of_nat i
      = (word_of_nat (16 * (y * unat k + x) + i) :: u32)" for k
    by (simp add: algebra_simps)
  have "unat (word_of_nat (16 * (y * unat (x_size op) + x) + i) :: u32) = 16 * (y * unat (x_size op) + x) + i"
    using b [of "unat (x_size op)"] assms(2) by (intro unat_word_of_nat_small) simp
  moreover have "ucast (word_of_nat (16 * (y * unat (x_stride op) + x) + i) :: u32) =
      (word_of_nat (16 * (y * unat (x_stride op) + x) + i) :: u64)"
    using b [of "unat (x_stride op)"] assms(2) by (intro ucast_up_word_of_nat) simp
  ultimately show ?thesis
    using assms(4) by (simp add: trunc_lane_def it(1) Let_def w store_addr_def store_lane_def algebra_simps)
qed

lemma store_addr_inj:
  assumes "unat (x_size op) \<le> unat (x_stride op)" "16 * (unat (y_size op) * unat (x_stride op)) \<le> 2 ^ 32"
    and "in_store op it" "in_store op it'" "store_addr op dst it = store_addr op dst it'"
  shows "it = it'"
proof -
  obtain y x i y' x' i' where it: "it = (y, x, i)" "it' = (y', x', i')" by (cases it, cases it') auto
  let ?k = "unat (x_stride op)"
  have b: "16 * (v * ?k + u) + l < 2 ^ 64" if "v < unat (y_size op)" "u < unat (x_size op)" "l < 16" for v u l
  proof -
    have "v * ?k + u + 1 \<le> unat (y_size op) * ?k"
      using row_col_bound [OF that(1,2) assms(1)] by simp
    then have "16 * (v * ?k + u + 1) \<le> 16 * (unat (y_size op) * ?k)" by (rule mult_le_mono2)
    also note assms(2)
    finally show ?thesis using that(3) by simp
  qed
  have st: "y < unat (y_size op)" "x < unat (x_size op)" "i < 16" "y' < unat (y_size op)" "x' < unat (x_size op)" "i' < 16"
    using assms(3,4) by (auto simp: in_store_def it)
  have "word_of_nat (16 * (y * ?k + x) + i) = (word_of_nat (16 * (y' * ?k + x') + i') :: u64)"
    using assms(5) by (simp only: store_addr_def it prod.case add_left_cancel)
  then have "16 * (y * ?k + x) + i = 16 * (y' * ?k + x') + i'"
    by (rule word_of_nat_inj_small) (use b [OF st(1-3)] b [OF st(4-6)] in simp_all)
  then have "i = i'" and e: "y * ?k + x = y' * ?k + x'" using lane_eqD [of 16] st(3,6) by blast+
  have "x < ?k" "x' < ?k" using st assms(1) by auto
  have "y = (y * ?k + x) div ?k" "x = (y * ?k + x) mod ?k" using \<open>x < ?k\<close> by simp_all
  moreover have "y' = (y' * ?k + x') div ?k" "x' = (y' * ?k + x') mod ?k" using \<open>x' < ?k\<close> by simp_all
  ultimately show ?thesis using e \<open>i = i'\<close> it by simp
qed

lemma TruncStore_loop:
  assumes "x_pad_0 op = 0" "x_pad_1 op = 0" "y_pad_0 op = 0" "y_pad_1 op = 0"
    and "GetAddr (dram_addr op 16) dr = Inr dst"
  shows "TruncStore 8 16 op dr d h =
    fold_res (trunc_lane 16 op dst d) (iters (unat (y_size op)) (unat (x_size op)) 0 16) h"
  using assms unfolding loop3_iters [symmetric]
  by (simp add: TruncStore_def Let_def loop3_def)

lemma TruncStore_spec:
  assumes pads: "x_pad_0 op = 0" "x_pad_1 op = 0" "y_pad_0 op = 0" "y_pad_1 op = 0"
    and addr: "GetAddr (dram_addr op 16) dr = Inr dst"
    and size: "unat (x_size op) \<le> unat (x_stride op)" "16 * (unat (y_size op) * unat (x_stride op)) \<le> 2 ^ 32"
    and src: "16 * (unat (sram_base op) + unat (y_size op) * unat (x_size op)) \<le> length d"
  shows "\<exists>h'. TruncStore 8 16 op dr d h = Inr h' \<and>
     (\<forall>it. in_store op it \<longrightarrow> h' (store_addr op dst it) = ucast (d ! store_lane op it)) \<and>
     (\<forall>a. a \<notin> store_addr op dst ` Collect (in_store op) \<longrightarrow> h' a = h a)"
proof -
  let ?its = "iters (unat (y_size op)) (unat (x_size op)) 0 16"
  let ?h' = "fold (\<lambda>it h. h(store_addr op dst it := ucast (d ! store_lane op it))) ?its h"
  have its: "set ?its = Collect (in_store op)" by (auto simp: set_iters in_store_def)
  have lane: "store_lane op it < length d" if st: "in_store op it" for it
  proof -
    obtain y x i where it: "it = (y, x, i)" "y < unat (y_size op)" "x < unat (x_size op)" "i < 16"
      using st by (cases it) (auto simp: in_store_def)
    have "y * unat (x_size op) + x + 1 \<le> unat (y_size op) * unat (x_size op)"
      using row_col_bound [OF it(2,3) order_refl] by simp
    then have "16 * (unat (sram_base op) + (y * unat (x_size op) + x + 1)) \<le> 16 * (unat (sram_base op) + unat (y_size op) * unat (x_size op))"
      by (intro mult_le_mono2) simp
    also note src
    finally show ?thesis using it by (simp add: store_lane_def)
  qed
  have "fold_res (trunc_lane 16 op dst d) ?its h = Inr ?h'"
    by (rule fold_res_pure [where I = "\<lambda>_. True"]) (simp_all add: its trunc_lane_eq [OF _ size] lane)
  then have "TruncStore 8 16 op dr d h = Inr ?h'" using TruncStore_loop [OF pads addr] by simp
  moreover have "inj_on (store_addr op dst) (set ?its)"
    unfolding its using store_addr_inj [OF size] by (auto simp: inj_on_def)
  ultimately show ?thesis
    using fold_fun_upd_at [of "store_addr op dst" ?its _ "\<lambda>it. ucast (d ! store_lane op it)" h]
      fold_fun_upd_other [of _ "store_addr op dst" ?its "\<lambda>it. ucast (d ! store_lane op it)" h]
    by (intro exI [of _ ?h']) (simp add: its)
qed

section \<open>Bit packing\<close>

definition pack_bits :: "nat \<Rightarrow> bool" where
  "pack_bits bits = (bits \<in> {1, 2, 4, 8, 16, 32})"

lemma kMask_mask: "bits < 32 \<Longrightarrow> kMask bits = mask bits"
  by (auto simp: kMask_def mask_eq_exp_minus_1 push_bit_eq_mult)

lemma signed_take_bit_full: "signed_take_bit 31 v = (v :: u32)"
proof (rule bit_word_eqI)
  fix n assume "n < LENGTH(32)"
  then show "bit (signed_take_bit 31 v) n = bit (v :: u32) n"
    by (cases "n = 31") (auto simp: bit_simps min_def)
qed

lemma pack_fits:
  assumes "pack_bits bits"
  shows "0 < bits" "bits \<le> 32" "i mod kNumPackElem bits * bits + bits \<le> 32"
proof -
  show "0 < bits" "bits \<le> 32" using assms by (auto simp: pack_bits_def)
  have "kNumPackElem bits * bits = 32" "0 < kNumPackElem bits"
    using assms by (auto simp: pack_bits_def kNumPackElem_def)
  then have "(i mod kNumPackElem bits + 1) * bits \<le> 32"
    by (metis Suc_eq_plus1 Suc_leI mod_less_divisor mult_le_mono1)
  then show "i mod kNumPackElem bits * bits + bits \<le> 32" by (simp add: algebra_simps)
qed

lemma packed_field:
  assumes "sh + bits \<le> 32"
  shows "drop_bit sh ((w AND NOT (push_bit sh (mask bits))) OR push_bit sh (v AND mask bits)) AND mask bits
    = (v AND mask bits :: u32)"
  by (rule bit_word_eqI) (use assms in \<open>auto simp: bit_simps\<close>)

lemma sign_extend:
  assumes "0 < bits" "bits \<le> 32"
  shows "signed_drop_bit (32 - bits) (push_bit (32 - bits) (v AND mask bits)) = (signed_take_bit (bits - 1) v :: u32)"
proof (rule bit_word_eqI)
  fix n assume "n < LENGTH(32)"
  then show "bit (signed_drop_bit (32 - bits) (push_bit (32 - bits) (v AND mask bits))) n = bit (signed_take_bit (bits - 1) v :: u32) n"
    using assms by (cases "n < bits - 1"; cases "n = bits - 1") (auto simp: bit_simps min_def)
qed

lemma other_field:
  assumes "a + bits \<le> b \<or> b + bits \<le> a" "a + bits \<le> 32" "b + bits \<le> 32"
  shows "drop_bit b ((w AND NOT (push_bit a (mask bits))) OR push_bit a (v AND mask bits)) AND mask bits
    = (drop_bit b w AND mask bits :: u32)"
  by (rule bit_word_eqI) (use assms in \<open>auto simp: bit_simps\<close>)

lemma fields_apart:
  assumes "i div k = j div k" "i \<noteq> j"
  shows "i mod k * bits + bits \<le> j mod k * bits \<or> j mod k * bits + bits \<le> i mod k * (bits :: nat)"
proof -
  have "i mod k \<noteq> j mod k" using assms by (metis div_mult_mod_eq)
  then have "Suc (i mod k) \<le> j mod k \<or> Suc (j mod k) \<le> i mod k" by linarith
  then have "Suc (i mod k) * bits \<le> j mod k * bits \<or> Suc (j mod k) * bits \<le> i mod k * bits"
    by (metis mult_le_mono1)
  then show ?thesis by (simp add: add.commute)
qed

lemma GetSigned_SetSigned:
  assumes "pack_bits bits" "i div kNumPackElem bits < length ws"
  shows "GetSigned bits (SetSigned bits ws i v) i = signed_take_bit (bits - 1) v"
proof (cases "bits = 32")
  case True
  then show ?thesis
    using assms(2) by (simp add: GetSigned_def SetSigned_def kNumPackElem_def signed_take_bit_full)
next
  case False
  then have lt: "bits < 32" using pack_fits(2) [OF assms(1)] by simp
  show ?thesis
    unfolding GetSigned_def SetSigned_def Let_def
    by (simp only: False if_False nth_list_update_eq [OF assms(2)] kMask_mask [OF lt]
        packed_field [OF pack_fits(3) [OF assms(1)]] sign_extend [OF pack_fits(1,2) [OF assms(1)]])
qed

lemma GetSigned_SetSigned_other:
  assumes "pack_bits bits" "i div kNumPackElem bits < length ws" "i \<noteq> j"
  shows "GetSigned bits (SetSigned bits ws i v) j = GetSigned bits ws j"
proof (cases "bits \<noteq> 32 \<and> i div kNumPackElem bits = j div kNumPackElem bits")
  case True
  then have lt: "bits < 32" "bits \<noteq> 32" and d: "i div kNumPackElem bits = j div kNumPackElem bits"
    using pack_fits(2) [OF assms(1)] by simp_all
  show ?thesis
    unfolding GetSigned_def SetSigned_def Let_def
    by (simp only: lt(2) d if_False nth_list_update_eq [OF assms(2) [unfolded d]] kMask_mask [OF lt(1)]
      other_field [OF fields_apart [OF d assms(3)] pack_fits(3) [OF assms(1)] pack_fits(3) [OF assms(1)]])
next
  case False
  then show ?thesis using assms(3) by (auto simp: GetSigned_def SetSigned_def Let_def)
qed

section \<open>A sample device\<close>

definition sample_dev :: device where
  "sample_dev = \<lparr>finish_counter = 0, prof = \<lparr>inp_load_nbytes = 0, wgt_load_nbytes = 0, acc_load_nbytes = 0,
      uop_load_nbytes = 0, out_store_nbytes = 0, gemm_counter = 0, alu_counter = 0, debug_flag = 0\<rparr>,
    dram = sample_vmm, hostmem = (\<lambda>a. ucast a), inp_sram = replicate 32768 2, wgt_sram = replicate 262144 3,
    acc_sram = replicate 32768 5, uop_sram = replicate 8192 0\<rparr>"

definition sample_mem :: "3 word \<Rightarrow> VTAMemInsn" where
  "sample_mem op = \<lparr>opcode = op, pop_prev_dep = False, pop_next_dep = False, push_prev_dep = False,
     push_next_dep = False, memory_type = VTA_MEM_ID_OUT, sram_base = 3, dram_base = 256, y_size = 2, x_size = 2,
     x_stride = 4, y_pad_0 = 0, y_pad_1 = 0, x_pad_0 = 0, x_pad_1 = 0\<rparr>"

definition sample_gemm :: VTAGemInsn where
  "sample_gemm = \<lparr>opcode = VTA_OPCODE_GEMM, pop_prev_dep = False, pop_next_dep = False, push_prev_dep = False,
     push_next_dep = False, reset_reg = False, uop_bgn = 0, uop_end = 1, iter_out = 2, iter_in = 1,
     dst_factor_out = 1, dst_factor_in = 0, src_factor_out = 1, src_factor_in = 0, wgt_factor_out = 0,
     wgt_factor_in = 0\<rparr>"

definition sample_alu :: VTAAluInsn where
  "sample_alu = \<lparr>opcode = VTA_OPCODE_ALU, pop_prev_dep = False, pop_next_dep = False, push_prev_dep = False,
     push_next_dep = False, reset_reg_a = False, uop_bgn_a = 0, uop_end_a = 1, iter_out_a = 2, iter_in_a = 1,
     dst_factor_out_a = 1, dst_factor_in_a = 0, src_factor_out_a = 1, src_factor_in_a = 0,
     alu_opcode = VTA_ALU_OPCODE_MUL, use_imm = True, imm = 7\<rparr>"

lemma sample_dev_wf: "dev_wf sample_dev"
  by (simp add: dev_wf_def sample_dev_def spec_consts)

lemma unit_uop_0: "unit_uop 0 = \<lparr>dst_idx = 0, src_idx = 0, wgt_idx = 0\<rparr>"
  by (simp add: unit_uop_def)

lemma sample_addr: "GetAddr 4096 sample_vmm = Inr 0x10000"
  by (simp add: GetAddr_def sample_vmm_value spec_consts Let_def new_page_def nth_append)

lemma sample_dot: "dot (replicate 32768 2) (replicate 262144 3) 1 0 1 = 96"
proof -
  have "map (\<lambda>k. scast (replicate 32768 (2 :: 8 word) ! (16 * 1 + k)) * scast (replicate 262144 (3 :: 8 word) ! (256 * 0 + (16 * 1 + k))))
      [0..<16] = map (\<lambda>_. 6 :: u32) [0..<16]"
    by (rule map_cong) auto
  then show ?thesis unfolding dot_def by (simp only: sum_list_triv) simp
qed

section \<open>Properties\<close>

text \<open>C11: \<open>SRAM::Load\<close> fills exactly the \<open>xtotal * ytotal\<close> elements from \<open>sram_base\<close>: element (r, c) of
  the padded block is DRAM element \<open>(r - y_pad_0) * x_stride + (c - x_pad_0)\<close> inside the data and zero
  in the padding, lane by lane; every other element keeps its value. It fails only when the block
  does not fit the buffer or the address translation fails.\<close>

theorem sim_load_2d:
  assumes "length d = kLane * kMaxNumElem" "GetAddr (dram_addr op (kElemBytes kBits kLane)) dr = Inr ptr"
    and "unat (sram_base op) + xtotal op * ytotal op \<le> kMaxNumElem"
  shows "\<exists>d'. Load kBits kLane kMaxNumElem rd op dr h False d = Inr d' \<and> length d' = length d \<and>
    (\<forall>e l. e < kMaxNumElem \<and> l < kLane \<longrightarrow> d' ! (kLane * e + l) =
      (let b = unat (sram_base op) in
       if b \<le> e \<and> e < b + xtotal op * ytotal op
       then load_lane kLane (kBits div 8) (rd h) ptr op ((e - b) div xtotal op) ((e - b) mod xtotal op) l
       else d ! (kLane * e + l)))"
proof -
  obtain d' where d': "load_2d kLane kMaxNumElem (kBits div 8) (rd h) ptr op d = Inr d'"
    using assms(3) unfolding load_2d_splice [OF assms(1)] by simp
  have "length d' = length d"
    using d' assms(3) unfolding load_2d_splice [OF assms(1)]
    by (auto simp: length_overwrite [OF load_block_fits(2) [OF assms(1,3)]])
  moreover have "Load kBits kLane kMaxNumElem rd op dr h False d = Inr d'"
    using d' assms(2) by (simp add: Load_def)
  ultimately show ?thesis
    using load_2d_lane [OF assms(1) d'] by (auto simp: Let_def)
qed

theorem sim_load_2d_witness:
  "\<exists>d'. Load 8 16 2048 lane8 (sample_mem VTA_OPCODE_LOAD) sample_vmm (\<lambda>a. ucast a) False (replicate 32768 1) = Inr d' \<and>
     d' ! (16 * 5 + 3) = 67 \<and> d' ! (16 * 7 + 3) = 1"
proof -
  let ?op = "sample_mem VTA_OPCODE_LOAD"
  have a: "GetAddr (dram_addr ?op (kElemBytes 8 16)) sample_vmm = Inr 0x10000"
    by (simp add: dram_addr_def kElemBytes_def sample_mem_def sample_addr)
  have t: "xtotal ?op = 2" "ytotal ?op = 2" "unat (sram_base ?op) = 3"
    by (simp_all add: xtotal_def ytotal_def sample_mem_def)
  obtain d' where "Load 8 16 2048 lane8 ?op sample_vmm (\<lambda>a. ucast a) False (replicate 32768 1) = Inr d'"
    and n: "\<And>e l. e < 2048 \<Longrightarrow> l < 16 \<Longrightarrow> d' ! (16 * e + l) =
      (if 3 \<le> e \<and> e < 7 then load_lane 16 1 (lane8 (\<lambda>a. ucast a)) 0x10000 ?op ((e - 3) div 2) ((e - 3) mod 2) l
       else replicate 32768 1 ! (16 * e + l))"
    using sim_load_2d [of "replicate 32768 1" 16 2048 ?op 8 sample_vmm "0x10000" lane8 "\<lambda>a. ucast a"] a t
    by (auto simp: Let_def)
  moreover have "d' ! (16 * 5 + 3) = 67" "d' ! (16 * 7 + 3) = 1"
    using n [of 5 3] n [of 7 3] by (simp_all add: load_lane_def lane8_def sample_mem_def)
  ultimately show ?thesis by blast
qed

text \<open>C10: \<open>RunGEMM\<close> adds to lane \<open>j\<close> of every accumulator element the sum, over all iterations that
  address the element, of the dot products of the selected input vector with row \<open>j\<close> of the selected
  weight block (32-bit wrap-around), and changes nothing else but the counter; it does not fail when
  all indices are inside the buffers.\<close>

theorem sim_gemm:
  assumes "dev_wf dev" "\<not> reset_reg op" "\<not> SkipExec (prof dev)"
    and "its = iters (unat (iter_out op)) (unat (iter_in op)) (unat (uop_bgn op)) (unat (uop_end op))"
    and "list_all (gemm_ok op (uop_sram dev)) its"
  shows "\<exists>acc' p. RunGEMM op dev = Inr (dev\<lparr>acc_sram := acc', prof := p\<rparr>) \<and>
     (\<forall>a j. a < VTA_ACC_BUFF_DEPTH \<and> j < VTA_BLOCK_OUT \<longrightarrow>
        acc' ! (VTA_BLOCK_OUT * a + j) =
        acc_sram dev ! (VTA_BLOCK_OUT * a + j) + (\<Sum>it \<leftarrow> its. gemm_term op dev a j it))"
proof -
  define dev1 where "dev1 = dev\<lparr>prof := (prof dev)\<lparr>gemm_counter := gemm_counter (prof dev)
     + loop_count (iter_out op) (iter_in op) (uop_bgn op) (uop_end op)\<rparr>\<rparr>"
  have "dev_wf dev1" "list_all (gemm_ok op (uop_sram dev1)) its"
    using assms by (simp_all add: dev1_def dev_wf_def)
  from gemm_loop [OF this] obtain acc' where "fold_res (gemm_iter op) its dev1 = Inr (dev1\<lparr>acc_sram := acc'\<rparr>)"
    "\<And>a j. a < 2048 \<Longrightarrow> j < 16 \<Longrightarrow> acc' ! (16 * a + j) = acc_sram dev1 ! (16 * a + j) + (\<Sum>it \<leftarrow> its. gemm_term op dev1 a j it)"
    by blast
  moreover have "gemm_term op dev1 = gemm_term op dev" by (simp add: dev1_def gemm_term_def fun_eq_iff)
  moreover have "RunGEMM op dev = fold_res (gemm_iter op) its dev1"
    using assms(2-4) by (simp add: RunGEMM_def Let_def loop3_iters dev1_def)
  ultimately show ?thesis
    by (intro exI [of _ acc'] exI [of _ "prof dev1"]) (simp add: dev1_def spec_consts)
qed

theorem sim_gemm_witness:
  "\<exists>acc' p. RunGEMM sample_gemm sample_dev = Inr (sample_dev\<lparr>acc_sram := acc', prof := p\<rparr>) \<and> acc' ! 17 = 101"
proof -
  have it: "iters 2 1 0 1 = [(0, 0, 0), (1, 0, 0)]" by (simp add: iters_def upt_rec)
  have ok: "list_all (gemm_ok sample_gemm (uop_sram sample_dev)) [(0, 0, 0), (1, 0, 0)]"
    by (simp add: gemm_ok_def gemm_acc_def gemm_inp_def gemm_wgt_def sample_dev_def unit_uop_0 affine_def
        sample_gemm_def spec_consts)
  have t: "gemm_term sample_gemm sample_dev 1 1 (0, 0, 0) = 0" "gemm_term sample_gemm sample_dev 1 1 (1, 0, 0) = 96"
    by (simp_all add: gemm_term_def gemm_acc_def gemm_inp_def gemm_wgt_def sample_dev_def unit_uop_0 affine_def
        sample_gemm_def sample_dot [simplified])
  have run: "\<not> reset_reg sample_gemm" "\<not> SkipExec (prof sample_dev)"
    "[(0, 0, 0), (1, 0, 0)] = iters (unat (iter_out sample_gemm)) (unat (iter_in sample_gemm))
       (unat (uop_bgn sample_gemm)) (unat (uop_end sample_gemm))"
    using it by (simp_all add: sample_gemm_def sample_dev_def SkipExec_def)
  from sim_gemm [OF sample_dev_wf run ok] obtain acc' p
    where r: "RunGEMM sample_gemm sample_dev = Inr (sample_dev\<lparr>acc_sram := acc', prof := p\<rparr>)"
    and n: "\<forall>a j. a < VTA_ACC_BUFF_DEPTH \<and> j < VTA_BLOCK_OUT \<longrightarrow> acc' ! (VTA_BLOCK_OUT * a + j) =
       acc_sram sample_dev ! (VTA_BLOCK_OUT * a + j) + (\<Sum>it \<leftarrow> [(0, 0, 0), (1, 0, 0)]. gemm_term sample_gemm sample_dev a j it)"
    by blast
  have "acc' ! 17 = acc_sram sample_dev ! 17 + 96"
    using n [rule_format, of 1 1] t by (simp add: spec_consts)
  with r show ?thesis by (auto simp: sample_dev_def)
qed

text \<open>C12: \<open>RunALU\<close> on iterations that write different elements (and, without an immediate, read none
  that another iteration writes) applies the opcode's function to every lane of every addressed
  element, with the sign-extended immediate or the source lane as second operand; every other element
  keeps its value.\<close>

theorem sim_alu:
  assumes "dev_wf dev" "\<not> SkipExec (prof dev)" "alu_func (alu_opcode op) = Some func" "alu_total op func g"
    and "its = iters (unat (iter_out_a op)) (unat (iter_in_a op)) (unat (uop_bgn_a op)) (unat (uop_end_a op))"
    and "list_all (alu_ok op (uop_sram dev)) its" "alu_independent op (uop_sram dev) its"
  shows "\<exists>acc' p. RunALU op dev = Inr (dev\<lparr>acc_sram := acc', prof := p\<rparr>) \<and>
     (\<forall>j < VTA_BLOCK_OUT.
       (\<forall>it \<in> set its. let a = VTA_BLOCK_OUT * alu_dst op (uop_sram dev) it + j in
          acc' ! a = g (acc_sram dev ! a) (alu_arg op (uop_sram dev) (acc_sram dev) it j)) \<and>
       (\<forall>e. e \<notin> alu_dst op (uop_sram dev) ` set its \<longrightarrow>
          acc' ! (VTA_BLOCK_OUT * e + j) = acc_sram dev ! (VTA_BLOCK_OUT * e + j)))"
proof -
  define dev1 where "dev1 = dev\<lparr>prof := (prof dev)\<lparr>alu_counter := alu_counter (prof dev)
     + loop_count (iter_out_a op) (iter_in_a op) (uop_bgn_a op) (uop_end_a op)\<rparr>\<rparr>"
  have us: "uop_sram dev1 = uop_sram dev" "acc_sram dev1 = acc_sram dev" by (simp_all add: dev1_def)
  have "dev_wf dev1" using assms(1) by (simp add: dev1_def dev_wf_def)
  from alu_loop [OF this _ assms(4), of its] assms(6,7) obtain acc' where acc':
    "fold_res (alu_iter func op) its dev1 = Inr (dev1\<lparr>acc_sram := acc'\<rparr>)"
    "\<forall>j < 16. (\<forall>it \<in> set its. acc' ! (16 * alu_dst op (uop_sram dev) it + j) =
          g (acc_sram dev ! (16 * alu_dst op (uop_sram dev) it + j)) (alu_arg op (uop_sram dev) (acc_sram dev) it j)) \<and>
       (\<forall>a. a \<notin> alu_dst op (uop_sram dev) ` set its \<longrightarrow> acc' ! (16 * a + j) = acc_sram dev ! (16 * a + j))"
    unfolding us by blast
  have "RunALU op dev = fold_res (alu_iter func op) its dev1"
    using assms(2,3,5) by (simp add: RunALU_def Let_def loop3_iters dev1_def)
  with acc' show ?thesis
    by (intro exI [of _ acc'] exI [of _ "prof dev1"]) (simp add: dev1_def spec_consts)
qed

theorem sim_alu_witness:
  "\<exists>acc' p. RunALU sample_alu sample_dev = Inr (sample_dev\<lparr>acc_sram := acc', prof := p\<rparr>) \<and>
     acc' ! 18 = 35 \<and> acc' ! 34 = 5"
proof -
  have it: "iters 2 1 0 1 = [(0, 0, 0), (1, 0, 0)]" by (simp add: iters_def upt_rec)
  have dst: "alu_dst sample_alu (uop_sram sample_dev) (0, 0, 0) = 0" "alu_dst sample_alu (uop_sram sample_dev) (1, 0, 0) = 1"
    by (simp_all add: alu_dst_def sample_dev_def unit_uop_0 affine_def sample_alu_def)
  have src: "alu_src sample_alu (uop_sram sample_dev) (0, 0, 0) = 0" "alu_src sample_alu (uop_sram sample_dev) (1, 0, 0) = 1"
    by (simp_all add: alu_src_def sample_dev_def unit_uop_0 affine_def sample_alu_def)
  have ok: "list_all (alu_ok sample_alu (uop_sram sample_dev)) [(0, 0, 0), (1, 0, 0)]"
    "alu_independent sample_alu (uop_sram sample_dev) [(0, 0, 0), (1, 0, 0)]"
    using dst src by (simp_all add: alu_ok_def alu_independent_def spec_consts)
  have f: "alu_func (alu_opcode sample_alu) = Some (\<lambda>x y. Inr (x * y))"
    by (simp add: alu_func_def sample_alu_def spec_consts)
  have t: "alu_total sample_alu (\<lambda>x y. Inr (x * y)) (*)" by (simp add: alu_total_def)
  have skip: "\<not> SkipExec (prof sample_dev)" and its: "[(0, 0, 0), (1, 0, 0)] =
      iters (unat (iter_out_a sample_alu)) (unat (iter_in_a sample_alu)) (unat (uop_bgn_a sample_alu)) (unat (uop_end_a sample_alu))"
    using it by (simp_all add: sample_alu_def sample_dev_def SkipExec_def)
  from sim_alu [OF sample_dev_wf skip f t its ok]
  obtain acc' p where run: "RunALU sample_alu sample_dev = Inr (sample_dev\<lparr>acc_sram := acc', prof := p\<rparr>)"
    and w: "\<forall>j < VTA_BLOCK_OUT. (\<forall>it \<in> set [(0, 0, 0), (1, 0, 0)].
        let a = VTA_BLOCK_OUT * alu_dst sample_alu (uop_sram sample_dev) it + j in
        acc' ! a = acc_sram sample_dev ! a * alu_arg sample_alu (uop_sram sample_dev) (acc_sram sample_dev) it j) \<and>
      (\<forall>e. e \<notin> alu_dst sample_alu (uop_sram sample_dev) ` set [(0, 0, 0), (1, 0, 0)] \<longrightarrow>
        acc' ! (VTA_BLOCK_OUT * e + j) = acc_sram sample_dev ! (VTA_BLOCK_OUT * e + j))"
    by blast
  have two: "2 < VTA_BLOCK_OUT" by (simp add: spec_consts)
  have "acc' ! 18 = 35" using w [rule_format, OF two] dst
    by (simp add: Let_def alu_arg_def sample_alu_def sample_dev_def spec_consts)
  moreover have "acc' ! 34 = 5" using conjunct2 [OF w [rule_format, OF two], rule_format, of 2] dst
    by (simp add: sample_dev_def spec_consts)
  ultimately show ?thesis using run by blast
qed

text \<open>C13: \<open>TruncStore\<close> writes the low byte of every lane of the \<open>y_size * x_size\<close> accumulator elements to
  its place in the strided DRAM block and no other byte, when the rows do not overlap and the block
  stays inside the 32-bit index range.\<close>

theorem sim_trunc_store:
  assumes "x_pad_0 op = 0" "x_pad_1 op = 0" "y_pad_0 op = 0" "y_pad_1 op = 0"
    and "GetAddr (dram_addr op 16) dr = Inr dst"
    and "unat (x_size op) \<le> unat (x_stride op)" "16 * (unat (y_size op) * unat (x_stride op)) \<le> 2 ^ 32"
    and "16 * (unat (sram_base op) + unat (y_size op) * unat (x_size op)) \<le> length d"
  shows "\<exists>h'. TruncStore VTA_OUT_WIDTH acc_lanes op dr d h = Inr h' \<and>
     (\<forall>it. in_store op it \<longrightarrow> h' (store_addr op dst it) = ucast (d ! store_lane op it)) \<and>
     (\<forall>a. a \<notin> store_addr op dst ` Collect (in_store op) \<longrightarrow> h' a = h a)"
  using TruncStore_spec [OF assms] by (simp add: spec_consts)

theorem sim_trunc_store_witness:
  "\<exists>h'. TruncStore VTA_OUT_WIDTH acc_lanes (sample_mem VTA_OPCODE_STORE) sample_vmm (replicate 32768 0x1234) (\<lambda>_. 0) = Inr h' \<and>
     h' (0x10000 + 16 * 5 + 1) = 0x34"
proof -
  let ?op = "sample_mem VTA_OPCODE_STORE"
  have a: "GetAddr (dram_addr ?op 16) sample_vmm = Inr 0x10000"
    by (simp add: dram_addr_def sample_mem_def sample_addr)
  obtain h' where h': "TruncStore VTA_OUT_WIDTH acc_lanes ?op sample_vmm (replicate 32768 0x1234) (\<lambda>_. 0) = Inr h'"
    "in_store ?op (1, 1, 1) \<Longrightarrow> h' (store_addr ?op 0x10000 (1, 1, 1)) = ucast (replicate 32768 (0x1234 :: u32) ! store_lane ?op (1, 1, 1))"
    using sim_trunc_store [OF _ _ _ _ a, of "replicate 32768 0x1234" "\<lambda>_. 0"] by (auto simp: sample_mem_def)
  moreover have "in_store ?op (1, 1, 1)" by (simp add: in_store_def sample_mem_def)
  ultimately have "h' (0x10000 + 16 * 5 + 1) = 0x34"
    by (simp add: store_addr_def store_lane_def sample_mem_def)
  with h'(1) show ?thesis by blast
qed

text \<open>an element written with \<open>BitPacker<bits>::SetSigned\<close> is read back by \<open>GetSigned\<close> as the
  sign-extended low \<open>bits\<close> bits of the value, and the elements packed beside it keep theirs, for every
  supported width.\<close>

lemma bitpacker_signed_roundtrip:
  assumes "pack_bits bits" "i div kNumPackElem bits < length ws"
  shows "GetSigned bits (SetSigned bits ws i v) j =
    (if j = i then signed_take_bit (bits - 1) v else GetSigned bits ws j)"
  using GetSigned_SetSigned [OF assms] GetSigned_SetSigned_other [OF assms] by auto

text \<open>\<open>GetUnsigned\<close> misses a factor \<open>bits\<close> in its shift for sub-byte widths: a 4-bit element written
  to index 1 is read back wrongly.\<close>

lemma bitpacker_unsigned_mismatch:
  "GetUnsigned 4 (SetUnsigned 4 [0] 1 5) 1 = 8"
  by (simp add: GetUnsigned_def SetUnsigned_def kNumPackElem_def kMask_def)

end
