(* ===== verification/Vta_Uop.thy ===== *)
theory Vta_Uop
  imports Vta_Spec
begin

text \<open>
  Micro-op kernels and their cache (\<open>vta_runtime.cc\<close>: \<open>UopKernel\<close>, \<open>UopQueue\<close>, \<open>UopKernelMap\<close>).
  Kernels are shared by pointer between the kernel map and the cache ring, so they live in a heap (a
  list, a pointer being an index); the queue keeps indices. The queue's own \<open>dram_buffer_\<close> is never
  written and stays empty. SRAM positions are at most \<open>VTA_UOP_BUFF_DEPTH\<close> and kept as naturals.
  Shown: recording rejects inconsistent kernels, the cached kernels occupy disjoint ranges of the
  micro-op SRAM, and the load emitted for a kernel reads that kernel's micro-ops from the merged
  buffer as long as the ring does not wrap; a wrap makes an earlier load of the same batch read
  another kernel.
\<close>

section \<open>Kernels\<close>

record LoopEntry =
  extent :: u32
  dst_factor :: u32
  src_factor :: u32
  wgt_factor :: u32

record UopKernel =
  k_mode :: u32
  k_opcode :: u32
  k_reset_out :: u32
  k_use_imm :: bool
  k_imm_val :: "16 word"
  k_begin :: nat
  k_end :: nat
  k_signature :: bytes
  k_seq :: "VTAUop list"
  k_loop :: "LoopEntry list"
  k_loop_ptr :: u64

definition new_kernel :: "bytes \<Rightarrow> UopKernel" where
  "new_kernel sig = \<lparr>k_mode = 0xFFFFFFFF, k_opcode = 0xFFFFFFFF, k_reset_out = 0xFFFFFFFF, k_use_imm = False,
     k_imm_val = 0, k_begin = 0, k_end = 0, k_signature = sig, k_seq = [], k_loop = [], k_loop_ptr = 0\<rparr>"

definition MatchSignature :: "bytes \<Rightarrow> UopKernel \<Rightarrow> bool" where
  "MatchSignature sig k = (length sig = length (k_signature k) \<and> sig = k_signature k)"

definition cached :: "UopKernel \<Rightarrow> bool" where
  "cached k = (k_begin k \<noteq> k_end k)"

definition PushLoopBegin :: "u32 \<Rightarrow> u32 \<Rightarrow> u32 \<Rightarrow> u32 \<Rightarrow> UopKernel \<Rightarrow> UopKernel res" where
  "PushLoopBegin ext dst src wgt k =
    res_bind (check (k_seq k = []) ''seq_.size() == 0'') (\<lambda>_.
    res_bind (check (length (k_loop k) < 2) ''loop_.size() < 2'') (\<lambda>_.
    Inr (k\<lparr>k_loop := k_loop k @ [\<lparr>extent = ext, dst_factor = dst, src_factor = src, wgt_factor = wgt\<rparr>],
           k_loop_ptr := k_loop_ptr k + 1\<rparr>)))"

definition PushLoopEnd :: "UopKernel \<Rightarrow> UopKernel" where
  "PushLoopEnd k = k\<lparr>k_loop_ptr := k_loop_ptr k - 1\<rparr>"

definition VerifyDep :: "u32 \<Rightarrow> UopKernel \<Rightarrow> unit res" where
  "VerifyDep dst_index k =
    (let n = length (k_seq k); step = min 2 n in
     fold_res (\<lambda>i _. check (ucast (dst_idx (k_seq k ! i)) \<noteq> dst_index) ''seq_[i].dst_idx != dst_index'')
       [n - step..<n] ())"

definition Uop_Push :: "u32 \<Rightarrow> u32 \<Rightarrow> u32 \<Rightarrow> u32 \<Rightarrow> u32 \<Rightarrow> u32 \<Rightarrow> u32 \<Rightarrow> u32 \<Rightarrow> UopKernel \<Rightarrow> UopKernel res" where
  "Uop_Push mode reset_out dst_index src_index wgt_index opc uimm imm_val k =
    res_bind (VerifyDep dst_index k) (\<lambda>_.
    let op = \<lparr>dst_idx = ucast dst_index, src_idx = ucast src_index, wgt_idx = ucast wgt_index\<rparr>;
        k = k\<lparr>k_seq := k_seq k @ [op]\<rparr> in
    res_bind (if k_mode k = 0xFFFFFFFF then Inr (k\<lparr>k_mode := mode\<rparr>)
              else res_bind (check (k_mode k = mode) ''mode_ == mode'') (\<lambda>_. Inr k)) (\<lambda>k.
    res_bind (if k_reset_out k = 0xFFFFFFFF then Inr (k\<lparr>k_reset_out := reset_out\<rparr>)
              else res_bind (check (k_reset_out k = reset_out) ''reset_out_ == reset_out'') (\<lambda>_. Inr k)) (\<lambda>k.
    if mode = 1 then
      (if k_opcode k = 0xFFFFFFFF then
         Inr (k\<lparr>k_opcode := opc, k_use_imm := (uimm \<noteq> 0), k_imm_val := ucast imm_val\<rparr>)
       else
         res_bind (check (k_opcode k = opc) ''opcode_ == opcode'') (\<lambda>_.
         res_bind (check (of_bool (k_use_imm k) = uimm) ''use_imm_ == use_imm'') (\<lambda>_.
         res_bind (check (scast (k_imm_val k) = imm_val) ''imm_val_ == imm_val'') (\<lambda>_. Inr k))))
    else Inr k)))"

section \<open>The kernel map\<close>

definition Map_Get :: "bytes \<Rightarrow> nat option list \<Rightarrow> (nat \<times> nat option list) res" where
  "Map_Get sig kmap =
    res_bind (check (length sig = 0 \<or> length sig = 4) ''nbytes == 0 || nbytes == sizeof(int)'') (\<lambda>_.
    let key = (if length sig = 4 then word_of_nat (le_value sig) + 1 else 0) :: u32 in
    res_bind (check (key < 100) ''key < 100'') (\<lambda>_.
    Inr (unat key, if length kmap \<le> unat key then kmap @ replicate (unat key + 1 - length kmap) None else kmap)))"

section \<open>The queue\<close>

type_synonym kheap = "UopKernel list"

record UopQueue =
  uq_idx :: nat
  uq_cache :: "nat list"
  uq_begin :: nat
  uq_end :: nat
  uq_dram :: "VTAUop list"
  uq_fpga :: u64
  uq_phy :: u32

definition VTA_MAX_XFER :: nat where [spec_consts]: "VTA_MAX_XFER = 2 ^ 25"
definition kMaxNumUop :: nat where [spec_consts]: "kMaxNumUop = VTA_UOP_BUFF_DEPTH"
definition kMaxElems :: nat where [spec_consts]: "kMaxElems = VTA_MAX_XFER div VTA_UOP_ELEM_BYTES"

definition unmark :: "UopKernel \<Rightarrow> UopKernel" where
  "unmark k = k\<lparr>k_begin := 0, k_end := 0\<rparr>"

text \<open>The eviction loop from \<open>cache_idx_\<close>: how many entries it passes, and the heap.\<close>

primrec evict :: "nat list \<Rightarrow> nat \<Rightarrow> kheap \<Rightarrow> nat \<times> kheap" where
  "evict [] sram_end h = (0, h)"
| "evict (c # cs) sram_end h =
    (if k_begin (h ! c) \<ge> sram_end then (0, h)
     else let (n, h') = evict cs sram_end (h[c := unmark (h ! c)]) in (Suc n, h'))"

text \<open>\<open>UopQueue::Push\<close> after the test for a cached kernel; \<open>fautosync\<close> is called by the caller when
  \<open>uq_overflow\<close> holds.\<close>

definition uq_overflow :: "nat \<Rightarrow> UopQueue \<Rightarrow> bool" where
  "uq_overflow num_op q = (length (uq_dram q) + num_op > kMaxElems)"

definition UopQueue_Push :: "nat \<Rightarrow> kheap \<times> UopQueue \<Rightarrow> (kheap \<times> UopQueue) res" where
  "UopQueue_Push kid = (\<lambda>(h, q).
    let num_op = length (k_seq (h ! kid)) in
    res_bind (check (length (uq_dram q) \<le> kMaxElems) ''dram_buffer_.size() <= kMaxElems'') (\<lambda>_.
    res_bind (check (num_op \<le> kMaxNumUop) ''num_op <= kMaxNumUop'') (\<lambda>_.
    let (uop_begin, q) =
          (if uq_end q + num_op > kMaxNumUop then (0, q\<lparr>uq_idx := 0, uq_begin := 0, uq_end := num_op\<rparr>)
           else (uq_end q, q\<lparr>uq_end := uq_end q + num_op\<rparr>));
        evict_begin = uq_idx q;
        (n, h) = evict (drop evict_begin (uq_cache q)) (uq_end q) h;
        h = h[kid := (h ! kid)\<lparr>k_begin := uop_begin, k_end := uq_end q\<rparr>]
    in res_bind (check (cached (h ! kid)) ''kernel->cached()'') (\<lambda>_.
       Inr (h, q\<lparr>uq_cache := take evict_begin (uq_cache q) @ kid # drop (evict_begin + n) (uq_cache q),
                  uq_idx := evict_begin + 1\<rparr>)))))"

definition pending :: "UopQueue \<Rightarrow> bool" where
  "pending q = (uq_begin q \<noteq> uq_end q)"

definition sizes_before :: "kheap \<Rightarrow> nat list \<Rightarrow> nat" where
  "sizes_before h cs = sum_list (map (\<lambda>c. length (k_seq (h ! c)) * VTA_UOP_ELEM_BYTES) cs)"

definition FlushUopLoad :: "VTAMemInsn \<Rightarrow> kheap \<times> UopQueue \<Rightarrow> (VTAMemInsn \<times> UopQueue) res" where
  "FlushUopLoad insn = (\<lambda>(h, q).
    if uq_begin q = uq_end q then Inr (insn, q)
    else res_bind (guard_bounds (0 < uq_idx q \<and> uq_idx q - 1 \<le> length (uq_cache q))) (\<lambda>_.
      let offset = word_of_nat (sizes_before h (take (uq_idx q - 1) (uq_cache q))) :: u32;
          n = uq_end q - uq_begin q in
      Inr (insn\<lparr>memory_type := VTA_MEM_ID_UOP, sram_base := word_of_nat (uq_begin q),
                dram_base := (uq_phy q + offset) div word_of_nat VTA_UOP_ELEM_BYTES,
                y_size := 1, x_size := word_of_nat n, x_stride := word_of_nat n,
                y_pad_0 := 0, y_pad_1 := 0, x_pad_0 := 0, x_pad_1 := 0\<rparr>,
           q\<lparr>uq_begin := uq_end q\<rparr>)))"

definition UopQueue_Reset :: "kheap \<times> UopQueue \<Rightarrow> kheap \<times> UopQueue" where
  "UopQueue_Reset = (\<lambda>(h, q).
    (fold (\<lambda>c h. h[c := unmark (h ! c)]) (uq_cache q) h,
     q\<lparr>uq_cache := [], uq_idx := 0, uq_dram := [], uq_end := 0, uq_begin := 0\<rparr>))"

text \<open>\<open>ReadBarrier\<close>: the bytes it copies to \<open>fpga_buff_\<close>.\<close>

definition merged :: "kheap \<Rightarrow> nat list \<Rightarrow> bytes" where
  "merged h cs = concat (map (\<lambda>c. concat (map uop_bytes (k_seq (h ! c)))) cs)"

definition UopQueue_ReadBarrier :: "kheap \<times> UopQueue \<Rightarrow> bytes res" where
  "UopQueue_ReadBarrier = (\<lambda>(h, q).
    res_bind (check (uq_fpga q \<noteq> 0) ''fpga_buff_ != nullptr'') (\<lambda>_.
    res_bind (check (uq_phy q \<noteq> 0) ''fpga_buff_phy_'') (\<lambda>_.
    let buff_size = word_of_nat (sizes_before h (uq_cache q)) :: u32 in
    res_bind (check (unat buff_size \<le> VTA_MAX_XFER) ''buff_size <= kMaxBytes'') (\<lambda>_.
    Inr (take (unat buff_size) (merged h (uq_cache q)))))))"

text \<open>What \<open>PushGEMMOp\<close> and \<open>PushALUUop\<close> do with the queue: push the kernel unless it is cached and, if
  something is pending, fill in the load instruction \<open>insn\<close>.\<close>

definition stage_kernel :: "VTAMemInsn \<Rightarrow> nat \<Rightarrow> kheap \<times> UopQueue \<Rightarrow> (VTAMemInsn option \<times> kheap \<times> UopQueue) res" where
  "stage_kernel insn kid = (\<lambda>(h, q).
    res_bind (if cached (h ! kid) then Inr (h, q) else UopQueue_Push kid (h, q)) (\<lambda>(h, q).
    if pending q then res_bind (FlushUopLoad insn (h, q)) (\<lambda>(i, q). Inr (Some i, h, q))
    else Inr (None, h, q)))"

fun stage_all :: "VTAMemInsn \<Rightarrow> nat list \<Rightarrow> kheap \<times> UopQueue \<Rightarrow> (VTAMemInsn option list \<times> kheap \<times> UopQueue) res" where
  "stage_all insn [] s = Inr ([], s)"
| "stage_all insn (k # ks) s =
    res_bind (stage_kernel insn k s) (\<lambda>(i, s). res_bind (stage_all insn ks s) (\<lambda>(is, s). Inr (i # is, s)))"

section \<open>The cache ring\<close>

text \<open>\<open>contig lo cs hi\<close>: the kernels \<open>cs\<close> fill \<open>[lo, hi)\<close> without a gap; \<open>chain lo cs\<close>: they follow each
  other from \<open>lo\<close> on without overlap, inside the SRAM.\<close>

definition span_ok :: "kheap \<Rightarrow> nat \<Rightarrow> bool" where
  "span_ok h c = (c < length h \<and> k_begin (h ! c) < k_end (h ! c) \<and> k_end (h ! c) \<le> kMaxNumUop \<and>
     k_end (h ! c) - k_begin (h ! c) = length (k_seq (h ! c)))"

fun contig :: "kheap \<Rightarrow> nat \<Rightarrow> nat list \<Rightarrow> nat \<Rightarrow> bool" where
  "contig h lo [] hi = (lo = hi)"
| "contig h lo (c # cs) hi = (span_ok h c \<and> k_begin (h ! c) = lo \<and> contig h (k_end (h ! c)) cs hi)"

fun chain :: "kheap \<Rightarrow> nat \<Rightarrow> nat list \<Rightarrow> bool" where
  "chain h lo [] = True"
| "chain h lo (c # cs) = (span_ok h c \<and> lo \<le> k_begin (h ! c) \<and> chain h (k_end (h ! c)) cs)"

definition uq_wf :: "kheap \<Rightarrow> UopQueue \<Rightarrow> bool" where
  "uq_wf h q =
    (uq_idx q \<le> length (uq_cache q) \<and> distinct (uq_cache q) \<and>
     contig h 0 (take (uq_idx q) (uq_cache q)) (uq_end q) \<and>
     chain h (uq_end q) (drop (uq_idx q) (uq_cache q)) \<and>
     (\<forall>c < length h. c \<notin> set (uq_cache q) \<longrightarrow> \<not> cached (h ! c)) \<and>
     uq_begin q \<le> uq_end q \<and> uq_end q \<le> kMaxNumUop \<and> uq_dram q = [])"

lemma contig_append: "contig h lo (cs @ ds) hi = (\<exists>m. contig h lo cs m \<and> contig h m ds hi)"
  by (induction cs arbitrary: lo) auto

lemma chain_mono: "chain h lo cs \<Longrightarrow> lo' \<le> lo \<Longrightarrow> chain h lo' cs"
  by (cases cs) auto

lemma chain_append: "chain h lo (cs @ ds) \<Longrightarrow> chain h lo cs \<and> chain h lo ds"
proof (induction cs arbitrary: lo)
  case (Cons c cs)
  then have "chain h (k_end (h ! c)) cs" "chain h (k_end (h ! c)) ds" "lo \<le> k_end (h ! c)"
    by (auto simp: span_ok_def)
  with Cons.prems show ?case by (auto intro: chain_mono)
qed simp

lemma contig_chain: "contig h lo cs hi \<Longrightarrow> chain h hi ds \<Longrightarrow> chain h lo (cs @ ds)"
  by (induction cs arbitrary: lo) auto

text \<open>Kernels outside of a ring do not matter to it.\<close>

lemma span_ok_upd: "c \<noteq> d \<Longrightarrow> span_ok (h[d := k]) c = span_ok h c"
  by (simp add: span_ok_def)

lemma contig_upd: "d \<notin> set cs \<Longrightarrow> contig (h[d := k]) lo cs hi = contig h lo cs hi"
  by (induction cs arbitrary: lo) (auto simp: span_ok_upd)

lemma chain_upd: "d \<notin> set cs \<Longrightarrow> chain (h[d := k]) lo cs = chain h lo cs"
  by (induction cs arbitrary: lo) (auto simp: span_ok_upd)

lemma chain_disjoint:
  "chain h lo cs \<Longrightarrow> distinct cs \<Longrightarrow> c \<in> set cs \<Longrightarrow> d \<in> set cs \<Longrightarrow> c \<noteq> d \<Longrightarrow>
   k_end (h ! c) \<le> k_begin (h ! d) \<or> k_end (h ! d) \<le> k_begin (h ! c)"
proof (induction cs arbitrary: lo)
  case (Cons x cs)
  have later: "k_end (h ! x) \<le> k_begin (h ! y)" if "y \<in> set cs" for y
  proof -
    have "chain h m cs \<Longrightarrow> y \<in> set cs \<Longrightarrow> m \<le> k_begin (h ! y)" for m
      by (induction cs arbitrary: m) (auto simp: span_ok_def, fastforce)
    with Cons.prems(1) that show ?thesis by simp
  qed
  with Cons show ?case by (auto simp: span_ok_def)
qed simp

lemma chain_spans: "chain h lo cs \<Longrightarrow> c \<in> set cs \<Longrightarrow> span_ok h c"
  by (induction cs arbitrary: lo) auto

text \<open>What the eviction loop leaves.\<close>

lemma unmark_simps [simp]:
  "k_seq (unmark k) = k_seq k" "\<not> cached (unmark k)" "unmark (unmark k) = unmark k"
  by (simp_all add: unmark_def cached_def)

lemma evict_effect:
  assumes "evict cs e h = (n, h')" "chain h lo cs" "distinct cs"
  shows "n \<le> length cs \<and> length h' = length h \<and> chain h' e (drop n cs) \<and>
    (\<forall>c. c \<notin> set (take n cs) \<longrightarrow> h' ! c = h ! c) \<and>
    (\<forall>c \<in> set (take n cs). h' ! c = unmark (h ! c))"
  using assms
proof (induction cs arbitrary: h lo n)
  case (Cons c cs)
  show ?case
  proof (cases "k_begin (h ! c) \<ge> e")
    case True
    then show ?thesis using Cons.prems by simp
  next
    case False
    then obtain m where m: "evict cs e (h[c := unmark (h ! c)]) = (m, h')" "n = Suc m"
      using Cons.prems(1) by (auto simp: split_def Let_def prod_eq_iff split: if_splits)
    have "chain (h[c := unmark (h ! c)]) (k_end (h ! c)) cs"
      using Cons.prems by (simp add: chain_upd)
    moreover have "c \<notin> set (take m cs)" using Cons.prems(3) by (auto dest: in_set_takeD)
    ultimately show ?thesis
      using Cons.IH [OF m(1)] Cons.prems m(2) by (auto simp: nth_list_update span_ok_def)
  qed
qed simp

text \<open>\<open>Push\<close> keeps the ring well formed and places the kernel behind \<open>cache_idx_\<close>.\<close>

lemma UopQueue_Push_ok:
  assumes wf: "uq_wf h q" and k: "kid < length h" "kid \<notin> set (uq_cache q)"
    and n: "0 < length (k_seq (h ! kid))" "length (k_seq (h ! kid)) \<le> kMaxNumUop"
  defines "wrap \<equiv> uq_end q + length (k_seq (h ! kid)) > kMaxNumUop"
  defines "i \<equiv> (if wrap then 0 else uq_idx q)" and "b \<equiv> (if wrap then 0 else uq_end q)"
  shows "\<exists>h' q' m. UopQueue_Push kid (h, q) = Inr (h', q') \<and> uq_wf h' q' \<and>
    uq_cache q' = take i (uq_cache q) @ kid # drop (i + m) (uq_cache q) \<and> uq_idx q' = Suc i \<and>
    k_begin (h' ! kid) = b \<and> k_end (h' ! kid) = b + length (k_seq (h ! kid)) \<and> uq_end q' = k_end (h' ! kid) \<and>
    uq_begin q' = (if wrap then 0 else uq_begin q) \<and> length h' = length h \<and>
    (\<forall>c. k_seq (h' ! c) = k_seq (h ! c)) \<and> uq_phy q' = uq_phy q \<and> uq_fpga q' = uq_fpga q"
proof -
  let ?c = "uq_cache q" let ?n = "length (k_seq (h ! kid))"
  have cn: "contig h 0 (take i ?c) b" "chain h b (drop i ?c)" "i \<le> length ?c" "distinct ?c"
  proof -
    have "contig h 0 (take (uq_idx q) ?c) (uq_end q)" "chain h (uq_end q) (drop (uq_idx q) ?c)"
      using wf by (simp_all add: uq_wf_def)
    then have "chain h 0 ?c" using contig_chain by fastforce
    with wf show "contig h 0 (take i ?c) b" "chain h b (drop i ?c)" "i \<le> length ?c" "distinct ?c"
      by (auto simp: uq_wf_def i_def b_def)
  qed
  obtain m h1 where ev: "evict (drop i ?c) (b + ?n) h = (m, h1)" by (cases "evict (drop i ?c) (b + ?n) h")
  note e = evict_effect [OF ev cn(2) distinct_drop [OF cn(4)]]
  have kt: "kid \<notin> set (take m (drop i ?c))" using k(2) by (auto dest: in_set_takeD in_set_dropD)
  have pre: "c \<notin> set (take m (drop i ?c))" if "c \<in> set (take i ?c)" for c
    using that cn(4) by (metis append_take_drop_id disjoint_iff distinct_append in_set_takeD)
  let ?k = "(h1 ! kid)\<lparr>k_begin := b, k_end := b + ?n\<rparr>"
  let ?h = "h1[kid := ?k]"
  have h1k: "h1 ! kid = h ! kid" "kid < length h1" using e kt k(1) by auto
  have bound: "b + ?n \<le> kMaxNumUop" using n by (auto simp: b_def wrap_def)
  have sp: "span_ok ?h kid" using h1k n(1) bound by (simp add: span_ok_def)
  have same: "contig h1 lo cs hi = contig h lo cs hi" if "\<forall>c \<in> set cs. h1 ! c = h ! c" for lo cs hi
    using that e by (induction cs arbitrary: lo) (auto simp: span_ok_def)
  have kd: "kid \<notin> set (take i ?c)" "kid \<notin> set (drop (i + m) ?c)" using k(2) by (auto dest: in_set_takeD in_set_dropD)
  have "contig ?h 0 (take i ?c @ [kid]) (b + ?n)"
    using cn(1) same [of "take i ?c"] pre e sp h1k kd(1) by (auto simp: contig_append contig_upd)
  moreover have "chain ?h (b + ?n) (drop (i + m) ?c)"
    using e kd(2) by (auto simp: chain_upd add.commute)
  moreover have "distinct (take i ?c @ kid # drop (i + m) ?c)"
    using cn(4) kd by (auto simp: set_take_disj_set_drop_if_distinct)
  moreover have "\<not> cached (?h ! c)" if "c < length h" "c \<notin> set (take i ?c @ kid # drop (i + m) ?c)" for c
  proof (cases "c \<in> set ?c")
    case True
    then have "c \<in> set (take m (drop i ?c))"
      using that(2) by (metis Un_iff append_take_drop_id drop_drop add.commute list.set_intros(2) set_append)
    with e that show ?thesis by auto
  next
    case False
    then have "c \<notin> set (take m (drop i ?c))" by (auto dest: in_set_takeD in_set_dropD)
    with e False wf that show ?thesis by (auto simp: uq_wf_def)
  qed
  ultimately have wf': "uq_wf ?h (q\<lparr>uq_idx := Suc i, uq_begin := (if wrap then 0 else uq_begin q), uq_end := b + ?n,
      uq_cache := take i ?c @ kid # drop (i + m) ?c\<rparr>)"
    using wf bound e h1k cn(3) by (auto simp: uq_wf_def b_def)
  have dram: "uq_dram q = []" using wf by (simp add: uq_wf_def)
  have seq: "k_seq (?h ! c) = k_seq (h ! c)" for c
    using e h1k by (cases "c = kid"; cases "c \<in> set (take m (drop i ?c))") auto
  have push: "UopQueue_Push kid (h, q) = Inr (?h, q\<lparr>uq_idx := Suc i, uq_begin := (if wrap then 0 else uq_begin q),
      uq_end := b + ?n, uq_cache := take i ?c @ kid # drop (i + m) ?c\<rparr>)"
    using n ev h1k dram by (auto simp: UopQueue_Push_def Let_def i_def b_def wrap_def cached_def)
  have len: "length ?h = length h" "?h ! kid = ?k" using e h1k by simp_all
  show ?thesis
    by (rule exI [of _ ?h], rule exI, rule exI [of _ m], intro conjI, rule push, rule wf')
      (simp_all only: seq len, simp_all)
qed

section \<open>The merged buffer\<close>

definition kernel_bytes :: "kheap \<Rightarrow> nat \<Rightarrow> bytes" where
  "kernel_bytes h c = concat (map uop_bytes (k_seq (h ! c)))"

lemma length_kernel_bytes [simp]: "length (kernel_bytes h c) = 4 * length (k_seq (h ! c))"
  by (simp add: kernel_bytes_def uop_code.enc_array_length)

lemma merged_append [simp]: "merged h (cs @ ds) = merged h cs @ merged h ds"
  and merged_Cons [simp]: "merged h (c # cs) = kernel_bytes h c @ merged h cs"
  and merged_Nil [simp]: "merged h [] = []"
  by (simp_all add: merged_def kernel_bytes_def)

lemma length_merged: "length (merged h cs) = sizes_before h cs"
  by (induction cs) (simp_all add: sizes_before_def spec_consts)

lemma merged_cong: "(\<And>c. k_seq (h' ! c) = k_seq (h ! c)) \<Longrightarrow> merged h' cs = merged h cs"
  by (simp add: merged_def)

lemma contig_sizes: "contig h lo cs hi \<Longrightarrow> lo \<le> hi \<and> sizes_before h cs = 4 * (hi - lo)"
proof (induction cs arbitrary: lo)
  case (Cons c cs)
  then have "k_end (h ! c) \<le> hi" "sizes_before h cs = 4 * (hi - k_end (h ! c))" by auto
  with Cons.prems show ?case by (auto simp: sizes_before_def span_ok_def spec_consts algebra_simps)
qed (simp add: sizes_before_def)

definition total_uops :: "kheap \<Rightarrow> nat list \<Rightarrow> nat" where
  "total_uops h ks = sum_list (map (\<lambda>k. length (k_seq (h ! k))) ks)"

definition load_of :: "VTAMemInsn \<Rightarrow> u32 \<Rightarrow> nat \<Rightarrow> nat \<Rightarrow> VTAMemInsn" where
  "load_of insn phy b n = insn\<lparr>memory_type := VTA_MEM_ID_UOP, sram_base := word_of_nat b,
     dram_base := (phy + word_of_nat (4 * b)) div 4, y_size := 1, x_size := word_of_nat n, x_stride := word_of_nat n,
     y_pad_0 := 0, y_pad_1 := 0, x_pad_0 := 0, x_pad_1 := 0\<rparr>"

text \<open>Pushing at the end of a ring without later entries, without a wrap.\<close>

lemma stage_kernel_append:
  assumes wf: "uq_wf h q" "uq_idx q = length (uq_cache q)" "uq_begin q = uq_end q"
    and k: "kid < length h" "kid \<notin> set (uq_cache q)" "0 < length (k_seq (h ! kid))"
    and fit: "uq_end q + length (k_seq (h ! kid)) \<le> kMaxNumUop"
  shows "\<exists>h' q'. stage_kernel insn kid (h, q) = Inr (Some (load_of insn (uq_phy q) (uq_end q) (length (k_seq (h ! kid)))), h', q') \<and>
    uq_wf h' q' \<and> uq_cache q' = uq_cache q @ [kid] \<and> uq_idx q' = length (uq_cache q') \<and>
    uq_begin q' = uq_end q' \<and> uq_end q' = uq_end q + length (k_seq (h ! kid)) \<and> length h' = length h \<and>
    (\<forall>c. k_seq (h' ! c) = k_seq (h ! c)) \<and> uq_phy q' = uq_phy q \<and> uq_fpga q' = uq_fpga q"
proof -
  have nw: "\<not> kMaxNumUop < uq_end q + length (k_seq (h ! kid))" "length (k_seq (h ! kid)) \<le> kMaxNumUop"
    using fit by simp_all
  obtain h' q' where p: "UopQueue_Push kid (h, q) = Inr (h', q')" "uq_wf h' q'"
    "uq_cache q' = uq_cache q @ [kid]" "uq_idx q' = Suc (length (uq_cache q))"
    "uq_end q' = uq_end q + length (k_seq (h ! kid))" "uq_begin q' = uq_end q" "length h' = length h"
    "\<forall>c. k_seq (h' ! c) = k_seq (h ! c)" "uq_phy q' = uq_phy q" "uq_fpga q' = uq_fpga q"
    using UopQueue_Push_ok [OF wf(1) k(1,2,3) nw(2)] nw(1) wf(2,3) by (auto simp del: drop_all)
  have nc: "\<not> cached (h ! kid)" using wf(1) k(1,2) by (simp add: uq_wf_def)
  have "contig h 0 (uq_cache q) (uq_end q)" using wf(1,2) by (simp add: uq_wf_def)
  then have "sizes_before h (uq_cache q) = 4 * uq_end q" using contig_sizes by fastforce
  then have "sizes_before h' (uq_cache q) = 4 * uq_end q" using p(8) by (simp add: sizes_before_def)
  then have "FlushUopLoad insn (h', q') =
      Inr (load_of insn (uq_phy q) (uq_end q) (length (k_seq (h ! kid))), q'\<lparr>uq_begin := uq_end q'\<rparr>)"
    using p k(3) by (simp add: FlushUopLoad_def Let_def load_of_def spec_consts)
  moreover have "uq_wf h' (q'\<lparr>uq_begin := uq_end q'\<rparr>)" using p(2) by (simp add: uq_wf_def)
  ultimately show ?thesis
    using p nc k(3) by (auto simp: stage_kernel_def pending_def)
qed

lemma stage_all_append:
  assumes "uq_wf h q" "uq_idx q = length (uq_cache q)" "uq_begin q = uq_end q"
    and "distinct (uq_cache q @ ks)" "\<forall>k \<in> set ks. k < length h \<and> 0 < length (k_seq (h ! k))"
    and "uq_end q + total_uops h ks \<le> kMaxNumUop"
  shows "\<exists>h' q'. stage_all insn ks (h, q) =
      Inr (map (\<lambda>j. Some (load_of insn (uq_phy q) (uq_end q + total_uops h (take j ks)) (length (k_seq (h ! (ks ! j)))))) [0..<length ks], h', q') \<and>
    uq_wf h' q' \<and> uq_cache q' = uq_cache q @ ks \<and> (\<forall>c. k_seq (h' ! c) = k_seq (h ! c)) \<and>
    uq_phy q' = uq_phy q \<and> uq_fpga q' = uq_fpga q \<and> uq_end q' = uq_end q + total_uops h ks"
  using assms
proof (induction ks arbitrary: h q)
  case Nil
  then show ?case by (simp add: total_uops_def)
next
  case (Cons k ks)
  let ?n = "length (k_seq (h ! k))"
  have fit: "uq_end q + ?n \<le> kMaxNumUop" using Cons.prems(6) by (simp add: total_uops_def)
  obtain h1 q1 where s1: "stage_kernel insn k (h, q) = Inr (Some (load_of insn (uq_phy q) (uq_end q) ?n), h1, q1)"
    "uq_wf h1 q1" "uq_cache q1 = uq_cache q @ [k]" "uq_idx q1 = length (uq_cache q1)" "uq_begin q1 = uq_end q1"
    "uq_end q1 = uq_end q + ?n" "length h1 = length h" "\<And>c. k_seq (h1 ! c) = k_seq (h ! c)"
    "uq_phy q1 = uq_phy q" "uq_fpga q1 = uq_fpga q"
    using stage_kernel_append [OF Cons.prems(1-3) _ _ _ fit, of insn] Cons.prems(4,5) by auto
  have tot: "total_uops h1 xs = total_uops h xs" for xs using s1(8) by (simp add: total_uops_def)
  have "\<exists>h' q'. stage_all insn ks (h1, q1) =
      Inr (map (\<lambda>j. Some (load_of insn (uq_phy q1) (uq_end q1 + total_uops h1 (take j ks)) (length (k_seq (h1 ! (ks ! j)))))) [0..<length ks], h', q') \<and>
    uq_wf h' q' \<and> uq_cache q' = uq_cache q1 @ ks \<and> (\<forall>c. k_seq (h' ! c) = k_seq (h1 ! c)) \<and>
    uq_phy q' = uq_phy q1 \<and> uq_fpga q' = uq_fpga q1 \<and> uq_end q' = uq_end q1 + total_uops h1 ks"
    by (rule Cons.IH) (use Cons.prems s1 in \<open>auto simp: total_uops_def\<close>)
  then obtain h' q' where r: "stage_all insn ks (h1, q1) =
      Inr (map (\<lambda>j. Some (load_of insn (uq_phy q) (uq_end q + ?n + total_uops h (take j ks)) (length (k_seq (h ! (ks ! j)))))) [0..<length ks], h', q')"
    "uq_wf h' q'" "uq_cache q' = uq_cache q @ k # ks" "\<And>c. k_seq (h' ! c) = k_seq (h ! c)"
    "uq_phy q' = uq_phy q" "uq_fpga q' = uq_fpga q" "uq_end q' = uq_end q + ?n + total_uops h ks"
    unfolding s1 tot by auto
  have "map (\<lambda>j. Some (load_of insn (uq_phy q) (uq_end q + total_uops h (take j (k # ks))) (length (k_seq (h ! ((k # ks) ! j)))))) [0..<length (k # ks)]
    = Some (load_of insn (uq_phy q) (uq_end q) ?n) #
      map (\<lambda>j. Some (load_of insn (uq_phy q) (uq_end q + ?n + total_uops h (take j ks)) (length (k_seq (h ! (ks ! j)))))) [0..<length ks]"
    by (simp add: upt_conv_Cons map_Suc_upt [symmetric] total_uops_def comp_def add.assoc del: upt_Suc)
  then show ?case using s1(1) r by (auto simp: total_uops_def)
qed

lemma length_merged_total: "length (merged h cs) = 4 * total_uops h cs"
  by (induction cs) (simp_all add: total_uops_def)

lemma merged_slice:
  assumes "j < length ks"
  shows "slice (4 * total_uops h (take j ks)) (4 * length (k_seq (h ! (ks ! j)))) (merged h ks) = kernel_bytes h (ks ! j)"
proof -
  have "merged h ks = merged h (take j ks) @ kernel_bytes h (ks ! j) @ merged h (drop (Suc j) ks)"
    using assms by (metis Cons_nth_drop_Suc append_take_drop_id merged_Cons merged_append)
  moreover have "length (merged h (take j ks)) = 4 * total_uops h (take j ks)"
    by (rule length_merged_total)
  ultimately show ?thesis by (simp add: slice_def)
qed

lemma load_of_dram:
  assumes "4 dvd unat phy" "unat phy + 4 * b < 2 ^ 32"
  shows "4 * unat (dram_base (load_of insn phy b n)) = unat phy + 4 * b"
proof -
  have "unat (phy + word_of_nat (4 * b)) = unat phy + 4 * b"
    using assms(2) unat_word_of_nat_small [where 'a = 32, of "4 * b"] by (simp add: unat_word_ariths(1) del: of_nat_mult)
  then have "unat ((phy + word_of_nat (4 * b)) div 4) = (unat phy + 4 * b) div 4" by (simp add: unat_div)
  then show ?thesis using assms(1) by (simp add: load_of_def del: of_nat_mult)
qed

section \<open>Recording\<close>

text \<open>No micro-op writes the accumulator index of one of the two before it.\<close>

definition hazard_free :: "VTAUop list \<Rightarrow> bool" where
  "hazard_free us = (\<forall>i j. i < j \<and> j < length us \<and> j \<le> i + 2 \<longrightarrow> dst_idx (us ! i) \<noteq> dst_idx (us ! j))"

record uop_args =
  a_mode :: u32
  a_reset :: u32
  a_dst :: u32
  a_src :: u32
  a_wgt :: u32
  a_opcode :: u32
  a_use_imm :: u32
  a_imm :: u32

definition push_args :: "uop_args \<Rightarrow> UopKernel \<Rightarrow> UopKernel res" where
  "push_args a = Uop_Push (a_mode a) (a_reset a) (a_dst a) (a_src a) (a_wgt a) (a_opcode a) (a_use_imm a) (a_imm a)"

lemma fold_check:
  "fold_res (\<lambda>i (_ :: unit). check (P i) msg) xs () = Inr u \<longleftrightarrow> (\<forall>i \<in> set xs. P i)"
  by (induction xs) auto

lemma VerifyDep_iff:
  "VerifyDep d k = Inr u \<longleftrightarrow> (\<forall>i. i < length (k_seq k) \<and> length (k_seq k) \<le> i + 2 \<longrightarrow> ucast (dst_idx (k_seq k ! i)) \<noteq> d)"
proof -
  have "(length (k_seq k) - min 2 (length (k_seq k)) \<le> i) = (length (k_seq k) \<le> i + 2)" for i by arith
  then show ?thesis by (auto simp: VerifyDep_def Let_def fold_check)
qed

lemma Uop_Push_seq:
  assumes "push_args a k = Inr k'"
  shows "VerifyDep (a_dst a) k = Inr ()"
    "k_seq k' = k_seq k @ [\<lparr>dst_idx = ucast (a_dst a), src_idx = ucast (a_src a), wgt_idx = ucast (a_wgt a)\<rparr>]"
  using assms by (auto simp: push_args_def Uop_Push_def Let_def split: if_splits)

lemma ucast_dst_small: "unat (d :: u32) < 2048 \<Longrightarrow> ucast (ucast d :: 11 word) = d"
  by (simp add: word_unat_eq_iff unsigned_ucast_eq unsigned_take_bit_eq take_bit_nat_eq_self)

lemma push_hazard_free:
  assumes "hazard_free (k_seq k)" "push_args a k = Inr k'" "unat (a_dst a) < VTA_ACC_BUFF_DEPTH"
  shows "hazard_free (k_seq k')"
proof -
  have new: "\<And>i. i < length (k_seq k) \<Longrightarrow> length (k_seq k) \<le> i + 2 \<Longrightarrow> dst_idx (k_seq k ! i) \<noteq> ucast (a_dst a)"
    using Uop_Push_seq(1) [OF assms(2)] assms(3) ucast_dst_small [of "a_dst a"]
    by (auto simp: VerifyDep_iff spec_consts)
  show ?thesis
    unfolding hazard_free_def Uop_Push_seq(2) [OF assms(2)]
  proof (intro allI impI)
    fix i j
    let ?u = "\<lparr>dst_idx = ucast (a_dst a), src_idx = ucast (a_src a), wgt_idx = ucast (a_wgt a)\<rparr>"
    assume "i < j \<and> j < length (k_seq k @ [?u]) \<and> j \<le> i + 2"
    then show "dst_idx ((k_seq k @ [?u]) ! i) \<noteq> dst_idx ((k_seq k @ [?u]) ! j)"
      using new [of i] assms(1) by (cases "j = length (k_seq k)") (auto simp: nth_append hazard_free_def)
  qed
qed

section \<open>Staging kernels\<close>

lemma wf_cached_iff: "uq_wf h q \<Longrightarrow> c < length h \<Longrightarrow> cached (h ! c) \<longleftrightarrow> c \<in> set (uq_cache q)"
proof
  assume wf: "uq_wf h q" and "c \<in> set (uq_cache q)"
  then have "chain h 0 (uq_cache q)" using contig_chain [of h 0] by (fastforce simp: uq_wf_def)
  with \<open>c \<in> _\<close> have "span_ok h c" by (rule chain_spans [rotated])
  then show "cached (h ! c)" by (auto simp: span_ok_def cached_def)
qed (auto simp: uq_wf_def)

lemma wf_disjoint:
  assumes wf: "uq_wf h q" and cd: "c < length h" "d < length h" "c \<noteq> d" "cached (h ! c)" "cached (h ! d)"
  shows "k_end (h ! c) \<le> k_begin (h ! d) \<or> k_end (h ! d) \<le> k_begin (h ! c)" "span_ok h c"
proof -
  have "chain h 0 (uq_cache q)" "distinct (uq_cache q)"
    using wf contig_chain [of h 0] by (fastforce simp: uq_wf_def)+
  moreover have "c \<in> set (uq_cache q)" "d \<in> set (uq_cache q)" using wf_cached_iff [OF wf] cd by auto
  ultimately show "k_end (h ! c) \<le> k_begin (h ! d) \<or> k_end (h ! d) \<le> k_begin (h ! c)" "span_ok h c"
    using cd(3) chain_disjoint chain_spans by blast+
qed

definition in_sram :: "UopKernel \<Rightarrow> VTAMemInsn \<Rightarrow> bool" where
  "in_sram k i = (memory_type i = VTA_MEM_ID_UOP \<and> sram_base i = word_of_nat (k_begin k) \<and> y_size i = 1 \<and>
     x_size i = word_of_nat (k_end k - k_begin k) \<and> x_pad_0 i = 0 \<and> y_pad_0 i = 0)"

lemma stage_kernel_wf:
  assumes wf: "uq_wf h q" "uq_begin q = uq_end q"
    and k: "kid < length h" "0 < length (k_seq (h ! kid))" "length (k_seq (h ! kid)) \<le> kMaxNumUop"
  shows "\<exists>i h' q'. stage_kernel insn kid (h, q) = Inr (i, h', q') \<and> uq_wf h' q' \<and> uq_begin q' = uq_end q' \<and>
    length h' = length h \<and> (\<forall>c. k_seq (h' ! c) = k_seq (h ! c)) \<and> cached (h' ! kid) \<and>
    (if cached (h ! kid) then i = None else \<exists>l. i = Some l \<and> in_sram (h' ! kid) l)"
proof (cases "cached (h ! kid)")
  case True
  then show ?thesis using wf by (simp add: stage_kernel_def pending_def)
next
  case False
  then have "kid \<notin> set (uq_cache q)" using wf_cached_iff [OF wf(1) k(1)] by simp
  from UopQueue_Push_ok [OF wf(1) k(1) this k(2,3)] obtain h' q' i where
    p: "UopQueue_Push kid (h, q) = Inr (h', q')" "uq_wf h' q'" "uq_idx q' = Suc i" "i \<le> length (uq_cache q')"
      "k_end (h' ! kid) = k_begin (h' ! kid) + length (k_seq (h ! kid))" "uq_end q' = k_end (h' ! kid)"
      "uq_begin q' = k_begin (h' ! kid)" "length h' = length h" "\<And>c. k_seq (h' ! c) = k_seq (h ! c)"
    using wf by (auto simp: uq_wf_def)
  have "pending q'" using p k(2) by (simp add: pending_def)
  moreover have "uq_wf h' (q'\<lparr>uq_begin := uq_end q'\<rparr>)" using p(2) by (simp add: uq_wf_def)
  ultimately show ?thesis
    using p False k(2) by (auto simp: stage_kernel_def FlushUopLoad_def Let_def in_sram_def cached_def spec_consts)
qed

lemma stage_all_wf:
  assumes "uq_wf h q" "uq_begin q = uq_end q"
    and "\<forall>k \<in> set ks. k < length h \<and> 0 < length (k_seq (h ! k)) \<and> length (k_seq (h ! k)) \<le> kMaxNumUop"
  shows "\<exists>ls h' q'. stage_all insn ks (h, q) = Inr (ls, h', q') \<and> uq_wf h' q' \<and> uq_begin q' = uq_end q' \<and>
    length h' = length h \<and> (\<forall>c. k_seq (h' ! c) = k_seq (h ! c))"
  using assms
proof (induction ks arbitrary: h q)
  case (Cons k ks)
  then obtain i h1 q1 where s: "stage_kernel insn k (h, q) = Inr (i, h1, q1)" "uq_wf h1 q1" "uq_begin q1 = uq_end q1"
    "length h1 = length h" "\<And>c. k_seq (h1 ! c) = k_seq (h ! c)"
    using stage_kernel_wf [OF Cons.prems(1,2), of k insn] by auto
  with Cons.IH [OF s(2,3)] Cons.prems(3) show ?case by auto
qed simp

lemma reset_unmarks:
  "length (fold (\<lambda>c h. h[c := unmark (h ! c)]) cs h) = length h \<and>
   (c < length h \<longrightarrow> fold (\<lambda>c h. h[c := unmark (h ! c)]) cs h ! c = (if c \<in> set cs then unmark (h ! c) else h ! c))"
proof (induction cs arbitrary: h)
  case (Cons d cs)
  then show ?case by (cases "c = d") simp_all
qed simp

lemma UopQueue_Reset_wf:
  assumes "uq_wf h q" "UopQueue_Reset (h, q) = (h', q')"
  shows "uq_wf h' q' \<and> uq_begin q' = uq_end q' \<and> uq_cache q' = [] \<and> uq_idx q' = 0 \<and> length h' = length h \<and>
    uq_end q' = 0 \<and> uq_phy q' = uq_phy q \<and> uq_fpga q' = uq_fpga q"
proof -
  have "\<not> cached (h' ! c)" if "c < length h" for c
    using assms that reset_unmarks [of "uq_cache q" h c] by (auto simp: UopQueue_Reset_def uq_wf_def)
  then show ?thesis
    using assms reset_unmarks [of "uq_cache q" h] by (auto simp: UopQueue_Reset_def uq_wf_def)
qed

section \<open>Properties\<close>

definition sample_uop :: "nat \<Rightarrow> VTAUop" where
  "sample_uop n = \<lparr>dst_idx = word_of_nat n, src_idx = 0, wgt_idx = 0\<rparr>"

definition sample_kernel :: "nat \<Rightarrow> nat \<Rightarrow> UopKernel" where
  "sample_kernel d n = (new_kernel [])\<lparr>k_seq := replicate n (sample_uop d)\<rparr>"

definition fresh_uq :: "u32 \<Rightarrow> UopQueue" where
  "fresh_uq phy = \<lparr>uq_idx = 0, uq_cache = [], uq_begin = 0, uq_end = 0, uq_dram = [], uq_fpga = 1, uq_phy = phy\<rparr>"

definition blank_mem :: VTAMemInsn where
  "blank_mem = \<lparr>opcode = 0, pop_prev_dep = False, pop_next_dep = False, push_prev_dep = False, push_next_dep = False,
     memory_type = 0, sram_base = 0, dram_base = 0, y_size = 0, x_size = 0, x_stride = 0,
     y_pad_0 = 0, y_pad_1 = 0, x_pad_0 = 0, x_pad_1 = 0\<rparr>"

lemma fresh_uq_simps [simp]:
  "uq_idx (fresh_uq phy) = 0" "uq_cache (fresh_uq phy) = []" "uq_begin (fresh_uq phy) = 0" "uq_end (fresh_uq phy) = 0"
  "uq_dram (fresh_uq phy) = []" "uq_fpga (fresh_uq phy) = 1" "uq_phy (fresh_uq phy) = phy"
  by (simp_all add: fresh_uq_def)

lemma fresh_uq_wf: "\<forall>k \<in> set h. \<not> cached k \<Longrightarrow> uq_wf h (fresh_uq phy)"
  by (simp add: uq_wf_def)

lemma sample_kernel_simps [simp]:
  "k_seq (sample_kernel d n) = replicate n (sample_uop d)" "\<not> cached (sample_kernel d n)"
  "k_begin (sample_kernel d n) = 0" "k_end (sample_kernel d n) = 0"
  by (simp_all add: sample_kernel_def new_kernel_def cached_def)

text \<open>C8: Staging any sequence of recorded kernels (new, repeated or evicted ones; each not empty and not larger
  than the micro-op SRAM) never fails, and afterwards any two kernels marked as cached occupy disjoint ranges of the
  SRAM, each of the size of its micro-op sequence. The invariant behind it also holds after \<open>Reset\<close>, which unmarks
  every kernel.\<close>

theorem uop_cache_disjoint:
  assumes "uq_wf h q" "uq_begin q = uq_end q"
    and "\<forall>k \<in> set ks. k < length h \<and> 0 < length (k_seq (h ! k)) \<and> length (k_seq (h ! k)) \<le> kMaxNumUop"
  shows "\<exists>ls h' q'. stage_all insn ks (h, q) = Inr (ls, h', q') \<and> length h' = length h \<and>
    (\<forall>c < length h. \<forall>d < length h. c \<noteq> d \<and> cached (h' ! c) \<and> cached (h' ! d) \<longrightarrow>
       (k_end (h' ! c) \<le> k_begin (h' ! d) \<or> k_end (h' ! d) \<le> k_begin (h' ! c)) \<and>
       k_end (h' ! c) - k_begin (h' ! c) = length (k_seq (h ! c)) \<and> k_end (h' ! c) \<le> kMaxNumUop) \<and>
    uq_wf h' q' \<and> case_prod uq_wf (UopQueue_Reset (h', q')) \<and>
    (\<forall>c < length h. \<not> cached (fst (UopQueue_Reset (h', q')) ! c))"
proof -
  obtain ls h' q' where r: "stage_all insn ks (h, q) = Inr (ls, h', q')" "uq_wf h' q'" "length h' = length h"
    "\<And>c. k_seq (h' ! c) = k_seq (h ! c)"
    using stage_all_wf [OF assms] by blast
  obtain h2 q2 where z: "UopQueue_Reset (h', q') = (h2, q2)" by (cases "UopQueue_Reset (h', q')")
  note w = UopQueue_Reset_wf [OF r(2) z]
  have "\<forall>c < length h. \<not> cached (h2 ! c)" using w r(3) by (auto simp: uq_wf_def)
  moreover have "span_ok h' c \<Longrightarrow> k_end (h' ! c) - k_begin (h' ! c) = length (k_seq (h ! c)) \<and> k_end (h' ! c) \<le> kMaxNumUop" for c
    using r(4) by (simp add: span_ok_def)
  ultimately show ?thesis
    using r(1,2,3) z w wf_disjoint [OF r(2)] by (intro exI [of _ ls] exI [of _ h'] exI [of _ q']) auto
qed

theorem uop_cache_disjoint_witness:
  "\<exists>ls h' q'. stage_all blank_mem [0, 1, 0] ([sample_kernel 1 5000, sample_kernel 2 5000], fresh_uq 4096) = Inr (ls, h', q')"
  using uop_cache_disjoint [of "[sample_kernel 1 5000, sample_kernel 2 5000]" "fresh_uq 4096" "[0, 1, 0]" blank_mem]
  by (auto simp: fresh_uq_wf spec_consts)

text \<open>C7: Kernels staged after a reset that fit in the micro-op SRAM together: \<open>ReadBarrier\<close> then copies a buffer in
  which every emitted load finds, at the byte address \<open>4 * dram_base\<close> it names, exactly the encoded micro-ops of the
  kernel it was emitted for.\<close>

theorem uop_loads_find_their_kernel:
  assumes "\<forall>k \<in> set h. \<not> cached k" "distinct ks" "\<forall>k \<in> set ks. k < length h \<and> 0 < length (k_seq (h ! k))"
    and "total_uops h ks \<le> kMaxNumUop" "4 dvd unat phy" "0 < unat phy" "unat phy + 4 * kMaxNumUop < 2 ^ 32"
  shows "\<exists>ls h' q' buf. stage_all insn ks (h, fresh_uq phy) = Inr (ls, h', q') \<and>
    UopQueue_ReadBarrier (h', q') = Inr buf \<and> length ls = length ks \<and>
    (\<forall>j < length ks. \<exists>l. ls ! j = Some l \<and> unat (x_size l) = length (k_seq (h ! (ks ! j))) \<and>
       unat phy \<le> 4 * unat (dram_base l) \<and>
       slice (4 * unat (dram_base l) - unat phy) (4 * unat (x_size l)) buf = kernel_bytes h (ks ! j))"
proof -
  obtain h' q' where s: "stage_all insn ks (h, fresh_uq phy) =
      Inr (map (\<lambda>j. Some (load_of insn phy (total_uops h (take j ks)) (length (k_seq (h ! (ks ! j)))))) [0..<length ks], h', q')"
    "uq_cache q' = ks" "\<And>c. k_seq (h' ! c) = k_seq (h ! c)" "uq_phy q' = phy" "uq_fpga q' = 1"
    using stage_all_append [of h "fresh_uq phy" ks insn] assms(2-4) fresh_uq_wf [OF assms(1)] by auto
  have m: "merged h' ks = merged h ks" "sizes_before h' ks = 4 * total_uops h ks"
    using merged_cong [OF s(3)] length_merged length_merged_total by metis+
  have small: "4 * total_uops h ks < 2 ^ 32" "4 * total_uops h ks \<le> VTA_MAX_XFER" using assms(4) by (simp_all add: spec_consts)
  have b: "UopQueue_ReadBarrier (h', q') = Inr (merged h ks)"
    using s(2,4,5) m small assms(6) length_merged_total [of h ks] unat_word_of_nat_small [where 'a = 32, of "4 * total_uops h ks"]
    by (auto simp: UopQueue_ReadBarrier_def Let_def simp del: of_nat_mult)
  have "total_uops h (take j ks) + length (k_seq (h ! (ks ! j))) \<le> kMaxNumUop" if "j < length ks" for j
  proof -
    have "total_uops h ks = total_uops h (take j ks) + length (k_seq (h ! (ks ! j))) + total_uops h (drop (Suc j) ks)"
      using that by (metis (no_types, lifting) Cons_nth_drop_Suc add.assoc append_take_drop_id list.simps(9) map_append
        sum_list.Cons sum_list_append total_uops_def)
    then show ?thesis using assms(4) by simp
  qed
  then have "unat (x_size (load_of insn phy (total_uops h (take j ks)) (length (k_seq (h ! (ks ! j)))))) = length (k_seq (h ! (ks ! j)))
    \<and> 4 * unat (dram_base (load_of insn phy (total_uops h (take j ks)) (length (k_seq (h ! (ks ! j)))))) = unat phy + 4 * total_uops h (take j ks)"
    if "j < length ks" for j
    using that load_of_dram [OF assms(5)] assms(7)
    by (fastforce simp: load_of_def spec_consts unat_of_nat take_bit_nat_eq_self)
  then show ?thesis using s(1) b merged_slice [of _ ks h] by auto
qed

theorem uop_loads_find_their_kernel_witness:
  "\<exists>ls h' q'. stage_all blank_mem [1, 0] ([sample_kernel 1 3, sample_kernel 2 4], fresh_uq 4096) = Inr (ls, h', q') \<and> length ls = 2"
  using uop_loads_find_their_kernel [of "[sample_kernel 1 3, sample_kernel 2 4]" "[1, 0]" 4096 blank_mem]
  by (auto simp: spec_consts total_uops_def)

text \<open>C18: When two kernels do not fit in the micro-op SRAM together, staging the second evicts the first from the
  ring although the load emitted for the first has not run yet. Both loads then name the same DRAM address and the
  merged buffer holds the second kernel only, so the load of the first kernel reads the second one's micro-ops.\<close>

theorem uop_eviction_aliases_loads:
  assumes "\<not> cached k1" "\<not> cached k2" "length (k_seq k1) \<le> kMaxNumUop" "length (k_seq k2) \<le> kMaxNumUop"
    and "kMaxNumUop < length (k_seq k1) + length (k_seq k2)" "phy \<noteq> 0"
  shows "\<exists>l1 l2 h' q'. stage_all insn [0, 1] ([k1, k2], fresh_uq phy) = Inr ([Some l1, Some l2], h', q') \<and>
    dram_base l1 = phy div 4 \<and> dram_base l2 = phy div 4 \<and>
    UopQueue_ReadBarrier (h', q') = Inr (kernel_bytes [k1, k2] 1)"
proof -
  have n: "0 < length (k_seq k1)" "0 < length (k_seq k2)" "k_seq k1 \<noteq> []" "k_seq k2 \<noteq> []" using assms(3-5) by auto
  have "unat (word_of_nat (length (k_seq k2) * 4) :: u32) = length (k_seq k2) * 4" "length (k_seq k2) * 4 \<le> VTA_MAX_XFER"
    using assms(4) unat_word_of_nat_small [where 'a = 32, of "length (k_seq k2) * 4"] by (simp_all add: spec_consts)
  then show ?thesis
    using assms n length_kernel_bytes [of "[k1, k2]" 1]
    by (simp add: stage_kernel_def UopQueue_Push_def FlushUopLoad_def pending_def cached_def Let_def sizes_before_def
        UopQueue_ReadBarrier_def merged_def kernel_bytes_def spec_consts)
qed

theorem uop_eviction_aliases_loads_witness:
  "\<exists>l1 l2 h' q' buf. stage_all blank_mem [0, 1] ([sample_kernel 1 5000, sample_kernel 2 5000], fresh_uq 4096) = Inr ([Some l1, Some l2], h', q') \<and>
    dram_base l1 = dram_base l2 \<and> UopQueue_ReadBarrier (h', q') = Inr buf \<and>
    hd (k_seq (sample_kernel 1 5000)) \<noteq> hd (k_seq (sample_kernel 2 5000))"
proof -
  have "hd (k_seq (sample_kernel 1 5000)) \<noteq> hd (k_seq (sample_kernel 2 5000))" by (simp add: sample_uop_def)
  then show ?thesis
    using uop_eviction_aliases_loads [of "sample_kernel 1 5000" "sample_kernel 2 5000" 4096 blank_mem]
    by (auto simp: spec_consts)
qed

text \<open>C17: A kernel recorded by \<open>Push\<close> alone, with accumulator indices inside the accumulator SRAM, never writes the
  accumulator index of one of the two micro-ops before it, holds the pushed indices in order, and has one mode and one
  reset flag.\<close>

theorem uop_recording_hazard_free:
  assumes "fold_res push_args as (new_kernel sig) = Inr k" "\<forall>a \<in> set as. unat (a_dst a) < VTA_ACC_BUFF_DEPTH"
  shows "hazard_free (k_seq k) \<and>
    k_seq k = map (\<lambda>a. \<lparr>dst_idx = ucast (a_dst a), src_idx = ucast (a_src a), wgt_idx = ucast (a_wgt a)\<rparr>) as \<and>
    (\<forall>a \<in> set as. a_mode a \<noteq> 0xFFFFFFFF \<longrightarrow> a_mode a = k_mode k) \<and>
    (\<forall>a \<in> set as. a_reset a \<noteq> 0xFFFFFFFF \<longrightarrow> a_reset a = k_reset_out k)"
  using assms
proof (induction as arbitrary: k rule: rev_induct)
  case Nil
  then show ?case by (auto simp: new_kernel_def hazard_free_def)
next
  case (snoc a as)
  then obtain k1 where k1: "fold_res push_args as (new_kernel sig) = Inr k1" "push_args a k1 = Inr k"
    by (auto simp: fold_res_append)
  have "\<forall>b \<in> set as. unat (a_dst b) < VTA_ACC_BUFF_DEPTH" "unat (a_dst a) < VTA_ACC_BUFF_DEPTH"
    using snoc.prems(2) by simp_all
  note ih = snoc.IH [OF k1(1) this(1)] and dst = this(2)
  have same: "a_mode a = k_mode k" "k_mode k1 \<noteq> 0xFFFFFFFF \<Longrightarrow> k_mode k = k_mode k1"
    "a_reset a = k_reset_out k" "k_reset_out k1 \<noteq> 0xFFFFFFFF \<Longrightarrow> k_reset_out k = k_reset_out k1"
    using k1(2) by (auto simp: push_args_def Uop_Push_def Let_def split: if_splits)
  have h: "hazard_free (k_seq k)" using push_hazard_free [OF conjunct1 [OF ih] k1(2) dst] .
  have "b \<in> set as \<Longrightarrow> a_mode b \<noteq> 0xFFFFFFFF \<Longrightarrow> a_mode b = k_mode k"
    "b \<in> set as \<Longrightarrow> a_reset b \<noteq> 0xFFFFFFFF \<Longrightarrow> a_reset b = k_reset_out k" for b
    using ih same by auto
  with h show ?case using ih same(1,3) Uop_Push_seq(2) [OF k1(2)] by simp
qed

definition sample_args :: "nat \<Rightarrow> uop_args" where
  "sample_args d = \<lparr>a_mode = 0, a_reset = 0, a_dst = word_of_nat d, a_src = 0, a_wgt = 0, a_opcode = 0, a_use_imm = 0, a_imm = 0\<rparr>"

theorem uop_recording_hazard_free_witness:
  "\<exists>k. fold_res push_args [sample_args 0, sample_args 1, sample_args 2, sample_args 0] (new_kernel []) = Inr k \<and> hazard_free (k_seq k)"
proof -
  let ?as = "[sample_args 0, sample_args 1, sample_args 2, sample_args 0]"
  obtain k where k: "fold_res push_args ?as (new_kernel []) = Inr k"
    by (simp add: push_args_def sample_args_def Uop_Push_def VerifyDep_def new_kernel_def Let_def upt_rec)
  have "\<forall>a \<in> set ?as. unat (a_dst a) < VTA_ACC_BUFF_DEPTH" by (simp add: sample_args_def spec_consts)
  with uop_recording_hazard_free [OF k] k show ?thesis by blast
qed

end
