(* ===== verification/Vta_Insn.thy ===== *)
theory Vta_Insn
  imports Vta_Uop Vta_Tlpp
begin

text \<open>
  The instruction queue of the runtime (\<open>vta_runtime.cc\<close>: \<open>InsnQueue\<close>): instructions are appended to a
  buffer, dependency pops are kept pending per stage until an instruction of that stage takes them, and
  dependency pushes are folded into the last instruction when it is of the right stage. Shown: if the
  caller's sequence of pushes and pops is consistent at the level of the API, the emitted stream can be
  executed in program order, every instruction finding its tokens.

  A new instruction is not initialised by \<open>NextInsn\<close>; here it is appended when its creator has filled it
  in. The pending arrays are functions of the stage number, read only after the range of the index was
  checked.
\<close>

section \<open>Stages\<close>

definition kNoneStage :: int where [spec_consts]: "kNoneStage = 0"
definition kLoadStage :: int where [spec_consts]: "kLoadStage = 1"
definition kComputeStage :: int where [spec_consts]: "kComputeStage = 2"
definition kStoreStage :: int where [spec_consts]: "kStoreStage = 3"

record InsnQueue =
  iq_buf :: "VTAInsn list"
  pending_pop_prev :: "int \<Rightarrow> bool"
  pending_pop_next :: "int \<Rightarrow> bool"
  iq_fpga :: u64
  iq_phy :: u32

definition InsnQueue_InitSpace :: "u64 \<Rightarrow> u32 \<Rightarrow> InsnQueue" where
  "InsnQueue_InitSpace buf phy = \<lparr>iq_buf = [], pending_pop_prev = (\<lambda>_. False), pending_pop_next = (\<lambda>_. False),
     iq_fpga = buf, iq_phy = phy\<rparr>"

definition iq_count :: "InsnQueue \<Rightarrow> nat" where
  "iq_count q = length (iq_buf q)"

definition GetMemPipelineStage :: "u32 \<Rightarrow> int" where
  "GetMemPipelineStage mt =
    (if mt = ucast VTA_MEM_ID_ACC \<or> mt = ucast VTA_MEM_ID_ACC_8BIT then kComputeStage
     else if mt = ucast VTA_MEM_ID_UOP then kComputeStage
     else kLoadStage)"

definition GetPipelineStage :: "VTAInsn \<Rightarrow> int" where
  "GetPipelineStage insn = (let code = insn_opcode insn; m = as_mem insn in
    if code = VTA_OPCODE_GEMM then kComputeStage
    else if code = VTA_OPCODE_ALU then kComputeStage
    else if code = VTA_OPCODE_LOAD then
      (if x_size m = 0 then kNoneStage
       else if memory_type m = VTA_MEM_ID_ACC \<or> memory_type m = VTA_MEM_ID_ACC_8BIT then kComputeStage
       else if memory_type m = VTA_MEM_ID_UOP then kComputeStage
       else kLoadStage)
    else if code = VTA_OPCODE_STORE then kStoreStage
    else kNoneStage)"

definition GetPipelineStageAll :: "VTAInsn \<Rightarrow> int" where
  "GetPipelineStageAll insn = (let stage = GetPipelineStage insn in
    if stage \<noteq> kNoneStage then stage else GetMemPipelineStage (ucast (memory_type (as_mem insn))))"

section \<open>Appending\<close>

definition noop :: "int \<Rightarrow> bool \<Rightarrow> bool \<Rightarrow> bool \<Rightarrow> bool \<Rightarrow> VTAInsn" where
  "noop stage push_prev push_next pop_prev pop_next = MemInsn
    \<lparr>opcode = (if stage = kStoreStage then VTA_OPCODE_STORE else VTA_OPCODE_LOAD),
     pop_prev_dep = pop_prev, pop_next_dep = pop_next, push_prev_dep = push_prev, push_next_dep = push_next,
     memory_type = (if stage = kLoadStage then VTA_MEM_ID_INP else VTA_MEM_ID_UOP),
     sram_base = 0, dram_base = 0, y_size = 0, x_size = 0, x_stride = 0,
     y_pad_0 = 0, y_pad_1 = 0, x_pad_0 = 0, x_pad_1 = 0\<rparr>"

definition PushNoop :: "int \<Rightarrow> bool \<Rightarrow> bool \<Rightarrow> bool \<Rightarrow> bool \<Rightarrow> InsnQueue \<Rightarrow> InsnQueue" where
  "PushNoop stage push_prev push_next pop_prev pop_next q =
    q\<lparr>iq_buf := iq_buf q @ [noop stage push_prev push_next pop_prev pop_next]\<rparr>"

definition clear_pending :: "int \<Rightarrow> InsnQueue \<Rightarrow> InsnQueue" where
  "clear_pending stage q = q\<lparr>pending_pop_prev := (pending_pop_prev q)(stage := False),
     pending_pop_next := (pending_pop_next q)(stage := False)\<rparr>"

definition CommitPendingPop :: "int \<Rightarrow> InsnQueue \<Rightarrow> InsnQueue res" where
  "CommitPendingPop stage q =
    res_bind (check (stage > 0 \<and> stage < 4) ''stage > 0 && stage < 4'') (\<lambda>_.
    if pending_pop_prev q stage \<or> pending_pop_next q stage
    then Inr (clear_pending stage (PushNoop stage False False (pending_pop_prev q stage) (pending_pop_next q stage) q))
    else Inr q)"

definition CommitPending :: "InsnQueue \<Rightarrow> InsnQueue res" where
  "CommitPending = fold_res CommitPendingPop [kLoadStage..kStoreStage]"

definition PendingPop :: "InsnQueue \<Rightarrow> bool" where
  "PendingPop q = list_ex (\<lambda>i. pending_pop_prev q i \<or> pending_pop_next q i) [kLoadStage..kStoreStage]"

text \<open>\<open>Create\<close> and the assignments of its caller: \<open>mk\<close> completes the header, whose push flags are false.\<close>

definition Create :: "int \<Rightarrow> (bool \<Rightarrow> bool \<Rightarrow> VTAInsn) \<Rightarrow> InsnQueue \<Rightarrow> InsnQueue" where
  "Create stage mk q = clear_pending stage
     (q\<lparr>iq_buf := iq_buf q @ [mk (pending_pop_prev q stage) (pending_pop_next q stage)]\<rparr>)"

section \<open>Dependencies\<close>

definition DepPop :: "int \<Rightarrow> int \<Rightarrow> InsnQueue \<Rightarrow> InsnQueue res" where
  "DepPop from to q =
    res_bind (guard_bounds (0 \<le> to \<and> to < 4)) (\<lambda>_.
    res_bind
      (if from < to then
         res_bind (if pending_pop_prev q to then CommitPendingPop to q else Inr q) (\<lambda>q.
         Inr (q\<lparr>pending_pop_prev := (pending_pop_prev q)(to := True)\<rparr>))
       else
         res_bind (if pending_pop_next q to then CommitPendingPop to q else Inr q) (\<lambda>q.
         Inr (q\<lparr>pending_pop_next := (pending_pop_next q)(to := True)\<rparr>))) (\<lambda>q.
    res_bind (check (from \<noteq> kLoadStage \<or> to \<noteq> kStoreStage) ''from != kLoadStage || to != kStoreStage'') (\<lambda>_.
    res_bind (check (from \<noteq> kStoreStage \<or> to \<noteq> kLoadStage) ''from != kStoreStage || to != kLoadStage'') (\<lambda>_.
    Inr q))))"

fun set_push_next :: "VTAInsn \<Rightarrow> VTAInsn" where
  "set_push_next (MemInsn i) = MemInsn (i\<lparr>push_next_dep := True\<rparr>)"
| "set_push_next (GemInsn i) = GemInsn (i\<lparr>push_next_dep := True\<rparr>)"
| "set_push_next (AluInsn i) = AluInsn (i\<lparr>push_next_dep := True\<rparr>)"

fun set_push_prev :: "VTAInsn \<Rightarrow> VTAInsn" where
  "set_push_prev (MemInsn i) = MemInsn (i\<lparr>push_prev_dep := True\<rparr>)"
| "set_push_prev (GemInsn i) = GemInsn (i\<lparr>push_prev_dep := True\<rparr>)"
| "set_push_prev (AluInsn i) = AluInsn (i\<lparr>push_prev_dep := True\<rparr>)"

definition DepPush :: "int \<Rightarrow> int \<Rightarrow> InsnQueue \<Rightarrow> InsnQueue res" where
  "DepPush from to q =
    res_bind (CommitPendingPop from q) (\<lambda>q.
    let b = iq_buf q; mptr = last b; d = insn_deps mptr in
    if b \<noteq> [] \<and> GetPipelineStage mptr = from \<and> from < to \<and> \<not> push_next_dep d then
      Inr (q\<lparr>iq_buf := butlast b @ [set_push_next mptr]\<rparr>)
    else if b \<noteq> [] \<and> GetPipelineStage mptr = from \<and> from > to \<and> \<not> push_prev_dep d then
      Inr (q\<lparr>iq_buf := butlast b @ [set_push_prev mptr]\<rparr>)
    else if from < to then Inr (PushNoop from False True False False q)
    else Inr (PushNoop from True False False False q))"

section \<open>Debug modes\<close>

fun set_push :: "bool \<Rightarrow> bool \<Rightarrow> VTAInsn \<Rightarrow> VTAInsn" where
  "set_push p n (MemInsn i) = MemInsn (i\<lparr>push_prev_dep := p, push_next_dep := n\<rparr>)"
| "set_push p n (GemInsn i) = GemInsn (i\<lparr>push_prev_dep := p, push_next_dep := n\<rparr>)"
| "set_push p n (AluInsn i) = AluInsn (i\<lparr>push_prev_dep := p, push_next_dep := n\<rparr>)"

fun set_pop :: "bool \<Rightarrow> bool \<Rightarrow> VTAInsn \<Rightarrow> VTAInsn" where
  "set_pop p n (MemInsn i) = MemInsn (i\<lparr>pop_prev_dep := p, pop_next_dep := n\<rparr>)"
| "set_pop p n (GemInsn i) = GemInsn (i\<lparr>pop_prev_dep := p, pop_next_dep := n\<rparr>)"
| "set_pop p n (AluInsn i) = AluInsn (i\<lparr>pop_prev_dep := p, pop_next_dep := n\<rparr>)"

text \<open>One iteration of the loop of \<open>RewriteForceSerial\<close>; the two pointers are indices.\<close>

definition serial_pair :: "nat \<Rightarrow> VTAInsn list \<times> nat option \<times> nat option \<Rightarrow> VTAInsn list \<times> nat option \<times> nat option" where
  "serial_pair i = (\<lambda>(b, last_store, _).
    let prev = GetPipelineStageAll (b ! (i - 1)); now = GetPipelineStageAll (b ! i);
        link = (\<lambda>pu pn qu qn. let b = b[i - 1 := set_push pu pn (b ! (i - 1))] in b[i := set_pop qu qn (b ! i)]);
        b = (if prev = kLoadStage \<and> now = kComputeStage then link False True True False
             else if prev = kComputeStage \<and> now = kLoadStage then link True False False True
             else if prev = kStoreStage \<and> now = kComputeStage then link True False False True
             else if prev = kComputeStage \<and> now = kStoreStage then link False True True False
             else link False False False False)
    in (b, if now = kStoreStage then Some i else last_store, Some i))"

definition RewriteForceSerial :: "InsnQueue \<Rightarrow> InsnQueue res" where
  "RewriteForceSerial q =
    (let (b, last_store, lst) = fold serial_pair [1..<iq_count q] (iq_buf q, None, None);
         q = q\<lparr>iq_buf := b\<rparr> in
     res_bind
       (case last_store of
          Some j \<Rightarrow> if lst = Some j then
              let q = q\<lparr>iq_buf := b[j := set_push_prev (b ! j)]\<rparr> in
              res_bind (if \<not> pending_pop_next q kComputeStage then DepPop kStoreStage kComputeStage q else Inr q)
                (CommitPendingPop kComputeStage)
            else Inr (q\<lparr>pending_pop_next := (pending_pop_next q)(kComputeStage := False)\<rparr>)
        | None \<Rightarrow> Inr (q\<lparr>pending_pop_next := (pending_pop_next q)(kComputeStage := False)\<rparr>)) (\<lambda>q.
     res_bind (DepPush kComputeStage kLoadStage q) (\<lambda>q.
     res_bind (DepPop kLoadStage kComputeStage q) (\<lambda>q.
     res_bind (if \<not> pending_pop_next q kLoadStage then DepPop kComputeStage kLoadStage q else Inr q) (\<lambda>q.
     res_bind (CommitPendingPop kLoadStage q) (\<lambda>q.
     res_bind (DepPush kLoadStage kComputeStage q) (CommitPendingPop kComputeStage)))))))"

text \<open>\<open>DumpInsn\<close> keeps a count of the tokens in each queue and checks the flags of loads and stores; the
  text it prints is left out.\<close>

type_synonym counters = "dep_queue \<Rightarrow> int"

definition bump :: "bool \<Rightarrow> int \<Rightarrow> dep_queue \<Rightarrow> counters \<Rightarrow> counters" where
  "bump on d x c = (if on then c(x := c x + d) else c)"

definition dump_compute :: "VTAGenericInsn \<Rightarrow> counters \<Rightarrow> counters" where
  "dump_compute d c = bump (push_next_dep d) 1 g2s_q (bump (pop_next_dep d) (-1) s2g_q
     (bump (push_prev_dep d) 1 g2l_q (bump (pop_prev_dep d) (-1) l2g_q c)))"

definition dump_insn :: "VTAInsn \<Rightarrow> counters \<Rightarrow> counters res" where
  "dump_insn i c = (let d = insn_deps i; code = insn_opcode i; mt = memory_type (as_mem i) in
    if code = VTA_OPCODE_LOAD \<or> code = VTA_OPCODE_STORE then
      if code = VTA_OPCODE_STORE then
        res_bind (check (\<not> pop_next_dep d) ''pop_next_dep == false'') (\<lambda>_.
        res_bind (check (\<not> push_next_dep d) ''push_next_dep == false'') (\<lambda>_.
        Inr (bump (push_prev_dep d) 1 s2g_q (bump (pop_prev_dep d) (-1) g2s_q c))))
      else if mt = VTA_MEM_ID_INP \<or> mt = VTA_MEM_ID_WGT then
        res_bind (check (\<not> pop_prev_dep d) ''pop_prev_dep == false'') (\<lambda>_.
        res_bind (check (\<not> push_prev_dep d) ''push_prev_dep == false'') (\<lambda>_.
        Inr (bump (push_next_dep d) 1 l2g_q (bump (pop_next_dep d) (-1) g2l_q c))))
      else Inr (dump_compute d c)
    else if code = VTA_OPCODE_GEMM \<or> code = VTA_OPCODE_ALU then Inr (dump_compute d c)
    else Inr c)"

definition DumpInsn :: "InsnQueue \<Rightarrow> counters res" where
  "DumpInsn q = fold_res dump_insn (iq_buf q) (\<lambda>_. 0)"

section \<open>Handing over\<close>

text \<open>\<open>ReadBarrier\<close>: the bytes copied to \<open>fpga_buff_\<close>.\<close>

definition InsnQueue_ReadBarrier :: "InsnQueue \<Rightarrow> bytes res" where
  "InsnQueue_ReadBarrier q =
    res_bind (check (iq_fpga q \<noteq> 0) ''fpga_buff_ != nullptr'') (\<lambda>_.
    res_bind (check (iq_phy q \<noteq> 0) ''fpga_buff_phy_'') (\<lambda>_.
    let buff_size = word_of_nat (iq_count q * 16) :: u32 in
    res_bind (check (unat buff_size \<le> VTA_MAX_XFER) ''buff_size <= kMaxBytes'') (\<lambda>_.
    Inr (take (unat buff_size) (concat (map insn_bytes (iq_buf q)))))))"

definition InsnQueue_Reset :: "InsnQueue \<Rightarrow> InsnQueue" where
  "InsnQueue_Reset q = q\<lparr>iq_buf := []\<rparr>"

section \<open>Tokens\<close>

text \<open>The dependency queue a pair of adjacent stages stands for, the core a stage runs on, and the pops
  that wait for an instruction.\<close>

definition queue_of :: "int \<Rightarrow> int \<Rightarrow> dep_queue option" where
  "queue_of from to =
    (if from = kLoadStage \<and> to = kComputeStage then Some l2g_q
     else if from = kComputeStage \<and> to = kLoadStage then Some g2l_q
     else if from = kComputeStage \<and> to = kStoreStage then Some g2s_q
     else if from = kStoreStage \<and> to = kComputeStage then Some s2g_q else None)"

definition stage_core :: "int \<Rightarrow> CORE_TYPE" where
  "stage_core s = (if s = kLoadStage then CORELOAD else if s = kComputeStage then COREGEMM
     else if s = kStoreStage then CORESTORE else COREMAX)"

fun pend :: "InsnQueue \<Rightarrow> dep_queue \<Rightarrow> bool" where
  "pend q l2g_q = pending_pop_prev q 2"
| "pend q s2g_q = pending_pop_next q 2"
| "pend q g2l_q = pending_pop_next q 1"
| "pend q g2s_q = pending_pop_prev q 3"

text \<open>An instruction the queue can work with: its tag fits its opcode, its dependency flags name existing
  queues, and the runtime and the device agree on its stage.\<close>

definition insn_ok :: "VTAInsn \<Rightarrow> bool" where
  "insn_ok i = (tag_ok i \<and> dep_ok i \<and>
     (GetPipelineStage i \<noteq> kNoneStage \<longrightarrow> GetCoreType i = stage_core (GetPipelineStage i)))"

definition iq_inv :: "InsnQueue \<Rightarrow> (dep_queue \<Rightarrow> nat) \<Rightarrow> bool" where
  "iq_inv q t =
    (seq_run (iq_buf q) (\<lambda>_. 0) = Some (\<lambda>x. t x + of_bool (pend q x)) \<and> list_all insn_ok (iq_buf q) \<and>
     \<not> pending_pop_prev q 1 \<and> \<not> pending_pop_next q 3)"

datatype qop =
    OpPush int int
  | OpPop int int
  | OpInsn int "bool \<Rightarrow> bool \<Rightarrow> VTAInsn"

fun queue_op :: "qop \<Rightarrow> InsnQueue \<Rightarrow> InsnQueue res" where
  "queue_op (OpPush from to) q = DepPush from to q"
| "queue_op (OpPop from to) q = DepPop from to q"
| "queue_op (OpInsn stage mk) q = Inr (Create stage mk q)"

text \<open>What the caller may do: push between adjacent stages, pop a token it pushed, append instructions.\<close>

definition mk_ok :: "int \<Rightarrow> (bool \<Rightarrow> bool \<Rightarrow> VTAInsn) \<Rightarrow> bool" where
  "mk_ok stage mk = ((stage = 1 \<or> stage = 2 \<or> stage = 3) \<and> (\<forall>a b. (stage = 1 \<longrightarrow> \<not> a) \<and> (stage = 3 \<longrightarrow> \<not> b) \<longrightarrow>
     insn_ok (mk a b) \<and> GetCoreType (mk a b) = stage_core stage \<and>
     pop_prev_dep (insn_deps (mk a b)) = a \<and> pop_next_dep (insn_deps (mk a b)) = b \<and>
     \<not> push_prev_dep (insn_deps (mk a b)) \<and> \<not> push_next_dep (insn_deps (mk a b))))"

fun api_step :: "qop \<Rightarrow> (dep_queue \<Rightarrow> nat) \<Rightarrow> (dep_queue \<Rightarrow> nat) option" where
  "api_step (OpPush from to) t = map_option (\<lambda>x. t(x := t x + 1)) (queue_of from to)"
| "api_step (OpPop from to) t = (case queue_of from to of None \<Rightarrow> None
     | Some x \<Rightarrow> if 0 < t x then Some (t(x := t x - 1)) else None)"
| "api_step (OpInsn stage mk) t = Some t"

fun api_run :: "qop list \<Rightarrow> (dep_queue \<Rightarrow> nat) \<Rightarrow> (dep_queue \<Rightarrow> nat) option" where
  "api_run [] t = Some t"
| "api_run (op # ops) t = (case api_step op t of None \<Rightarrow> None | Some t' \<Rightarrow> api_run ops t')"

definition op_ok :: "qop \<Rightarrow> bool" where
  "op_ok op = (case op of OpInsn stage mk \<Rightarrow> mk_ok stage mk | _ \<Rightarrow> True)"

lemma seq_run_append: "seq_run (xs @ ys) t = (case seq_run xs t of None \<Rightarrow> None | Some t' \<Rightarrow> seq_run ys t')"
  by (induction xs arbitrary: t) simp_all

lemma in_pops: "x \<in> set (pops i) \<longleftrightarrow> consumer x = GetCoreType i \<and>
    (case x of l2g_q \<Rightarrow> pop_prev_dep (insn_deps i) | s2g_q \<Rightarrow> pop_next_dep (insn_deps i)
       | g2l_q \<Rightarrow> pop_next_dep (insn_deps i) | g2s_q \<Rightarrow> pop_prev_dep (insn_deps i))"
  by (cases x; cases "GetCoreType i") (auto simp: pops_def Let_def)

lemma in_pushes: "x \<in> set (pushes i) \<longleftrightarrow> producer x = GetCoreType i \<and>
    (case x of l2g_q \<Rightarrow> push_next_dep (insn_deps i) | s2g_q \<Rightarrow> push_prev_dep (insn_deps i)
       | g2l_q \<Rightarrow> push_prev_dep (insn_deps i) | g2s_q \<Rightarrow> push_next_dep (insn_deps i))"
  by (cases x; cases "GetCoreType i") (auto simp: pushes_def Let_def)

lemmas stage_defs = stage_core_def kNoneStage_def kLoadStage_def kComputeStage_def kStoreStage_def

lemma deps_noop [simp]:
  "pop_prev_dep (insn_deps (noop s a b c d)) = c" "pop_next_dep (insn_deps (noop s a b c d)) = d"
  "push_prev_dep (insn_deps (noop s a b c d)) = a" "push_next_dep (insn_deps (noop s a b c d)) = b"
  "insn_opcode (noop s a b c d) = (if s = kStoreStage then VTA_OPCODE_STORE else VTA_OPCODE_LOAD)"
  by (simp_all add: noop_def VTAGenericInsn.truncate_def)

lemma noop_core:
  "s = 1 \<or> s = 2 \<or> s = 3 \<Longrightarrow> GetCoreType (noop s a b c d) = stage_core s"
  "GetPipelineStage (noop s a b c d) = (if s = 3 then 3 else 0)"
  by (auto simp: GetCoreType_def GetPipelineStage_def noop_def stage_defs spec_consts)

lemma noop_ok:
  assumes "s = 1 \<or> s = 2 \<or> s = 3" "s = 1 \<longrightarrow> \<not> a \<and> \<not> c" "s = 3 \<longrightarrow> \<not> b \<and> \<not> d"
  shows "insn_ok (noop s a b c d)"
proof -
  have "tag_ok (noop s a b c d)" by (simp add: noop_def)
  moreover have "dep_ok (noop s a b c d)"
    using assms by (auto simp: dep_ok_def noop_core stage_defs)
  ultimately show ?thesis
    using assms(1) by (auto simp: insn_ok_def noop_core stage_defs)
qed

lemma clear_pending_simps [simp]:
  "iq_buf (clear_pending s q) = iq_buf q"
  "pending_pop_prev (clear_pending s q) = (pending_pop_prev q)(s := False)"
  "pending_pop_next (clear_pending s q) = (pending_pop_next q)(s := False)"
  by (simp_all add: clear_pending_def)

text \<open>The step all appends share: an instruction of a stage that takes the pending pops of that stage.\<close>

lemma iq_inv_take:
  assumes inv: "iq_inv q t" and st: "stage = 1 \<or> stage = 2 \<or> stage = 3"
    and i: "insn_ok i" "GetCoreType i = stage_core stage"
    and pop: "pop_prev_dep (insn_deps i) = pending_pop_prev q stage" "pop_next_dep (insn_deps i) = pending_pop_next q stage"
  shows "iq_inv (clear_pending stage (q\<lparr>iq_buf := iq_buf q @ [i]\<rparr>)) (\<lambda>x. t x + of_bool (x \<in> set (pushes i)))"
proof -
  let ?q = "clear_pending stage (q\<lparr>iq_buf := iq_buf q @ [i]\<rparr>)" and ?T = "\<lambda>x. t x + of_bool (pend q x)"
  have pp: "x \<in> set (pops i) \<longleftrightarrow> consumer x = stage_core stage \<and> pend q x" for x
    using st pop i(2) by (cases x) (auto simp: in_pops stage_defs)
  have pq: "pend ?q x \<longleftrightarrow> pend q x \<and> consumer x \<noteq> stage_core stage" for x
    using st by (cases x) (auto simp: stage_defs)
  have "ready i ?T" by (simp add: ready_def list_all_iff pp)
  moreover have "tok_step i ?T = (\<lambda>x. t x + of_bool (x \<in> set (pushes i)) + of_bool (pend ?q x))"
    unfolding tok_step_def [abs_def] pp pq by (auto simp: fun_eq_iff of_bool_def)
  ultimately show ?thesis
    using inv i(1) by (auto simp: iq_inv_def seq_run_append)
qed

lemma CommitPendingPop_inv:
  assumes inv: "iq_inv q t" and st: "stage = 1 \<or> stage = 2 \<or> stage = 3"
  shows "\<exists>q'. CommitPendingPop stage q = Inr q' \<and> iq_inv q' t \<and>
    \<not> pending_pop_prev q' stage \<and> \<not> pending_pop_next q' stage \<and>
    (\<forall>s. s \<noteq> stage \<longrightarrow> pending_pop_prev q' s = pending_pop_prev q s \<and> pending_pop_next q' s = pending_pop_next q s)"
proof (cases "pending_pop_prev q stage \<or> pending_pop_next q stage")
  case True
  let ?i = "noop stage False False (pending_pop_prev q stage) (pending_pop_next q stage)"
  have "insn_ok ?i" using st inv by (intro noop_ok) (auto simp: iq_inv_def)
  moreover have "pushes ?i = []" using st by (auto simp: pushes_def noop_core stage_defs)
  ultimately have "iq_inv (clear_pending stage (q\<lparr>iq_buf := iq_buf q @ [?i]\<rparr>)) t"
    using iq_inv_take [OF inv st, of ?i] st by (simp add: noop_core)
  with True st show ?thesis by (auto simp: CommitPendingPop_def PushNoop_def)
next
  case False
  then show ?thesis using assms by (auto simp: CommitPendingPop_def)
qed

lemma queue_of_Some:
  "queue_of from to = Some x \<longleftrightarrow> (from = 1 \<and> to = 2 \<and> x = l2g_q) \<or> (from = 2 \<and> to = 1 \<and> x = g2l_q) \<or>
     (from = 2 \<and> to = 3 \<and> x = g2s_q) \<or> (from = 3 \<and> to = 2 \<and> x = s2g_q)"
  by (auto simp: queue_of_def stage_defs)

lemma DepPop_inv:
  assumes inv: "iq_inv q t" and x: "queue_of from to = Some x" "0 < t x"
  shows "\<exists>q'. DepPop from to q = Inr q' \<and> iq_inv q' (t(x := t x - 1))"
proof -
  obtain q1 where q1: "(if pend q x then CommitPendingPop to q else Inr q) = Inr q1" "iq_inv q1 t" "\<not> pend q1 x"
  proof (cases "pend q x")
    case True
    have st: "to = 1 \<or> to = 2 \<or> to = 3" using x(1) by (auto simp: queue_of_Some)
    obtain q' where "CommitPendingPop to q = Inr q'" "iq_inv q' t" "\<not> pending_pop_prev q' to" "\<not> pending_pop_next q' to"
      using CommitPendingPop_inv [OF inv st] by blast
    then show thesis using that [of q'] True x(1) by (auto simp: queue_of_Some)
  next
    case False
    with inv show thesis using that [of q] by simp
  qed
  let ?q = "if from < to then q1\<lparr>pending_pop_prev := (pending_pop_prev q1)(to := True)\<rparr>
    else q1\<lparr>pending_pop_next := (pending_pop_next q1)(to := True)\<rparr>"
  have pd: "pend q x = (if from < to then pending_pop_prev q to else pending_pop_next q to)"
    using x(1) by (auto simp: queue_of_Some)
  have "DepPop from to q = Inr ?q"
    using x(1) q1(1) unfolding DepPop_def pd by (auto simp: queue_of_Some stage_defs split: if_splits)
  moreover have pq: "pend ?q y \<longleftrightarrow> pend q1 y \<or> y = x" for y using x(1) by (cases y) (auto simp: queue_of_Some)
  moreover have "(\<lambda>y. (t(x := t x - 1)) y + of_bool (pend ?q y)) = (\<lambda>y. t y + of_bool (pend q1 y))"
    using x(2) q1(3) by (auto simp: fun_eq_iff pq)
  ultimately show ?thesis
    using q1(2) x(1) by (intro exI [of _ ?q]) (auto simp: iq_inv_def queue_of_Some)
qed

lemma set_push_simps [simp]:
  "insn_opcode (set_push_next i) = insn_opcode i" "insn_opcode (set_push_prev i) = insn_opcode i"
  "tag_ok (set_push_next i) = tag_ok i" "tag_ok (set_push_prev i) = tag_ok i"
  "insn_deps (set_push_next i) = (insn_deps i)\<lparr>push_next_dep := True\<rparr>"
  "insn_deps (set_push_prev i) = (insn_deps i)\<lparr>push_prev_dep := True\<rparr>"
  by (cases i; simp add: VTAGenericInsn.truncate_def)+

lemma set_push_stage [simp]:
  assumes "tag_ok i"
  shows "GetCoreType (set_push_next i) = GetCoreType i" "GetCoreType (set_push_prev i) = GetCoreType i"
    "GetPipelineStage (set_push_next i) = GetPipelineStage i" "GetPipelineStage (set_push_prev i) = GetPipelineStage i"
  using assms by (cases i; auto simp: GetCoreType_def GetPipelineStage_def Let_def spec_consts)+

text \<open>Adding a push flag to the last instruction adds its token.\<close>

lemma iq_inv_last:
  assumes inv: "iq_inv q t" and b: "iq_buf q = b @ [i]"
    and j: "insn_ok j" "set (pops j) = set (pops i)" "set (pushes j) = insert x (set (pushes i))" "x \<notin> set (pushes i)"
  shows "iq_inv (q\<lparr>iq_buf := b @ [j]\<rparr>) (t(x := t x + 1))"
proof -
  obtain T where T: "seq_run b (\<lambda>_. 0) = Some T" "ready i T" "tok_step i T = (\<lambda>y. t y + of_bool (pend q y))"
    using inv b by (auto simp: iq_inv_def seq_run_append split: option.splits if_splits)
  have p: "pend (q\<lparr>iq_buf := b @ [j]\<rparr>) y = pend q y" for y by (cases y) simp_all
  have "tok_step j T y = (t(x := t x + 1)) y + of_bool (pend q y)" for y
    using fun_cong [OF T(3), of y] j(2-4) by (auto simp: tok_step_def)
  moreover have "ready j T" using T(2) j(2) by (simp add: ready_def list_all_iff)
  ultimately show ?thesis
    using inv b T(1) j(1) p by (auto simp: iq_inv_def seq_run_append fun_eq_iff)
qed

lemma DepPush_inv:
  assumes inv: "iq_inv q t" and x: "queue_of from to = Some x"
  shows "\<exists>q'. DepPush from to q = Inr q' \<and> iq_inv q' (t(x := t x + 1))"
proof -
  have st: "from = 1 \<or> from = 2 \<or> from = 3" using x by (auto simp: queue_of_Some)
  obtain q1 where q1: "CommitPendingPop from q = Inr q1" "iq_inv q1 t" "\<not> pending_pop_prev q1 from" "\<not> pending_pop_next q1 from"
    using CommitPendingPop_inv [OF inv st] by blast
  let ?i = "last (iq_buf q1)" let ?d = "insn_deps ?i"
  have upd: "t(x := t x + 1) = (\<lambda>y. t y + of_bool (y = x))" by auto
  let ?can = "iq_buf q1 \<noteq> [] \<and> GetPipelineStage ?i = from \<and> (if from < to then \<not> push_next_dep ?d else \<not> push_prev_dep ?d)"
  define j where "j = (if from < to then set_push_next ?i else set_push_prev ?i)"
  have dp: "DepPush from to q = Inr (if ?can then q1\<lparr>iq_buf := butlast (iq_buf q1) @ [j]\<rparr>
      else PushNoop from (from > to) (from < to) False False q1)"
    using q1(1) x by (cases "from < to") (auto simp: DepPush_def queue_of_Some Let_def j_def)
  show ?thesis
  proof (cases ?can)
    case True
    then have fold: "iq_buf q1 \<noteq> []" "GetPipelineStage ?i = from" "if from < to then \<not> push_next_dep ?d else \<not> push_prev_dep ?d"
      by simp_all
    have ok: "insn_ok ?i" using q1(2) fold(1) by (auto simp: iq_inv_def list_all_iff)
    then have core: "tag_ok ?i" "GetCoreType ?i = stage_core from" "dep_ok ?i"
      using fold(2) st by (auto simp: insn_ok_def stage_defs)
    have "set (pops j) = set (pops ?i)"
      using core j_def by (auto simp: in_pops split: dep_queue.splits)
    moreover have "set (pushes j) = insert x (set (pushes ?i))" "x \<notin> set (pushes ?i)"
    proof -
      have "y \<in> set (pushes j) \<longleftrightarrow> y = x \<or> y \<in> set (pushes ?i)" for y
        using core j_def x by (cases y) (auto simp: in_pushes queue_of_Some stage_defs)
      then show "set (pushes j) = insert x (set (pushes ?i))" by auto
      show "x \<notin> set (pushes ?i)" using fold(3) x by (auto simp: in_pushes queue_of_Some)
    qed
    moreover have "insn_ok j"
      using ok core fold(2) j_def x by (auto simp: insn_ok_def dep_ok_def queue_of_Some stage_defs)
    ultimately have "iq_inv (q1\<lparr>iq_buf := butlast (iq_buf q1) @ [j]\<rparr>) (t(x := t x + 1))"
      using iq_inv_last [OF q1(2), of "butlast (iq_buf q1)" ?i j x] fold(1) by simp
    with dp True show ?thesis by auto
  next
    case False
    let ?n = "noop from (from > to) (from < to) False False"
    have "insn_ok ?n" using x by (intro noop_ok) (auto simp: queue_of_Some)
    moreover have "y \<in> set (pushes ?n) \<longleftrightarrow> y = x" for y
      using x st by (cases y) (auto simp: in_pushes noop_core queue_of_Some stage_defs)
    ultimately have "iq_inv (clear_pending from (q1\<lparr>iq_buf := iq_buf q1 @ [?n]\<rparr>)) (t(x := t x + 1))"
      using iq_inv_take [OF q1(2) st, of ?n] q1(3,4) st unfolding upd by (simp add: noop_core)
    moreover have "clear_pending from (q1\<lparr>iq_buf := iq_buf q1 @ [?n]\<rparr>) = PushNoop from (from > to) (from < to) False False q1"
      using q1(3,4) by (auto simp: clear_pending_def PushNoop_def fun_upd_idem)
    ultimately show ?thesis using dp False by auto
  qed
qed

lemma Create_inv:
  assumes inv: "iq_inv q t" and mk: "mk_ok stage mk"
  shows "iq_inv (Create stage mk q) t"
proof -
  let ?i = "mk (pending_pop_prev q stage) (pending_pop_next q stage)"
  have st: "stage = 1 \<or> stage = 2 \<or> stage = 3" using mk by (simp add: mk_ok_def)
  have i: "insn_ok ?i" "GetCoreType ?i = stage_core stage" "pop_prev_dep (insn_deps ?i) = pending_pop_prev q stage"
    "pop_next_dep (insn_deps ?i) = pending_pop_next q stage" "\<not> push_prev_dep (insn_deps ?i)" "\<not> push_next_dep (insn_deps ?i)"
    using mk inv by (auto simp: mk_ok_def iq_inv_def)
  have "pushes ?i = []" using i(5,6) by (simp add: pushes_def Let_def split: CORE_TYPE.splits)
  then show ?thesis using iq_inv_take [OF inv st i(1-4)] by (simp add: Create_def)
qed

lemma queue_op_inv:
  assumes "iq_inv q t" "op_ok op" "api_step op t = Some t'"
  shows "\<exists>q'. queue_op op q = Inr q' \<and> iq_inv q' t'"
  using assms DepPush_inv [OF assms(1)] DepPop_inv [OF assms(1)] Create_inv [OF assms(1)]
  by (cases op) (auto simp: op_ok_def split: option.splits if_splits)

lemma queue_ops_inv:
  "iq_inv q t \<Longrightarrow> list_all op_ok ops \<Longrightarrow> api_run ops t = Some t' \<Longrightarrow> \<exists>q'. fold_res queue_op ops q = Inr q' \<and> iq_inv q' t'"
proof (induction ops arbitrary: q t)
  case (Cons op ops)
  then obtain t1 where t1: "api_step op t = Some t1" "api_run ops t1 = Some t'" by (auto split: option.splits)
  obtain q1 where "queue_op op q = Inr q1" "iq_inv q1 t1" using queue_op_inv [OF Cons.prems(1) _ t1(1)] Cons.prems(2) by auto
  with Cons.IH [OF \<open>iq_inv q1 t1\<close>] Cons.prems(2) t1(2) show ?case by auto
qed simp

lemma iq_inv_init: "iq_inv (InsnQueue_InitSpace buf phy) (\<lambda>_. 0)"
proof -
  have "pend (InsnQueue_InitSpace buf phy) x = False" for x by (cases x) (simp_all add: InsnQueue_InitSpace_def)
  then show ?thesis by (simp add: iq_inv_def InsnQueue_InitSpace_def)
qed

section \<open>The dump\<close>

definition dump_ok :: "VTAInsn \<Rightarrow> bool" where
  "dump_ok i = (dep_ok i \<and> (insn_opcode i \<in> {VTA_OPCODE_LOAD, VTA_OPCODE_STORE, VTA_OPCODE_GEMM, VTA_OPCODE_ALU} \<or>
     pops i = [] \<and> pushes i = []))"

lemma opcodes_differ:
  "VTA_OPCODE_LOAD \<noteq> VTA_OPCODE_STORE" "VTA_OPCODE_GEMM \<noteq> VTA_OPCODE_LOAD" "VTA_OPCODE_GEMM \<noteq> VTA_OPCODE_STORE"
  "VTA_OPCODE_ALU \<noteq> VTA_OPCODE_LOAD" "VTA_OPCODE_ALU \<noteq> VTA_OPCODE_STORE" "VTA_OPCODE_GEMM \<noteq> VTA_OPCODE_ALU"
  by (simp_all add: spec_consts)

lemma dump_insn_core:
  assumes "dep_ok i" "insn_opcode i \<in> {VTA_OPCODE_LOAD, VTA_OPCODE_STORE, VTA_OPCODE_GEMM, VTA_OPCODE_ALU}"
  shows "dump_insn i c = Inr (let d = insn_deps i in case GetCoreType i of
      CORESTORE \<Rightarrow> bump (push_prev_dep d) 1 s2g_q (bump (pop_prev_dep d) (-1) g2s_q c)
    | CORELOAD \<Rightarrow> bump (push_next_dep d) 1 l2g_q (bump (pop_next_dep d) (-1) g2l_q c)
    | _ \<Rightarrow> dump_compute d c)"
proof -
  consider "GetCoreType i = CORESTORE" "insn_opcode i = VTA_OPCODE_STORE"
    | "GetCoreType i = CORELOAD" "insn_opcode i = VTA_OPCODE_LOAD" "memory_type (as_mem i) = VTA_MEM_ID_INP \<or> memory_type (as_mem i) = VTA_MEM_ID_WGT"
    | "GetCoreType i = COREGEMM" "insn_opcode i = VTA_OPCODE_LOAD" "\<not> (memory_type (as_mem i) = VTA_MEM_ID_INP \<or> memory_type (as_mem i) = VTA_MEM_ID_WGT)"
    | "GetCoreType i = COREGEMM" "insn_opcode i \<in> {VTA_OPCODE_GEMM, VTA_OPCODE_ALU}"
    using assms(2) unfolding GetCoreType_def Let_def using opcodes_differ by (auto split: if_splits)
  then show ?thesis
    using assms(1) opcodes_differ by cases (auto simp: dump_insn_def dep_ok_def Let_def)
qed

lemma dump_insn_counts:
  assumes "dump_ok i"
  shows "dump_insn i c = Inr (\<lambda>x. c x - of_bool (x \<in> set (pops i)) + of_bool (x \<in> set (pushes i)))"
proof (cases "insn_opcode i \<in> {VTA_OPCODE_LOAD, VTA_OPCODE_STORE, VTA_OPCODE_GEMM, VTA_OPCODE_ALU}")
  case True
  have "dep_ok i" using assms by (simp add: dump_ok_def)
  from dump_insn_core [OF this True] show ?thesis
    by (cases "GetCoreType i") (auto simp: Let_def fun_eq_iff pops_def pushes_def dump_compute_def bump_def)
next
  case False
  then show ?thesis using assms by (auto simp: dump_ok_def dump_insn_def Let_def)
qed

lemma dump_stream:
  "list_all dump_ok is \<Longrightarrow> seq_run is t = Some t' \<Longrightarrow>
   fold_res dump_insn is (\<lambda>x. int (t x)) = Inr (\<lambda>x. int (t' x))"
proof (induction "is" arbitrary: t)
  case (Cons i rest)
  then have r: "ready i t" "seq_run rest (tok_step i t) = Some t'" "dump_ok i" by (auto split: if_splits)
  have "(\<lambda>x. int (t x) - of_bool (x \<in> set (pops i)) + of_bool (x \<in> set (pushes i))) = (\<lambda>x. int (tok_step i t x))"
    using r(1) by (fastforce simp: ready_def list_all_iff tok_step_def fun_eq_iff)
  with dump_insn_counts [OF r(3)] Cons.IH [OF _ r(2)] Cons.prems(1) show ?case by simp
qed simp

section \<open>Properties\<close>

definition sample_load :: "3 word \<Rightarrow> bool \<Rightarrow> bool \<Rightarrow> VTAInsn" where
  "sample_load mt a b = mem_insn VTA_OPCODE_LOAD mt a b False False"

definition sample_ops :: "qop list" where
  "sample_ops = [OpPush 2 1, OpPop 2 1, OpInsn 1 (sample_load VTA_MEM_ID_INP), OpPush 1 2, OpPop 1 2,
     OpInsn 2 (\<lambda>a b. gem_insn VTA_OPCODE_GEMM a b False False), OpPush 2 3, OpPop 2 3,
     OpInsn 3 (\<lambda>a b. mem_insn VTA_OPCODE_STORE VTA_MEM_ID_OUT a b False False)]"

lemma sample_ops_ok: "list_all op_ok sample_ops"
  by (simp add: sample_ops_def sample_load_def op_ok_def mk_ok_def insn_ok_def dep_ok_def GetPipelineStage_def
      GetCoreType_def sample_defs stage_defs VTAGenericInsn.truncate_def)

lemma sample_ops_run: "api_run sample_ops (\<lambda>_. 0) = Some (\<lambda>_. 0)"
  by (simp add: sample_ops_def queue_of_def stage_defs fun_eq_iff)

text \<open>C6: If the caller pushes and pops tokens between adjacent stages only, pops only tokens it pushed before, and
  the instructions it adds are well formed, then no call of \<open>DepPush\<close>, \<open>DepPop\<close> or \<open>Create\<close> fails, and the emitted
  buffer (with the pops that were folded into instructions or no-ops, and the pushes folded into the last instruction)
  can be executed in program order: every instruction finds its tokens, and what is left are the caller's tokens plus
  the pops still pending.\<close>

theorem insn_queue_executable:
  assumes "list_all op_ok ops" "api_run ops (\<lambda>_. 0) = Some t"
  shows "\<exists>q. fold_res queue_op ops (InsnQueue_InitSpace buf phy) = Inr q \<and> list_all insn_ok (iq_buf q) \<and>
    seq_run (iq_buf q) (\<lambda>_. 0) = Some (\<lambda>x. t x + of_bool (pend q x))"
  using queue_ops_inv [OF iq_inv_init assms] by (auto simp: iq_inv_def)

theorem insn_queue_executable_witness:
  "\<exists>q. fold_res queue_op sample_ops (InsnQueue_InitSpace 1 1) = Inr q \<and>
    seq_run (iq_buf q) (\<lambda>_. 0) = Some (\<lambda>x. of_bool (pend q x))"
  using insn_queue_executable [OF sample_ops_ok sample_ops_run, of 1 1] by auto

text \<open>On a stream that can be executed in program order, the dump's checks hold and its four counters end as the
  numbers of tokens the execution leaves.\<close>

lemma dump_counts_tokens:
  assumes "list_all dump_ok (iq_buf q)" "seq_run (iq_buf q) (\<lambda>_. 0) = Some t"
  shows "DumpInsn q = Inr (\<lambda>x. int (t x))"
  using dump_stream [OF assms] by (simp add: DumpInsn_def)

end
