(* ===== verification/Vta_Order.thy ===== *)
theory Vta_Order
  imports Vta_Insn
begin

text \<open>
  Which instruction the pipeline executes last. Tokens are conserved: in every state of a round, what
  a queue holds plus what its producer will still push is what its consumer will still pop plus the
  tokens left at the end. If the last load and the last store push a token that the compute core pops
  before the \<open>FINISH\<close>, and no token is left over, the \<open>FINISH\<close> is the last instruction of the round,
  so the synchronisation loop of the simulator returns.
\<close>

section \<open>Conservation of tokens\<close>

definition n_push :: "dep_queue \<Rightarrow> VTAInsn list \<Rightarrow> nat" where
  "n_push x is = length (filter (\<lambda>i. x \<in> set (pushes i)) is)"

definition n_pop :: "dep_queue \<Rightarrow> VTAInsn list \<Rightarrow> nat" where
  "n_pop x is = length (filter (\<lambda>i. x \<in> set (pops i)) is)"

definition conserved :: "(dep_queue \<Rightarrow> nat) \<Rightarrow> ctrl \<Rightarrow> bool" where
  "conserved k p = (\<forall>x. snd p x + n_push x (fst p (producer x)) = n_pop x (fst p (consumer x)) + k x)"

lemma conserved_step:
  assumes "conserved k p" "queue_ok (fst p)" "ctrl_step p p'"
  shows "conserved k p'"
proof -
  obtain q t where p: "p = (q, t)" by (cases p)
  obtain c i rest where s: "q c = i # rest" "ready i t" "p' = (q(c := rest), tok_step i t)"
    using assms(3) unfolding p by (auto elim: ctrl_stepE)
  have core: "GetCoreType i = c" using assms(2) s(1) p by (auto simp: queue_ok_def)
  have "snd p' x + n_push x (fst p' (producer x)) = n_pop x (fst p' (consumer x)) + k x" for x
  proof -
    have old: "t x + n_push x (q (producer x)) = n_pop x (q (consumer x)) + k x"
      using assms(1) by (simp add: conserved_def p)
    have push: "n_push x (q (producer x)) = of_bool (x \<in> set (pushes i)) + n_push x ((q(c := rest)) (producer x))"
      using s(1) core by (auto simp: n_push_def in_pushes)
    have pop: "n_pop x (q (consumer x)) = of_bool (x \<in> set (pops i)) + n_pop x ((q(c := rest)) (consumer x))"
      using s(1) core by (auto simp: n_pop_def in_pops)
    have "of_bool (x \<in> set (pops i)) \<le> t x" using s(2) by (auto simp: ready_def list_all_iff Suc_le_eq)
    moreover have "snd p' x = t x - of_bool (x \<in> set (pops i)) + of_bool (x \<in> set (pushes i))"
      by (simp add: s(3) tok_step_def)
    moreover have "fst p' = q(c := rest)" by (simp add: s(3))
    ultimately show ?thesis using old unfolding push pop by simp
  qed
  then show ?thesis by (simp add: conserved_def)
qed

lemma conserved_sequential:
  "seq_run is t = Some t' \<Longrightarrow> t x + n_push x is = n_pop x is + t' x"
proof (induction "is" arbitrary: t)
  case (Cons i rest)
  then have r: "ready i t" "seq_run rest (tok_step i t) = Some t'" by (auto split: if_splits)
  have "of_bool (x \<in> set (pops i)) \<le> t x" using r(1) by (auto simp: ready_def list_all_iff Suc_le_eq)
  with Cons.IH [OF r(2)] show ?case by (auto simp: tok_step_def n_push_def n_pop_def)
qed (simp add: n_push_def n_pop_def)

lemma n_push_split: "n_push x (split_cores is (producer x)) = n_push x is"
  by (induction "is") (auto simp: n_push_def split_cores_def in_pushes)

lemma n_pop_split: "n_pop x (split_cores is (consumer x)) = n_pop x is"
  by (induction "is") (auto simp: n_pop_def split_cores_def in_pops)

lemma conserved_init: "seq_run is t = Some t' \<Longrightarrow> conserved t' (split_cores is, t)"
  using conserved_sequential by (auto simp: conserved_def n_push_split n_pop_split)

section \<open>FINISH is last\<close>

text \<open>The shape of a stream whose \<open>FINISH\<close> waits for the other two cores.\<close>

definition fenced :: "VTAInsn list \<Rightarrow> bool" where
  "fenced is = (is \<noteq> [] \<and> GetCoreType (last is) = COREGEMM \<and> insn_opcode (last is) = VTA_OPCODE_FINISH \<and>
     pops (last is) = [] \<and>
     (split_cores is CORELOAD = [] \<or> l2g_q \<in> set (pushes (last (split_cores is CORELOAD)))) \<and>
     (split_cores is CORESTORE = [] \<or> s2g_q \<in> set (pushes (last (split_cores is CORESTORE)))))"

definition suffix_of :: "'a list \<Rightarrow> 'a list \<Rightarrow> bool" where
  "suffix_of ys xs = (\<exists>zs. xs = zs @ ys)"

lemma suffix_of_tl: "suffix_of (y # ys) xs \<Longrightarrow> suffix_of ys xs"
  by (auto simp: suffix_of_def intro: exI [of _ "zs @ [y]" for zs])

lemma suffix_of_last: "suffix_of ys xs \<Longrightarrow> ys \<noteq> [] \<Longrightarrow> last ys = last xs"
  by (auto simp: suffix_of_def)

lemma n_push_last: "ys \<noteq> [] \<Longrightarrow> x \<in> set (pushes (last ys)) \<Longrightarrow> 0 < n_push x ys"
  by (cases ys rule: rev_cases) (auto simp: n_push_def)

definition finish_inv :: "VTAInsn list \<Rightarrow> 'd tlpp \<Rightarrow> bool" where
  "finish_inv is s = (queue_ok (insnq_array s) \<and> conserved (\<lambda>_. 0) (ctrl_of s) \<and>
     (\<forall>c. suffix_of (insnq_array s c) (split_cores is c)) \<and>
     (insnq_array s COREGEMM = [] \<longrightarrow> finished s \<and> insnq_array s CORELOAD = [] \<and> insnq_array s CORESTORE = []))"

lemma finish_inv_drained:
  assumes f: "fenced is" and inv: "finish_inv is s" and g: "insnq_array s COREGEMM = [i]"
  shows "insnq_array s CORELOAD = []" "insnq_array s CORESTORE = []" "insn_opcode i = VTA_OPCODE_FINISH"
proof -
  have "split_cores is COREGEMM \<noteq> []" "last (split_cores is COREGEMM) = last is"
    using f by (cases "is" rule: rev_cases; auto simp: fenced_def split_cores_def)+
  moreover have sf: "suffix_of (insnq_array s c) (split_cores is c)" for c using inv by (simp add: finish_inv_def)
  ultimately have i: "i = last is" using suffix_of_last [OF sf [of COREGEMM]] g by simp
  then show "insn_opcode i = VTA_OPCODE_FINISH" using f by (simp add: fenced_def)
  have cons: "dep_q s x + n_push x (insnq_array s (producer x)) = n_pop x (insnq_array s (consumer x))" for x
    using inv by (simp add: finish_inv_def conserved_def ctrl_of_def)
  have "n_pop x [i] = 0" for x using f i by (simp add: n_pop_def fenced_def)
  then have z: "n_push l2g_q (insnq_array s CORELOAD) = 0" "n_push s2g_q (insnq_array s CORESTORE) = 0"
    using cons [of l2g_q] cons [of s2g_q] g by simp_all
  have tail: "insnq_array s c = [] \<or> 0 < n_push x (insnq_array s c)"
    if "split_cores is c = [] \<or> x \<in> set (pushes (last (split_cores is c)))" for c x
  proof (cases "insnq_array s c = []")
    case False
    then have "last (insnq_array s c) = last (split_cores is c)" "split_cores is c \<noteq> []"
      using suffix_of_last [OF sf False] sf [of c] by (auto simp: suffix_of_def)
    with that n_push_last [OF False] show ?thesis by simp
  qed simp
  show "insnq_array s CORELOAD = []" using tail [of CORELOAD l2g_q] z(1) f by (simp add: fenced_def)
  show "insnq_array s CORESTORE = []" using tail [of CORESTORE s2g_q] z(2) f by (simp add: fenced_def)
qed

lemma finish_inv_turn:
  assumes f: "fenced is" and inv: "finish_inv is s" and t: "insnq_array s c = i # rest" "ready i (dep_q s)" "c \<noteq> COREMAX"
  shows "finish_inv is (after_turn c i rest d s)"
proof -
  let ?s = "after_turn c i rest d s"
  have step: "ctrl_step (ctrl_of s) (ctrl_of ?s)"
    using ctrl_step.intros [of "insnq_array s", OF t(1,2)] by (simp add: ctrl_of_def after_turn_def)
  have "conserved (\<lambda>_. 0) (ctrl_of ?s)"
    using conserved_step [OF _ _ step] inv by (simp add: finish_inv_def ctrl_of_def)
  moreover have "queue_ok (insnq_array ?s)"
    using inv t(1) by (fastforce simp: finish_inv_def queue_ok_def after_turn_def)
  moreover have "\<forall>c'. suffix_of (insnq_array ?s c') (split_cores is c')"
    using inv suffix_of_tl [of i rest "split_cores is c"] unfolding t(1) [symmetric]
    by (auto simp: finish_inv_def after_turn_def)
  moreover have "finished ?s \<and> insnq_array ?s CORELOAD = [] \<and> insnq_array ?s CORESTORE = []" if e: "insnq_array ?s COREGEMM = []"
  proof -
    have "insnq_array s COREGEMM \<noteq> []" using inv t by (cases c) (auto simp: finish_inv_def)
    then have "c = COREGEMM" "rest = []" using e by (auto simp: after_turn_def split: if_splits)
    then show ?thesis using finish_inv_drained [OF f inv, of i] t(1) by (simp add: after_turn_def)
  qed
  ultimately show ?thesis by (simp add: finish_inv_def)
qed

text \<open>An invariant of every turn is one of a round.\<close>

lemma sync_round_rule:
  assumes "sync_round run r s = Inr s'" "P s"
    and turn: "\<And>s c i rest d. P s \<Longrightarrow> insnq_array s c = i # rest \<Longrightarrow> ready i (dep_q s) \<Longrightarrow> c \<noteq> COREMAX \<Longrightarrow> P (after_turn c i rest d s)"
    and event: "\<And>s es. P s \<Longrightarrow> P (s\<lparr>dep_push_event := es\<rparr>)"
  shows "P s'"
proof -
  have core: "P u \<Longrightarrow> CoreRun run c u = Inr v \<Longrightarrow> P v" for c u v
    using CoreRun_rule [of run c u v P] turn by blast
  obtain s3 where "fold_res (\<lambda>i. CoreRun run (core_of ((r mod 3 + i) mod 3))) [0..<3] s = Inr s3"
    and ev: "EventProcess run s3 = Inr s'"
    using assms(1) by (auto simp: sync_round_def)
  then have "P s3" using assms(2) core by (auto elim!: fold_res_preserves)
  with ev show ?thesis
    using EventProcess_rule [OF ev, of P] core event by blast
qed

lemma fenced_finishes:
  assumes f: "fenced is" and ok: "list_all (runnable run) is" and seq: "seq_run is (\<lambda>_. 0) = Some (\<lambda>_. 0)"
    and e: "\<And>c. insnq_array s c = []" "dep_push_event s = []" "dep_q s = (\<lambda>_. 0)"
    and r: "sync_round run r (fold TlppPushInsn is s) = Inr s'" and g: "insnq_array s' COREGEMM = []"
  shows "finished s'"
proof -
  let ?s = "fold TlppPushInsn is s"
  have q: "insnq_array ?s = split_cores is" "dep_q ?s = (\<lambda>_. 0)" using e by (auto simp: TlppPushInsn_all fun_eq_iff)
  have "split_cores is COREGEMM \<noteq> []"
    using f by (cases "is" rule: rev_cases) (auto simp: fenced_def split_cores_def)
  then have "finish_inv is ?s"
    using conserved_init [OF seq] by (simp add: finish_inv_def q ctrl_of_def suffix_of_def)
  then have "finish_inv is s'"
    by (rule sync_round_rule [OF r, where P = "finish_inv is"])
      (rule finish_inv_turn [OF f], assumption+, simp add: finish_inv_def)
  then show ?thesis using g by (simp add: finish_inv_def)
qed

end
