(* ===== verification/Vta_Runtime.thy ===== *)
theory Vta_Runtime
  imports Vta_Vmem Vta_Order
begin

text \<open>
  The runtime (\<open>vta_runtime.cc\<close>: \<open>DataBuffer\<close>, \<open>CommandQueue\<close> and the C interface). The device driver is
  the record \<open>driver\<close> of the functions of \<open>driver.h\<close> the runtime calls; a driver call that does not return
  is an error value of it. A buffer handle is the address of the \<open>DataBuffer\<close> object, chosen by
  \<open>operator new\<close> and passed in. \<open>CHECK\<close> is \<open>assert\<close>, so the model is that of a build without \<open>NDEBUG\<close>.

  Shown: the instructions that \<open>VTALoadBuffer2D\<close>, \<open>VTAStoreBuffer2D\<close> and the two push operations emit,
  that \<open>Synchronize\<close> fences the stream so that \<open>FINISH\<close> is executed last and the simulator returns,
  what it hands to the device, and that it leaves empty queues.
\<close>

section \<open>State\<close>

record 'm driver =
  VTAMemAlloc :: "u64 \<Rightarrow> bool \<Rightarrow> 'm \<Rightarrow> (u64 \<times> 'm) res"
  VTAMemFree :: "u64 \<Rightarrow> 'm \<Rightarrow> 'm res"
  VTAMemGetPhyAddr :: "u64 \<Rightarrow> 'm \<Rightarrow> u32 res"
  VTAMemCopyFromHost :: "u64 \<Rightarrow> bytes \<Rightarrow> 'm \<Rightarrow> 'm res"
  VTAMemCopyToHost :: "u64 \<Rightarrow> u64 \<Rightarrow> 'm \<Rightarrow> bytes res"
  VTAFlushCache :: "u64 \<Rightarrow> u32 \<Rightarrow> u32 \<Rightarrow> 'm \<Rightarrow> 'm res"
  VTAInvalidateCache :: "u64 \<Rightarrow> u32 \<Rightarrow> u32 \<Rightarrow> 'm \<Rightarrow> 'm res"
  VTADeviceAlloc :: "'m \<Rightarrow> (u64 \<times> 'm) res"
  VTADeviceFree :: "u64 \<Rightarrow> 'm \<Rightarrow> 'm res"
  VTADeviceRun :: "u64 \<Rightarrow> u32 \<Rightarrow> u32 \<Rightarrow> u32 \<Rightarrow> 'm \<Rightarrow> (int \<times> 'm) res"

record DataBuffer =
  buf_data :: u64
  buf_phy :: u32

record 'm runtime =
  debug_flag :: u32
  kernels :: kheap
  kmaps :: "u64 \<Rightarrow> nat option list option"
  uop_queue :: UopQueue
  insn_queue :: InsnQueue
  allocated :: "u64 \<Rightarrow> DataBuffer option"
  device_handle :: u64
  dev :: 'm

definition VTA_DEBUG_DUMP_INSN :: nat where "VTA_DEBUG_DUMP_INSN = 1"
definition VTA_DEBUG_SKIP_READ_BARRIER :: nat where "VTA_DEBUG_SKIP_READ_BARRIER = 3"
definition VTA_DEBUG_SKIP_WRITE_BARRIER :: nat where "VTA_DEBUG_SKIP_WRITE_BARRIER = 4"
definition VTA_DEBUG_FORCE_SERIAL :: nat where "VTA_DEBUG_FORCE_SERIAL = 5"

section \<open>Data buffers\<close>

definition kBufferCoherent :: bool where "kBufferCoherent = VTA_COHERENT_ACCESSES"
definition kAlwaysCache :: bool where "kAlwaysCache = True"

lemmas cache_mode = kBufferCoherent_def kAlwaysCache_def VTA_COHERENT_ACCESSES_def

definition FromHandle :: "u64 \<Rightarrow> 'm runtime \<Rightarrow> DataBuffer option" where
  "FromHandle h r = allocated r h"

definition deref :: "DataBuffer option \<Rightarrow> DataBuffer res" where
  "deref b = (case b of None \<Rightarrow> Inl NullDeref | Some d \<Rightarrow> Inr d)"

definition VTABufferAlloc :: "'m driver \<Rightarrow> u64 \<Rightarrow> u64 \<Rightarrow> 'm runtime \<Rightarrow> (u64 \<times> 'm runtime) res" where
  "VTABufferAlloc drv handle sz r =
    res_bind (VTAMemAlloc drv sz kAlwaysCache (dev r)) (\<lambda>(data, m).
    res_bind (check (data \<noteq> 0) ''data != nullptr'') (\<lambda>_.
    res_bind (VTAMemGetPhyAddr drv data m) (\<lambda>phy.
    Inr (handle, r\<lparr>dev := m, allocated := (allocated r)(handle \<mapsto> \<lparr>buf_data = data, buf_phy = phy\<rparr>)\<rparr>))))"

definition VTABufferFree :: "'m driver \<Rightarrow> u64 \<Rightarrow> 'm runtime \<Rightarrow> 'm runtime res" where
  "VTABufferFree drv handle r =
    res_bind (deref (FromHandle handle r)) (\<lambda>b.
    res_bind (VTAMemFree drv (buf_data b) (dev r)) (\<lambda>m.
    Inr (r\<lparr>dev := m, allocated := (allocated r)(handle := None)\<rparr>)))"

text \<open>The cache maintenance of a \<open>DataBuffer\<close>; the size is converted to \<open>int\<close> and the address to 32 bits.\<close>

definition DataBuffer_InvalidateCache :: "'m driver \<Rightarrow> DataBuffer \<Rightarrow> u64 \<Rightarrow> u64 \<Rightarrow> 'm \<Rightarrow> 'm res" where
  "DataBuffer_InvalidateCache drv b offset sz m =
    (if \<not> kBufferCoherent \<and> kAlwaysCache
     then VTAInvalidateCache drv (buf_data b + offset) (ucast (ucast (buf_phy b) + offset)) (ucast sz) m else Inr m)"

definition DataBuffer_FlushCache :: "'m driver \<Rightarrow> DataBuffer \<Rightarrow> u64 \<Rightarrow> u64 \<Rightarrow> 'm \<Rightarrow> 'm res" where
  "DataBuffer_FlushCache drv b offset sz m =
    (if \<not> kBufferCoherent \<and> kAlwaysCache
     then VTAFlushCache drv (buf_data b + offset) (ucast (ucast (buf_phy b) + offset)) (ucast sz) m else Inr m)"

text \<open>\<open>VTABufferCopy\<close> with \<open>VTA_MEMCPY_H2D\<close> (the host data as an argument) and with \<open>VTA_MEMCPY_D2H\<close>
  (the host data as the result).\<close>

definition VTABufferCopy_H2D :: "'m driver \<Rightarrow> bytes \<Rightarrow> u64 \<Rightarrow> u64 \<Rightarrow> 'm runtime \<Rightarrow> 'm runtime res" where
  "VTABufferCopy_H2D drv src to to_offset r =
    res_bind (deref (FromHandle to r)) (\<lambda>b.
    res_bind (VTAMemCopyFromHost drv (buf_data b + to_offset) src (dev r)) (\<lambda>m.
    res_bind (DataBuffer_FlushCache drv b to_offset (word_of_nat (length src)) m) (\<lambda>m. Inr (r\<lparr>dev := m\<rparr>))))"

definition VTABufferCopy_D2H :: "'m driver \<Rightarrow> u64 \<Rightarrow> u64 \<Rightarrow> u64 \<Rightarrow> 'm runtime \<Rightarrow> (bytes \<times> 'm runtime) res" where
  "VTABufferCopy_D2H drv from from_offset sz r =
    res_bind (deref (FromHandle from r)) (\<lambda>b.
    res_bind (DataBuffer_InvalidateCache drv b from_offset sz (dev r)) (\<lambda>m.
    res_bind (VTAMemCopyToHost drv (buf_data b + from_offset) sz m) (\<lambda>out. Inr (out, r\<lparr>dev := m\<rparr>))))"

text \<open>The whole function. The host's memory is not state of the runtime: \<open>host_read\<close> and \<open>host_write\<close> are what \<open>memcpy\<close> does at a host
  address. The mask is tested bitwise, so with both bits set the data goes from one buffer to the address of the other
  through \<open>VTAMemCopyToHost\<close>, without a flush, and with none set nothing is copied.\<close>

definition VTABufferCopy ::
  "'m driver \<Rightarrow> (u64 \<Rightarrow> nat \<Rightarrow> bytes res) \<Rightarrow> (u64 \<Rightarrow> bytes \<Rightarrow> 'm \<Rightarrow> 'm res) \<Rightarrow> u64 \<Rightarrow> u64 \<Rightarrow> u64 \<Rightarrow> u64 \<Rightarrow> u64 \<Rightarrow> u32
   \<Rightarrow> 'm runtime \<Rightarrow> 'm runtime res" where
  "VTABufferCopy drv host_read host_write from from_offset to to_offset sz kind_mask r =
    res_bind (if bit kind_mask 1 then res_bind (deref (FromHandle from r)) (\<lambda>b. Inr (Some b, buf_data b)) else Inr (None, from)) (\<lambda>(from_buffer, from).
    res_bind (if bit kind_mask 0 then res_bind (deref (FromHandle to r)) (\<lambda>b. Inr (Some b, buf_data b)) else Inr (None, to)) (\<lambda>(to_buffer, to).
    case from_buffer of
      Some b \<Rightarrow>
        res_bind (DataBuffer_InvalidateCache drv b from_offset sz (dev r)) (\<lambda>m.
        res_bind (VTAMemCopyToHost drv (from + from_offset) sz m) (\<lambda>out.
        res_bind (host_write (to + to_offset) out m) (\<lambda>m. Inr (r\<lparr>dev := m\<rparr>))))
    | None \<Rightarrow>
        (case to_buffer of None \<Rightarrow> Inr r
         | Some b \<Rightarrow>
             res_bind (host_read (from + from_offset) (unat sz)) (\<lambda>src.
             res_bind (VTAMemCopyFromHost drv (to + to_offset) src (dev r)) (\<lambda>m.
             res_bind (DataBuffer_FlushCache drv b to_offset sz m) (\<lambda>m. Inr (r\<lparr>dev := m\<rparr>)))))))"

lemma VTABufferCopy_directions:
  assumes "host_read (from + from_offset) (unat sz) = Inr src" "length src = unat sz"
  shows "VTABufferCopy drv host_read hw from from_offset to to_offset sz 1 r = VTABufferCopy_H2D drv src to to_offset r"
    and "VTABufferCopy drv hr host_write from from_offset to to_offset sz 2 r =
      res_bind (VTABufferCopy_D2H drv from from_offset sz r) (\<lambda>(out, r). res_bind (host_write (to + to_offset) out (dev r)) (\<lambda>m. Inr (r\<lparr>dev := m\<rparr>)))"
proof -
  have b: "bit (1 :: u32) 0" "\<not> bit (1 :: u32) 1" "bit (2 :: u32) 1" "\<not> bit (2 :: u32) 0" by (simp_all add: bit_iff_odd)
  have l: "word_of_nat (length src) = sz" using assms(2) by simp
  show "VTABufferCopy drv host_read hw from from_offset to to_offset sz 1 r = VTABufferCopy_H2D drv src to to_offset r"
    using assms(1) by (simp add: VTABufferCopy_def VTABufferCopy_H2D_def b l res_bind_assoc)
  show "VTABufferCopy drv hr host_write from from_offset to to_offset sz 2 r =
      res_bind (VTABufferCopy_D2H drv from from_offset sz r) (\<lambda>(out, r). res_bind (host_write (to + to_offset) out (dev r)) (\<lambda>m. Inr (r\<lparr>dev := m\<rparr>)))"
    by (simp add: VTABufferCopy_def VTABufferCopy_D2H_def b res_bind_assoc)
qed

definition VTABufferCPUPtr :: "u64 \<Rightarrow> 'm runtime \<Rightarrow> u64" where
  "VTABufferCPUPtr buffer r = (case FromHandle buffer r of Some b \<Rightarrow> buf_data b | None \<Rightarrow> buffer)"

definition elem_size :: "u32 \<Rightarrow> u32" where
  "elem_size elem_bits = (elem_bits + 8 - 1) div 8"

definition ReadBarrier :: "'m driver \<Rightarrow> u64 \<Rightarrow> u32 \<Rightarrow> u32 \<Rightarrow> u32 \<Rightarrow> 'm runtime \<Rightarrow> 'm runtime res" where
  "ReadBarrier drv buffer elem_bits start ext r =
    (if \<not> bit (debug_flag r) VTA_DEBUG_SKIP_READ_BARRIER
     then res_bind (deref (FromHandle buffer r)) (\<lambda>b.
       res_bind (DataBuffer_FlushCache drv b (ucast (elem_size elem_bits * start)) (ucast (elem_size elem_bits * ext)) (dev r)) (\<lambda>m.
       Inr (r\<lparr>dev := m\<rparr>)))
     else Inr r)"

definition WriteBarrier :: "'m driver \<Rightarrow> u64 \<Rightarrow> u32 \<Rightarrow> u32 \<Rightarrow> u32 \<Rightarrow> 'm runtime \<Rightarrow> 'm runtime res" where
  "WriteBarrier drv buffer elem_bits start ext r =
    (if \<not> bit (debug_flag r) VTA_DEBUG_SKIP_WRITE_BARRIER
     then res_bind (deref (FromHandle buffer r)) (\<lambda>b.
       res_bind (DataBuffer_InvalidateCache drv b (ucast (elem_size elem_bits * start)) (ucast (elem_size elem_bits * ext)) (dev r)) (\<lambda>m.
       Inr (r\<lparr>dev := m\<rparr>)))
     else Inr r)"

section \<open>Synchronisation\<close>

definition on_insn :: "(InsnQueue \<Rightarrow> InsnQueue res) \<Rightarrow> 'm runtime \<Rightarrow> 'm runtime res" where
  "on_insn f r = res_bind (f (insn_queue r)) (\<lambda>q. Inr (r\<lparr>insn_queue := q\<rparr>))"

definition CreateGemInsn :: "(bool \<Rightarrow> bool \<Rightarrow> VTAGemInsn) \<Rightarrow> InsnQueue \<Rightarrow> InsnQueue" where
  "CreateGemInsn mk = Create kComputeStage (\<lambda>a b. GemInsn (mk a b))"

definition CreateAluInsn :: "(bool \<Rightarrow> bool \<Rightarrow> VTAAluInsn) \<Rightarrow> InsnQueue \<Rightarrow> InsnQueue" where
  "CreateAluInsn mk = Create kComputeStage (\<lambda>a b. AluInsn (mk a b))"

definition CreateMemInsn :: "u32 \<Rightarrow> (bool \<Rightarrow> bool \<Rightarrow> VTAMemInsn) \<Rightarrow> InsnQueue \<Rightarrow> InsnQueue" where
  "CreateMemInsn mt mk = Create (GetMemPipelineStage mt) (\<lambda>a b. MemInsn (mk a b))"

definition CreateStoreInsn :: "(bool \<Rightarrow> bool \<Rightarrow> VTAMemInsn) \<Rightarrow> InsnQueue \<Rightarrow> InsnQueue" where
  "CreateStoreInsn mk = Create kStoreStage (\<lambda>a b. MemInsn (mk a b))"

text \<open>The \<open>FINISH\<close> instruction: only the header is assigned, the rest of it is the indeterminate \<open>junk\<close>.\<close>

definition finish_insn :: "VTAGemInsn \<Rightarrow> bool \<Rightarrow> bool \<Rightarrow> VTAGemInsn" where
  "finish_insn junk a b = junk\<lparr>opcode := VTA_OPCODE_FINISH, pop_prev_dep := a, pop_next_dep := b,
     push_prev_dep := False, push_next_dep := False\<rparr>"

text \<open>The first half of \<open>Synchronize\<close>, on the instruction queue.\<close>

definition sync_stream :: "bool \<Rightarrow> VTAGemInsn \<Rightarrow> InsnQueue \<Rightarrow> InsnQueue res" where
  "sync_stream force_serial junk q =
    res_bind (if force_serial then RewriteForceSerial q
      else
        res_bind (DepPush kStoreStage kComputeStage q) (\<lambda>q.
        res_bind (DepPush kLoadStage kComputeStage q) (\<lambda>q.
        res_bind (DepPop kStoreStage kComputeStage q) (\<lambda>q.
        res_bind (DepPop kLoadStage kComputeStage q) (CommitPendingPop kComputeStage))))) (\<lambda>q.
    let q = CreateGemInsn (finish_insn junk) q in
    res_bind (check (\<not> PendingPop q) ''!insn_queue_.PendingPop()'') (\<lambda>_. Inr q))"

text \<open>The end of both \<open>ReadBarrier\<close> functions of the queues: the copy to \<open>fpga_buff_\<close> and the flush of what was copied.\<close>

definition publish :: "'m driver \<Rightarrow> u64 \<Rightarrow> u32 \<Rightarrow> bytes \<Rightarrow> 'm \<Rightarrow> 'm res" where
  "publish drv buf phy bs m =
    res_bind (VTAMemCopyFromHost drv buf bs m) (\<lambda>m.
    if \<not> kBufferCoherent \<and> kAlwaysCache then VTAFlushCache drv buf phy (word_of_nat (length bs)) m else Inr m)"

definition Synchronize :: "'m driver \<Rightarrow> VTAGemInsn \<Rightarrow> u32 \<Rightarrow> 'm runtime \<Rightarrow> 'm runtime res" where
  "Synchronize drv junk wait_cycles r =
    res_bind (on_insn (sync_stream (bit (debug_flag r) VTA_DEBUG_FORCE_SERIAL) junk) r) (\<lambda>r.
    let q = insn_queue r in
    if iq_count q = 0 then Inr r else
    res_bind (UopQueue_ReadBarrier (kernels r, uop_queue r)) (\<lambda>ub.
    res_bind (publish drv (uq_fpga (uop_queue r)) (uq_phy (uop_queue r)) ub (dev r)) (\<lambda>m.
    res_bind (InsnQueue_ReadBarrier q) (\<lambda>ib.
    res_bind (publish drv (iq_fpga q) (iq_phy q) ib m) (\<lambda>m.
    res_bind (if bit (debug_flag r) VTA_DEBUG_DUMP_INSN then res_bind (DumpInsn q) (\<lambda>_. Inr ()) else Inr ()) (\<lambda>_.
    res_bind (check (insn_opcode (iq_buf q ! (iq_count q - 1)) = VTA_OPCODE_FINISH) ''opcode == VTA_OPCODE_FINISH'') (\<lambda>_.
    res_bind (check (iq_count q * 16 \<le> VTA_MAX_XFER) ''count * sizeof(VTAGenericInsn) <= VTA_MAX_XFER'') (\<lambda>_.
    res_bind (check (iq_phy q \<noteq> 0) ''fpga_buff_phy_'') (\<lambda>_.
    res_bind (VTADeviceRun drv (device_handle r) (iq_phy q) (word_of_nat (iq_count q)) wait_cycles m) (\<lambda>(timeout, m).
    res_bind (check (timeout = 0) ''timeout == 0'') (\<lambda>_.
    let (h, uq) = UopQueue_Reset (kernels r, uop_queue r) in
    Inr (r\<lparr>dev := m, kernels := h, uop_queue := uq, insn_queue := InsnQueue_Reset q\<rparr>))))))))))))"

definition AutoSync :: "'m driver \<Rightarrow> VTAGemInsn \<Rightarrow> 'm runtime \<Rightarrow> 'm runtime res" where
  "AutoSync drv junk = Synchronize drv junk (push_bit 31 1)"

definition CheckInsnOverFlow :: "'m driver \<Rightarrow> VTAGemInsn \<Rightarrow> 'm runtime \<Rightarrow> 'm runtime res" where
  "CheckInsnOverFlow drv junk r =
    (if (iq_count (insn_queue r) + 6) * 16 > VTA_MAX_XFER then AutoSync drv junk r else Inr r)"

section \<open>Memory instructions\<close>

definition GetElemBytes :: "u32 \<Rightarrow> u32 res" where
  "GetElemBytes memory_id =
    (let elem_bytes =
       (if memory_id = ucast VTA_MEM_ID_UOP then word_of_nat VTA_UOP_ELEM_BYTES
        else if memory_id = ucast VTA_MEM_ID_INP then word_of_nat VTA_INP_ELEM_BYTES
        else if memory_id = ucast VTA_MEM_ID_WGT then word_of_nat VTA_WGT_ELEM_BYTES
        else if memory_id = ucast VTA_MEM_ID_ACC then word_of_nat VTA_ACC_ELEM_BYTES
        else if memory_id = ucast VTA_MEM_ID_OUT then word_of_nat VTA_OUT_ELEM_BYTES
        else if memory_id = ucast VTA_MEM_ID_ACC_8BIT then word_of_nat (VTA_ACC_ELEM_BYTES div 4)
        else 0)
     in res_bind (check (unat elem_bytes \<le> unat VTA_PAGE_BYTES) ''VTA_PAGE_BYTES >= elem_bytes'') (\<lambda>_. Inr elem_bytes))"

definition phy_elem :: "DataBuffer \<Rightarrow> u32 \<Rightarrow> u32 res" where
  "phy_elem b mt =
    res_bind (GetElemBytes mt) (\<lambda>n.
    if n = 0 then Inl (Undefined ''division by zero'') else Inr (buf_phy b div n))"

definition LoadBuffer2D ::
  "'m driver \<Rightarrow> VTAGemInsn \<Rightarrow> u64 \<Rightarrow> u32 \<Rightarrow> u32 \<Rightarrow> u32 \<Rightarrow> u32 \<Rightarrow> u32 \<Rightarrow> u32 \<Rightarrow> u32 \<Rightarrow> u32 \<Rightarrow> u32 \<Rightarrow> u32
   \<Rightarrow> 'm runtime \<Rightarrow> 'm runtime res" where
  "LoadBuffer2D drv junk src_dram_addr src_elem_offset xs ys stride x_pad_before y_pad_before
      x_pad_after y_pad_after dst_sram_index dst_memory_type r =
    res_bind (deref (FromHandle src_dram_addr r)) (\<lambda>src.
    res_bind (phy_elem src dst_memory_type) (\<lambda>base.
    let mk = (\<lambda>a b. \<lparr>opcode = VTA_OPCODE_LOAD, pop_prev_dep = a, pop_next_dep = b, push_prev_dep = False,
           push_next_dep = False, memory_type = ucast dst_memory_type, sram_base = ucast dst_sram_index,
           dram_base = base + src_elem_offset, y_size = ucast ys, x_size = ucast xs, x_stride = ucast stride,
           y_pad_0 = ucast y_pad_before, y_pad_1 = ucast y_pad_after, x_pad_0 = ucast x_pad_before,
           x_pad_1 = ucast x_pad_after\<rparr>)
    in CheckInsnOverFlow drv junk (r\<lparr>insn_queue := CreateMemInsn dst_memory_type mk (insn_queue r)\<rparr>)))"

definition StoreBuffer2D ::
  "'m driver \<Rightarrow> VTAGemInsn \<Rightarrow> u32 \<Rightarrow> u32 \<Rightarrow> u64 \<Rightarrow> u32 \<Rightarrow> u32 \<Rightarrow> u32 \<Rightarrow> u32 \<Rightarrow> 'm runtime \<Rightarrow> 'm runtime res" where
  "StoreBuffer2D drv junk src_sram_index src_memory_type dst_dram_addr dst_elem_offset xs ys stride r =
    res_bind (deref (FromHandle dst_dram_addr r)) (\<lambda>dst.
    res_bind (phy_elem dst src_memory_type) (\<lambda>base.
    let mk = (\<lambda>a b. \<lparr>opcode = VTA_OPCODE_STORE, pop_prev_dep = a, pop_next_dep = b, push_prev_dep = False,
           push_next_dep = False, memory_type = ucast src_memory_type, sram_base = ucast src_sram_index,
           dram_base = base + dst_elem_offset, y_size = ucast ys, x_size = ucast xs, x_stride = ucast stride,
           y_pad_0 = 0, y_pad_1 = 0, x_pad_0 = 0, x_pad_1 = 0\<rparr>)
    in CheckInsnOverFlow drv junk (r\<lparr>insn_queue := CreateStoreInsn mk (insn_queue r)\<rparr>)))"

section \<open>Compute instructions\<close>

text \<open>The kernel of a signature: the recorded one, or a new one that \<open>finit\<close> records with \<open>VTAUopPush\<close>
  and the loop functions. A recorded kernel is added to the heap; its index is the pointer.\<close>

definition get_kernel ::
  "u64 \<Rightarrow> (UopKernel \<Rightarrow> (int \<times> UopKernel) res) \<Rightarrow> bytes \<Rightarrow> 'm runtime \<Rightarrow> (nat \<times> 'm runtime) res" where
  "get_kernel uop_handle finit signature r =
    (let kmap = (case kmaps r uop_handle of None \<Rightarrow> [] | Some m \<Rightarrow> m) in
     res_bind (Map_Get signature kmap) (\<lambda>(key, kmap).
     case kmap ! key of
       Some kid \<Rightarrow> Inr (kid, r\<lparr>kmaps := (kmaps r)(uop_handle \<mapsto> kmap)\<rparr>)
     | None \<Rightarrow>
         res_bind (finit (new_kernel signature)) (\<lambda>(rc, k).
         res_bind (check (rc = 0) ''finit(signature) == 0'') (\<lambda>_.
         let kid = length (kernels r) in
         Inr (kid, r\<lparr>kernels := kernels r @ [k], kmaps := (kmaps r)(uop_handle \<mapsto> kmap[key := Some kid])\<rparr>)))))"

text \<open>\<open>UopQueue::Push\<close> with \<open>AutoSync\<close> as \<open>fautosync\<close>, and the load of a pending kernel.\<close>

definition push_uops :: "'m driver \<Rightarrow> VTAGemInsn \<Rightarrow> nat \<Rightarrow> 'm runtime \<Rightarrow> 'm runtime res" where
  "push_uops drv junk kid r =
    res_bind
      (if cached (kernels r ! kid) then Inr r
       else
         res_bind (if uq_overflow (length (k_seq (kernels r ! kid))) (uop_queue r) then AutoSync drv junk r else Inr r) (\<lambda>r.
         res_bind (UopQueue_Push kid (kernels r, uop_queue r)) (\<lambda>(h, uq).
         Inr (r\<lparr>kernels := h, uop_queue := uq\<rparr>)))) (\<lambda>r.
    if pending (uop_queue r) then
      res_bind (FlushUopLoad blank_mem (kernels r, uop_queue r)) (\<lambda>(i, uq).
      Inr (r\<lparr>uop_queue := uq, insn_queue := CreateMemInsn (ucast VTA_MEM_ID_UOP)
         (\<lambda>a b. i\<lparr>opcode := VTA_OPCODE_LOAD, pop_prev_dep := a, pop_next_dep := b, push_prev_dep := False, push_next_dep := False\<rparr>)
         (insn_queue r)\<rparr>))
    else Inr r)"

definition loop_at :: "UopKernel \<Rightarrow> nat \<Rightarrow> LoopEntry" where
  "loop_at k i = (if i < length (k_loop k) then k_loop k ! i
     else \<lparr>extent = 1, dst_factor = 0, src_factor = 0, wgt_factor = 0\<rparr>)"

definition gemm_insn :: "UopKernel \<Rightarrow> bool \<Rightarrow> bool \<Rightarrow> VTAGemInsn" where
  "gemm_insn k a b = (let u = loop_at k 0; n = loop_at k 1 in
    \<lparr>opcode = VTA_OPCODE_GEMM, pop_prev_dep = a, pop_next_dep = b, push_prev_dep = False, push_next_dep = False,
     reset_reg = bit (k_reset_out k) 0, uop_bgn = word_of_nat (k_begin k), uop_end = word_of_nat (k_end k),
     iter_out = ucast (LoopEntry.extent u), iter_in = ucast (LoopEntry.extent n),
     dst_factor_out = ucast (dst_factor u), dst_factor_in = ucast (dst_factor n),
     src_factor_out = ucast (src_factor u), src_factor_in = ucast (src_factor n),
     wgt_factor_out = ucast (wgt_factor u), wgt_factor_in = ucast (wgt_factor n)\<rparr>)"

definition alu_loops :: "UopKernel \<Rightarrow> LoopEntry \<times> LoopEntry" where
  "alu_loops k = (let none = \<lparr>extent = 1, dst_factor = 0, src_factor = 0, wgt_factor = 0\<rparr>; l = k_loop k in
    if length l = 0 then (none, none)
    else if length l = 1 then (none, l ! 0)
    else (l ! 0, l ! 1))"

definition alu_insn :: "UopKernel \<Rightarrow> bool \<Rightarrow> bool \<Rightarrow> VTAAluInsn" where
  "alu_insn k a b = (let (u, n) = alu_loops k in
    \<lparr>opcode = VTA_OPCODE_ALU, pop_prev_dep = a, pop_next_dep = b, push_prev_dep = False, push_next_dep = False,
     reset_reg_a = bit (k_reset_out k) 0, uop_bgn_a = word_of_nat (k_begin k), uop_end_a = word_of_nat (k_end k),
     iter_out_a = ucast (LoopEntry.extent u), iter_in_a = ucast (LoopEntry.extent n),
     dst_factor_out_a = ucast (dst_factor u), dst_factor_in_a = ucast (dst_factor n),
     src_factor_out_a = ucast (src_factor u), src_factor_in_a = ucast (src_factor n),
     alu_opcode = ucast (k_opcode k), use_imm = k_use_imm k, imm = k_imm_val k\<rparr>)"

definition PushGEMMOp_kernel :: "'m driver \<Rightarrow> VTAGemInsn \<Rightarrow> nat \<Rightarrow> 'm runtime \<Rightarrow> 'm runtime res" where
  "PushGEMMOp_kernel drv junk kid r =
    res_bind (push_uops drv junk kid r) (\<lambda>r.
    Inr (r\<lparr>insn_queue := CreateGemInsn (gemm_insn (kernels r ! kid)) (insn_queue r)\<rparr>))"

definition PushALUUop_kernel :: "'m driver \<Rightarrow> VTAGemInsn \<Rightarrow> nat \<Rightarrow> 'm runtime \<Rightarrow> 'm runtime res" where
  "PushALUUop_kernel drv junk kid r =
    res_bind (push_uops drv junk kid r) (\<lambda>r.
    Inr (r\<lparr>insn_queue := CreateAluInsn (alu_insn (kernels r ! kid)) (insn_queue r)\<rparr>))"

definition VTAPushGEMMOp ::
  "'m driver \<Rightarrow> VTAGemInsn \<Rightarrow> u64 \<Rightarrow> (UopKernel \<Rightarrow> (int \<times> UopKernel) res) \<Rightarrow> bytes \<Rightarrow> 'm runtime \<Rightarrow> 'm runtime res" where
  "VTAPushGEMMOp drv junk uop_handle finit signature r =
    res_bind (get_kernel uop_handle finit signature r) (\<lambda>(kid, r).
    res_bind (PushGEMMOp_kernel drv junk kid r) (CheckInsnOverFlow drv junk))"

definition VTAPushALUOp ::
  "'m driver \<Rightarrow> VTAGemInsn \<Rightarrow> u64 \<Rightarrow> (UopKernel \<Rightarrow> (int \<times> UopKernel) res) \<Rightarrow> bytes \<Rightarrow> 'm runtime \<Rightarrow> 'm runtime res" where
  "VTAPushALUOp drv junk uop_handle finit signature r =
    res_bind (get_kernel uop_handle finit signature r) (\<lambda>(kid, r).
    res_bind (PushALUUop_kernel drv junk kid r) (CheckInsnOverFlow drv junk))"

definition VTADepPush :: "int \<Rightarrow> int \<Rightarrow> 'm runtime \<Rightarrow> 'm runtime res" where
  "VTADepPush from to = on_insn (DepPush from to)"

definition VTADepPop :: "int \<Rightarrow> int \<Rightarrow> 'm runtime \<Rightarrow> 'm runtime res" where
  "VTADepPop from to = on_insn (DepPop from to)"

definition VTASetDebugMode :: "u32 \<Rightarrow> 'm runtime \<Rightarrow> 'm runtime" where
  "VTASetDebugMode debug r = r\<lparr>debug_flag := debug\<rparr>"

section \<open>The fence\<close>

text \<open>What the queue operations do to the rest of the queue.\<close>

lemma fun_upd_same [simp]: "\<not> f x \<Longrightarrow> f(x := False) = f"
  by (rule ext) simp

definition is_noop :: "int \<Rightarrow> VTAInsn \<Rightarrow> bool" where
  "is_noop s i = (\<exists>a b c d. i = noop s a b c d)"

lemma is_noop_noop [simp]: "is_noop s (noop s a b c d)"
  by (auto simp: is_noop_def)

lemma is_noop_stage:
  "is_noop s i \<Longrightarrow> GetPipelineStage i = (if s = 3 then 3 else 0)"
  "is_noop s i \<Longrightarrow> s = 1 \<or> s = 2 \<or> s = 3 \<Longrightarrow> GetCoreType i = stage_core s"
  by (auto simp: is_noop_def noop_core)

definition grows :: "int \<Rightarrow> InsnQueue \<Rightarrow> InsnQueue \<Rightarrow> bool" where
  "grows s q q' = (\<exists>xs. iq_buf q' = iq_buf q @ xs \<and> (\<forall>i \<in> set xs. is_noop s i) \<and>
     (\<forall>s'. s' \<noteq> s \<longrightarrow> pending_pop_prev q' s' = pending_pop_prev q s' \<and> pending_pop_next q' s' = pending_pop_next q s') \<and>
     iq_fpga q' = iq_fpga q \<and> iq_phy q' = iq_phy q)"

lemma grows_commit:
  "CommitPendingPop s q = Inr q' \<Longrightarrow> grows s q q' \<and> \<not> pending_pop_prev q' s \<and> \<not> pending_pop_next q' s"
  by (auto simp: CommitPendingPop_def grows_def PushNoop_def clear_pending_def split: if_splits)

lemma grows_pop: "DepPop from s q = Inr q' \<Longrightarrow> grows s q q'"
  by (auto simp: DepPop_def grows_def dest!: grows_commit split: if_splits)

lemma grows_refl: "grows s q q"
  by (simp add: grows_def)

lemma grows_trans: "grows s q q1 \<Longrightarrow> grows s q1 q2 \<Longrightarrow> grows s q q2"
  by (auto simp: grows_def)

lemma grows_push:
  assumes "DepPush s to q = Inr q'" "s \<noteq> to" "s = 1 \<or> s = 2" "iq_buf q \<noteq> [] \<Longrightarrow> GetPipelineStage (last (iq_buf q)) \<noteq> s"
  shows "grows s q q' \<and> \<not> pending_pop_prev q' s \<and> \<not> pending_pop_next q' s \<and>
    last (iq_buf q') = noop s (s > to) (s < to) False False"
proof -
  obtain q1 where q1: "CommitPendingPop s q = Inr q1" using assms(1) by (auto simp: DepPush_def)
  obtain xs where xs: "iq_buf q1 = iq_buf q @ xs" "\<forall>i \<in> set xs. is_noop s i"
    using grows_commit [OF q1] by (auto simp: grows_def)
  have "iq_buf q1 \<noteq> [] \<Longrightarrow> GetPipelineStage (last (iq_buf q1)) \<noteq> s"
    using assms(3,4) xs by (cases xs rule: rev_cases) (auto dest: is_noop_stage(1))
  then have "q' = PushNoop s (s > to) (s < to) False False q1"
    using assms(1,2) q1 by (cases "s < to") (auto simp: DepPush_def Let_def split: if_splits)
  then show ?thesis
    using grows_commit [OF q1] by (auto simp: grows_def PushNoop_def)
qed

text \<open>After a push the last instruction of the buffer belongs to the pushing stage and pushes.\<close>

lemma DepPush_shape:
  assumes inv: "iq_inv q t" and x: "queue_of from to = Some x" and r: "DepPush from to q = Inr q'"
  shows "\<exists>b j. iq_buf q' = b @ [j] \<and> GetCoreType j = stage_core from \<and> x \<in> set (pushes j) \<and>
    (\<forall>s. s \<noteq> from \<longrightarrow> pending_pop_prev q' s = pending_pop_prev q s \<and> pending_pop_next q' s = pending_pop_next q s) \<and>
    \<not> pending_pop_prev q' from \<and> \<not> pending_pop_next q' from \<and> iq_fpga q' = iq_fpga q \<and> iq_phy q' = iq_phy q"
proof -
  have st: "from = 1 \<or> from = 2 \<or> from = 3" using x by (auto simp: queue_of_Some)
  obtain q1 where q1: "CommitPendingPop from q = Inr q1" using r by (auto simp: DepPush_def)
  note g = grows_commit [OF q1]
  have inv1: "iq_inv q1 t" using CommitPendingPop_inv [OF inv st] q1 by auto
  let ?i = "last (iq_buf q1)"
  have "insn_ok ?i" if "iq_buf q1 \<noteq> []" using inv1 that by (auto simp: iq_inv_def list_all_iff)
  then have core: "tag_ok ?i \<and> GetCoreType ?i = stage_core from" if "iq_buf q1 \<noteq> []" "GetPipelineStage ?i = from"
    using that st by (auto simp: insn_ok_def stage_defs)
  let ?fold = "iq_buf q1 \<noteq> [] \<and> GetPipelineStage ?i = from \<and> (if from < to then \<not> push_next_dep (insn_deps ?i) else \<not> push_prev_dep (insn_deps ?i))"
  define j where "j = (if ?fold then if from < to then set_push_next ?i else set_push_prev ?i
     else noop from (from > to) (from < to) False False)"
  have q': "q' = q1\<lparr>iq_buf := (if ?fold then butlast (iq_buf q1) else iq_buf q1) @ [j]\<rparr>"
    using r q1 x by (cases "from < to") (auto simp: DepPush_def queue_of_Some Let_def PushNoop_def j_def split: if_splits)
  have "GetCoreType j = stage_core from"
    using core st by (auto simp: j_def noop_core)
  moreover from this have "x \<in> set (pushes j)"
    using x by (auto simp: in_pushes j_def queue_of_Some stage_defs)
  ultimately show ?thesis using g unfolding q' by (auto simp: grows_def)
qed

lemma core_store_stage: "GetCoreType i = CORESTORE \<Longrightarrow> GetPipelineStage i = kStoreStage"
  using opcodes_differ by (auto simp: GetCoreType_def GetPipelineStage_def Let_def split: if_splits)

lemma split_cores_append [simp]: "split_cores (xs @ ys) c = split_cores xs c @ split_cores ys c"
  by (simp add: split_cores_def)

lemma split_cores_noops:
  assumes "\<forall>i \<in> set xs. is_noop s i" "s = 1 \<or> s = 2 \<or> s = 3"
  shows "split_cores xs c = (if c = stage_core s then xs else [])"
proof -
  have "\<forall>i \<in> set xs. GetCoreType i = stage_core s" using assms by (auto dest: is_noop_stage(2))
  then show ?thesis by (auto simp: split_cores_def filter_empty_conv filter_id_conv)
qed

definition fence_ops :: "InsnQueue \<Rightarrow> InsnQueue res" where
  "fence_ops q =
    res_bind (DepPush kStoreStage kComputeStage q) (\<lambda>q.
    res_bind (DepPush kLoadStage kComputeStage q) (\<lambda>q.
    res_bind (DepPop kStoreStage kComputeStage q) (\<lambda>q.
    res_bind (DepPop kLoadStage kComputeStage q) (CommitPendingPop kComputeStage))))"

lemma finish_insn_facts:
  "insn_opcode (GemInsn (finish_insn junk a b)) = VTA_OPCODE_FINISH" "GetCoreType (GemInsn (finish_insn junk a b)) = COREGEMM"
  "tag_ok (GemInsn (finish_insn junk a b))" "GetPipelineStage (GemInsn (finish_insn junk a b)) = 0"
  "insn_deps (GemInsn (finish_insn junk a b)) = \<lparr>opcode = VTA_OPCODE_FINISH, pop_prev_dep = a, pop_next_dep = b, push_prev_dep = False, push_next_dep = False\<rparr>"
  by (simp_all add: finish_insn_def GetCoreType_def GetPipelineStage_def spec_consts stage_defs VTAGenericInsn.truncate_def)

lemma finish_mk_ok: "mk_ok 2 (\<lambda>a b. GemInsn (finish_insn junk a b))"
  by (simp add: mk_ok_def insn_ok_def finish_insn_facts dep_ok_def stage_defs del: insn_deps.simps tag_ok.simps)

lemma fence_shape:
  assumes inv: "iq_inv q t"
  shows "\<exists>q' b j xs l ys. fence_ops q = Inr q' \<and> iq_inv q' t \<and> iq_buf q' = (b @ [j]) @ (xs @ [l]) @ ys \<and>
    GetCoreType j = CORESTORE \<and> s2g_q \<in> set (pushes j) \<and>
    l = noop 1 False True False False \<and> (\<forall>i \<in> set (xs @ [l]). is_noop 1 i) \<and>
    (\<forall>i \<in> set ys. is_noop 2 i) \<and>
    \<not> PendingPop q' \<and> iq_fpga q' = iq_fpga q \<and> iq_phy q' = iq_phy q"
proof -
  have qo: "queue_of 3 2 = Some s2g_q" "queue_of 1 2 = Some l2g_q" by (simp_all add: queue_of_Some)
  obtain q1 where q1: "DepPush 3 2 q = Inr q1" "iq_inv q1 (t(s2g_q := t s2g_q + 1))" using DepPush_inv [OF inv qo(1)] by auto
  obtain b j where b: "iq_buf q1 = b @ [j]" "GetCoreType j = CORESTORE" "s2g_q \<in> set (pushes j)"
      "\<not> pending_pop_prev q1 3" "\<not> pending_pop_next q1 3" "iq_fpga q1 = iq_fpga q" "iq_phy q1 = iq_phy q"
    using DepPush_shape [OF inv qo(1) q1(1)] by (auto simp: stage_defs)
  obtain q2 where q2: "DepPush 1 2 q1 = Inr q2" "iq_inv q2 ((t(s2g_q := t s2g_q + 1))(l2g_q := t l2g_q + 1))"
    using DepPush_inv [OF q1(2) qo(2)] by auto
  have "GetPipelineStage (last (iq_buf q1)) \<noteq> 1" using core_store_stage [OF b(2)] by (simp add: b(1) stage_defs)
  note g2 = grows_push [OF q2(1) _ _ this]
  obtain q3 where q3: "DepPop 3 2 q2 = Inr q3" "iq_inv q3 (((t(s2g_q := t s2g_q + 1))(l2g_q := t l2g_q + 1))(s2g_q := t s2g_q))"
    using DepPop_inv [OF q2(2) qo(1)] by auto
  obtain q4 where q4: "DepPop 1 2 q3 = Inr q4"
      "iq_inv q4 ((((t(s2g_q := t s2g_q + 1))(l2g_q := t l2g_q + 1))(s2g_q := t s2g_q))(l2g_q := t l2g_q))"
    using DepPop_inv [OF q3(2) qo(2)] by auto
  have "(((t(s2g_q := t s2g_q + 1))(l2g_q := t l2g_q + 1))(s2g_q := t s2g_q))(l2g_q := t l2g_q) = t" by auto
  then obtain q5 where q5: "CommitPendingPop 2 q4 = Inr q5" "iq_inv q5 t"
    using CommitPendingPop_inv [OF q4(2), of 2] by auto
  have g5: "grows 2 q2 q5" "\<not> pending_pop_prev q5 2" "\<not> pending_pop_next q5 2"
    using grows_trans [OF grows_trans [OF grows_pop [OF q3(1)] grows_pop [OF q4(1)]]] grows_commit [OF q5(1)] by auto
  obtain xs where xs: "iq_buf q2 = iq_buf q1 @ xs @ [noop 1 False True False False]" "\<forall>i \<in> set xs. is_noop 1 i"
  proof -
    obtain zs where zs: "iq_buf q2 = iq_buf q1 @ zs" "\<forall>i \<in> set zs. is_noop 1 i"
      using g2 by (auto simp: grows_def)
    moreover have "zs \<noteq> []"
    proof
      assume "zs = []"
      then have "j = noop 1 False True False False" using g2 zs(1) b(1) by simp
      then show False using b(2) by (simp add: noop_core stage_defs)
    qed
    moreover have "last zs = noop 1 False True False False" using g2 calculation by simp
    ultimately have "zs = butlast zs @ [noop 1 False True False False]" by (metis append_butlast_last_id)
    then show thesis using that [of "butlast zs"] zs by (metis in_set_butlastD)
  qed
  obtain ys where ys: "iq_buf q5 = iq_buf q2 @ ys" "\<forall>i \<in> set ys. is_noop 2 i"
    using g5(1) by (auto simp: grows_def)
  have "fence_ops q = Inr q5"
    using q1(1) q2(1) q3(1) q4(1) q5(1) by (simp add: fence_ops_def stage_defs)
  moreover have "\<not> PendingPop q5"
    using g5 g2 b(4,5) by (auto simp: PendingPop_def stage_defs grows_def upto.simps)
  moreover have "iq_fpga q5 = iq_fpga q" "iq_phy q5 = iq_phy q" using g5(1) g2 b(6,7) by (auto simp: grows_def)
  ultimately show ?thesis
    using q5(2) b xs ys by (intro exI [of _ q5] exI [of _ b] exI [of _ j] exI [of _ xs]
      exI [of _ "noop 1 False True False False"] exI [of _ ys]) auto
qed

lemma sync_stream_fenced:
  assumes inv: "iq_inv q t"
  shows "\<exists>q'. sync_stream False junk q = Inr q' \<and> iq_inv q' t \<and> fenced (iq_buf q') \<and> (\<forall>x. \<not> pend q' x) \<and>
    iq_fpga q' = iq_fpga q \<and> iq_phy q' = iq_phy q"
proof -
  obtain q1 b j xs l ys where f: "fence_ops q = Inr q1" "iq_inv q1 t" "iq_buf q1 = (b @ [j]) @ (xs @ [l]) @ ys"
      "GetCoreType j = CORESTORE" "s2g_q \<in> set (pushes j)" "l = noop 1 False True False False"
      "\<forall>i \<in> set (xs @ [l]). is_noop 1 i" "\<forall>i \<in> set ys. is_noop 2 i"
      "\<not> PendingPop q1" "iq_fpga q1 = iq_fpga q" "iq_phy q1 = iq_phy q"
    using fence_shape [OF inv] by blast
  let ?f = "GemInsn (finish_insn junk False False)"
  let ?q = "CreateGemInsn (finish_insn junk) q1"
  have no: "\<not> pending_pop_prev q1 s" "\<not> pending_pop_next q1 s" if "s = 1 \<or> s = 2 \<or> s = 3" for s
    using f(9) that by (auto simp: PendingPop_def stage_defs upto.simps)
  then have q: "?q = q1\<lparr>iq_buf := iq_buf q1 @ [?f]\<rparr>"
    by (simp add: CreateGemInsn_def Create_def clear_pending_def stage_defs)
  have inv': "iq_inv ?q t" using Create_inv [OF f(2) finish_mk_ok, of junk] by (simp add: CreateGemInsn_def stage_defs)
  have "\<not> PendingPop ?q" using f(9) by (simp add: q PendingPop_def)
  then have r: "sync_stream False junk q = Inr ?q"
    using f(1) unfolding sync_stream_def fence_ops_def Let_def by auto
  have buf: "iq_buf ?q = (b @ [j]) @ (xs @ [l]) @ ys @ [?f]" by (simp add: q f(3))
  have parts: "split_cores (xs @ [l]) CORELOAD = xs @ [l]" "split_cores ys CORELOAD = []" "split_cores [?f] CORELOAD = []"
      "split_cores (xs @ [l]) CORESTORE = []" "split_cores ys CORESTORE = []" "split_cores [?f] CORESTORE = []"
      "split_cores [j] CORESTORE = [j]"
    using split_cores_noops [OF f(7)] split_cores_noops [OF f(8)] f(4)
    by (simp_all add: stage_defs finish_insn_facts split_cores_def [of "[_]"] del: split_cores_append)
  have load: "split_cores (iq_buf ?q) CORELOAD = split_cores (b @ [j]) CORELOAD @ xs @ [l]"
    unfolding buf split_cores_append [of "b @ [j]"] split_cores_append [of "xs @ [l]"] split_cores_append [of ys] parts by simp
  have store: "split_cores (iq_buf ?q) CORESTORE = split_cores b CORESTORE @ [j]"
    unfolding buf split_cores_append [of b] split_cores_append [of "b @ [j]"] split_cores_append [of "xs @ [l]"]
      split_cores_append [of ys] parts by simp
  have "l2g_q \<in> set (pushes l)" by (simp add: f(6) in_pushes noop_core stage_defs)
  then have "fenced (iq_buf ?q)"
    using f(5) load store by (simp add: fenced_def q finish_insn_facts pops_def del: insn_deps.simps insn_opcode.simps)
  moreover have "\<not> pend ?q x" for x using no by (cases x) (simp_all add: q)
  ultimately show ?thesis using r inv' f(10,11) by (auto simp: q)
qed

lemma iq_inv_runnable:
  assumes "iq_inv q t" "\<forall>i d. \<exists>d'. run i d = Inr d'"
  shows "list_all (runnable run) (iq_buf q)"
  using assms by (auto simp: iq_inv_def list_all_iff insn_ok_def runnable_def)

lemma push_all_finished: "(fold TlppPushInsn is s)\<lparr>finished := f\<rparr> = fold TlppPushInsn is (s\<lparr>finished := f\<rparr>)"
proof (induction "is" arbitrary: s)
  case (Cons i rest)
  have "(TlppPushInsn i s)\<lparr>finished := f\<rparr> = TlppPushInsn i (s\<lparr>finished := f\<rparr>)"
    by (cases s) (simp add: TlppPushInsn_def Let_def)
  with Cons.IH [of "TlppPushInsn i s"] show ?case by simp
qed simp

section \<open>How many instructions a synchronisation adds\<close>

lemma commit_count:
  "CommitPendingPop s q = Inr q' \<Longrightarrow> iq_count q' = iq_count q + of_bool (pending_pop_prev q s \<or> pending_pop_next q s)"
  by (auto simp: CommitPendingPop_def iq_count_def PushNoop_def split: if_splits)

lemma push_count_store: "DepPush 3 2 q = Inr q' \<Longrightarrow> iq_count q' \<le> iq_count q + 1"
  by (auto simp: DepPush_def CommitPendingPop_def iq_count_def PushNoop_def Let_def noop_core split: if_splits)

lemma push_count: "DepPush s t q = Inr q' \<Longrightarrow> iq_count q' \<le> iq_count q + 2"
  by (auto simp: DepPush_def iq_count_def PushNoop_def Let_def dest!: commit_count split: if_splits)

lemma pop_count:
  "DepPop s t q = Inr q' \<Longrightarrow>
   iq_count q' = iq_count q + of_bool (if s < t then pending_pop_prev q t else pending_pop_next q t) \<and>
   pending_pop_prev q' t = (s < t \<or> pending_pop_prev q t \<and> \<not> pending_pop_next q t)"
  by (auto simp: DepPop_def iq_count_def CommitPendingPop_def PushNoop_def split: if_splits)

lemma sync_stream_count:
  assumes "sync_stream False junk q = Inr q'"
  shows "iq_count q' \<le> iq_count q + 6"
proof -
  obtain q1 q2 q3 q4 q5 where s: "DepPush 3 2 q = Inr q1" "DepPush 1 2 q1 = Inr q2" "DepPop 3 2 q2 = Inr q3" "DepPop 1 2 q3 = Inr q4"
      "CommitPendingPop 2 q4 = Inr q5" "q' = CreateGemInsn (finish_insn junk) q5"
    using assms by (auto simp: sync_stream_def Let_def stage_defs)
  have "iq_count q' = iq_count q5 + 1" by (simp add: s(6) CreateGemInsn_def Create_def iq_count_def)
  moreover have "iq_count q5 \<le> iq_count q4 + 1" using commit_count [OF s(5)] by simp
  moreover have "iq_count q4 \<le> iq_count q2 + 1" using pop_count [OF s(3)] pop_count [OF s(4)] by auto
  ultimately show ?thesis using push_count_store [OF s(1)] push_count [OF s(2)] by simp
qed

lemma chain_sizes: "chain h lo cs \<Longrightarrow> lo \<le> kMaxNumUop \<Longrightarrow> sizes_before h cs \<le> 4 * (kMaxNumUop - lo)"
proof (induction cs arbitrary: lo)
  case (Cons c cs)
  then have "sizes_before h cs \<le> 4 * (kMaxNumUop - k_end (h ! c))" by (auto simp: span_ok_def)
  with Cons.prems show ?case by (auto simp: sizes_before_def span_ok_def VTA_UOP_ELEM_BYTES_def spec_consts)
qed (simp add: sizes_before_def)

lemma merged_fits:
  assumes "uq_wf h q"
  shows "sizes_before h (uq_cache q) \<le> 4 * kMaxNumUop" "length (merged h (uq_cache q)) \<le> VTA_MAX_XFER"
proof -
  have "chain h 0 (uq_cache q)" using assms contig_chain [of h 0] by (fastforce simp: uq_wf_def)
  from chain_sizes [OF this] show "sizes_before h (uq_cache q) \<le> 4 * kMaxNumUop" by simp
  then show "length (merged h (uq_cache q)) \<le> VTA_MAX_XFER" by (simp add: length_merged spec_consts)
qed

lemma uop_barrier_ok:
  assumes "uq_wf h q" "uq_fpga q \<noteq> 0" "uq_phy q \<noteq> 0"
  shows "UopQueue_ReadBarrier (h, q) = Inr (merged h (uq_cache q))"
proof -
  note n = merged_fits(1) [OF assms(1)]
  then have "unat (word_of_nat (sizes_before h (uq_cache q)) :: u32) = sizes_before h (uq_cache q)"
    by (intro unat_word_of_nat_small) (simp add: spec_consts)
  with n assms(2,3) show ?thesis
    by (simp add: UopQueue_ReadBarrier_def Let_def length_merged spec_consts)
qed

lemma insn_barrier_ok:
  assumes "iq_count q * 16 \<le> VTA_MAX_XFER" "iq_fpga q \<noteq> 0" "iq_phy q \<noteq> 0"
  shows "InsnQueue_ReadBarrier q = Inr (concat (map insn_bytes (iq_buf q)))"
proof -
  have "unat (word_of_nat (iq_count q * 16) :: u32) = iq_count q * 16"
    by (intro unat_word_of_nat_small) (use assms(1) in \<open>simp add: spec_consts\<close>)
  with assms show ?thesis
    using insn_code.enc_array_length [of "iq_buf q"]
    by (simp add: InsnQueue_ReadBarrier_def Let_def iq_count_def mult.commute)
qed

section \<open>Well-formed runtimes\<close>

definition runtime_wf :: "'m runtime \<Rightarrow> (dep_queue \<Rightarrow> nat) \<Rightarrow> bool" where
  "runtime_wf r t = (iq_inv (insn_queue r) t \<and> uq_wf (kernels r) (uop_queue r) \<and> uq_begin (uop_queue r) = uq_end (uop_queue r) \<and>
     uq_fpga (uop_queue r) \<noteq> 0 \<and> uq_phy (uop_queue r) \<noteq> 0 \<and> iq_fpga (insn_queue r) \<noteq> 0 \<and> iq_phy (insn_queue r) \<noteq> 0)"

section \<open>Instructions of the runtime\<close>

text \<open>The memory ids the runtime may load; for the others the runtime and the device disagree on the stage.\<close>

definition loadable :: "u32 \<Rightarrow> bool" where
  "loadable mt = (mt = ucast VTA_MEM_ID_UOP \<or> mt = ucast VTA_MEM_ID_WGT \<or> mt = ucast VTA_MEM_ID_INP \<or>
     mt = ucast VTA_MEM_ID_ACC \<or> mt = ucast VTA_MEM_ID_ACC_8BIT)"

lemma hdr_truncate [simp]:
  "pop_prev_dep (VTAGenericInsn.truncate i) = pop_prev_dep i" "pop_next_dep (VTAGenericInsn.truncate i) = pop_next_dep i"
  "push_prev_dep (VTAGenericInsn.truncate i) = push_prev_dep i" "push_next_dep (VTAGenericInsn.truncate i) = push_next_dep i"
  by (simp_all add: VTAGenericInsn.truncate_def)

lemma load_mk_ok:
  assumes "loadable mt"
    and "\<And>a b. opcode (mk a b) = VTA_OPCODE_LOAD \<and> memory_type (mk a b) = ucast mt \<and> pop_prev_dep (mk a b) = a \<and>
      pop_next_dep (mk a b) = b \<and> \<not> push_prev_dep (mk a b) \<and> \<not> push_next_dep (mk a b)"
  shows "mk_ok (GetMemPipelineStage mt) (\<lambda>a b. MemInsn (mk a b))"
proof -
  have f [simp]: "opcode (mk a b) = VTA_OPCODE_LOAD" "memory_type (mk a b) = ucast mt" "pop_prev_dep (mk a b) = a"
    "pop_next_dep (mk a b) = b" "push_prev_dep (mk a b) = False" "push_next_dep (mk a b) = False" for a b
    using assms(2) [of a b] by simp_all
  consider "mt = ucast VTA_MEM_ID_UOP" | "mt = ucast VTA_MEM_ID_WGT" | "mt = ucast VTA_MEM_ID_INP"
    | "mt = ucast VTA_MEM_ID_ACC" | "mt = ucast VTA_MEM_ID_ACC_8BIT" using assms(1) by (auto simp: loadable_def)
  then show ?thesis
    by cases (simp_all add: mk_ok_def insn_ok_def dep_ok_def GetMemPipelineStage_def GetCoreType_def GetPipelineStage_def
        Let_def stage_defs spec_consts)
qed

lemma store_mk_ok:
  assumes "\<And>a b. opcode (mk a b) = VTA_OPCODE_STORE \<and> pop_prev_dep (mk a b) = a \<and> pop_next_dep (mk a b) = b \<and>
      \<not> push_prev_dep (mk a b) \<and> \<not> push_next_dep (mk a b)"
  shows "mk_ok kStoreStage (\<lambda>a b. MemInsn (mk a b))"
  using assms by (auto simp: mk_ok_def insn_ok_def dep_ok_def GetCoreType_def GetPipelineStage_def Let_def stage_defs spec_consts)

lemma gemm_mk_ok: "mk_ok kComputeStage (\<lambda>a b. GemInsn (gemm_insn k a b))"
  by (simp add: mk_ok_def insn_ok_def dep_ok_def GetCoreType_def GetPipelineStage_def stage_defs spec_consts gemm_insn_def Let_def)

lemma alu_mk_ok: "mk_ok kComputeStage (\<lambda>a b. AluInsn (alu_insn k a b))"
  by (simp add: mk_ok_def insn_ok_def dep_ok_def GetCoreType_def GetPipelineStage_def stage_defs spec_consts alu_insn_def
      Let_def split_def)

lemma Create_simps [simp]:
  "iq_buf (Create s mk q) = iq_buf q @ [mk (pending_pop_prev q s) (pending_pop_next q s)]"
  "iq_fpga (Create s mk q) = iq_fpga q" "iq_phy (Create s mk q) = iq_phy q"
  by (simp_all add: Create_def clear_pending_def)

text \<open>What the runtime got from the driver: the device and its handle and the buffers of the two queues.\<close>

definition wiring :: "'m runtime \<Rightarrow> 'm \<times> u64 \<times> (u64 \<times> u32) \<times> u64 \<times> u32" where
  "wiring r = (dev r, device_handle r, (uq_fpga (uop_queue r), uq_phy (uop_queue r)), (iq_fpga (insn_queue r), iq_phy (insn_queue r)))"

lemma push_uops_ok:
  assumes wf: "runtime_wf r t" and k: "kid < length (kernels r)" "0 < length (k_seq (kernels r ! kid))"
    "length (k_seq (kernels r ! kid)) \<le> kMaxNumUop"
  shows "\<exists>r' ls. push_uops drv junk kid r = Inr r' \<and> runtime_wf r' t \<and> length (kernels r') = length (kernels r) \<and>
    (\<forall>c. k_seq (kernels r' ! c) = k_seq (kernels r ! c)) \<and> cached (kernels r' ! kid) \<and>
    iq_buf (insn_queue r') = iq_buf (insn_queue r) @ ls \<and>
    (if cached (kernels r ! kid) then ls = [] else \<exists>l. ls = [MemInsn l] \<and> in_sram (kernels r' ! kid) l) \<and>
    allocated r' = allocated r \<and> wiring r' = wiring r \<and> debug_flag r' = debug_flag r"
proof (cases "cached (kernels r ! kid)")
  case True
  then show ?thesis using wf by (intro exI [of _ r]) (simp add: push_uops_def runtime_wf_def pending_def)
next
  case False
  have w: "uq_wf (kernels r) (uop_queue r)" "uq_begin (uop_queue r) = uq_end (uop_queue r)" "iq_inv (insn_queue r) t"
    using wf by (simp_all add: runtime_wf_def)
  obtain l h uq where st: "stage_kernel blank_mem kid (kernels r, uop_queue r) = Inr (Some l, h, uq)" "uq_wf h uq"
      "uq_begin uq = uq_end uq" "length h = length (kernels r)" "\<And>c. k_seq (h ! c) = k_seq (kernels r ! c)"
      "cached (h ! kid)" "in_sram (h ! kid) l"
    using stage_kernel_wf [OF w(1,2) k, of blank_mem] False by auto
  have ov: "\<not> uq_overflow (length (k_seq (kernels r ! kid))) (uop_queue r)"
    using w(1) k(3) by (simp add: uq_overflow_def uq_wf_def spec_consts)
  obtain u where u: "UopQueue_Push kid (kernels r, uop_queue r) = Inr (h, u)" "pending u" "FlushUopLoad blank_mem (h, u) = Inr (l, uq)"
    using st(1) False by (auto simp: stage_kernel_def split: if_splits)
  have ph: "uq_phy uq = uq_phy (uop_queue r)" "uq_fpga uq = uq_fpga (uop_queue r)"
    using u by (auto simp: UopQueue_Push_def FlushUopLoad_def Let_def split_def split: if_splits)
  let ?mk = "\<lambda>a b. l\<lparr>opcode := VTA_OPCODE_LOAD, pop_prev_dep := a, pop_next_dep := b, push_prev_dep := False, push_next_dep := False\<rparr>"
  let ?r = "r\<lparr>kernels := h, uop_queue := uq, insn_queue := CreateMemInsn (ucast VTA_MEM_ID_UOP) ?mk (insn_queue r)\<rparr>"
  have mt: "memory_type l = ucast (ucast VTA_MEM_ID_UOP :: u32)" using st(7) by (simp add: in_sram_def spec_consts)
  have "iq_inv (CreateMemInsn (ucast VTA_MEM_ID_UOP) ?mk (insn_queue r)) t"
    unfolding CreateMemInsn_def
    by (rule Create_inv [OF w(3)], rule load_mk_ok) (simp_all add: loadable_def mt)
  then have "runtime_wf ?r t" using wf st(2,3) ph by (simp add: runtime_wf_def CreateMemInsn_def)
  moreover have "push_uops drv junk kid r = Inr ?r"
    using False ov u by (simp add: push_uops_def)
  moreover have "in_sram (h ! kid) (?mk a b)" for a b using st(7) by (simp add: in_sram_def)
  ultimately show ?thesis
    using False st(4,5,6) ph by (intro exI [of _ ?r]) (simp add: CreateMemInsn_def wiring_def)
qed

section \<open>Properties\<close>

definition blank_gem :: VTAGemInsn where
  "blank_gem = \<lparr>opcode = 0, pop_prev_dep = False, pop_next_dep = False, push_prev_dep = False, push_next_dep = False,
     reset_reg = False, uop_bgn = 0, uop_end = 0, iter_out = 0, iter_in = 0, dst_factor_out = 0, dst_factor_in = 0,
     src_factor_out = 0, src_factor_in = 0, wgt_factor_out = 0, wgt_factor_in = 0\<rparr>"

text \<open>A queue without outstanding tokens is completed to a stream that runs to its end.\<close>

lemma fenced_stream_returns:
  assumes q: "iq_inv q (\<lambda>_. 0)" and run: "\<forall>i d. \<exists>d'. run i d = Inr d'"
    and s: "\<forall>c. insnq_array s c = []" "dep_push_event s = []" "dep_q s = (\<lambda>_. 0)"
  shows "\<exists>q' s'. sync_stream False junk q = Inr q' \<and>
    sync_round run (rnd 0) (fold TlppPushInsn (iq_buf q') (s\<lparr>finished := False\<rparr>)) = Inr s' \<and>
    (\<forall>c. insnq_array s' c = []) \<and> dep_q s' = (\<lambda>_. 0) \<and>
    TlppSynchronization run rnd (fold TlppPushInsn (iq_buf q') s) = Some (Inr (Clear s'))"
proof -
  obtain q' where q': "sync_stream False junk q = Inr q'" "iq_inv q' (\<lambda>_. 0)" "fenced (iq_buf q')" "\<forall>x. \<not> pend q' x"
    using sync_stream_fenced [OF q] by blast
  let ?s = "s\<lparr>finished := False\<rparr>"
  have ok: "list_all (runnable run) (iq_buf q')" by (rule iq_inv_runnable [OF q'(2) run])
  have seq: "seq_run (iq_buf q') (\<lambda>_. 0) = Some (\<lambda>_. 0)" using q'(2,4) by (simp add: iq_inv_def)
  obtain s' where s': "sync_round run (rnd 0) (fold TlppPushInsn (iq_buf q') ?s) = Inr s'"
      "\<forall>c. insnq_array s' c = []" "dep_q s' = (\<lambda>_. 0)"
    using stream_completes [OF _ _ ok, of ?s "\<lambda>_. 0" "rnd 0"] seq s by auto
  have "finished s'"
    by (rule fenced_finishes [OF q'(3) ok seq _ _ _ s'(1)]) (use s s'(2) in simp_all)
  moreover have "(fold TlppPushInsn (iq_buf q') s)\<lparr>finished := False\<rparr> = fold TlppPushInsn (iq_buf q') ?s"
    by (rule push_all_finished)
  ultimately have "TlppSynchronization run rnd (fold TlppPushInsn (iq_buf q') s) = Some (Inr (Clear s'))"
    using s'(1) by (simp add: TlppSynchronization_def sync_loop.simps [of run rnd 0])
  with q'(1) s' show ?thesis by blast
qed

text \<open>C4: For any sequence of dependency and instruction calls in which every token pushed is popped again, the stream
  that \<open>Synchronize\<close> completes runs to its end on the simulated pipeline, from every first core: one round executes all
  of it, the \<open>FINISH\<close> last, and \<open>TlppSynchronization\<close> returns.\<close>

theorem synchronize_returns:
  assumes "list_all op_ok ops" "api_run ops (\<lambda>_. 0) = Some (\<lambda>_. 0)"
    and "\<forall>i d. \<exists>d'. run i d = Inr d'"
    and s: "\<forall>c. insnq_array s c = []" "dep_push_event s = []" "dep_q s = (\<lambda>_. 0)"
  shows "\<exists>q q' s'. fold_res queue_op ops (InsnQueue_InitSpace buf phy) = Inr q \<and> sync_stream False junk q = Inr q' \<and>
    sync_round run (rnd 0) (fold TlppPushInsn (iq_buf q') (s\<lparr>finished := False\<rparr>)) = Inr s' \<and>
    (\<forall>c. insnq_array s' c = []) \<and> dep_q s' = (\<lambda>_. 0) \<and>
    TlppSynchronization run rnd (fold TlppPushInsn (iq_buf q') s) = Some (Inr (Clear s'))"
proof -
  obtain q where "fold_res queue_op ops (InsnQueue_InitSpace buf phy) = Inr q" "iq_inv q (\<lambda>_. 0)"
    using queue_ops_inv [OF iq_inv_init assms(1,2)] by blast
  with fenced_stream_returns [OF this(2) assms(3) s, of junk rnd] show ?thesis by blast
qed

theorem synchronize_returns_witness:
  "\<exists>q q' s'. fold_res queue_op sample_ops (InsnQueue_InitSpace 1 1) = Inr q \<and> sync_stream False blank_gem q = Inr q' \<and>
    TlppSynchronization count_run (\<lambda>_. 2) (fold TlppPushInsn (iq_buf q') (tlpp_init 0)) = Some (Inr s')"
  using synchronize_returns [OF sample_ops_ok sample_ops_run, of count_run "tlpp_init 0" 1 1 blank_gem "\<lambda>_. 2"]
  by (auto simp: count_run_def tlpp_init_def)

text \<open>What a synchronisation asks of the driver once the queue is fenced, and the state it leaves.\<close>

definition device_batch :: "'m driver \<Rightarrow> 'm runtime \<Rightarrow> InsnQueue \<Rightarrow> u32 \<Rightarrow> 'm res" where
  "device_batch drv r q w =
    res_bind (publish drv (uq_fpga (uop_queue r)) (uq_phy (uop_queue r)) (merged (kernels r) (uq_cache (uop_queue r))) (dev r)) (\<lambda>m.
    res_bind (publish drv (iq_fpga q) (iq_phy q) (concat (map insn_bytes (iq_buf q))) m) (\<lambda>m.
    res_bind (VTADeviceRun drv (device_handle r) (iq_phy q) (word_of_nat (iq_count q)) w m) (\<lambda>(timeout, m).
    res_bind (check (timeout = 0) ''timeout == 0'') (\<lambda>_. Inr m))))"

definition drained :: "'m runtime \<Rightarrow> InsnQueue \<Rightarrow> 'm \<Rightarrow> 'm runtime" where
  "drained r q m = (let (h, uq) = UopQueue_Reset (kernels r, uop_queue r) in
     r\<lparr>dev := m, kernels := h, uop_queue := uq, insn_queue := InsnQueue_Reset q\<rparr>)"

lemma drained_wf:
  assumes "runtime_wf r t" "iq_inv q t" "\<forall>x. \<not> pend q x" "iq_fpga q = iq_fpga (insn_queue r)" "iq_phy q = iq_phy (insn_queue r)"
  shows "runtime_wf (drained r q m) (\<lambda>_. 0)" "iq_buf (insn_queue (drained r q m)) = []" "uq_cache (uop_queue (drained r q m)) = []"
    "dev (drained r q m) = m" "allocated (drained r q m) = allocated r" "debug_flag (drained r q m) = debug_flag r"
    "device_handle (drained r q m) = device_handle r" "iq_fpga (insn_queue (drained r q m)) = iq_fpga (insn_queue r)"
    "uq_fpga (uop_queue (drained r q m)) = uq_fpga (uop_queue r)" "iq_phy (insn_queue (drained r q m)) = iq_phy (insn_queue r)"
    "uq_phy (uop_queue (drained r q m)) = uq_phy (uop_queue r)"
proof -
  have wf: "uq_wf (kernels r) (uop_queue r)" using assms(1) by (simp add: runtime_wf_def)
  obtain h uq where z: "UopQueue_Reset (kernels r, uop_queue r) = (h, uq)" by (cases "UopQueue_Reset (kernels r, uop_queue r)")
  have "pend (InsnQueue_Reset q) x = pend q x" for x by (cases x) (simp_all add: InsnQueue_Reset_def)
  then have "iq_inv (InsnQueue_Reset q) (\<lambda>_. 0)"
    using assms(2,3) by (simp add: iq_inv_def) (simp add: InsnQueue_Reset_def)
  then show "runtime_wf (drained r q m) (\<lambda>_. 0)" "uq_cache (uop_queue (drained r q m)) = []"
      "uq_fpga (uop_queue (drained r q m)) = uq_fpga (uop_queue r)" "uq_phy (uop_queue (drained r q m)) = uq_phy (uop_queue r)"
    using UopQueue_Reset_wf [OF wf z] assms(1,4,5) by (simp_all add: drained_def z runtime_wf_def InsnQueue_Reset_def)
qed (use assms in \<open>simp_all add: drained_def InsnQueue_Reset_def split_def Let_def\<close>)

lemma Synchronize_calls:
  assumes r: "runtime_wf r t" "debug_flag r = 0" "(iq_count (insn_queue r) + 6) * 16 \<le> VTA_MAX_XFER"
  shows "\<exists>q. sync_stream False junk (insn_queue r) = Inr q \<and> iq_inv q t \<and> fenced (iq_buf q) \<and> (\<forall>x. \<not> pend q x) \<and>
    iq_fpga q = iq_fpga (insn_queue r) \<and> iq_phy q = iq_phy (insn_queue r) \<and> iq_count q \<le> iq_count (insn_queue r) + 6 \<and>
    Synchronize drv junk w r = res_bind (device_batch drv r q w) (\<lambda>m. Inr (drained r q m))"
proof -
  have wf: "iq_inv (insn_queue r) t" "uq_wf (kernels r) (uop_queue r)" using r(1) by (simp_all add: runtime_wf_def)
  obtain q where q: "sync_stream False junk (insn_queue r) = Inr q" "iq_inv q t" "fenced (iq_buf q)" "\<forall>x. \<not> pend q x"
      "iq_fpga q = iq_fpga (insn_queue r)" "iq_phy q = iq_phy (insn_queue r)"
    using sync_stream_fenced [OF wf(1)] by blast
  have n: "iq_count q \<le> iq_count (insn_queue r) + 6" by (rule sync_stream_count [OF q(1)])
  then have fits: "iq_count q * 16 \<le> VTA_MAX_XFER" using r(3) by simp
  have ne: "iq_buf q \<noteq> []" using q(3) by (simp add: fenced_def)
  then have last: "iq_buf q ! (iq_count q - 1) = last (iq_buf q)" "iq_count q \<noteq> 0" by (simp_all add: iq_count_def last_conv_nth)
  have ub: "UopQueue_ReadBarrier (kernels r, uop_queue r) = Inr (merged (kernels r) (uq_cache (uop_queue r)))"
    using uop_barrier_ok [OF wf(2)] r(1) by (simp add: runtime_wf_def)
  have ib: "InsnQueue_ReadBarrier q = Inr (concat (map insn_bytes (iq_buf q)))"
    using insn_barrier_ok [OF fits] q(5,6) r(1) by (simp add: runtime_wf_def)
  have fin: "insn_opcode (last (iq_buf q)) = VTA_OPCODE_FINISH" using q(3) by (simp add: fenced_def)
  have "Synchronize drv junk w r = res_bind (device_batch drv r q w) (\<lambda>m. Inr (drained r q m))"
    using r(1,2) q(1,6) ub ib last fin fits
    by (simp add: Synchronize_def on_insn_def runtime_wf_def Let_def device_batch_def drained_def res_bind_assoc split_def)
  with q n show ?thesis by blast
qed

section \<open>The contract of a driver\<close>

text \<open>What the runtime may rely on of a driver, as resources that the calls take and give back: the live buffers with their
  sizes and physical addresses, the live device handles, and how many bytes, buffers and handles can still be allocated. \<open>J\<close> relates a
  driver state to them, \<open>shared\<close> says which bytes the device reads in a buffer, and a run of a stream that can finish takes at
  most \<open>W\<close> polls. A stream can finish when its dependency tokens are consistent and it ends with a fenced \<open>FINISH\<close>.\<close>

record resources =
  bufs :: "u64 \<rightharpoonup> nat \<times> u32"
  devices :: "u64 set"
  bytes_left :: nat
  bufs_left :: nat
  devs_left :: nat

definition take_buf :: "u64 \<Rightarrow> nat \<Rightarrow> u32 \<Rightarrow> resources \<Rightarrow> resources" where
  "take_buf p n phy g = g\<lparr>bufs := (bufs g)(p \<mapsto> (n, phy)), bytes_left := bytes_left g - n, bufs_left := bufs_left g - 1\<rparr>"

definition give_buf :: "u64 \<Rightarrow> nat \<Rightarrow> resources \<Rightarrow> resources" where
  "give_buf p n g = g\<lparr>bufs := (bufs g)(p := None), bytes_left := bytes_left g + n, bufs_left := bufs_left g + 1\<rparr>"

definition take_dev :: "u64 \<Rightarrow> resources \<Rightarrow> resources" where
  "take_dev h g = g\<lparr>devices := insert h (devices g), devs_left := devs_left g - 1\<rparr>"

definition give_dev :: "u64 \<Rightarrow> resources \<Rightarrow> resources" where
  "give_dev h g = g\<lparr>devices := devices g - {h}\<rparr>"

lemmas resource_defs = take_buf_def give_buf_def take_dev_def give_dev_def

lemma resource_sel [simp]:
  "bufs (take_buf p n phy g) = (bufs g)(p \<mapsto> (n, phy))" "bufs (give_buf p n g) = (bufs g)(p := None)"
  "bufs (take_dev h g) = bufs g" "bufs (give_dev h g) = bufs g"
  "devices (take_buf p n phy g) = devices g" "devices (give_buf p n g) = devices g"
  "devices (take_dev h g) = insert h (devices g)" "devices (give_dev h g) = devices g - {h}"
  "bytes_left (take_buf p n phy g) = bytes_left g - n" "bytes_left (give_buf p n g) = bytes_left g + n"
  "bytes_left (take_dev h g) = bytes_left g" "bytes_left (give_dev h g) = bytes_left g"
  "bufs_left (take_buf p n phy g) = bufs_left g - 1" "bufs_left (give_buf p n g) = bufs_left g + 1"
  "bufs_left (take_dev h g) = bufs_left g" "bufs_left (give_dev h g) = bufs_left g"
  "devs_left (take_buf p n phy g) = devs_left g" "devs_left (give_buf p n g) = devs_left g"
  "devs_left (take_dev h g) = devs_left g - 1" "devs_left (give_dev h g) = devs_left g"
  by (simp_all add: resource_defs)

definition can_finish :: "VTAInsn list \<Rightarrow> bool" where
  "can_finish is = (fenced is \<and> (\<exists>q. iq_buf q = is \<and> iq_inv q (\<lambda>_. 0) \<and> (\<forall>x. \<not> pend q x)))"

locale vta_driver =
  fixes drv :: "'m driver" and J :: "'m \<Rightarrow> resources \<Rightarrow> bool" and shared :: "'m \<Rightarrow> u64 \<Rightarrow> bytes \<Rightarrow> bool" and W :: nat
  assumes alloc: "J m g \<Longrightarrow> 0 < sz \<Longrightarrow> unat sz \<le> VTA_MAX_XFER \<Longrightarrow> unat sz \<le> bytes_left g \<Longrightarrow> 0 < bufs_left g \<Longrightarrow>
      \<exists>p phy m'. VTAMemAlloc drv sz cache m = Inr (p, m') \<and> p \<noteq> 0 \<and> phy \<noteq> 0 \<and> bufs g p = None \<and> J m' (take_buf p (unat sz) phy g)"
    and phys: "J m g \<Longrightarrow> bufs g p = Some (n, phy) \<Longrightarrow> VTAMemGetPhyAddr drv p m = Inr phy"
    and free: "J m g \<Longrightarrow> bufs g p = Some (n, phy) \<Longrightarrow> \<exists>m'. VTAMemFree drv p m = Inr m' \<and> J m' (give_buf p n g)"
    and stage: "J m g \<Longrightarrow> bufs g p = Some (n, phy) \<Longrightarrow> length bs \<le> n \<Longrightarrow>
      \<exists>m1 m2. VTAMemCopyFromHost drv p bs m = Inr m1 \<and> VTAFlushCache drv p phy (word_of_nat (length bs)) m1 = Inr m2 \<and>
        J m2 g \<and> shared m2 p bs"
    and collect: "J m g \<Longrightarrow> bufs g p = Some (n, phy) \<Longrightarrow> unat sz \<le> n \<Longrightarrow>
      \<exists>m' bs. VTAInvalidateCache drv p phy (ucast sz) m = Inr m' \<and> J m' g \<and> VTAMemCopyToHost drv p sz m' = Inr bs \<and> length bs = unat sz"
    and open_dev: "J m g \<Longrightarrow> devices g = {} \<Longrightarrow> 0 < devs_left g \<Longrightarrow> \<exists>h m'. VTADeviceAlloc drv m = Inr (h, m') \<and> h \<noteq> 0 \<and> J m' (take_dev h g)"
    and close_dev: "J m g \<Longrightarrow> h \<in> devices g \<Longrightarrow> \<exists>m'. VTADeviceFree drv h m = Inr m' \<and> J m' (give_dev h g)"
    and run: "J m g \<Longrightarrow> h \<in> devices g \<Longrightarrow> bufs g p = Some (n, phy) \<Longrightarrow> shared m p (concat (map insn_bytes is)) \<Longrightarrow> can_finish is \<Longrightarrow>
      16 * length is \<le> n \<Longrightarrow> W < unat w \<Longrightarrow> \<exists>m'. VTADeviceRun drv h phy (word_of_nat (length is)) w m = Inr (0, m') \<and> J m' g"
begin

lemma publish_serves:
  "J m g \<Longrightarrow> bufs g p = Some (n, phy) \<Longrightarrow> length bs \<le> n \<Longrightarrow> \<exists>m'. publish drv p phy bs m = Inr m' \<and> J m' g \<and> shared m' p bs"
  using stage [of m g p n phy bs] by (auto simp: publish_def cache_mode)

text \<open>A batch of a runtime whose queues and device are live succeeds.\<close>

lemma batch_serves:
  assumes "J (dev r) g" "bufs g (uq_fpga (uop_queue r)) = Some (VTA_MAX_XFER, uq_phy (uop_queue r))"
    and q: "bufs g (iq_fpga q) = Some (VTA_MAX_XFER, iq_phy q)" "can_finish (iq_buf q)" "16 * iq_count q \<le> VTA_MAX_XFER"
    and "device_handle r \<in> devices g" "W < unat w" "length (merged (kernels r) (uq_cache (uop_queue r))) \<le> VTA_MAX_XFER"
  shows "\<exists>m. device_batch drv r q w = Inr m \<and> J m g"
proof -
  obtain m1 where m1: "publish drv (uq_fpga (uop_queue r)) (uq_phy (uop_queue r)) (merged (kernels r) (uq_cache (uop_queue r))) (dev r) = Inr m1" "J m1 g"
    using publish_serves [OF assms(1,2,8)] by blast
  have "length (concat (map insn_bytes (iq_buf q))) \<le> VTA_MAX_XFER"
    using insn_code.enc_array_length [of "iq_buf q"] q(3) by (simp add: iq_count_def)
  then obtain m2 where m2: "publish drv (iq_fpga q) (iq_phy q) (concat (map insn_bytes (iq_buf q))) m1 = Inr m2" "J m2 g"
      "shared m2 (iq_fpga q) (concat (map insn_bytes (iq_buf q)))"
    using publish_serves [OF m1(2) q(1)] by blast
  obtain m3 where "VTADeviceRun drv (device_handle r) (iq_phy q) (word_of_nat (iq_count q)) w m2 = Inr (0, m3)" "J m3 g"
    using run [OF m2(2) assms(6) q(1) m2(3) q(2)] q(3) assms(7) unfolding iq_count_def by blast
  with m1(1) m2(1) show ?thesis by (simp add: device_batch_def check_def)
qed

end

section \<open>The result of a synchronisation\<close>

text \<open>C9: A synchronisation of a queue that \<open>CheckInsnOverFlow\<close> accepts passes all of its checks and, with any driver, is this
  sequence of driver calls: the micro-op buffer and then the encoded instructions (at most six more than were queued, each
  of which the device decodes to the one staged) are copied and flushed, and the device is run on exactly that many
  instructions. An error of a call is returned; otherwise the queues are left empty, without pending pops and without a
  cached kernel, ready for the next batch.\<close>

theorem synchronize_resets:
  assumes r: "runtime_wf r t" "debug_flag r = 0" "(iq_count (insn_queue r) + 6) * 16 \<le> VTA_MAX_XFER"
  shows "\<exists>q. sync_stream False junk (insn_queue r) = Inr q \<and> iq_count q \<le> iq_count (insn_queue r) + 6 \<and>
    (\<forall>k < iq_count q. bytes_insn (slice (16 * k) 16 (concat (map insn_bytes (iq_buf q)))) = Some (iq_buf q ! k)) \<and>
    (case device_batch drv r q w of Inl e \<Rightarrow> Synchronize drv junk w r = Inl e
     | Inr m \<Rightarrow> \<exists>r'. Synchronize drv junk w r = Inr r' \<and> dev r' = m \<and> runtime_wf r' (\<lambda>_. 0) \<and> iq_buf (insn_queue r') = [] \<and>
         uq_cache (uop_queue r') = [] \<and> allocated r' = allocated r)"
proof -
  obtain q where q: "sync_stream False junk (insn_queue r) = Inr q" "iq_inv q t" "\<forall>x. \<not> pend q x"
      "iq_fpga q = iq_fpga (insn_queue r)" "iq_phy q = iq_phy (insn_queue r)" "iq_count q \<le> iq_count (insn_queue r) + 6"
      "Synchronize drv junk w r = res_bind (device_batch drv r q w) (\<lambda>m. Inr (drained r q m))"
    using Synchronize_calls [OF r, of junk drv w] by blast
  have "bytes_insn (slice (16 * k) 16 (concat (map insn_bytes (iq_buf q)))) = Some (iq_buf q ! k)" if "k < iq_count q" for k
    using insn_code.array_read [of k "iq_buf q" "[]" "[]"] that q(2)
    by (auto simp: iq_count_def iq_inv_def list_all_length insn_ok_def)
  with q(1,6,7) drained_wf [OF r(1) q(2-5)] show ?thesis by (auto split: sum.split)
qed

definition null_driver :: "unit driver" where
  "null_driver = \<lparr>VTAMemAlloc = (\<lambda>_ _ _. Inr (4096, ())), VTAMemFree = (\<lambda>_ _. Inr ()), VTAMemGetPhyAddr = (\<lambda>_ _. Inr 4096),
     VTAMemCopyFromHost = (\<lambda>_ _ _. Inr ()), VTAMemCopyToHost = (\<lambda>_ n _. Inr (replicate (unat n) 0)),
     VTAFlushCache = (\<lambda>_ _ _ _. Inr ()), VTAInvalidateCache = (\<lambda>_ _ _ _. Inr ()),
     VTADeviceAlloc = (\<lambda>_. Inr (8, ())), VTADeviceFree = (\<lambda>_ _. Inr ()), VTADeviceRun = (\<lambda>_ _ _ _ _. Inr (0, ()))\<rparr>"

definition fresh_runtime :: "unit runtime" where
  "fresh_runtime = \<lparr>debug_flag = 0, kernels = [], kmaps = (\<lambda>_. None), uop_queue = fresh_uq 4096,
     insn_queue = InsnQueue_InitSpace 1 8192, allocated = (\<lambda>_. None), device_handle = 8, dev = ()\<rparr>"

lemma fresh_runtime_wf: "runtime_wf fresh_runtime (\<lambda>_. 0)"
  using iq_inv_init [of 1 8192] by (simp add: runtime_wf_def fresh_runtime_def fresh_uq_wf InsnQueue_InitSpace_def)

theorem synchronize_resets_witness:
  "\<exists>r'. Synchronize null_driver blank_gem 0 fresh_runtime = Inr r' \<and> runtime_wf r' (\<lambda>_. 0)"
proof -
  have b: "\<exists>m. device_batch null_driver fresh_runtime q 0 = Inr m" for q
    by (simp add: device_batch_def publish_def null_driver_def check_def cache_mode)
  have "debug_flag fresh_runtime = 0" "(iq_count (insn_queue fresh_runtime) + 6) * 16 \<le> VTA_MAX_XFER"
    by (simp_all add: fresh_runtime_def InsnQueue_InitSpace_def iq_count_def spec_consts)
  from synchronize_resets [OF fresh_runtime_wf this, of blank_gem null_driver 0] obtain q where
    "case device_batch null_driver fresh_runtime q 0 of Inl e \<Rightarrow> Synchronize null_driver blank_gem 0 fresh_runtime = Inl e
     | Inr m \<Rightarrow> \<exists>r'. Synchronize null_driver blank_gem 0 fresh_runtime = Inr r' \<and> dev r' = m \<and> runtime_wf r' (\<lambda>_. 0) \<and>
         iq_buf (insn_queue r') = [] \<and> uq_cache (uop_queue r') = [] \<and> allocated r' = allocated fresh_runtime" by blast
  with b [of q] show ?thesis by auto
qed

text \<open>\<open>VTALoadBuffer2D\<close> on a registered buffer, with arguments inside the widths of the instruction's fields, appends one
  load: it starts at the buffer's physical address plus the offset, both counted in elements of the memory it fills, carries
  the sizes, stride and paddings unchanged, takes the pending pops of its stage, and keeps the runtime well formed.\<close>

lemma load_buffer_emits:
  assumes wf: "runtime_wf r t" and b: "FromHandle h r = Some b" "loadable mt" "GetElemBytes mt = Inr n"
    and al: "unat n dvd unat (buf_phy b)" "unat (buf_phy b) + unat off * unat n < 2 ^ 32"
    and room: "(iq_count (insn_queue r) + 7) * 16 \<le> VTA_MAX_XFER"
    and w: "unat xs < 2 ^ 16" "unat ys < 2 ^ 16" "unat stride < 2 ^ 16" "unat sram < 2 ^ 16"
      "unat xb < 16" "unat yb < 16" "unat xa < 16" "unat ya < 16"
  shows "\<exists>r' i. LoadBuffer2D drv junk h off xs ys stride xb yb xa ya sram mt r = Inr r' \<and> runtime_wf r' t \<and>
    iq_buf (insn_queue r') = iq_buf (insn_queue r) @ [MemInsn i] \<and> opcode i = VTA_OPCODE_LOAD \<and>
    pop_prev_dep i = pending_pop_prev (insn_queue r) (GetMemPipelineStage mt) \<and>
    pop_next_dep i = pending_pop_next (insn_queue r) (GetMemPipelineStage mt) \<and>
    unat (dram_base i) * unat n = unat (buf_phy b) + unat off * unat n \<and> unat (sram_base i) = unat sram \<and>
    unat (x_size i) = unat xs \<and> unat (y_size i) = unat ys \<and> unat (x_stride i) = unat stride \<and>
    unat (x_pad_0 i) = unat xb \<and> unat (y_pad_0 i) = unat yb \<and> unat (x_pad_1 i) = unat xa \<and> unat (y_pad_1 i) = unat ya"
proof -
  let ?q = "insn_queue r" let ?s = "GetMemPipelineStage mt"
  define mk where "mk = (\<lambda>a c. \<lparr>opcode = VTA_OPCODE_LOAD, pop_prev_dep = a, pop_next_dep = c, push_prev_dep = False,
           push_next_dep = False, memory_type = ucast mt, sram_base = ucast sram,
           dram_base = buf_phy b div n + off, y_size = ucast ys, x_size = ucast xs, x_stride = ucast stride,
           y_pad_0 = ucast yb, y_pad_1 = ucast ya, x_pad_0 = ucast xb, x_pad_1 = ucast xa\<rparr>)"
  let ?r = "r\<lparr>insn_queue := CreateMemInsn mt mk ?q\<rparr>"
  have n: "n \<noteq> 0" using b(2,3) by (auto simp: loadable_def GetElemBytes_def Let_def spec_consts)
  have "LoadBuffer2D drv junk h off xs ys stride xb yb xa ya sram mt r = Inr ?r"
    using b(1,3) n room by (simp add: LoadBuffer2D_def deref_def phy_elem_def CheckInsnOverFlow_def Let_def
        CreateMemInsn_def iq_count_def mk_def)
  moreover have "runtime_wf ?r t"
    using wf Create_inv [OF _ load_mk_ok [OF b(2), of mk], of ?q t]
    by (simp add: runtime_wf_def CreateMemInsn_def mk_def)
  moreover have "unat (buf_phy b div n + off) * unat n = unat (buf_phy b) + unat off * unat n"
  proof -
    have nz: "0 < unat n" using n by (simp add: unat_gt_0)
    have "unat (buf_phy b) div unat n + unat off < 2 ^ 32"
      using al(2) nz by (metis (no_types, lifting) add_leD1 add_mono div_le_dividend le_less_trans mult.commute
        mult_le_mono2 nat_mult_1_right Suc_leI One_nat_def)
    then have "unat (buf_phy b div n + off) = unat (buf_phy b) div unat n + unat off"
      by (simp add: unat_word_ariths(1) unat_div)
    then show ?thesis using al(1) by (simp add: add_mult_distrib)
  qed
  ultimately show ?thesis
    using w by (intro exI [of _ ?r] exI [of _ "mk (pending_pop_prev ?q ?s) (pending_pop_next ?q ?s)"])
      (simp add: CreateMemInsn_def mk_def unsigned_ucast_eq take_bit_nat_eq_self)
qed

definition sample_runtime :: "unit runtime" where
  "sample_runtime = fresh_runtime\<lparr>allocated := [1 \<mapsto> \<lparr>buf_data = 65536, buf_phy = 65536\<rparr>], kernels := [sample_kernel 1 4]\<rparr>"

lemma sample_runtime_wf: "runtime_wf sample_runtime (\<lambda>_. 0)"
  using iq_inv_init [of 1 8192]
  by (simp add: sample_runtime_def fresh_runtime_def runtime_wf_def fresh_uq_wf InsnQueue_InitSpace_def)

text \<open>\<open>PushGEMMOp\<close> of a recorded kernel emits, unless the kernel is in the micro-op SRAM already, a load of its micro-ops to
  a range of the SRAM and then a GEMM instruction over exactly that range, with the kernel's reset flag and loop nest (missing
  loops run once); the runtime stays well formed.\<close>

lemma push_gemm_emits:
  assumes wf: "runtime_wf r t" and k: "kid < length (kernels r)" "0 < length (k_seq (kernels r ! kid))"
    "length (k_seq (kernels r ! kid)) < kMaxNumUop"
  shows "\<exists>r' ls g. PushGEMMOp_kernel drv junk kid r = Inr r' \<and> runtime_wf r' t \<and>
    iq_buf (insn_queue r') = iq_buf (insn_queue r) @ ls @ [GemInsn g] \<and>
    (if cached (kernels r ! kid) then ls = [] else \<exists>l. ls = [MemInsn l] \<and> in_sram (kernels r' ! kid) l) \<and>
    unat (uop_bgn g) = k_begin (kernels r' ! kid) \<and> unat (uop_end g) = k_end (kernels r' ! kid) \<and>
    unat (uop_end g) - unat (uop_bgn g) = length (k_seq (kernels r ! kid)) \<and>
    reset_reg g = bit (k_reset_out (kernels r' ! kid)) 0 \<and>
    (k_loop (kernels r' ! kid) = [] \<longrightarrow> iter_out g = 1 \<and> iter_in g = 1)"
proof -
  obtain r1 ls where p: "push_uops drv junk kid r = Inr r1" "runtime_wf r1 t" "length (kernels r1) = length (kernels r)"
      "\<And>c. k_seq (kernels r1 ! c) = k_seq (kernels r ! c)" "cached (kernels r1 ! kid)"
      "iq_buf (insn_queue r1) = iq_buf (insn_queue r) @ ls"
      "if cached (kernels r ! kid) then ls = [] else \<exists>l. ls = [MemInsn l] \<and> in_sram (kernels r1 ! kid) l"
    using push_uops_ok [OF wf k(1,2), of drv junk] k(3) by auto
  let ?k = "kernels r1 ! kid" let ?q = "insn_queue r1"
  let ?g = "gemm_insn ?k (pending_pop_prev ?q kComputeStage) (pending_pop_next ?q kComputeStage)"
  let ?r = "r1\<lparr>insn_queue := CreateGemInsn (gemm_insn ?k) ?q\<rparr>"
  have "span_ok (kernels r1) kid"
  proof -
    have u: "uq_wf (kernels r1) (uop_queue r1)" using p(2) by (simp add: runtime_wf_def)
    then have "chain (kernels r1) 0 (uq_cache (uop_queue r1))" using contig_chain [of "kernels r1" 0] by (fastforce simp: uq_wf_def)
    moreover have "kid \<in> set (uq_cache (uop_queue r1))" using wf_cached_iff [OF u] k(1) p(3,5) by simp
    ultimately show ?thesis by (rule chain_spans)
  qed
  then have sp: "k_end ?k - k_begin ?k = length (k_seq (kernels r ! kid))" "k_end ?k \<le> 8192" "k_begin ?k < k_end ?k"
    using p(4) by (simp_all add: span_ok_def spec_consts)
  have u: "unat (uop_bgn ?g) = k_begin ?k" "unat (uop_end ?g) = k_end ?k"
    using sp by (simp_all add: gemm_insn_def Let_def unat_of_nat take_bit_nat_eq_self)
  have "runtime_wf ?r t"
    using p(2) Create_inv [OF _ gemm_mk_ok, of ?q t ?k] by (simp add: runtime_wf_def CreateGemInsn_def)
  moreover have "PushGEMMOp_kernel drv junk kid r = Inr ?r" using p(1) by (simp add: PushGEMMOp_kernel_def)
  moreover have "reset_reg ?g = bit (k_reset_out ?k) 0" "k_loop ?k = [] \<longrightarrow> iter_out ?g = 1 \<and> iter_in ?g = 1"
    by (simp_all add: gemm_insn_def Let_def loop_at_def)
  ultimately show ?thesis
    using p(6,7) u sp(1) by (intro exI [of _ ?r] exI [of _ ls] exI [of _ ?g]) (simp add: CreateGemInsn_def)
qed

end
