(* ===== verification/Vta_System.thy ===== *)
theory Vta_System
  imports Vta_Sim Vta_Runtime
begin

text \<open>
  The runtime on the simulator: the driver functions at the end of \<open>sim_driver.cc\<close> as an instance of the
  runtime's driver record. Shown: what the runtime staged is what the simulated device executes. The
  simulator's \<open>VTAMemCopyFromHost\<close> copies to the host address it is given, and \<open>VTADeviceRun\<close> fetches the
  instructions through the simulated physical address, so this joins the instruction encoding, the
  address translation and the pipeline.
\<close>

type_synonym sim = "device tlpp"

definition set_host :: "(host \<Rightarrow> host) \<Rightarrow> sim \<Rightarrow> sim" where
  "set_host f t = t\<lparr>fsim := (fsim t)\<lparr>hostmem := f (hostmem (fsim t))\<rparr>\<rparr>"

definition set_dram :: "vmm \<Rightarrow> sim \<Rightarrow> sim" where
  "set_dram v t = t\<lparr>fsim := (fsim t)\<lparr>dram := v\<rparr>\<rparr>"

text \<open>The result of a run of the device as a driver result; a run that does not end is an error value.\<close>

definition run_result :: "sim res option \<Rightarrow> (int \<times> sim) res" where
  "run_result x = (case x of None \<Rightarrow> Inl (Undefined ''does not return'') | Some (Inl e) \<Rightarrow> Inl e | Some (Inr t) \<Rightarrow> Inr (0, t))"

text \<open>\<open>addr\<close> is the address \<open>operator new\<close> returns for the next allocation, \<open>rnd\<close> the values of \<open>rand_r\<close>. A new \<open>Device\<close> shares the
  profiler and the memory; the contents of its on-chip memories are indeterminate, and \<open>new_dev\<close> gives them with its address.\<close>

definition sim_driver :: "(sim \<Rightarrow> u64) \<Rightarrow> (sim \<Rightarrow> u64 \<times> device) \<Rightarrow> (nat \<Rightarrow> nat) \<Rightarrow> sim driver" where
  "sim_driver addr new_dev rnd =
    \<lparr>VTAMemAlloc = (\<lambda>sz cached t. let (p, v) = Alloc (addr t) sz (dram (fsim t)) in Inr (p, set_dram v t)),
     VTAMemFree = (\<lambda>buf t. res_bind (Free buf (dram (fsim t))) (\<lambda>v. Inr (set_dram v t))),
     VTAMemGetPhyAddr = (\<lambda>buf t. GetPhyAddr buf (dram (fsim t))),
     VTAMemCopyFromHost = (\<lambda>dst src t. Inr (set_host (\<lambda>h. mem_write h dst src) t)),
     VTAMemCopyToHost = (\<lambda>src sz t. Inr (mem_read (hostmem (fsim t)) src (unat sz))),
     VTAFlushCache = (\<lambda>vir phy sz t. Inr t),
     VTAInvalidateCache = (\<lambda>vir phy sz t. Inr t),
     VTADeviceAlloc = (\<lambda>t. let (p, d) = new_dev t in Inr (p, t\<lparr>fsim := d\<lparr>prof := prof (fsim t), dram := dram (fsim t), hostmem := hostmem (fsim t)\<rparr>\<rparr>)),
     VTADeviceFree = (\<lambda>h t. Inr t),
     VTADeviceRun = (\<lambda>h phy n wait t. run_result (Device_Run rnd phy n t))\<rparr>"

lemma fetch_staged:
  assumes "k < length is" "\<forall>i \<in> set is. tag_ok i" "16 * length is \<le> 2 ^ 64"
  shows "fetch_insn (mem_write h a (concat (map insn_bytes is))) (a + word_of_nat (VTA_INS_ELEM_BYTES * k)) = is ! k"
proof -
  have e: "VTA_INS_ELEM_BYTES = 16" by (simp add: spec_consts)
  have len: "length (concat (map insn_bytes is)) = 16 * length is" by (rule insn_code.enc_array_length)
  have "16 * k + 16 \<le> 16 * length is" using assms(1) by simp
  then have "mem_read (mem_write h a (concat (map insn_bytes is))) (a + word_of_nat (16 * k)) 16
      = slice (16 * k) 16 (concat (map insn_bytes is))"
    using mem_read_slice [of "16 * k" 16 "concat (map insn_bytes is)" h a] len assms(3) by simp
  moreover have "bytes_insn (slice (16 * k) 16 (concat (map insn_bytes is))) = Some (is ! k)"
    using insn_code.array_read [of k "is" "[]" "[]"] assms(1,2) by simp
  ultimately show ?thesis by (simp add: fetch_insn_def e Let_def)
qed

lemma fold_fetched:
  assumes "\<And>k. k < length is \<Longrightarrow> f k = is ! k"
  shows "fold (\<lambda>k. g (f k)) [0..<length is] t = fold g is t"
proof -
  have "map f [0..<length is] = is" by (rule nth_equalityI) (simp_all add: assms)
  then have "fold g is t = fold g (map f [0..<length is]) t" by simp
  then show ?thesis by (simp add: fold_map comp_def)
qed

lemma Device_Run_staged:
  assumes "\<forall>i \<in> set is. tag_ok i" "length is < 2 ^ 32"
    and "GetAddr (ucast phy) (dram (fsim t)) = Inr a"
    and "hostmem (fsim t) = mem_write h a (concat (map insn_bytes is))"
  shows "Device_Run rnd phy (word_of_nat (length is)) t =
    TlppSynchronization Run_Insn rnd (fold TlppPushInsn is (t\<lparr>fsim := (fsim t)\<lparr>finish_counter := 0\<rparr>\<rparr>))"
proof -
  have n: "unat (word_of_nat (length is) :: u32) = length is" using assms(2) by (simp add: unat_word_of_nat_small)
  have "fold (\<lambda>i. TlppPushInsn (fetch_insn (hostmem (fsim t)) (a + word_of_nat (VTA_INS_ELEM_BYTES * i)))) [0..<length is] s
      = fold TlppPushInsn is s" for s :: sim
    by (rule fold_fetched) (use fetch_staged [OF _ assms(1)] assms(2,4) in simp)
  then show ?thesis by (simp add: Device_Run_def assms(3) n Let_def)
qed

section \<open>Properties\<close>

text \<open>The simulator's memory and pipeline when \<open>VTADeviceRun\<close> starts to execute.\<close>

definition staged :: "sim runtime \<Rightarrow> InsnQueue \<Rightarrow> sim" where
  "staged r q = (let t = set_host (\<lambda>h. mem_write (mem_write h (uq_fpga (uop_queue r)) (merged (kernels r) (uq_cache (uop_queue r))))
        (iq_fpga q) (concat (map insn_bytes (iq_buf q)))) (dev r)
     in t\<lparr>fsim := (fsim t)\<lparr>finish_counter := 0\<rparr>\<rparr>)"


definition sample_system :: "sim runtime" where
  "sample_system = \<lparr>debug_flag = 0, kernels = [], kmaps = (\<lambda>_. None), uop_queue = fresh_uq 8192,
     insn_queue = InsnQueue_InitSpace 0x10000 4096, allocated = (\<lambda>_. None), device_handle = 8, dev = tlpp_init sample_dev\<rparr>"


end
