(* ===== verification/Delegate_Add.thy ===== *)
theory Delegate_Add
  imports Delegate_Quant Vta_System
begin

text \<open>
  The element-wise addition of the TensorFlow Lite delegate (\<open>VTAALUOp::aluAdd\<close> in \<open>vta-delegate-ops.cpp\<close>): the
  operands are converted to 32 bits, copied to the accelerator, added and requantised there in pieces that fit
  into the accumulator memory, and copied back. A tensor is the list of its elements; \<open>GetTensorData\<close> of an empty
  tensor and the storage of an empty vector are null pointers. A conversion \<open>std::ceil\<close> of a quotient of floats is
  exact here, because the dividend is a multiple of 8192 or at most 8192.

  Shown: the six ALU operations issued for a piece compute \<open>requantizeResults\<close> of the sum in every lane; the
  stream of commands is well formed for every size, so the device runs it to its end; and the padding of the last
  piece, given in elements where the device counts blocks, makes sizes exist for which the simulator aborts.
\<close>

section \<open>Tensors\<close>

datatype tensor = Int8 "u8 list" | UInt8 "u8 list" | Int32 "u32 list" | OtherType nat nat

datatype TfLiteStatus = kTfLiteOk | kTfLiteError | kTfLiteDelegateError | kTfLiteUnresolvedOps

datatype TfLiteBuiltin = kTfLiteBuiltinAdd | kTfLiteBuiltinConv2d | kTfLiteBuiltinOther nat

fun NumElements :: "tensor \<Rightarrow> nat" where
  "NumElements (Int8 xs) = length xs"
| "NumElements (UInt8 xs) = length xs"
| "NumElements (Int32 xs) = length xs"
| "NumElements (OtherType code n) = n"

fun same_type :: "tensor \<Rightarrow> tensor \<Rightarrow> bool" where
  "same_type (Int8 _) (Int8 _) = True"
| "same_type (UInt8 _) (UInt8 _) = True"
| "same_type (Int32 _) (Int32 _) = True"
| "same_type (OtherType a _) (OtherType b _) = (a = b)"
| "same_type _ _ = False"

definition IsNodeSupportedByDelegate :: "TfLiteBuiltin \<Rightarrow> tensor list \<Rightarrow> bool" where
  "IsNodeSupportedByDelegate builtin inputs =
    (case builtin of kTfLiteBuiltinAdd \<Rightarrow> list_all (\<lambda>t. case t of OtherType _ _ \<Rightarrow> False | _ \<Rightarrow> True) inputs | _ \<Rightarrow> False)"

section \<open>The command queue of the thread\<close>

text \<open>\<open>ThreadLocal\<close> constructs a queue when there is none, \<open>Shutdown\<close> destroys it. Kernels, kernel maps and the table
  of buffers outlive the queue.\<close>

type_synonym 'm tls = "bool \<times> 'm runtime"

definition InitSpace_buffer :: "'m driver \<Rightarrow> 'm \<Rightarrow> (u64 \<times> u32 \<times> 'm) res" where
  "InitSpace_buffer drv m =
    res_bind (VTAMemAlloc drv (word_of_nat VTA_MAX_XFER) (kBufferCoherent \<or> kAlwaysCache) m) (\<lambda>(p, m).
    res_bind (check (p \<noteq> 0) ''fpga_buff_ != nullptr'') (\<lambda>_.
    res_bind (VTAMemGetPhyAddr drv p m) (\<lambda>phy. Inr (p, phy, m))))"

definition CommandQueue_new :: "'m driver \<Rightarrow> 'm runtime \<Rightarrow> 'm runtime res" where
  "CommandQueue_new drv r =
    res_bind (InitSpace_buffer drv (dev r)) (\<lambda>(up, uphy, m).
    res_bind (InitSpace_buffer drv m) (\<lambda>(ip, iphy, m).
    res_bind (VTADeviceAlloc drv m) (\<lambda>(h, m).
    res_bind (check (h \<noteq> 0) ''device_ != nullptr'') (\<lambda>_.
    Inr (r\<lparr>debug_flag := 0,
           uop_queue := \<lparr>uq_idx = 0, uq_cache = [], uq_begin = 0, uq_end = 0, uq_dram = [], uq_fpga = up, uq_phy = uphy\<rparr>,
           insn_queue := InsnQueue_InitSpace ip iphy, device_handle := h, dev := m\<rparr>)))))"

definition VTATLSCommandHandle :: "'m driver \<Rightarrow> 'm tls \<Rightarrow> 'm runtime res" where
  "VTATLSCommandHandle drv = (\<lambda>(alive, r). if alive then Inr r else CommandQueue_new drv r)"

definition VTARuntimeShutdown :: "'m driver \<Rightarrow> 'm runtime \<Rightarrow> 'm tls res" where
  "VTARuntimeShutdown drv r =
    res_bind (VTADeviceFree drv (device_handle r) (dev r)) (\<lambda>m.
    res_bind (VTAMemFree drv (iq_fpga (insn_queue r)) m) (\<lambda>m.
    res_bind (VTAMemFree drv (uq_fpga (uop_queue r)) m) (\<lambda>m. Inr (False, r\<lparr>dev := m\<rparr>))))"

section \<open>One piece of the addition\<close>

definition NUM_THREADS :: nat where "NUM_THREADS = 2"
definition VTA_UOP_ALU :: u32 where "VTA_UOP_ALU = 1"

definition computevectorsize :: nat where
  "computevectorsize = VTA_BATCH * VTA_BLOCK_OUT"

definition maxelements :: nat where
  "maxelements = VTA_ACC_BUFF_DEPTH div NUM_THREADS div 2 * VTA_BLOCK_OUT"

definition ceil_div :: "nat \<Rightarrow> nat \<Rightarrow> nat" where
  "ceil_div a b = (a + b - 1) div b"

definition veclength :: "nat \<Rightarrow> nat \<Rightarrow> nat" where
  "veclength numelements vectorshift = min maxelements (numelements - vectorshift)"

definition piece_padding :: "nat \<Rightarrow> nat" where
  "piece_padding len = (if len mod computevectorsize = 0 then 0 else computevectorsize - len mod computevectorsize)"

definition processdatalengthelem :: "nat \<Rightarrow> nat" where
  "processdatalengthelem len = ceil_div (len + piece_padding len) computevectorsize"

text \<open>The six lambdas, each a loop over the blocks of the piece with one micro-op: source index, opcode, and the immediate
  operand if there is one.\<close>

definition add_ops :: "QuantizationData \<Rightarrow> u32 \<Rightarrow> (u32 \<times> u32 \<times> u32 \<times> u32) list" where
  "add_ops q src =
    [(src, ucast VTA_ALU_OPCODE_ADD, 0, 0),
     (0, ucast VTA_ALU_OPCODE_MUL, 1, scast (q_multiplier q)),
     (src, ucast VTA_ALU_OPCODE_SHR, 1, word_of_int (15 - sint (q_shift q))),
     (src, ucast VTA_ALU_OPCODE_ADD, 1, q_offset q),
     (src, ucast VTA_ALU_OPCODE_MIN, 1, 127),
     (src, ucast VTA_ALU_OPCODE_MAX, 1, - 128)]"

definition record_alu :: "nat \<Rightarrow> u32 \<Rightarrow> u32 \<times> u32 \<times> u32 \<times> u32 \<Rightarrow> UopKernel \<Rightarrow> (int \<times> UopKernel) res" where
  "record_alu len dst = (\<lambda>(src, opc, use_imm, imm_val) k.
    res_bind (PushLoopBegin (word_of_nat len) 1 1 0 k) (\<lambda>k.
    res_bind (Uop_Push VTA_UOP_ALU 0 dst src 0 opc use_imm imm_val k) (\<lambda>k.
    Inr (0, PushLoopEnd k))))"

text \<open>\<open>void *map = nullptr; VTAPushALUOp(&map, lambda, nullptr, 0)\<close>, with the variable at address \<open>a\<close>.\<close>

definition push_alu :: "'m driver \<Rightarrow> VTAGemInsn \<Rightarrow> u64 \<Rightarrow> nat \<Rightarrow> u32 \<Rightarrow> u32 \<times> u32 \<times> u32 \<times> u32 \<Rightarrow> 'm runtime \<Rightarrow> 'm runtime res" where
  "push_alu drv junk a len dst op r =
    VTAPushALUOp drv junk a (record_alu len dst op) [] (r\<lparr>kmaps := (kmaps r)(a := None)\<rparr>)"

record add_buffers =
  vtainput1 :: u64
  vtainput2 :: u64
  vtaoutput :: u64
  map_addr :: u64

definition add_piece ::
  "'m driver \<Rightarrow> VTAGemInsn \<Rightarrow> add_buffers \<Rightarrow> QuantizationData \<Rightarrow> nat \<Rightarrow> nat \<Rightarrow> nat \<Rightarrow> 'm runtime \<Rightarrow> 'm runtime res" where
  "add_piece drv junk b q numelements vectorshift sramshift r =
    (let len = veclength numelements vectorshift;
         vectorshiftelem = word_of_nat (ceil_div vectorshift computevectorsize);
         veclengthelem = word_of_nat (ceil_div len computevectorsize);
         n = processdatalengthelem len; sram = word_of_nat sramshift; src = word_of_nat (sramshift + n);
         pad = word_of_nat (piece_padding len) in
     res_bind (VTADepPop kComputeStage kLoadStage r) (\<lambda>r.
     res_bind (LoadBuffer2D drv junk (vtainput1 b) vectorshiftelem veclengthelem 1 1 0 0 pad 0 sram (ucast VTA_MEM_ID_ACC) r) (\<lambda>r.
     res_bind (LoadBuffer2D drv junk (vtainput2 b) vectorshiftelem veclengthelem 1 1 0 0 pad 0 src (ucast VTA_MEM_ID_ACC) r) (\<lambda>r.
     res_bind (VTADepPush kLoadStage kComputeStage r) (\<lambda>r.
     res_bind (VTADepPop kStoreStage kComputeStage r) (\<lambda>r.
     res_bind (VTADepPop kLoadStage kComputeStage r) (\<lambda>r.
     res_bind (fold_res (push_alu drv junk (map_addr b) n sram) (add_ops q src) r) (\<lambda>r.
     res_bind (VTADepPush kComputeStage kStoreStage r) (\<lambda>r.
     res_bind (VTADepPop kComputeStage kStoreStage r) (\<lambda>r.
     res_bind (StoreBuffer2D drv junk sram (ucast VTA_MEM_ID_OUT) (vtaoutput b) vectorshiftelem veclengthelem 1 1 r) (\<lambda>r.
     res_bind (VTADepPush kStoreStage kComputeStage r) (VTADepPush kComputeStage kLoadStage))))))))))))"

section \<open>The whole operation\<close>

text \<open>The \<open>while\<close> loop: each iteration issues a piece for either of the two threads, the second one only if elements are
  left.\<close>

function add_loop ::
  "'m driver \<Rightarrow> VTAGemInsn \<Rightarrow> add_buffers \<Rightarrow> QuantizationData \<Rightarrow> nat \<Rightarrow> nat \<Rightarrow> 'm runtime \<Rightarrow> 'm runtime res" where
  "add_loop drv junk b q numelements vectorshift r =
    (if numelements \<le> vectorshift then Inr r
     else
       let len0 = veclength numelements vectorshift; shift1 = vectorshift + len0;
           len1 = veclength numelements shift1 in
       res_bind (add_piece drv junk b q numelements vectorshift 0 r) (\<lambda>r.
       res_bind (if numelements \<le> shift1 then Inr r
                 else add_piece drv junk b q numelements shift1 (2 * processdatalengthelem len0) r) (\<lambda>r.
       add_loop drv junk b q numelements (shift1 + len1) r)))"
  by pat_completeness auto
termination
  by (relation "measure (\<lambda>(drv, junk, b, q, n, v, r). n - v)")
    (auto simp: veclength_def maxelements_def NUM_THREADS_def spec_consts)

declare add_loop.simps [simp del]

primrec convert :: "QuantizationData \<Rightarrow> u8 list \<Rightarrow> u32 list res" where
  "convert q [] = Inr []"
| "convert q (x # xs) = res_bind (simulateRealValue x q) (\<lambda>v. res_bind (convert q xs) (\<lambda>vs. Inr (v # vs)))"

definition words_bytes :: "u32 list \<Rightarrow> bytes" where
  "words_bytes xs = concat (map (\<lambda>x. le_bytes 4 (unat x)) xs)"

text \<open>The operands as 32-bit integers; \<open>None\<close> for a type that is not supported.\<close>

definition add_operands :: "VTAALUOp \<Rightarrow> tensor \<Rightarrow> tensor \<Rightarrow> (u32 list \<times> u32 list) option res" where
  "add_operands op in1 in2 = (case (in1, in2) of
     (Int32 xs, Int32 ys) \<Rightarrow> Inr (Some (xs, ys))
   | (Int8 xs, Int8 ys) \<Rightarrow>
       res_bind (convert (input1quant op) xs) (\<lambda>xs.
       res_bind (convert (input2quant op) ys) (\<lambda>ys. Inr (Some (xs, ys))))
   | _ \<Rightarrow> Inr None)"

fun put_output :: "tensor \<Rightarrow> bytes \<Rightarrow> tensor" where
  "put_output (Int8 _) bs = Int8 bs"
| "put_output (Int32 _) bs = Int32 (map scast bs)"
| "put_output t bs = t"

definition add_stream ::
  "'m driver \<Rightarrow> VTAGemInsn \<Rightarrow> add_buffers \<Rightarrow> QuantizationData \<Rightarrow> nat \<Rightarrow> 'm runtime \<Rightarrow> 'm runtime res" where
  "add_stream drv junk b q numelements r =
    res_bind (VTADepPush kComputeStage kLoadStage r) (\<lambda>r.
    res_bind (VTADepPush kStoreStage kComputeStage r) (\<lambda>r.
    res_bind (if numelements < 2 ^ 31 then add_loop drv junk b q numelements 0 r
              else Inl (Undefined ''int overflow'')) (\<lambda>r.
    res_bind (VTADepPop kComputeStage kLoadStage r) (VTADepPop kStoreStage kComputeStage))))"

definition aluAdd ::
  "'m driver \<Rightarrow> VTAGemInsn \<Rightarrow> add_buffers \<Rightarrow> VTAALUOp \<Rightarrow> tensor \<Rightarrow> tensor \<Rightarrow> tensor \<Rightarrow> 'm tls \<Rightarrow> (TfLiteStatus \<times> tensor \<times> 'm tls) res" where
  "aluAdd drv junk b op input1 input2 output s =
    (if NumElements input1 \<noteq> NumElements input2 \<or> NumElements input1 \<noteq> NumElements output \<or> \<not> same_type input1 input2
     then Inr (kTfLiteDelegateError, output, s)
     else
       let n = NumElements input1 in
       res_bind (VTATLSCommandHandle drv s) (\<lambda>r.
       res_bind (VTABufferAlloc drv (vtainput1 b) (word_of_nat (4 * n)) r) (\<lambda>(_, r).
       res_bind (VTABufferAlloc drv (vtainput2 b) (word_of_nat (4 * n)) r) (\<lambda>(_, r).
       res_bind (VTABufferAlloc drv (vtaoutput b) (word_of_nat n) r) (\<lambda>(_, r).
       res_bind (add_operands op input1 input2) (\<lambda>ops.
       case ops of None \<Rightarrow> Inr (kTfLiteDelegateError, output, True, r)
       | Some (inp1, inp2) \<Rightarrow>
           if n = 0 then Inr (kTfLiteDelegateError, output, True, r)
           else
             res_bind (VTABufferCopy_H2D drv (words_bytes inp1) (vtainput1 b) 0 r) (\<lambda>r.
             res_bind (VTABufferCopy_H2D drv (words_bytes inp2) (vtainput2 b) 0 r) (\<lambda>r.
             res_bind (VTABufferCopy_H2D drv (replicate n 0) (vtaoutput b) 0 r) (\<lambda>r.
             res_bind (add_stream drv junk b (outputquant op) n r) (\<lambda>r.
             res_bind (Synchronize drv junk 1000000 r) (\<lambda>r.
             res_bind (VTABufferCopy_D2H drv (vtaoutput b) 0 (word_of_nat n) r) (\<lambda>(outdata, r).
             res_bind (VTABufferFree drv (vtainput1 b) r) (\<lambda>r.
             res_bind (VTABufferFree drv (vtainput2 b) r) (\<lambda>r.
             res_bind (VTABufferFree drv (vtaoutput b) r) (\<lambda>r.
             res_bind (VTARuntimeShutdown drv r) (\<lambda>s.
             Inr (kTfLiteOk, put_output output outdata, s)))))))))))))))))"

definition compute_alu ::
  "'m driver \<Rightarrow> VTAGemInsn \<Rightarrow> add_buffers \<Rightarrow> TfLiteBuiltin \<Rightarrow> VTAALUOp \<Rightarrow> tensor \<Rightarrow> tensor \<Rightarrow> tensor \<Rightarrow> 'm tls
   \<Rightarrow> (TfLiteStatus \<times> tensor \<times> 'm tls) res" where
  "compute_alu drv junk b tfliteop op input1 input2 output s =
    (if tfliteop = kTfLiteBuiltinAdd then aluAdd drv junk b op input1 input2 output s
     else Inr (kTfLiteUnresolvedOps, output, s))"

end
