(* ===== verification/Delegate_Lanes.thy ===== *)
theory Delegate_Lanes
  imports Delegate_Add
begin

text \<open>
  What the accelerator computes for a piece of an addition. The six ALU instructions that \<open>aluAdd\<close> issues run
  one after the other over the blocks of the piece; in every lane of every block the result is the one that
  \<open>requantizeResults\<close> defines for the sum of the two operands.
\<close>

section \<open>One instruction\<close>

text \<open>The kernel that a lambda of \<open>aluAdd\<close> records and the instruction issued for it when its micro-op is at \<open>u\<close>.\<close>

definition piece_kernel :: "nat \<Rightarrow> u32 \<Rightarrow> u32 \<times> u32 \<times> u32 \<times> u32 \<Rightarrow> UopKernel" where
  "piece_kernel len dst op = (case record_alu len dst op (new_kernel []) of Inl _ \<Rightarrow> new_kernel [] | Inr (_, k) \<Rightarrow> k)"

definition piece_insn :: "nat \<Rightarrow> u32 \<Rightarrow> u32 \<times> u32 \<times> u32 \<times> u32 \<Rightarrow> nat \<Rightarrow> VTAAluInsn" where
  "piece_insn len dst op u = alu_insn ((piece_kernel len dst op)\<lparr>k_begin := u, k_end := u + 1\<rparr>) False False"

lemma record_alu_new:
  "record_alu len dst (src, opc, ui, iv) (new_kernel sig) = Inr (0, piece_kernel len dst (src, opc, ui, iv)\<lparr>k_signature := sig\<rparr>)"
  "k_seq (piece_kernel len dst (src, opc, ui, iv)) = [\<lparr>dst_idx = ucast dst, src_idx = ucast src, wgt_idx = 0\<rparr>]"
  "k_loop (piece_kernel len dst (src, opc, ui, iv)) = [\<lparr>extent = word_of_nat len, dst_factor = 1, src_factor = 1, wgt_factor = 0\<rparr>]"
  "k_opcode (piece_kernel len dst (src, opc, ui, iv)) = opc" "k_use_imm (piece_kernel len dst (src, opc, ui, iv)) = (ui \<noteq> 0)"
  "k_imm_val (piece_kernel len dst (src, opc, ui, iv)) = ucast iv"
  by (simp_all add: piece_kernel_def record_alu_def new_kernel_def PushLoopBegin_def Uop_Push_def VerifyDep_def Let_def
      PushLoopEnd_def VTA_UOP_ALU_def)

lemma ucast_down_nat: "LENGTH('b) \<le> LENGTH('a) \<Longrightarrow> ucast (word_of_nat v :: 'a::len word) = (word_of_nat v :: 'b::len word)"
  using ucast_word_of_int [where 'a = 'a and 'b = 'b, of "int v"] by simp

lemma piece_insn_fields [simp]:
  "iter_out_a (piece_insn len dst (src, opc, ui, iv) u) = 1" "iter_in_a (piece_insn len dst (src, opc, ui, iv) u) = word_of_nat len"
  "dst_factor_in_a (piece_insn len dst (src, opc, ui, iv) u) = 1" "src_factor_in_a (piece_insn len dst (src, opc, ui, iv) u) = 1"
  "alu_opcode (piece_insn len dst (src, opc, ui, iv) u) = ucast opc" "use_imm (piece_insn len dst (src, opc, ui, iv) u) = (ui \<noteq> 0)"
  "imm (piece_insn len dst (src, opc, ui, iv) u) = ucast iv"
  "uop_bgn_a (piece_insn len dst (src, opc, ui, iv) u) = word_of_nat u" "uop_end_a (piece_insn len dst (src, opc, ui, iv) u) = word_of_nat (u + 1)"
  by (simp_all add: piece_insn_def alu_insn_def alu_loops_def record_alu_new Let_def ucast_down_nat)

lemma unat_affine_row:
  assumes "unat b + x < 2048"
  shows "unat (affine (ucast (b :: u32) :: 11 word) 0 f x (1 :: 11 word)) = unat b + x"
proof -
  have "unat (ucast (ucast b :: 11 word) :: u32) = unat b" "unat (word_of_nat x :: u32) = x"
    using assms by (simp_all add: unsigned_ucast_eq unsigned_take_bit_eq take_bit_nat_eq_self unat_of_nat)
  then show ?thesis using assms by (simp add: affine_def unat_word_ariths)
qed

lemma iters_row: "iters 1 n u (u + 1) = map (\<lambda>x. (0, x, u)) [0..<n]"
  by (simp add: iters_def)

lemma run_piece_op:
  fixes src :: u32
  assumes wf: "dev_wf dv" "\<not> SkipExec (prof dv)"
    and u: "u < 8192" "uop_sram dv ! u = uop_unit \<lparr>dst_idx = ucast dst, src_idx = ucast src, wgt_idx = 0\<rparr>"
    and b: "unat dst + n \<le> 2048" "unat src + n \<le> 2048" "ui \<noteq> 0 \<or> unat dst + n \<le> unat src"
    and f: "alu_func (ucast opc) = Some f" "\<forall>x y. (ui \<noteq> 0 \<longrightarrow> y = scast (ucast iv :: u16)) \<longrightarrow> f x y = Inr (g x y)"
  shows "\<exists>acc' p. RunALU (piece_insn n dst (src, opc, ui, iv) u) dv = Inr (dv\<lparr>acc_sram := acc', prof := p\<rparr>) \<and>
    length acc' = length (acc_sram dv) \<and> \<not> SkipExec p \<and>
    (\<forall>j < 16. (\<forall>e < n. acc' ! (16 * (unat dst + e) + j) = g (acc_sram dv ! (16 * (unat dst + e) + j))
         (if ui \<noteq> 0 then scast (ucast iv :: u16) else acc_sram dv ! (16 * (unat src + e) + j))) \<and>
       (\<forall>e. \<not> (unat dst \<le> e \<and> e < unat dst + n) \<longrightarrow> acc' ! (16 * e + j) = acc_sram dv ! (16 * e + j)))"
proof -
  let ?i = "piece_insn n dst (src, opc, ui, iv) u" let ?us = "uop_sram dv"
  let ?its = "map (\<lambda>x. (0 :: nat, x, u)) [0..<n]"
  have n: "unat (word_of_nat n :: 14 word) = n" "unat (word_of_nat u :: 13 word) = u" "unat (word_of_nat (u + 1) :: 14 word) = u + 1"
    using b u(1) by (intro unat_word_of_nat_small; simp)+
  have d: "alu_dst ?i ?us (0, x, u) = unat dst + x" "alu_src ?i ?us (0, x, u) = unat src + x" if "x < n" for x
    using that b unfolding alu_dst_def alu_src_def by (simp_all add: u(2) unat_affine_row)
  have ok: "list_all (alu_ok ?i ?us) ?its" using b u(1) by (auto simp: list_all_iff alu_ok_def d spec_consts)
  have ind: "alu_independent ?i ?us ?its"
    using b(3) by (auto simp: alu_independent_def d distinct_map inj_on_def)
  have tot: "alu_total ?i f g" using f(2) by (simp add: alu_total_def)
  define dev1 where "dev1 = dv\<lparr>prof := (prof dv)\<lparr>alu_counter := alu_counter (prof dv)
     + loop_count (iter_out_a ?i) (iter_in_a ?i) (uop_bgn_a ?i) (uop_end_a ?i)\<rparr>\<rparr>"
  have s1: "uop_sram dev1 = ?us" "acc_sram dev1 = acc_sram dv" "dev_wf dev1" "\<not> SkipExec (prof dev1)"
    using wf by (simp_all add: dev1_def dev_wf_def SkipExec_def)
  have run: "RunALU ?i dv = fold_res (alu_iter f ?i) ?its dev1"
    using wf(2) f(1) n unfolding RunALU_def
    by (simp add: Let_def loop3_iters iters_row [simplified] dev1_def del: fold_res.simps)
  obtain acc' where acc': "fold_res (alu_iter f ?i) ?its dev1 = Inr (dev1\<lparr>acc_sram := acc'\<rparr>)" "length acc' = length (acc_sram dv)"
    "\<And>j it. j < 16 \<Longrightarrow> it \<in> set ?its \<Longrightarrow> acc' ! (16 * alu_dst ?i ?us it + j) =
        g (acc_sram dv ! (16 * alu_dst ?i ?us it + j)) (alu_arg ?i ?us (acc_sram dv) it j)"
    "\<And>j a. j < 16 \<Longrightarrow> a \<notin> alu_dst ?i ?us ` set ?its \<Longrightarrow> acc' ! (16 * a + j) = acc_sram dv ! (16 * a + j)"
    using alu_loop [OF s1(3) _ tot, of ?its] ok ind unfolding s1(1,2) by blast
  have "acc' ! (16 * (unat dst + e) + j) = g (acc_sram dv ! (16 * (unat dst + e) + j))
      (if ui \<noteq> 0 then scast (ucast iv :: u16) else acc_sram dv ! (16 * (unat src + e) + j))" if "j < 16" "e < n" for e j
    using acc'(3) [OF that(1), of "(0, e, u)"] that(2) unfolding alu_arg_def d [OF that(2)] piece_insn_fields by simp
  moreover have "acc' ! (16 * e + j) = acc_sram dv ! (16 * e + j)" if "j < 16" "\<not> (unat dst \<le> e \<and> e < unat dst + n)" for e j
  proof (rule acc'(4) [OF that(1)])
    show "e \<notin> alu_dst ?i ?us ` set ?its" using that(2) by (auto simp: d)
  qed
  ultimately show ?thesis
    using run acc'(1,2) s1(4) by (intro exI [of _ acc'] exI [of _ "prof dev1"]) (simp add: dev1_def)
qed

section \<open>A sequence of instructions\<close>

text \<open>The effect of one operation on a lane: \<open>y\<close> is the lane of the source block.\<close>

definition lane_op :: "u32 \<Rightarrow> u32 \<times> u32 \<times> u32 \<times> u32 \<Rightarrow> u32 \<Rightarrow> u32 res" where
  "lane_op y = (\<lambda>(src, opc, ui, iv) x. case alu_func (ucast opc) of None \<Rightarrow> Inr x
     | Some f \<Rightarrow> f x (if ui \<noteq> 0 then scast (ucast iv :: u16) else y))"

text \<open>An operation is safe for a piece of \<open>n\<close> blocks at \<open>dst\<close> if its opcode is defined for all operands it can get, and
  it reads either no block or the \<open>n\<close> blocks behind the piece.\<close>

definition op_safe :: "u32 \<Rightarrow> nat \<Rightarrow> u32 \<times> u32 \<times> u32 \<times> u32 \<Rightarrow> bool" where
  "op_safe dst n = (\<lambda>(src, opc, ui, iv). alu_func (ucast opc) \<noteq> None \<and> unat src + n \<le> 2048 \<and>
     (ui \<noteq> 0 \<or> unat src = unat dst + n) \<and> (\<forall>x y. \<exists>v. lane_op y (src, opc, ui, iv) x = Inr v))"

definition uop_of :: "u32 \<Rightarrow> u32 \<times> u32 \<times> u32 \<times> u32 \<Rightarrow> VTAUop" where
  "uop_of dst op = \<lparr>dst_idx = ucast dst, src_idx = ucast (fst op), wgt_idx = 0\<rparr>"

lemma run_piece_ops:
  assumes "dev_wf dv" "\<not> SkipExec (prof dv)" "unat dst + 2 * n \<le> 2048" "length us = length ops"
    and "list_all (op_safe dst n) ops" "\<forall>i < length us. us ! i < 8192 \<and> uop_sram dv ! (us ! i) = uop_unit (uop_of dst (ops ! i))"
  shows "\<exists>acc' p. fold_res (\<lambda>(op, u). RunALU (piece_insn n dst op u)) (zip ops us) dv = Inr (dv\<lparr>acc_sram := acc', prof := p\<rparr>) \<and>
    length acc' = length (acc_sram dv) \<and>
    (\<forall>j < 16. (\<forall>e < n. fold_res (lane_op (acc_sram dv ! (16 * (unat dst + n + e) + j))) ops (acc_sram dv ! (16 * (unat dst + e) + j))
         = Inr (acc' ! (16 * (unat dst + e) + j))) \<and>
       (\<forall>e. \<not> (unat dst \<le> e \<and> e < unat dst + n) \<longrightarrow> acc' ! (16 * e + j) = acc_sram dv ! (16 * e + j)))"
  using assms
proof (induction ops arbitrary: us dv)
  case Nil
  then show ?case by (intro exI [of _ "acc_sram dv"] exI [of _ "prof dv"]) simp
next
  case (Cons op ops)
  obtain u us' where us: "us = u # us'" using Cons.prems(4) by (cases us) auto
  obtain src opc ui iv where op: "op = (src, opc, ui, iv)" by (cases op)
  obtain f where f: "alu_func (ucast opc) = Some f" using Cons.prems(5) by (auto simp: op op_safe_def)
  define g where "g = (\<lambda>x y. case f x y of Inr v \<Rightarrow> v | Inl _ \<Rightarrow> 0)"
  have safe: "unat src + n \<le> 2048" "ui \<noteq> 0 \<or> unat src = unat dst + n"
      "\<And>x y. \<exists>v. f x (if ui \<noteq> 0 then scast (ucast iv :: u16) else y) = Inr v"
    using Cons.prems(5) f by (auto simp: op op_safe_def lane_op_def)
  have tot: "\<forall>x y. (ui \<noteq> 0 \<longrightarrow> y = scast (ucast iv :: u16)) \<longrightarrow> f x y = Inr (g x y)"
  proof (intro allI impI)
    fix x y :: u32 assume "ui \<noteq> 0 \<longrightarrow> y = scast (ucast iv :: u16)"
    then have "(if ui \<noteq> 0 then scast (ucast iv :: u16) else y) = y" by auto
    then obtain v where "f x y = Inr v" using safe(3) [of x y] by auto
    then show "f x y = Inr (g x y)" by (simp add: g_def)
  qed
  have u: "u < 8192" "uop_sram dv ! u = uop_unit \<lparr>dst_idx = ucast dst, src_idx = ucast src, wgt_idx = 0\<rparr>"
    using Cons.prems(6) by (auto simp: us op uop_of_def)
  have b: "unat dst + n \<le> 2048" "ui \<noteq> 0 \<or> unat dst + n \<le> unat src" using Cons.prems(3) safe(2) by auto
  obtain acc1 p1 where r1: "RunALU (piece_insn n dst op u) dv = Inr (dv\<lparr>acc_sram := acc1, prof := p1\<rparr>)"
      "length acc1 = length (acc_sram dv)" "\<not> SkipExec p1"
      "\<And>j e. j < 16 \<Longrightarrow> e < n \<Longrightarrow> acc1 ! (16 * (unat dst + e) + j) = g (acc_sram dv ! (16 * (unat dst + e) + j))
         (if ui \<noteq> 0 then scast (ucast iv :: u16) else acc_sram dv ! (16 * (unat src + e) + j))"
      "\<And>j e. j < 16 \<Longrightarrow> \<not> (unat dst \<le> e \<and> e < unat dst + n) \<Longrightarrow> acc1 ! (16 * e + j) = acc_sram dv ! (16 * e + j)"
    using run_piece_op [OF Cons.prems(1,2) u b(1) safe(1) b(2) f tot] unfolding op by blast
  define d1 where "d1 = dv\<lparr>acc_sram := acc1, prof := p1\<rparr>"
  have d1: "dev_wf d1" "\<not> SkipExec (prof d1)" "uop_sram d1 = uop_sram dv" "acc_sram d1 = acc1"
    using Cons.prems(1) r1(2,3) by (simp_all add: d1_def dev_wf_def)
  have rest: "\<forall>i < length us'. us' ! i < 8192 \<and> uop_sram d1 ! (us' ! i) = uop_unit (uop_of dst (ops ! i))"
    using Cons.prems(6) unfolding us d1(3) by auto
  obtain acc' p where r: "fold_res (\<lambda>(op, u). RunALU (piece_insn n dst op u)) (zip ops us') d1 = Inr (d1\<lparr>acc_sram := acc', prof := p\<rparr>)"
      "length acc' = length acc1"
      "\<And>j e. j < 16 \<Longrightarrow> e < n \<Longrightarrow> fold_res (lane_op (acc1 ! (16 * (unat dst + n + e) + j))) ops (acc1 ! (16 * (unat dst + e) + j))
         = Inr (acc' ! (16 * (unat dst + e) + j))"
      "\<And>j e. j < 16 \<Longrightarrow> \<not> (unat dst \<le> e \<and> e < unat dst + n) \<Longrightarrow> acc' ! (16 * e + j) = acc1 ! (16 * e + j)"
    using Cons.IH [OF d1(1,2) Cons.prems(3), of us'] rest Cons.prems(4,5) unfolding us d1(4) by auto
  have lane: "lane_op (acc_sram dv ! (16 * (unat dst + n + e) + j)) op (acc_sram dv ! (16 * (unat dst + e) + j))
      = Inr (acc1 ! (16 * (unat dst + e) + j))" if "j < 16" "e < n" for j e
    using r1(4) [OF that] tot safe(2) by (cases "ui = 0") (simp_all add: lane_op_def op f)
  have "fold_res (lane_op (acc_sram dv ! (16 * (unat dst + n + e) + j))) (op # ops) (acc_sram dv ! (16 * (unat dst + e) + j))
      = Inr (acc' ! (16 * (unat dst + e) + j))" if "j < 16" "e < n" for j e
    using lane [OF that] r(3) [OF that] r1(5) [OF that(1), of "unat dst + n + e"] by simp
  then show ?case
    using r1(1,2,5) r(1,2,4) by (intro exI [of _ acc'] exI [of _ p]) (simp add: us d1_def)
qed

section \<open>Requantisation in a lane\<close>

definition clamp8 :: "int \<Rightarrow> int" where
  "clamp8 v = max (-128) (min v 127)"

text \<open>Parameters of the result for which both the device and \<open>requantizeResults\<close> are defined.\<close>

definition output_quant :: "QuantizationData \<Rightarrow> bool" where
  "output_quant q = (0 \<le> sint (q_multiplier q) \<and> -16 \<le> sint (q_shift q) \<and> sint (q_shift q) \<le> 15 \<and>
     -128 \<le> sint (q_offset q) \<and> sint (q_offset q) \<le> 127)"

definition requantised :: "QuantizationData \<Rightarrow> int \<Rightarrow> int" where
  "requantised q s = clamp8 (s * sint (q_multiplier q) div 2 ^ nat (15 - sint (q_shift q)) + sint (q_offset q))"

lemma requantised_range: "-128 \<le> requantised q s" "requantised q s \<le> 127"
  by (simp_all add: requantised_def clamp8_def)

lemma scaled_bounds:
  assumes "output_quant q" "\<bar>s\<bar> \<le> 32642"
  shows "- 2147482000 \<le> s * sint (q_multiplier q)" "s * sint (q_multiplier q) < 2147482000"
    "- 2147482000 \<le> s * sint (q_multiplier q) div 2 ^ k" "s * sint (q_multiplier q) div 2 ^ k < 2147482000"
proof -
  have "\<bar>s * sint (q_multiplier q)\<bar> \<le> 32642 * 32767"
    using assms sint_bounds(4) [of "q_multiplier q"] by (intro mult_bound) (simp_all add: output_quant_def)
  then show a: "- 2147482000 \<le> s * sint (q_multiplier q)" "s * sint (q_multiplier q) < 2147482000" by linarith+
  show "- 2147482000 \<le> s * sint (q_multiplier q) div 2 ^ k" "s * sint (q_multiplier q) div 2 ^ k < 2147482000"
    using shift_within [OF a, of k] by simp_all
qed

lemma requantizeResults_eq:
  assumes "output_quant q" "sint x = s" "\<bar>s\<bar> \<le> 32642"
  shows "requantizeResults x q = Inr (word_of_int (requantised q s))"
proof -
  let ?p = "s * sint (q_multiplier q)" let ?k = "nat (15 - sint (q_shift q))"
  note b = scaled_bounds [OF assms(1,3)]
  have k: "0 \<le> 15 - sint (q_shift q)" "15 - sint (q_shift q) < 32" using assms(1) by (simp_all add: output_quant_def)
  have sp: "sint (word_of_int ?p :: u32) = ?p" using b(1,2) by (intro sint_word_of_int_small) simp_all
  have sd: "sint (word_of_int (?p div 2 ^ ?k) :: u32) = ?p div 2 ^ ?k" using b(3,4) [of ?k] by (intro sint_word_of_int_small) simp_all
  have o: "- (2 ^ 31) \<le> ?p div 2 ^ ?k + sint (q_offset q)" "?p div 2 ^ ?k + sint (q_offset q) < 2 ^ 31"
    using b(3,4) [of ?k] assms(1) by (simp_all add: output_quant_def)
  then have so: "sint (word_of_int (?p div 2 ^ ?k + sint (q_offset q)) :: u32) = ?p div 2 ^ ?k + sint (q_offset q)"
    by (intro sint_word_of_int_small) simp_all
  have "int32 (sint x * sint (q_multiplier q)) = Inr (word_of_int ?p)" using b(1,2) unfolding int32_def assms(2) by simp
  moreover have "shr32 (word_of_int ?p) (15 - sint (q_shift q)) = Inr (word_of_int (?p div 2 ^ ?k))"
    using k signed_drop_bit_small [OF sp, of ?k] unfolding shr32_def by simp
  moreover have "int32 (sint (word_of_int (?p div 2 ^ ?k) :: u32) + sint (q_offset q)) = Inr (word_of_int (?p div 2 ^ ?k + sint (q_offset q)))"
    using o unfolding int32_def sd by simp
  ultimately show ?thesis
    unfolding requantizeResults_def res_bind_Inr so requantised_def clamp8_def by (simp only: res_bind_Inr so)
qed

text \<open>Immediate operands pass through a 16-bit field.\<close>

lemma imm_exact:
  "- (2 ^ 15) \<le> sint (w :: u32) \<Longrightarrow> sint w < 2 ^ 15 \<Longrightarrow> scast (ucast w :: u16) = w"
proof -
  assume "- (2 ^ 15) \<le> sint w" "sint w < 2 ^ 15"
  then have "sint (word_of_int (sint w) :: u16) = sint w" by (intro sint_word_of_int_small) simp_all
  moreover have "ucast w = (word_of_int (sint w) :: u16)" by (rule ucast_sint) simp
  ultimately have "scast (ucast w :: u16) = (word_of_int (sint w) :: u32)" by (metis scast_small)
  then show ?thesis by simp
qed

lemma alu_func_codes:
  "alu_func (ucast (ucast VTA_ALU_OPCODE_ADD :: u32)) = Some (\<lambda>x y. Inr (x + y))"
  "alu_func (ucast (ucast VTA_ALU_OPCODE_MUL :: u32)) = Some (\<lambda>x y. Inr (x * y))"
  "alu_func (ucast (ucast VTA_ALU_OPCODE_SHR :: u32)) = Some alu_shr"
  "alu_func (ucast (ucast VTA_ALU_OPCODE_MIN :: u32)) = Some (\<lambda>x y. Inr (if sint y < sint x then y else x))"
  "alu_func (ucast (ucast VTA_ALU_OPCODE_MAX :: u32)) = Some (\<lambda>x y. Inr (if sint x < sint y then y else x))"
  by (simp_all add: alu_func_def spec_consts)

lemma clamp_words:
  assumes "sint (word_of_int z :: u32) = z"
  shows "(if sint (127 :: u32) < sint (word_of_int z :: u32) then 127 else word_of_int z) = (word_of_int (min z 127) :: u32)"
    "(if sint (word_of_int z :: u32) < sint (- 128 :: u32) then - 128 else word_of_int z) = (word_of_int (max (- 128) z) :: u32)"
  unfolding assms by (auto simp: min_def max_def)

lemma add_ops_lane:
  assumes q: "output_quant q" and x: "\<bar>sint x\<bar> \<le> 16321" "\<bar>sint y\<bar> \<le> 16321"
  shows "fold_res (lane_op y) (add_ops q src) x = Inr (word_of_int (requantised q (sint x + sint y)))"
proof -
  let ?s = "sint x + sint y" let ?m = "sint (q_multiplier q)" let ?k = "nat (15 - sint (q_shift q))"
  let ?p = "?s * ?m" let ?v = "?p div 2 ^ ?k + sint (q_offset q)"
  have "\<bar>?s\<bar> \<le> 32642" using x by linarith
  note b = scaled_bounds [OF q this]
  have o: "-128 \<le> sint (q_offset q)" "sint (q_offset q) \<le> 127" using q by (simp_all add: output_quant_def)
  have k: "0 \<le> 15 - sint (q_shift q)" "15 - sint (q_shift q) < 32" using q by (simp_all add: output_quant_def)
  have ss: "sint (word_of_int ?s :: u32) = ?s" using x by (intro sint_word_of_int_small) simp_all
  have sp: "sint (word_of_int ?p :: u32) = ?p" using b(1,2) by (intro sint_word_of_int_small) simp_all
  have sv: "sint (word_of_int ?v :: u32) = ?v" using b(3,4) [of ?k] o by (intro sint_word_of_int_small) simp_all
  have sk: "sint (word_of_int (15 - sint (q_shift q)) :: u32) = 15 - sint (q_shift q)" using k by (intro sint_word_of_int_small) simp_all
  have sm: "sint (scast (q_multiplier q) :: u32) = ?m"
    unfolding scast_small [OF refl] using sint_bounds(3,4) [of "q_multiplier q"] by (intro sint_word_of_int_small) simp_all
  have im: "scast (ucast (scast (q_multiplier q) :: u32) :: u16) = (word_of_int ?m :: u32)"
      "scast (ucast (word_of_int (15 - sint (q_shift q)) :: u32) :: u16) = (word_of_int (15 - sint (q_shift q)) :: u32)"
      "scast (ucast (q_offset q) :: u16) = (q_offset q :: u32)" "scast (ucast (127 :: u32) :: u16) = (127 :: u32)"
      "scast (ucast (- 128 :: u32) :: u16) = (- 128 :: u32)"
    using sm sk k o sint_bounds(3,4) [of "q_multiplier q"] by (simp_all add: imm_exact flip: scast_small)
  have "x + y = word_of_int ?s" by simp
  then have l1: "lane_op y (src, ucast VTA_ALU_OPCODE_ADD, 0, 0) x = Inr (word_of_int ?s)"
    unfolding lane_op_def prod.case alu_func_codes by simp
  have l2: "lane_op y (0, ucast VTA_ALU_OPCODE_MUL, 1, scast (q_multiplier q)) (word_of_int ?s) = Inr (word_of_int ?p)"
    unfolding lane_op_def prod.case alu_func_codes im option.case by (simp add: wi_hom_mult)
  have l3: "lane_op y (src, ucast VTA_ALU_OPCODE_SHR, 1, word_of_int (15 - sint (q_shift q))) (word_of_int ?p) = Inr (word_of_int (?p div 2 ^ ?k))"
    unfolding lane_op_def prod.case alu_func_codes im option.case alu_shr_def
    using k signed_drop_bit_small [OF sp, of ?k] by (simp only: sk one_neq_zero not_False_eq_True if_True)
  have l4: "lane_op y (src, ucast VTA_ALU_OPCODE_ADD, 1, q_offset q) (word_of_int (?p div 2 ^ ?k)) = Inr (word_of_int ?v)"
    unfolding lane_op_def prod.case alu_func_codes im option.case by simp
  have sn: "sint (word_of_int (min ?v 127) :: u32) = min ?v 127" using b(3,4) [of ?k] o by (intro sint_word_of_int_small) simp_all
  have l5: "lane_op y (src, ucast VTA_ALU_OPCODE_MIN, 1, 127) (word_of_int ?v) = Inr (word_of_int (min ?v 127))"
    unfolding lane_op_def prod.case alu_func_codes im option.case
    by (simp only: clamp_words(1) [OF sv] one_neq_zero not_False_eq_True if_True)
  have l6: "lane_op y (src, ucast VTA_ALU_OPCODE_MAX, 1, - 128) (word_of_int (min ?v 127)) = Inr (word_of_int (max (-128) (min ?v 127)))"
    unfolding lane_op_def prod.case alu_func_codes im option.case
    by (simp only: clamp_words(2) [OF sn] one_neq_zero not_False_eq_True if_True)
  show ?thesis
    unfolding add_ops_def fold_res.simps l1 res_bind_Inr l2 l3 l4 l5 l6 requantised_def clamp8_def ..
qed

section \<open>A piece\<close>

lemma add_ops_safe:
  assumes "output_quant q" "unat dst + 2 * n \<le> 2048"
  shows "list_all (op_safe dst n) (add_ops q (dst + word_of_nat n))"
proof -
  have n: "unat (dst + word_of_nat n) = unat dst + n"
    using assms(2) by (simp add: unat_word_ariths unat_word_of_nat_small)
  have k: "0 \<le> 15 - sint (q_shift q)" "15 - sint (q_shift q) < 32" using assms(1) by (simp_all add: output_quant_def)
  then have sk: "sint (word_of_int (15 - sint (q_shift q)) :: u32) = 15 - sint (q_shift q)" by (intro sint_word_of_int_small) simp_all
  then have im: "scast (ucast (word_of_int (15 - sint (q_shift q)) :: u32) :: u16) = (word_of_int (15 - sint (q_shift q)) :: u32)"
    using k by (intro imm_exact) simp_all
  have shr: "\<exists>v. lane_op y (src, ucast VTA_ALU_OPCODE_SHR, 1, word_of_int (15 - sint (q_shift q))) x = Inr v" for src x y
    unfolding lane_op_def prod.case alu_func_codes option.case alu_shr_def im
    using k by (simp only: sk one_neq_zero not_False_eq_True if_True) simp
  have rest: "\<exists>v. lane_op y (src, ucast VTA_ALU_OPCODE_ADD, ui, iv) x = Inr v" "\<exists>v. lane_op y (src, ucast VTA_ALU_OPCODE_MUL, ui, iv) x = Inr v"
      "\<exists>v. lane_op y (src, ucast VTA_ALU_OPCODE_MIN, ui, iv) x = Inr v" "\<exists>v. lane_op y (src, ucast VTA_ALU_OPCODE_MAX, ui, iv) x = Inr v" for src ui iv x y
    unfolding lane_op_def prod.case alu_func_codes option.case by simp_all
  show ?thesis
    using assms(2) n shr rest unfolding add_ops_def op_safe_def by (simp add: alu_func_codes)
qed

text \<open>C30: on the device, the six ALU instructions issued for a piece of \<open>n\<close> blocks compute in every lane the sum of the two operands
  and its requantisation: what a narrowing store then writes is the byte \<open>requantizeResults\<close> returns for that sum, which is
  defined; the other blocks of the accumulator memory keep their contents. The operands are those that \<open>simulateRealValue\<close>
  can return, the parameters of the result those whose shift lies within the width.\<close>

theorem add_piece_requantises:
  assumes "dev_wf dv" "\<not> SkipExec (prof dv)" "output_quant q" "unat dst + 2 * n \<le> VTA_ACC_BUFF_DEPTH" "length us = 6"
    and "\<forall>i < 6. us ! i < VTA_UOP_BUFF_DEPTH \<and> uop_sram dv ! (us ! i) = uop_unit (uop_of dst (add_ops q (dst + word_of_nat n) ! i))"
    and "\<forall>e < 2 * n. \<forall>j < 16. \<bar>sint (acc_sram dv ! (16 * (unat dst + e) + j))\<bar> \<le> 16321"
  shows "\<exists>acc' p. fold_res (\<lambda>(op, u). RunALU (piece_insn n dst op u)) (zip (add_ops q (dst + word_of_nat n)) us) dv
      = Inr (dv\<lparr>acc_sram := acc', prof := p\<rparr>) \<and>
    (\<forall>j < 16. (\<forall>e < n. requantizeResults (acc_sram dv ! (16 * (unat dst + e) + j) + acc_sram dv ! (16 * (unat dst + n + e) + j)) q
        = Inr (ucast (acc' ! (16 * (unat dst + e) + j)))) \<and>
      (\<forall>e. \<not> (unat dst \<le> e \<and> e < unat dst + n) \<longrightarrow> acc' ! (16 * e + j) = acc_sram dv ! (16 * e + j)))"
proof -
  let ?ops = "add_ops q (dst + word_of_nat n)"
  have b: "unat dst + 2 * n \<le> 2048" using assms(4) by (simp add: spec_consts)
  have us: "length us = length ?ops" using assms(5) by (simp add: add_ops_def)
  have uo: "\<forall>i < length us. us ! i < 8192 \<and> uop_sram dv ! (us ! i) = uop_unit (uop_of dst (?ops ! i))"
    using assms(5,6) by (simp add: spec_consts)
  obtain acc' p where r: "fold_res (\<lambda>(op, u). RunALU (piece_insn n dst op u)) (zip ?ops us) dv = Inr (dv\<lparr>acc_sram := acc', prof := p\<rparr>)"
      "\<And>j e. j < 16 \<Longrightarrow> e < n \<Longrightarrow> fold_res (lane_op (acc_sram dv ! (16 * (unat dst + n + e) + j))) ?ops
         (acc_sram dv ! (16 * (unat dst + e) + j)) = Inr (acc' ! (16 * (unat dst + e) + j))"
      "\<And>j e. j < 16 \<Longrightarrow> \<not> (unat dst \<le> e \<and> e < unat dst + n) \<Longrightarrow> acc' ! (16 * e + j) = acc_sram dv ! (16 * e + j)"
    using run_piece_ops [OF assms(1,2) b us add_ops_safe [OF assms(3) b] uo] by blast
  have "requantizeResults (acc_sram dv ! (16 * (unat dst + e) + j) + acc_sram dv ! (16 * (unat dst + n + e) + j)) q
      = Inr (ucast (acc' ! (16 * (unat dst + e) + j)))" if j: "j < 16" and e: "e < n" for j e
  proof -
    let ?x = "acc_sram dv ! (16 * (unat dst + e) + j)" let ?y = "acc_sram dv ! (16 * (unat dst + n + e) + j)"
    have x: "\<bar>sint ?x\<bar> \<le> 16321" "\<bar>sint ?y\<bar> \<le> 16321"
      using assms(7) [rule_format, of e j] assms(7) [rule_format, of "n + e" j] j e by (simp_all add: add.assoc)
    have s: "sint (word_of_int (sint ?x + sint ?y) :: u32) = sint ?x + sint ?y" using x by (intro sint_word_of_int_small) simp_all
    then have "sint (?x + ?y) = sint ?x + sint ?y" by simp
    then have "requantizeResults (?x + ?y) q = Inr (word_of_int (requantised q (sint ?x + sint ?y)))"
      using x by (intro requantizeResults_eq [OF assms(3)]) simp_all
    moreover have "acc' ! (16 * (unat dst + e) + j) = word_of_int (requantised q (sint ?x + sint ?y))"
      using r(2) [OF j e] unfolding add_ops_lane [OF assms(3) x] by simp
    ultimately show ?thesis by (simp add: ucast_word_of_int)
  qed
  with r(1,3) show ?thesis by blast
qed

definition ex_quant :: QuantizationData where
  "ex_quant = \<lparr>q_offset = 3, q_shift = 1, q_multiplier = 16384\<rparr>"

definition ex_dev :: device where
  "ex_dev = sample_dev\<lparr>acc_sram := replicate 32768 5,
     uop_sram := map (\<lambda>op. uop_unit (uop_of 0 op)) (add_ops ex_quant 1) @ replicate 8186 0\<rparr>"

theorem add_piece_requantises_witness:
  "\<exists>acc' p. fold_res (\<lambda>(op, u). RunALU (piece_insn 1 0 op u)) (zip (add_ops ex_quant 1) [0..<6]) ex_dev
      = Inr (ex_dev\<lparr>acc_sram := acc', prof := p\<rparr>) \<and> requantizeResults 10 ex_quant = Inr (ucast (acc' ! 0))"
proof -
  have d: "dev_wf ex_dev" "\<not> SkipExec (prof ex_dev)"
    by (simp_all add: ex_dev_def sample_dev_def dev_wf_def add_ops_def SkipExec_def spec_consts)
  have q: "output_quant ex_quant" by (simp add: output_quant_def ex_quant_def)
  have len: "length (add_ops ex_quant 1) = 6" by (simp add: add_ops_def)
  have u: "\<forall>i < 6. [0..<6] ! i < VTA_UOP_BUFF_DEPTH \<and> uop_sram ex_dev ! ([0..<6] ! i) = uop_unit (uop_of 0 (add_ops ex_quant 1 ! i))"
    by (simp add: ex_dev_def nth_append len spec_consts)
  have a: "\<forall>e < 2 * 1. \<forall>j < 16. \<bar>sint (acc_sram ex_dev ! (16 * (unat (0 :: u32) + e) + j))\<bar> \<le> 16321"
    by (simp add: ex_dev_def)
  show ?thesis
    using add_piece_requantises [OF d q, of 0 1 "[0..<6]"] u a by (force simp: ex_dev_def spec_consts)
qed

end
