(* ===== verification/Delegate_Stream.thy ===== *)
theory Delegate_Stream
  imports Delegate_Lanes
begin

text \<open>
  The command stream of the addition. The runtime promises the delegate that a call which pops only tokens that
  are available returns, keeps the runtime well formed, adds a bounded number of instructions and touches neither
  the device nor the table of buffers as long as the queue has room. This contract of a call is the locale
  \<open>api_call\<close>; it is proved for the calls the delegate uses and is closed under sequencing.

  Shown: for every size the stream of \<open>aluAdd\<close> uses its tokens consistently, so that the synchronisation returns and
  the operation ends with \<open>kTfLiteOk\<close>; and which sizes make the padding of the last piece leave the accumulator memory.
\<close>

section \<open>The contract of a call\<close>

type_synonym tokens = "dep_queue \<Rightarrow> nat"

definition stream_inv :: "(u64 \<rightharpoonup> DataBuffer) \<Rightarrow> 'm \<times> u64 \<times> (u64 \<times> u32) \<times> u64 \<times> u32 \<Rightarrow> tokens \<Rightarrow> nat \<Rightarrow> 'm runtime \<Rightarrow> bool" where
  "stream_inv bs m t c r = (runtime_wf r t \<and> iq_count (insn_queue r) \<le> c \<and> Vta_Runtime.debug_flag r = 0 \<and> allocated r = bs \<and> wiring r = m)"

definition queue_room :: nat where
  "queue_room = VTA_MAX_XFER div 16 - 6"

locale api_call =
  fixes call :: "'m runtime \<Rightarrow> 'm runtime res" and need :: "tokens \<Rightarrow> bool" and eff :: "tokens \<Rightarrow> tokens"
    and cost :: nat and handles :: "u64 set"
  assumes issues: "stream_inv bs m t c r \<Longrightarrow> need t \<Longrightarrow> c + cost \<le> queue_room \<Longrightarrow> handles \<subseteq> dom bs \<Longrightarrow>
    \<exists>r'. call r = Inr r' \<and> stream_inv bs m (eff t) (c + cost) r'"
begin

lemma returns: "stream_inv bs m t c r \<Longrightarrow> need t \<Longrightarrow> c + cost \<le> queue_room \<Longrightarrow> handles \<subseteq> dom bs \<Longrightarrow> \<exists>r'. call r = Inr r'"
  using issues by blast

end

lemma api_call_seq:
  fixes f g :: "'m runtime \<Rightarrow> 'm runtime res"
  assumes f: "api_call f nf ef cf hf" and g: "api_call g ng eg cg hg"
  shows "api_call (\<lambda>r. res_bind (f r) g) (\<lambda>t. nf t \<and> ng (ef t)) (\<lambda>t. eg (ef t)) (cf + cg) (hf \<union> hg)"
proof
  fix bs m t c and r :: "'m runtime"
  assume a: "stream_inv bs m t c r" "nf t \<and> ng (ef t)" "c + (cf + cg) \<le> queue_room" "hf \<union> hg \<subseteq> dom bs"
  then obtain r1 where r1: "f r = Inr r1" "stream_inv bs m (ef t) (c + cf) r1"
    using api_call.issues [OF f a(1)] by auto
  obtain r2 where "g r1 = Inr r2" "stream_inv bs m (eg (ef t)) (c + cf + cg) r2"
    using api_call.issues [OF g r1(2)] a(2-4) by (auto simp: add.assoc)
  then show "\<exists>r'. res_bind (f r) g = Inr r' \<and> stream_inv bs m (eg (ef t)) (c + (cf + cg)) r'"
    using r1(1) by (auto simp: add.assoc)
qed

lemma api_call_weaken:
  fixes f :: "'m runtime \<Rightarrow> 'm runtime res"
  assumes "api_call f nf ef cf hf" "\<And>t. n t \<Longrightarrow> nf t \<and> ef t = e t" "cf \<le> c" "hf \<subseteq> h"
  shows "api_call f n e c h"
proof
  fix bs m t d and r :: "'m runtime"
  assume a: "stream_inv bs m t d r" "n t" "d + c \<le> queue_room" "h \<subseteq> dom bs"
  have "d + cf \<le> queue_room" "hf \<subseteq> dom bs" using a(3,4) assms(3,4) by auto
  then obtain r' where "f r = Inr r'" "stream_inv bs m (ef t) (d + cf) r'"
    using api_call.issues [OF assms(1) a(1)] assms(2) [OF a(2)] by blast
  moreover have "ef t = e t" using assms(2) [OF a(2)] by blast
  ultimately show "\<exists>r'. f r = Inr r' \<and> stream_inv bs m (e t) (d + c) r'"
    using assms(3) by (auto simp: stream_inv_def)
qed

lemma api_call_skip: "api_call Inr (\<lambda>_. True) (\<lambda>t. t) 0 {}"
  by unfold_locales simp

section \<open>The calls of the runtime\<close>

lemma push_call:
  assumes "queue_of from to = Some x"
  shows "api_call (VTADepPush from to) (\<lambda>_. True) (\<lambda>t. t(x := t x + 1)) 2 {}"
proof
  fix bs m t c r
  assume a: "stream_inv bs m t c r"
  then have inv: "iq_inv (insn_queue r) t" by (simp add: stream_inv_def runtime_wf_def)
  obtain q where q: "DepPush from to (insn_queue r) = Inr q" "iq_inv q (t(x := t x + 1))" using DepPush_inv [OF inv assms] by blast
  have "iq_fpga q = iq_fpga (insn_queue r)" "iq_phy q = iq_phy (insn_queue r)" using DepPush_shape [OF inv assms q(1)] by auto
  then show "\<exists>r'. VTADepPush from to r = Inr r' \<and> stream_inv bs m (t(x := t x + 1)) (c + 2) r'"
    using a q push_count [OF q(1)] by (auto simp: VTADepPush_def on_insn_def stream_inv_def runtime_wf_def wiring_def)
qed

lemma pop_call:
  assumes "queue_of from to = Some x"
  shows "api_call (VTADepPop from to) (\<lambda>t. 0 < t x) (\<lambda>t. t(x := t x - 1)) 1 {}"
proof
  fix bs m t c r
  assume a: "stream_inv bs m t c r" "0 < t x"
  then have inv: "iq_inv (insn_queue r) t" by (simp add: stream_inv_def runtime_wf_def)
  obtain q where q: "DepPop from to (insn_queue r) = Inr q" "iq_inv q (t(x := t x - 1))" using DepPop_inv [OF inv assms a(2)] by blast
  have "iq_fpga q = iq_fpga (insn_queue r)" "iq_phy q = iq_phy (insn_queue r)" using grows_pop [OF q(1)] by (auto simp: grows_def)
  then show "\<exists>r'. VTADepPop from to r = Inr r' \<and> stream_inv bs m (t(x := t x - 1)) (c + 1) r'"
    using a q pop_count [OF q(1)] by (auto simp: VTADepPop_def on_insn_def stream_inv_def runtime_wf_def wiring_def)
qed

lemma room_no_sync: "iq_count (insn_queue r) \<le> queue_room \<Longrightarrow> CheckInsnOverFlow drv junk r = Inr r"
  by (simp add: CheckInsnOverFlow_def queue_room_def spec_consts)

lemma load_call:
  fixes drv :: "'m driver"
  assumes "loadable mt" "GetElemBytes mt = Inr n"
  shows "api_call (LoadBuffer2D drv junk h off xs ys stride xb yb xa ya sram mt) (\<lambda>_. True) (\<lambda>t. t) 1 {h}"
proof
  fix bs m t c and r :: "'m runtime"
  assume a: "stream_inv bs m t c r" "c + 1 \<le> queue_room" "{h} \<subseteq> dom bs"
  then obtain b where b: "FromHandle h r = Some b" by (auto simp: stream_inv_def FromHandle_def)
  have n: "n \<noteq> 0" using assms by (auto simp: loadable_def GetElemBytes_def Let_def spec_consts)
  define mk where "mk = (\<lambda>a c. \<lparr>opcode = VTA_OPCODE_LOAD, pop_prev_dep = a, pop_next_dep = c, push_prev_dep = False,
           push_next_dep = False, memory_type = ucast mt, sram_base = ucast sram,
           dram_base = buf_phy b div n + off, y_size = ucast ys, x_size = ucast xs, x_stride = ucast stride,
           y_pad_0 = ucast yb, y_pad_1 = ucast ya, x_pad_0 = ucast xb, x_pad_1 = ucast xa\<rparr>)"
  let ?r = "r\<lparr>insn_queue := CreateMemInsn mt mk (insn_queue r)\<rparr>"
  have "stream_inv bs m t (c + 1) ?r"
    using a Create_inv [OF _ load_mk_ok [OF assms(1), of mk], of "insn_queue r" t]
    by (simp add: stream_inv_def runtime_wf_def wiring_def CreateMemInsn_def mk_def iq_count_def)
  moreover from this have "CheckInsnOverFlow drv junk ?r = Inr ?r" using a(2) by (intro room_no_sync) (simp add: stream_inv_def)
  ultimately show "\<exists>r'. LoadBuffer2D drv junk h off xs ys stride xb yb xa ya sram mt r = Inr r' \<and> stream_inv bs m t (c + 1) r'"
    using b assms(2) n by (simp add: LoadBuffer2D_def deref_def phy_elem_def Let_def mk_def)
qed

lemma store_call:
  fixes drv :: "'m driver"
  assumes "GetElemBytes mt = Inr n" "n \<noteq> 0"
  shows "api_call (StoreBuffer2D drv junk sram mt h off xs ys stride) (\<lambda>_. True) (\<lambda>t. t) 1 {h}"
proof
  fix bs m t c and r :: "'m runtime"
  assume a: "stream_inv bs m t c r" "c + 1 \<le> queue_room" "{h} \<subseteq> dom bs"
  then obtain b where b: "FromHandle h r = Some b" by (auto simp: stream_inv_def FromHandle_def)
  define mk where "mk = (\<lambda>a c. \<lparr>opcode = VTA_OPCODE_STORE, pop_prev_dep = a, pop_next_dep = c, push_prev_dep = False,
           push_next_dep = False, memory_type = ucast mt, sram_base = ucast sram,
           dram_base = buf_phy b div n + off, y_size = ucast ys, x_size = ucast xs, x_stride = ucast stride,
           y_pad_0 = 0, y_pad_1 = 0, x_pad_0 = 0, x_pad_1 = 0\<rparr>)"
  let ?r = "r\<lparr>insn_queue := CreateStoreInsn mk (insn_queue r)\<rparr>"
  have "stream_inv bs m t (c + 1) ?r"
    using a Create_inv [OF _ store_mk_ok [of mk], of "insn_queue r" t]
    by (simp add: stream_inv_def runtime_wf_def wiring_def CreateStoreInsn_def mk_def iq_count_def)
  moreover from this have "CheckInsnOverFlow drv junk ?r = Inr ?r" using a(2) by (intro room_no_sync) (simp add: stream_inv_def)
  ultimately show "\<exists>r'. StoreBuffer2D drv junk sram mt h off xs ys stride r = Inr r' \<and> stream_inv bs m t (c + 1) r'"
    using b assms by (simp add: StoreBuffer2D_def deref_def phy_elem_def Let_def mk_def)
qed

text \<open>A kernel that is not cached may be added to the heap.\<close>

lemma span_ok_append: "span_ok h c \<Longrightarrow> span_ok (h @ ks) c"
  by (simp add: span_ok_def nth_append)

lemma span_ok_nth: "span_ok h c \<Longrightarrow> (h @ ks) ! c = h ! c"
  by (simp add: span_ok_def nth_append)

lemma contig_append_heap: "contig h lo cs hi \<Longrightarrow> contig (h @ ks) lo cs hi"
  by (induction cs arbitrary: lo) (auto simp: span_ok_append span_ok_nth)

lemma chain_append_heap: "chain h lo cs \<Longrightarrow> chain (h @ ks) lo cs"
  by (induction cs arbitrary: lo) (auto simp: span_ok_append span_ok_nth)

lemma uq_wf_new_kernel: "uq_wf h q \<Longrightarrow> \<not> cached k \<Longrightarrow> uq_wf (h @ [k]) q"
  by (auto simp: uq_wf_def contig_append_heap chain_append_heap nth_append less_Suc_eq)

lemma alu_call:
  fixes drv :: "'m driver"
  shows "api_call (push_alu drv junk a len dst op) (\<lambda>_. True) (\<lambda>t. t) 2 {}"
proof
  fix bs m t c and r :: "'m runtime"
  assume s: "stream_inv bs m t c r" "c + 2 \<le> queue_room"
  obtain src opc ui iv where op: "op = (src, opc, ui, iv)" by (cases op)
  let ?k = "piece_kernel len dst op\<lparr>k_signature := []\<rparr>" let ?n = "length (kernels r)"
  let ?r = "r\<lparr>kmaps := (kmaps r)(a \<mapsto> [Some ?n]), kernels := kernels r @ [?k]\<rparr>"
  have nc: "\<not> cached ?k"
    by (simp add: op piece_kernel_def record_alu_def new_kernel_def PushLoopBegin_def Uop_Push_def VerifyDep_def Let_def
      PushLoopEnd_def VTA_UOP_ALU_def cached_def)
  have g: "get_kernel a (record_alu len dst op) [] (r\<lparr>kmaps := (kmaps r)(a := None)\<rparr>) = Inr (?n, ?r)"
    by (simp add: get_kernel_def Map_Get_def op record_alu_new check_def Let_def)
  have wf: "runtime_wf ?r t" using s(1) nc by (simp add: stream_inv_def runtime_wf_def uq_wf_new_kernel)
  have seq: "k_seq (kernels ?r ! ?n) = [\<lparr>dst_idx = ucast dst, src_idx = ucast src, wgt_idx = 0\<rparr>]" by (simp add: op record_alu_new)
  obtain r1 ls where p: "push_uops drv junk ?n ?r = Inr r1" "runtime_wf r1 t" "iq_buf (insn_queue r1) = iq_buf (insn_queue ?r) @ ls" "length ls = 1"
      and same: "allocated r1 = allocated r" "wiring r1 = wiring r" "Vta_Runtime.debug_flag r1 = Vta_Runtime.debug_flag r"
    using push_uops_ok [OF wf, of ?n drv junk] nc seq by (auto simp: spec_consts wiring_def)
  let ?r2 = "r1\<lparr>insn_queue := CreateAluInsn (alu_insn (kernels r1 ! ?n)) (insn_queue r1)\<rparr>"
  have "stream_inv bs m t (c + 2) ?r2"
    using s(1) p same Create_inv [OF _ alu_mk_ok, of "insn_queue r1" t "kernels r1 ! ?n"]
    by (simp add: stream_inv_def runtime_wf_def wiring_def CreateAluInsn_def iq_count_def)
  moreover from this have "CheckInsnOverFlow drv junk ?r2 = Inr ?r2" using s(2) by (intro room_no_sync) (simp add: stream_inv_def)
  ultimately show "\<exists>r'. push_alu drv junk a len dst op r = Inr r' \<and> stream_inv bs m t (c + 2) r'"
    using p(1) by (simp add: push_alu_def VTAPushALUOp_def g PushALUUop_kernel_def)
qed

lemma fold_call:
  fixes f :: "'x \<Rightarrow> 'm runtime \<Rightarrow> 'm runtime res"
  assumes "\<And>x. api_call (f x) (\<lambda>_. True) (\<lambda>t. t) k {}"
  shows "api_call (fold_res f xs) (\<lambda>_. True) (\<lambda>t. t) (k * length xs) {}"
proof (induction xs)
  case Nil
  have "fold_res f [] = Inr" by (rule ext) simp
  then show ?case using api_call_skip by simp
next
  case (Cons x xs)
  have "fold_res f (x # xs) = (\<lambda>r. res_bind (f x r) (fold_res f xs))" by (rule ext) simp
  then show ?case using api_call_seq [OF assms Cons.IH, of x] by simp
qed

lemma acc_loadable: "loadable (ucast VTA_MEM_ID_ACC)" "GetElemBytes (ucast VTA_MEM_ID_ACC) = Inr 64"
  and out_storable: "GetElemBytes (ucast VTA_MEM_ID_OUT) = Inr 16"
  by (simp_all add: loadable_def GetElemBytes_def VTA_PAGE_BYTES_def VTA_PAGE_BITS_def spec_consts)

lemma token_queues:
  "queue_of kLoadStage kComputeStage = Some l2g_q" "queue_of kComputeStage kLoadStage = Some g2l_q"
  "queue_of kComputeStage kStoreStage = Some g2s_q" "queue_of kStoreStage kComputeStage = Some s2g_q"
  by (simp_all add: queue_of_def stage_defs)

interpretation push_g2l: api_call "VTADepPush kComputeStage kLoadStage" "\<lambda>_. True" "\<lambda>t. t(g2l_q := t g2l_q + 1)" 2 "{}"
  by (rule push_call [OF token_queues(2)])

interpretation push_s2g: api_call "VTADepPush kStoreStage kComputeStage" "\<lambda>_. True" "\<lambda>t. t(s2g_q := t s2g_q + 1)" 2 "{}"
  by (rule push_call [OF token_queues(4)])

interpretation pop_g2l: api_call "VTADepPop kComputeStage kLoadStage" "\<lambda>t. 0 < t g2l_q" "\<lambda>t. t(g2l_q := t g2l_q - 1)" 1 "{}"
  by (rule pop_call [OF token_queues(2)])

interpretation pop_s2g: api_call "VTADepPop kStoreStage kComputeStage" "\<lambda>t. 0 < t s2g_q" "\<lambda>t. t(s2g_q := t s2g_q - 1)" 1 "{}"
  by (rule pop_call [OF token_queues(4)])

section \<open>The addition\<close>

lemma piece_call:
  fixes drv :: "'m driver"
  shows "api_call (add_piece drv junk b q numelements v s) (\<lambda>t. 0 < t g2l_q \<and> 0 < t s2g_q) (\<lambda>t. t) 27 {vtainput1 b, vtainput2 b, vtaoutput b}"
proof -
  let ?n = "processdatalengthelem (veclength numelements v)"
  have len: "length (add_ops q x) = 6" for x by (simp add: add_ops_def)
  have ops: "api_call (fold_res (push_alu drv junk (map_addr b) ?n (word_of_nat s)) (add_ops q (word_of_nat (s + ?n)))) (\<lambda>_. True) (\<lambda>t. t) 12 {}"
    using fold_call [of "push_alu drv junk (map_addr b) ?n (word_of_nat s)" 2 "add_ops q (word_of_nat (s + ?n))", OF alu_call] unfolding len by simp
  note chain = api_call_seq [OF pop_call [OF token_queues(2)] api_call_seq [OF load_call [OF acc_loadable]
    api_call_seq [OF load_call [OF acc_loadable] api_call_seq [OF push_call [OF token_queues(1)]
    api_call_seq [OF pop_call [OF token_queues(4)] api_call_seq [OF pop_call [OF token_queues(1)] api_call_seq [OF ops
    api_call_seq [OF push_call [OF token_queues(3)] api_call_seq [OF pop_call [OF token_queues(3)]
    api_call_seq [OF store_call [OF out_storable] api_call_seq [OF push_call [OF token_queues(4)] push_call [OF token_queues(2)]]]]]]]]]]]]
  show ?thesis
    unfolding add_piece_def Let_def
    by (rule api_call_weaken [OF chain]) (auto simp: fun_eq_iff)
qed

lemma loop_call:
  fixes drv :: "'m driver"
  shows "api_call (add_loop drv junk b q numelements v) (\<lambda>t. 0 < t g2l_q \<and> 0 < t s2g_q) (\<lambda>t. t)
    (27 * ceil_div (numelements - v) 8192) {vtainput1 b, vtainput2 b, vtaoutput b}"
proof (induction "numelements - v" arbitrary: v rule: less_induct)
  case less
  let ?need = "\<lambda>t :: tokens. 0 < t g2l_q \<and> 0 < t s2g_q" let ?h = "{vtainput1 b, vtainput2 b, vtaoutput b}"
  let ?s1 = "v + veclength numelements v" let ?v2 = "?s1 + veclength numelements ?s1"
  have mx: "maxelements = 8192" by (simp add: maxelements_def NUM_THREADS_def spec_consts)
  show ?case
  proof (cases "numelements \<le> v")
    case True
    then have "add_loop drv junk b q numelements v = Inr" by (intro ext) (simp add: add_loop.simps)
    then show ?thesis using api_call_weaken [OF api_call_skip, of ?need "\<lambda>t. t" "27 * ceil_div (numelements - v) 8192" ?h] by simp
  next
    case False
    let ?p0 = "add_piece drv junk b q numelements v 0"
    let ?p1 = "\<lambda>r. if numelements \<le> ?s1 then Inr r else add_piece drv junk b q numelements ?s1 (2 * processdatalengthelem (veclength numelements v)) r"
    have eq: "add_loop drv junk b q numelements v = (\<lambda>r. res_bind (?p0 r) (\<lambda>r. res_bind (?p1 r) (add_loop drv junk b q numelements ?v2)))"
      using False by (intro ext) (simp add: add_loop.simps [of drv junk b q numelements v] Let_def)
    have p1: "api_call ?p1 ?need (\<lambda>t. t) (if numelements \<le> ?s1 then 0 else 27) ?h"
    proof (cases "numelements \<le> ?s1")
      case True
      then have "?p1 = Inr" by (intro ext) simp
      then show ?thesis using True api_call_weaken [OF api_call_skip, of ?need "\<lambda>t. t" 0 ?h] by simp
    next
      case False
      then show ?thesis using piece_call by simp
    qed
    have "numelements - ?v2 < numelements - v" using False by (auto simp: veclength_def mx)
    note rest = less [OF this]
    have cost: "27 + ((if numelements \<le> ?s1 then 0 else 27) + 27 * ceil_div (numelements - ?v2) 8192) \<le> 27 * ceil_div (numelements - v) 8192"
    proof -
      obtain a where a: "numelements = v + a" "0 < a" using False by (metis less_imp_add_positive not_le)
      consider "a - 1 < 8192" | "8192 < a" "a \<le> 16384" | "16385 \<le> a" by linarith
      then show ?thesis
      proof cases
        case 1
        then obtain b where "a = Suc b" "b < 8192" using a(2) by (cases a) auto
        then show ?thesis by (simp add: a veclength_def mx ceil_div_def min_def)
      next
        case 2
        then show ?thesis by (simp add: a veclength_def mx ceil_div_def min_def)
      next
        case 3
        then obtain b where "a = 16385 + b" using le_Suc_ex by blast
        moreover have "(24576 + b) div 8192 = 3 + b div 8192" using div_mult_self3 [of 8192 3 b] by simp
        ultimately show ?thesis by (simp add: a veclength_def mx ceil_div_def min_def)
      qed
    qed
    show ?thesis
      unfolding eq by (rule api_call_weaken [OF api_call_seq [OF piece_call api_call_seq [OF p1 rest]] _ cost]) auto
  qed
qed

lemma stream_call:
  fixes drv :: "'m driver"
  assumes "numelements < 2 ^ 31"
  shows "api_call (add_stream drv junk b q numelements) (\<lambda>_. True) (\<lambda>t. t) (27 * ceil_div numelements 8192 + 6)
    {vtainput1 b, vtainput2 b, vtaoutput b}"
proof -
  note loop = loop_call [where v = 0 and numelements = numelements and drv = drv and junk = junk and b = b and q = q, simplified]
  note chain = api_call_seq [OF push_g2l.api_call_axioms api_call_seq [OF push_s2g.api_call_axioms api_call_seq [OF loop
    api_call_seq [OF pop_g2l.api_call_axioms pop_s2g.api_call_axioms]]]]
  show ?thesis
    unfolding add_stream_def if_P [OF assms] by (rule api_call_weaken [OF chain]) (auto simp: fun_eq_iff)
qed

section \<open>The whole operation\<close>

text \<open>A runtime whose queues and device are live resources of the driver.\<close>

definition wired :: "('m \<Rightarrow> resources \<Rightarrow> bool) \<Rightarrow> resources \<Rightarrow> 'm \<times> u64 \<times> (u64 \<times> u32) \<times> u64 \<times> u32 \<Rightarrow> bool" where
  "wired J g = (\<lambda>(m, h, (up, uphy), (ip, iphy)). J m g \<and> h \<in> devices g \<and> bufs g up = Some (VTA_MAX_XFER, uphy) \<and>
     bufs g ip = Some (VTA_MAX_XFER, iphy) \<and> up \<noteq> ip)"

definition serving :: "('m \<Rightarrow> resources \<Rightarrow> bool) \<Rightarrow> resources \<Rightarrow> (u64 \<rightharpoonup> DataBuffer) \<Rightarrow> tokens \<Rightarrow> nat \<Rightarrow> 'm runtime \<Rightarrow> bool" where
  "serving J g bs t c r = (stream_inv bs (wiring r) t c r \<and> wired J g (wiring r))"

lemmas serving_defs = serving_def stream_inv_def wired_def wiring_def runtime_wf_def

lemma ucast_up_down: "ucast (ucast (x :: u32) :: u64) = x"
  by (rule bit_word_eqI) (simp add: bit_simps)

text \<open>A buffer object whose memory is a live buffer of \<open>n\<close> bytes.\<close>

definition backs :: "resources \<Rightarrow> nat \<Rightarrow> DataBuffer \<Rightarrow> bool" where
  "backs g n d = (bufs g (buf_data d) = Some (n, buf_phy d))"

context vta_driver
begin

lemma InitSpace_serves:
  assumes "J m g" "VTA_MAX_XFER \<le> bytes_left g" "0 < bufs_left g"
  shows "\<exists>p phy m'. InitSpace_buffer drv m = Inr (p, phy, m') \<and> p \<noteq> 0 \<and> phy \<noteq> 0 \<and> bufs g p = None \<and> J m' (take_buf p VTA_MAX_XFER phy g)"
proof -
  have n: "unat (word_of_nat VTA_MAX_XFER :: u64) = VTA_MAX_XFER" "0 < (word_of_nat VTA_MAX_XFER :: u64)" by (simp_all add: spec_consts)
  obtain p phy m' where a: "VTAMemAlloc drv (word_of_nat VTA_MAX_XFER) (kBufferCoherent \<or> kAlwaysCache) m = Inr (p, m')" "p \<noteq> 0" "phy \<noteq> 0"
      "bufs g p = None" "J m' (take_buf p VTA_MAX_XFER phy g)"
    using alloc [OF assms(1) n(2), of "kBufferCoherent \<or> kAlwaysCache"] assms(2,3) unfolding n(1) by blast
  have "VTAMemGetPhyAddr drv p m' = Inr phy" using phys [OF a(5), of p] by simp
  with a show ?thesis by (auto simp: InitSpace_buffer_def check_def)
qed

lemma CommandQueue_serves:
  assumes "J (dev r) g" "\<forall>k \<in> set (kernels r). \<not> cached k" "2 * VTA_MAX_XFER \<le> bytes_left g" "2 \<le> bufs_left g" "devices g = {}" "0 < devs_left g"
  shows "\<exists>r' h up uphy ip iphy. CommandQueue_new drv r = Inr r' \<and> bufs g up = None \<and> bufs g ip = None \<and>
    snd (wiring r') = (h, (up, uphy), ip, iphy) \<and>
    serving J (take_dev h (take_buf ip VTA_MAX_XFER iphy (take_buf up VTA_MAX_XFER uphy g))) (allocated r) (\<lambda>_. 0) 0 r'"
proof -
  let ?M = VTA_MAX_XFER
  obtain up uphy m1 where u: "InitSpace_buffer drv (dev r) = Inr (up, uphy, m1)" "up \<noteq> 0" "uphy \<noteq> 0" "bufs g up = None"
      "J m1 (take_buf up ?M uphy g)"
    using InitSpace_serves [OF assms(1)] assms(3,4) by auto
  obtain ip iphy m2 where i: "InitSpace_buffer drv m1 = Inr (ip, iphy, m2)" "ip \<noteq> 0" "iphy \<noteq> 0" "bufs (take_buf up ?M uphy g) ip = None"
      "J m2 (take_buf ip ?M iphy (take_buf up ?M uphy g))"
    using InitSpace_serves [OF u(5)] assms(3,4) by fastforce
  obtain h m3 where h: "VTADeviceAlloc drv m2 = Inr (h, m3)" "h \<noteq> 0"
      "J m3 (take_dev h (take_buf ip ?M iphy (take_buf up ?M uphy g)))"
    using open_dev [OF i(5)] assms(5,6) by fastforce
  have ne: "up \<noteq> ip" "bufs g ip = None" using i(4) by (auto split: if_splits)
  let ?q = "InsnQueue_InitSpace ip iphy"
  let ?r = "r\<lparr>debug_flag := 0, uop_queue := \<lparr>uq_idx = 0, uq_cache = [], uq_begin = 0, uq_end = 0, uq_dram = [], uq_fpga = up, uq_phy = uphy\<rparr>,
      insn_queue := ?q, device_handle := h, dev := m3\<rparr>"
  have "CommandQueue_new drv r = Inr ?r" using u(1) i(1) h(1,2) by (simp add: CommandQueue_new_def check_def)
  moreover have "snd (wiring ?r) = (h, (up, uphy), ip, iphy)" by (simp add: wiring_def InsnQueue_InitSpace_def)
  moreover have "runtime_wf ?r (\<lambda>_. 0)"
    using u(2,3) i(2,3) assms(2) iq_inv_init [of ip iphy] by (simp add: runtime_wf_def uq_wf_def InsnQueue_InitSpace_def)
  moreover have "wired J (take_dev h (take_buf ip ?M iphy (take_buf up ?M uphy g))) (wiring ?r)"
    using h(3) ne by (simp add: wired_def wiring_def InsnQueue_InitSpace_def)
  moreover have "iq_count ?q = 0" by (simp add: iq_count_def InsnQueue_InitSpace_def)
  ultimately show ?thesis
    using u(4) ne(2) by (intro exI [of _ ?r] exI [of _ h] exI [of _ up] exI [of _ uphy] exI [of _ ip] exI [of _ iphy])
      (simp add: serving_def stream_inv_def)
qed

lemma alloc_serves:
  assumes "serving J g bs t c r" "unat sz = n" "0 < n" "n \<le> VTA_MAX_XFER" "n \<le> bytes_left g" "0 < bufs_left g"
  shows "\<exists>p phy r'. VTABufferAlloc drv h sz r = Inr (h, r') \<and> bufs g p = None \<and> snd (wiring r') = snd (wiring r) \<and>
    serving J (take_buf p n phy g) (bs(h \<mapsto> \<lparr>buf_data = p, buf_phy = phy\<rparr>)) t c r'"
proof -
  have "J (dev r) g" "0 < sz" using assms by (auto simp: serving_defs word_gt_0)
  then obtain p phy m' where a: "VTAMemAlloc drv sz kAlwaysCache (dev r) = Inr (p, m')" "p \<noteq> 0" "bufs g p = None" "J m' (take_buf p n phy g)"
    using alloc [of "dev r" g sz kAlwaysCache] assms(2,4-6) by blast
  have "VTAMemGetPhyAddr drv p m' = Inr phy" using phys [OF a(4), of p] by simp
  with a assms(1) show ?thesis
    by (intro exI [of _ p] exI [of _ phy] exI) (auto simp: VTABufferAlloc_def check_def serving_defs)
qed

lemma copy_serves:
  assumes "serving J g bs t c r" "bs h = Some d" "backs g n d" "length src \<le> n" "n \<le> VTA_MAX_XFER"
  shows "\<exists>r'. VTABufferCopy_H2D drv src h 0 r = Inr r' \<and> serving J g bs t c r' \<and> snd (wiring r') = snd (wiring r)"
proof -
  have "J (dev r) g" using assms(1) by (simp add: serving_defs)
  then obtain m1 m2 where m: "VTAMemCopyFromHost drv (buf_data d) src (dev r) = Inr m1"
      "VTAFlushCache drv (buf_data d) (buf_phy d) (word_of_nat (length src)) m1 = Inr m2" "J m2 g"
    using stage assms(3,4) unfolding backs_def by blast
  have "ucast (word_of_nat (length src) :: u64) = (word_of_nat (length src) :: u32)" "ucast (ucast (buf_phy d) :: u64) = buf_phy d"
    by (simp_all add: ucast_down_nat ucast_up_down)
  with m assms(1,2) show ?thesis
    by (auto simp: VTABufferCopy_H2D_def DataBuffer_FlushCache_def cache_mode deref_def FromHandle_def serving_defs)
qed

lemma read_serves:
  assumes "serving J g bs t c r" "bs h = Some d" "backs g n d" "unat sz \<le> n"
  shows "\<exists>out r'. VTABufferCopy_D2H drv h 0 sz r = Inr (out, r') \<and> length out = unat sz \<and> serving J g bs t c r' \<and>
    snd (wiring r') = snd (wiring r) \<and> kernels r' = kernels r"
proof -
  have "J (dev r) g" using assms(1) by (simp add: serving_defs)
  then obtain m out where m: "VTAInvalidateCache drv (buf_data d) (buf_phy d) (ucast sz) (dev r) = Inr m" "J m g"
      "VTAMemCopyToHost drv (buf_data d) sz m = Inr out" "length out = unat sz"
    using collect assms(3,4) unfolding backs_def by blast
  have "ucast (ucast (buf_phy d) :: u64) = buf_phy d" by (rule ucast_up_down)
  with m assms(1,2) show ?thesis
    by (auto simp: VTABufferCopy_D2H_def DataBuffer_InvalidateCache_def cache_mode deref_def FromHandle_def serving_defs)
qed

lemma free_serves:
  assumes "serving J g bs t c r" "bs h = Some d" "backs g n d" "snd (wiring r) = (dh, (up, uphy), ip, iphy)" "buf_data d \<notin> {up, ip}"
  shows "\<exists>r'. VTABufferFree drv h r = Inr r' \<and> serving J (give_buf (buf_data d) n g) (bs(h := None)) t c r' \<and>
    snd (wiring r') = snd (wiring r) \<and> kernels r' = kernels r"
proof -
  have "J (dev r) g" using assms(1) by (simp add: serving_defs)
  then obtain m where "VTAMemFree drv (buf_data d) (dev r) = Inr m" "J m (give_buf (buf_data d) n g)"
    using free assms(3) unfolding backs_def by blast
  then show ?thesis using assms(1,2,4,5)
    by (auto simp: VTABufferFree_def deref_def FromHandle_def serving_defs)
qed

lemma sync_serves:
  assumes s: "serving J g bs (\<lambda>_. 0) c r" "c \<le> queue_room" "W < unat w"
  shows "\<exists>r'. Synchronize drv junk w r = Inr r' \<and> serving J g bs (\<lambda>_. 0) 0 r' \<and> snd (wiring r') = snd (wiring r) \<and>
    (\<forall>k \<in> set (kernels r'). \<not> cached k)"
proof -
  have r: "runtime_wf r (\<lambda>_. 0)" "Vta_Runtime.debug_flag r = 0" "(iq_count (insn_queue r) + 6) * 16 \<le> VTA_MAX_XFER" "allocated r = bs"
    using s(1,2) by (auto simp: serving_def stream_inv_def queue_room_def spec_consts)
  obtain q where q: "iq_inv q (\<lambda>_. 0)" "\<forall>x. \<not> pend q x" "iq_fpga q = iq_fpga (insn_queue r)" "iq_phy q = iq_phy (insn_queue r)"
      "fenced (iq_buf q)" "iq_count q \<le> iq_count (insn_queue r) + 6"
      "Synchronize drv junk w r = res_bind (device_batch drv r q w) (\<lambda>m. Inr (drained r q m))"
    using Synchronize_calls [OF r(1-3), of junk drv w] by blast
  have w: "J (dev r) g" "bufs g (uq_fpga (uop_queue r)) = Some (VTA_MAX_XFER, uq_phy (uop_queue r))"
      "bufs g (iq_fpga q) = Some (VTA_MAX_XFER, iq_phy q)" "device_handle r \<in> devices g"
    using s(1) q(3,4) by (simp_all add: serving_defs)
  have "can_finish (iq_buf q)" using q(1,2,5) by (auto simp: can_finish_def)
  moreover have "16 * iq_count q \<le> VTA_MAX_XFER" using q(6) r(3) by simp
  ultimately obtain m where m: "device_batch drv r q w = Inr m" "J m g"
    using batch_serves [OF w(1-3) _ _ w(4) s(3)] merged_fits(2) r(1) unfolding runtime_wf_def by blast
  note dr = drained_wf [OF r(1) q(1-4), of m]
  have "uq_wf (kernels (drained r q m)) (uop_queue (drained r q m))" using dr(1) by (simp add: runtime_wf_def)
  then have "\<forall>k \<in> set (kernels (drained r q m)). \<not> cached k" using wf_cached_iff dr(3) by (fastforce simp: in_set_conv_nth)
  moreover have "serving J g bs (\<lambda>_. 0) 0 (drained r q m)" "snd (wiring (drained r q m)) = snd (wiring r)"
    using dr m(2) r(2,4) s(1) by (simp_all add: serving_def stream_inv_def wired_def wiring_def iq_count_def)
  ultimately show ?thesis using m(1) q(7) by simp
qed

lemma shutdown_serves:
  assumes "serving J g bs t c r" "snd (wiring r) = (h, (up, uphy), ip, iphy)"
  shows "\<exists>r'. VTARuntimeShutdown drv r = Inr (False, r') \<and> allocated r' = bs \<and> kernels r' = kernels r \<and>
    J (dev r') (give_buf up VTA_MAX_XFER (give_buf ip VTA_MAX_XFER (give_dev h g)))"
proof -
  have w: "J (dev r) g" "h \<in> devices g" "bufs g up = Some (VTA_MAX_XFER, uphy)" "bufs g ip = Some (VTA_MAX_XFER, iphy)" "up \<noteq> ip"
      "device_handle r = h" "uq_fpga (uop_queue r) = up" "iq_fpga (insn_queue r) = ip" "allocated r = bs"
    using assms by (auto simp: serving_defs)
  obtain m1 where m1: "VTADeviceFree drv h (dev r) = Inr m1" "J m1 (give_dev h g)" using close_dev [OF w(1,2)] by blast
  obtain m2 where m2: "VTAMemFree drv ip m1 = Inr m2" "J m2 (give_buf ip VTA_MAX_XFER (give_dev h g))"
    using free [OF m1(2), of ip] w(4) by auto
  obtain m3 where "VTAMemFree drv up m2 = Inr m3" "J m3 (give_buf up VTA_MAX_XFER (give_buf ip VTA_MAX_XFER (give_dev h g)))"
    using free [OF m2(2), of up] w(3,5) by auto
  with m1 m2 w show ?thesis by (simp add: VTARuntimeShutdown_def)
qed

end

lemma convert_serves:
  assumes "\<And>v. \<exists>w. simulateRealValue v q = Inr w"
  shows "\<exists>ws. convert q xs = Inr ws \<and> length ws = length xs"
proof (induction xs)
  case (Cons x xs)
  then show ?case using assms [of x] by auto
qed simp

lemma add_room: "n \<le> 2 ^ 26 \<Longrightarrow> 27 * ceil_div n 8192 + 6 \<le> queue_room"
proof -
  assume "n \<le> 2 ^ 26"
  then have "(n + 8191) div 8192 \<le> (2 ^ 26 + 8191) div 8192" by (intro div_le_mono) simp
  then show ?thesis by (simp add: ceil_div_def queue_room_def spec_consts)
qed

lemma add_stream_issues:
  assumes "stream_inv bs m (\<lambda>_. 0) 0 r" "{vtainput1 b, vtainput2 b, vtaoutput b} \<subseteq> dom bs" "n \<le> 2 ^ 26"
  shows "\<exists>r' c. add_stream drv junk b q n r = Inr r' \<and> stream_inv bs m (\<lambda>_. 0) c r' \<and> c \<le> queue_room"
proof -
  have "n < 2 ^ 31" using assms(3) by simp
  from api_call.issues [OF stream_call [OF this] assms(1) TrueI _ assms(2)] add_room [OF assms(3)]
  show ?thesis by (metis add_0)
qed

section \<open>Properties\<close>


definition ex_buffers :: add_buffers where
  "ex_buffers = \<lparr>vtainput1 = 16, vtainput2 = 32, vtaoutput = 48, map_addr = 64\<rparr>"


text \<open>An addition of two 8-bit tensors of equal size with the parameters of quantised tensors, each operand of at most the
  32 MiB that can be allocated at once as 32-bit words, ends with \<open>kTfLiteOk\<close> and an output of that size on a driver that keeps its
  contract: the queue of the thread is constructed, no check fails and no behaviour is undefined, and afterwards the three
  buffers are released, the other buffers are untouched, the queue is shut down and no kernel is marked as resident, so
  that the next operation starts from the same state, with one device handle less to open.\<close>

definition add_bytes :: "nat \<Rightarrow> nat" where
  "add_bytes n = 2 * VTA_MAX_XFER + 9 * n"

lemma resources_balance:
  assumes "bufs g up = None" "bufs g ip = None" "devices g = {}" "5 \<le> bufs_left g" "p1 \<notin> {up, ip}" "p2 \<notin> {up, ip, p1}" "p3 \<notin> {up, ip, p1, p2}"
    and "bufs g p1 = None" "bufs g p2 = None" "bufs g p3 = None" "up \<noteq> ip" "2 * M + a + a + c \<le> bytes_left g"
  shows "give_buf up M (give_buf ip M (give_dev h (give_buf p3 c (give_buf p2 a (give_buf p1 a (take_buf p3 c f3 (take_buf p2 a f2 (take_buf p1 a f1
    (take_dev h (take_buf ip M iphy (take_buf up M uphy g))))))))))) = g\<lparr>devs_left := devs_left g - 1\<rparr>"
  using assms by (cases g) (auto simp: resource_defs fun_eq_iff)

text \<open>The three buffers of an addition of \<open>n\<close> elements while it runs, and that releasing them and the queue restores \<open>g\<close>.\<close>

definition held :: "resources \<Rightarrow> nat \<Rightarrow> add_buffers \<Rightarrow> u64 \<times> (u64 \<times> u32) \<times> u64 \<times> u32 \<Rightarrow> (u64 \<rightharpoonup> DataBuffer) \<Rightarrow> resources \<Rightarrow> bool" where
  "held g n b = (\<lambda>(h, (up, _), (ip, _)) bs g3. \<exists>d1 d2 d3. bs (vtainput1 b) = Some d1 \<and> bs (vtainput2 b) = Some d2 \<and> bs (vtaoutput b) = Some d3 \<and>
     backs g3 (4 * n) d1 \<and> backs g3 (4 * n) d2 \<and> backs g3 n d3 \<and> distinct [up, ip, buf_data d1, buf_data d2, buf_data d3] \<and>
     give_buf up VTA_MAX_XFER (give_buf ip VTA_MAX_XFER (give_dev h (give_buf (buf_data d3) n (give_buf (buf_data d2) (4 * n)
       (give_buf (buf_data d1) (4 * n) g3))))) = g\<lparr>devs_left := devs_left g - 1\<rparr>)"

context vta_driver
begin

lemma add_setup:
  assumes "J (dev r) g" "add_bytes n \<le> bytes_left g" "5 \<le> bufs_left g" "devices g = {}" "0 < devs_left g" "\<forall>k \<in> set (kernels r). \<not> cached k"
    and n: "0 < n" "4 * n \<le> VTA_MAX_XFER" and b: "distinct [vtainput1 b, vtainput2 b, vtaoutput b]"
  shows "\<exists>r0 r1 r2 r3 g3 bs. CommandQueue_new drv r = Inr r0 \<and>
    VTABufferAlloc drv (vtainput1 b) (word_of_nat (4 * n)) r0 = Inr (vtainput1 b, r1) \<and>
    VTABufferAlloc drv (vtainput2 b) (word_of_nat (4 * n)) r1 = Inr (vtainput2 b, r2) \<and>
    VTABufferAlloc drv (vtaoutput b) (word_of_nat n) r2 = Inr (vtaoutput b, r3) \<and>
    serving J g3 bs (\<lambda>_. 0) 0 r3 \<and> held g n b (snd (wiring r3)) bs g3 \<and>
    bs(vtainput1 b := None, vtainput2 b := None, vtaoutput b := None) = (allocated r)(vtainput1 b := None, vtainput2 b := None, vtaoutput b := None)"
proof -
  let ?M = VTA_MAX_XFER
  have w: "unat (word_of_nat (4 * n) :: u64) = 4 * n" "unat (word_of_nat n :: u64) = n" "n \<le> ?M"
    using n(2) by (auto intro!: unat_word_of_nat_small simp: spec_consts simp del: of_nat_mult)
  have room: "2 * ?M + 4 * n + 4 * n + n \<le> bytes_left g" using assms(2) by (simp add: add_bytes_def)
  obtain r0 h up uphy ip iphy where r0: "CommandQueue_new drv r = Inr r0" "bufs g up = None" "bufs g ip = None"
      "snd (wiring r0) = (h, (up, uphy), ip, iphy)"
      "serving J (take_dev h (take_buf ip ?M iphy (take_buf up ?M uphy g))) (allocated r) (\<lambda>_. 0) 0 r0"
    using CommandQueue_serves [OF assms(1,6) _ _ assms(4,5)] room assms(3) by auto
  define g0 where "g0 = take_dev h (take_buf ip ?M iphy (take_buf up ?M uphy g))"
  have left: "4 * n \<le> bytes_left g0" "4 * n \<le> bytes_left (take_buf q1 (4 * n) f1 g0)"
      "n \<le> bytes_left (take_buf q2 (4 * n) f2 (take_buf q1 (4 * n) f1 g0))" "0 < 4 * n"
      "0 < bufs_left g0" "0 < bufs_left (take_buf q1 (4 * n) f1 g0)" "0 < bufs_left (take_buf q2 (4 * n) f2 (take_buf q1 (4 * n) f1 g0))" for q1 f1 q2 f2
    using room n(1) assms(3) by (simp_all add: g0_def)
  have ui: "up \<noteq> ip" using r0(4,5) by (auto simp: serving_defs)
  obtain q1 f1 r1 where r1: "VTABufferAlloc drv (vtainput1 b) (word_of_nat (4 * n)) r0 = Inr (vtainput1 b, r1)" "bufs g0 q1 = None"
      "snd (wiring r1) = snd (wiring r0)"
      "serving J (take_buf q1 (4 * n) f1 g0) ((allocated r)(vtainput1 b \<mapsto> \<lparr>buf_data = q1, buf_phy = f1\<rparr>)) (\<lambda>_. 0) 0 r1"
    using alloc_serves [OF r0(5) [folded g0_def] w(1) left(4) n(2) left(1,5)] by blast
  obtain q2 f2 r2 where r2: "VTABufferAlloc drv (vtainput2 b) (word_of_nat (4 * n)) r1 = Inr (vtainput2 b, r2)"
      "bufs (take_buf q1 (4 * n) f1 g0) q2 = None" "snd (wiring r2) = snd (wiring r1)"
      "serving J (take_buf q2 (4 * n) f2 (take_buf q1 (4 * n) f1 g0))
        ((allocated r)(vtainput1 b \<mapsto> \<lparr>buf_data = q1, buf_phy = f1\<rparr>, vtainput2 b \<mapsto> \<lparr>buf_data = q2, buf_phy = f2\<rparr>)) (\<lambda>_. 0) 0 r2"
    using alloc_serves [OF r1(4) w(1) left(4) n(2) left(2,6)] by blast
  obtain q3 f3 r3 where r3: "VTABufferAlloc drv (vtaoutput b) (word_of_nat n) r2 = Inr (vtaoutput b, r3)"
      "bufs (take_buf q2 (4 * n) f2 (take_buf q1 (4 * n) f1 g0)) q3 = None" "snd (wiring r3) = snd (wiring r2)"
      "serving J (take_buf q3 n f3 (take_buf q2 (4 * n) f2 (take_buf q1 (4 * n) f1 g0)))
        ((allocated r)(vtainput1 b \<mapsto> \<lparr>buf_data = q1, buf_phy = f1\<rparr>, vtainput2 b \<mapsto> \<lparr>buf_data = q2, buf_phy = f2\<rparr>,
          vtaoutput b \<mapsto> \<lparr>buf_data = q3, buf_phy = f3\<rparr>)) (\<lambda>_. 0) 0 r3"
    using alloc_serves [OF r2(4) w(2) n(1) w(3) left(3,7)] by blast
  have fresh: "q1 \<notin> {up, ip}" "q2 \<notin> {up, ip, q1}" "q3 \<notin> {up, ip, q1, q2}" "bufs g q1 = None" "bufs g q2 = None" "bufs g q3 = None"
    using r1(2) r2(2) r3(2) by (auto simp: g0_def split: if_splits)
  have "held g n b (snd (wiring r3)) ((allocated r)(vtainput1 b \<mapsto> \<lparr>buf_data = q1, buf_phy = f1\<rparr>, vtainput2 b \<mapsto> \<lparr>buf_data = q2, buf_phy = f2\<rparr>,
      vtaoutput b \<mapsto> \<lparr>buf_data = q3, buf_phy = f3\<rparr>)) (take_buf q3 n f3 (take_buf q2 (4 * n) f2 (take_buf q1 (4 * n) f1 g0)))"
    using r3(3) r2(3) r1(3) r0(4) b ui fresh resources_balance [OF r0(2,3) assms(4,3) fresh ui room] by (auto simp: held_def backs_def g0_def)
  with r0(1) r1(1) r2(1) r3(1,4) b show ?thesis by fastforce
qed

lemma add_transfer:
  assumes s: "serving J g3 bs (\<lambda>_. 0) 0 r3" "held g n b (snd (wiring r3)) bs g3" and n: "length vs = n" "length ws = n" "4 * n \<le> VTA_MAX_XFER"
    and W: "W < 1000000"
  shows "\<exists>r4 r5 r6 r7 r8 out r9. VTABufferCopy_H2D drv (words_bytes vs) (vtainput1 b) 0 r3 = Inr r4 \<and>
    VTABufferCopy_H2D drv (words_bytes ws) (vtainput2 b) 0 r4 = Inr r5 \<and> VTABufferCopy_H2D drv (replicate n 0) (vtaoutput b) 0 r5 = Inr r6 \<and>
    add_stream drv junk b q n r6 = Inr r7 \<and> Synchronize drv junk 1000000 r7 = Inr r8 \<and>
    VTABufferCopy_D2H drv (vtaoutput b) 0 (word_of_nat n) r8 = Inr (out, r9) \<and> length out = n \<and>
    serving J g3 bs (\<lambda>_. 0) 0 r9 \<and> snd (wiring r9) = snd (wiring r3) \<and> (\<forall>k \<in> set (kernels r9). \<not> cached k)"
proof -
  obtain d1 d2 d3 where h: "bs (vtainput1 b) = Some d1" "bs (vtainput2 b) = Some d2" "bs (vtaoutput b) = Some d3"
      and bk: "backs g3 (4 * n) d1" "backs g3 (4 * n) d2" "backs g3 n d3"
    using s(2) by (cases "snd (wiring r3)") (auto simp: held_def)
  have lb: "length (words_bytes us) = 4 * length us" for us by (induction us) (simp_all add: words_bytes_def)
  have w: "unat (word_of_nat n :: u64) = n" "n \<le> VTA_MAX_XFER" using n(3) by (auto intro!: unat_word_of_nat_small simp: spec_consts)
  obtain r4 where r4: "VTABufferCopy_H2D drv (words_bytes vs) (vtainput1 b) 0 r3 = Inr r4" "serving J g3 bs (\<lambda>_. 0) 0 r4" "snd (wiring r4) = snd (wiring r3)"
    using copy_serves [OF s(1) h(1) bk(1) _ n(3), of "words_bytes vs"] lb [of vs] n(1) by auto
  obtain r5 where r5: "VTABufferCopy_H2D drv (words_bytes ws) (vtainput2 b) 0 r4 = Inr r5" "serving J g3 bs (\<lambda>_. 0) 0 r5" "snd (wiring r5) = snd (wiring r4)"
    using copy_serves [OF r4(2) h(2) bk(2) _ n(3), of "words_bytes ws"] lb [of ws] n(2) by auto
  obtain r6 where r6: "VTABufferCopy_H2D drv (replicate n 0) (vtaoutput b) 0 r5 = Inr r6" "serving J g3 bs (\<lambda>_. 0) 0 r6" "snd (wiring r6) = snd (wiring r5)"
    using copy_serves [OF r5(2) h(3) bk(3) _ w(2), of "replicate n 0"] by auto
  have i6: "n \<le> 2 ^ 26" "{vtainput1 b, vtainput2 b, vtaoutput b} \<subseteq> dom bs" "stream_inv bs (wiring r6) (\<lambda>_. 0) 0 r6"
    using n(3) h r6(2) by (auto simp: spec_consts serving_def)
  obtain r7 n7 where r7: "add_stream drv junk b q n r6 = Inr r7" "stream_inv bs (wiring r6) (\<lambda>_. 0) n7 r7" "n7 \<le> queue_room"
    using add_stream_issues [OF i6(3,2,1)] by blast
  have s7: "serving J g3 bs (\<lambda>_. 0) n7 r7" "wiring r7 = wiring r6" using r7(2) r6(2) by (auto simp: serving_def stream_inv_def)
  have "W < unat (1000000 :: u32)" using W by simp
  then obtain r8 where r8: "Synchronize drv junk 1000000 r7 = Inr r8" "serving J g3 bs (\<lambda>_. 0) 0 r8" "snd (wiring r8) = snd (wiring r7)"
      "\<forall>k \<in> set (kernels r8). \<not> cached k"
    using sync_serves [OF s7(1) r7(3)] by blast
  obtain out r9 where r9: "VTABufferCopy_D2H drv (vtaoutput b) 0 (word_of_nat n) r8 = Inr (out, r9)" "length out = n" "serving J g3 bs (\<lambda>_. 0) 0 r9"
      "snd (wiring r9) = snd (wiring r8)" "kernels r9 = kernels r8"
    using read_serves [OF r8(2) h(3) bk(3), of "word_of_nat n"] w(1) by auto
  have "snd (wiring r9) = snd (wiring r3)" using r4(3) r5(3) r6(3) s7(2) r8(3) r9(4) by simp
  with r4(1) r5(1) r6(1) r7(1) r8(1,4) r9(1-3,5) show ?thesis by metis
qed

lemma add_release:
  assumes s: "serving J g3 bs (\<lambda>_. 0) 0 r9" "held g n b (snd (wiring r9)) bs g3" and b: "distinct [vtainput1 b, vtainput2 b, vtaoutput b]"
  shows "\<exists>r10 r11 r12 r'. VTABufferFree drv (vtainput1 b) r9 = Inr r10 \<and> VTABufferFree drv (vtainput2 b) r10 = Inr r11 \<and>
    VTABufferFree drv (vtaoutput b) r11 = Inr r12 \<and> VTARuntimeShutdown drv r12 = Inr (False, r') \<and> kernels r' = kernels r9 \<and>
    allocated r' = bs(vtainput1 b := None, vtainput2 b := None, vtaoutput b := None) \<and> J (dev r') (g\<lparr>devs_left := devs_left g - 1\<rparr>)"
proof -
  obtain h up uphy ip iphy where w: "snd (wiring r9) = (h, (up, uphy), ip, iphy)" by (metis prod.exhaust)
  obtain d1 d2 d3 where d: "bs (vtainput1 b) = Some d1" "bs (vtainput2 b) = Some d2" "bs (vtaoutput b) = Some d3"
      and bk: "backs g3 (4 * n) d1" "backs g3 (4 * n) d2" "backs g3 n d3" and dist: "distinct [up, ip, buf_data d1, buf_data d2, buf_data d3]"
      and bal: "give_buf up VTA_MAX_XFER (give_buf ip VTA_MAX_XFER (give_dev h (give_buf (buf_data d3) n (give_buf (buf_data d2) (4 * n)
        (give_buf (buf_data d1) (4 * n) g3))))) = g\<lparr>devs_left := devs_left g - 1\<rparr>"
    using s(2) unfolding w held_def by auto
  let ?g1 = "give_buf (buf_data d1) (4 * n) g3" let ?g2 = "give_buf (buf_data d2) (4 * n) ?g1"
  obtain r10 where r10: "VTABufferFree drv (vtainput1 b) r9 = Inr r10" "serving J ?g1 (bs(vtainput1 b := None)) (\<lambda>_. 0) 0 r10"
      "snd (wiring r10) = (h, (up, uphy), ip, iphy)" "kernels r10 = kernels r9"
    using free_serves [OF s(1) d(1) bk(1) w] w dist by auto
  have bk': "backs ?g1 (4 * n) d2" "backs ?g2 n d3" using bk dist by (auto simp: backs_def)
  obtain r11 where r11: "VTABufferFree drv (vtainput2 b) r10 = Inr r11" "serving J ?g2 (bs(vtainput1 b := None, vtainput2 b := None)) (\<lambda>_. 0) 0 r11"
      "snd (wiring r11) = (h, (up, uphy), ip, iphy)" "kernels r11 = kernels r10"
    using free_serves [OF r10(2) _ bk'(1) r10(3), of "vtainput2 b"] d(2) b r10(3) dist by auto
  obtain r12 where r12: "VTABufferFree drv (vtaoutput b) r11 = Inr r12"
      "serving J (give_buf (buf_data d3) n ?g2) (bs(vtainput1 b := None, vtainput2 b := None, vtaoutput b := None)) (\<lambda>_. 0) 0 r12"
      "snd (wiring r12) = (h, (up, uphy), ip, iphy)" "kernels r12 = kernels r11"
    using free_serves [OF r11(2) _ bk'(2) r11(3), of "vtaoutput b"] d(3) b r11(3) dist by auto
  from shutdown_serves [OF r12(2,3), unfolded bal] r10(1,4) r11(1,4) r12(1,4) show ?thesis by auto
qed

lemma alu_add_completes:
  assumes J: "J (dev r) g" "add_bytes (length xs) \<le> bytes_left g" "5 \<le> bufs_left g" "devices g = {}" "0 < devs_left g" "W < 1000000" and nc: "\<forall>k \<in> set (kernels r). \<not> cached k"
    and quant: "quantised_tensor p1" "quantised_tensor p2" "quantised_tensor po" "new_VTAALUOp p1 p2 po = Inr op"
    and len: "length ys = length xs" "length zs = length xs" "0 < length xs" "4 * length xs \<le> VTA_MAX_XFER"
    and b: "distinct [vtainput1 b, vtainput2 b, vtaoutput b]"
  shows "\<exists>out r'. aluAdd drv junk b op (Int8 xs) (Int8 ys) (Int8 zs) (False, r) = Inr (kTfLiteOk, Int8 out, False, r') \<and>
    length out = length xs \<and> (\<forall>k \<in> set (kernels r'). \<not> cached k) \<and> J (dev r') (g\<lparr>devs_left := devs_left g - 1\<rparr>) \<and>
    allocated r' = (allocated r)(vtainput1 b := None, vtainput2 b := None, vtaoutput b := None)"
proof -
  let ?n = "length xs" let ?c = "fp_max (scale p1) (scale p2)"
  have c: "fp_ok ?c" using fp_max_facts(1) quant(1,2) by (simp add: quantised_tensor_def float_scale_def)
  have oq: "operand_quant p1 ?c (input1quant op)" "operand_quant p2 ?c (input2quant op)" using new_VTAALUOp_ok [OF quant(1-3)] quant(4) by auto
  obtain vs where vs: "convert (input1quant op) xs = Inr vs" "length vs = ?n"
    using convert_serves operand_converts [OF oq(1) quant(1) c] by meson
  obtain ws where ws: "convert (input2quant op) ys = Inr ws" "length ws = ?n"
    using convert_serves operand_converts [OF oq(2) quant(2) c] len(1) by metis
  obtain r0 r1 r2 r3 g3 bs where set: "CommandQueue_new drv r = Inr r0"
      "VTABufferAlloc drv (vtainput1 b) (word_of_nat (4 * ?n)) r0 = Inr (vtainput1 b, r1)"
      "VTABufferAlloc drv (vtainput2 b) (word_of_nat (4 * ?n)) r1 = Inr (vtainput2 b, r2)"
      "VTABufferAlloc drv (vtaoutput b) (word_of_nat ?n) r2 = Inr (vtaoutput b, r3)"
      and s3: "serving J g3 bs (\<lambda>_. 0) 0 r3" "held g ?n b (snd (wiring r3)) bs g3"
      and bs: "bs(vtainput1 b := None, vtainput2 b := None, vtaoutput b := None) = (allocated r)(vtainput1 b := None, vtainput2 b := None, vtaoutput b := None)"
    using add_setup [OF J(1-5) nc len(3,4) b] by blast
  obtain r4 r5 r6 r7 r8 out r9 where tr: "VTABufferCopy_H2D drv (words_bytes vs) (vtainput1 b) 0 r3 = Inr r4"
      "VTABufferCopy_H2D drv (words_bytes ws) (vtainput2 b) 0 r4 = Inr r5" "VTABufferCopy_H2D drv (replicate ?n 0) (vtaoutput b) 0 r5 = Inr r6"
      "add_stream drv junk b (outputquant op) ?n r6 = Inr r7" "Synchronize drv junk 1000000 r7 = Inr r8"
      "VTABufferCopy_D2H drv (vtaoutput b) 0 (word_of_nat ?n) r8 = Inr (out, r9)" "length out = ?n"
      and s9: "serving J g3 bs (\<lambda>_. 0) 0 r9" "snd (wiring r9) = snd (wiring r3)" "\<forall>k \<in> set (kernels r9). \<not> cached k"
    using add_transfer [OF s3 vs(2) ws(2) len(4) J(6), of junk "outputquant op"] by blast
  obtain r10 r11 r12 r' where rel: "VTABufferFree drv (vtainput1 b) r9 = Inr r10" "VTABufferFree drv (vtainput2 b) r10 = Inr r11"
      "VTABufferFree drv (vtaoutput b) r11 = Inr r12" "VTARuntimeShutdown drv r12 = Inr (False, r')" "kernels r' = kernels r9"
      "allocated r' = bs(vtainput1 b := None, vtainput2 b := None, vtaoutput b := None)" "J (dev r') (g\<lparr>devs_left := devs_left g - 1\<rparr>)"
    using add_release [OF s9(1) _ b] s3(2) s9(2) by metis
  have "aluAdd drv junk b op (Int8 xs) (Int8 ys) (Int8 zs) (False, r) = Inr (kTfLiteOk, Int8 out, False, r')"
    using len set vs(1) ws(1) tr rel(1-4)
    by (auto simp: aluAdd_def VTATLSCommandHandle_def add_operands_def res_bind_eq_Inr)
  then show ?thesis using tr(7) rel(5-7) s9(3) unfolding bs by (intro exI [of _ out] exI [of _ r']) auto
qed

end

lemma piece_blocks:
  "processdatalengthelem len = ceil_div len 16" "piece_padding len < 16" "len \<le> 16 * k \<Longrightarrow> ceil_div len 16 \<le> k" "0 < len \<Longrightarrow> 0 < ceil_div len 16"
proof -
  define a c where "a = len div 16" and "c = len mod 16"
  have l: "len = 16 * a + c" "c < 16" by (simp_all add: a_def c_def)
  have cv: "computevectorsize = 16" by (simp add: computevectorsize_def spec_consts)
  show "piece_padding len < 16" by (simp add: piece_padding_def cv)
  have d: "(16 * x + y) div 16 = x + y div 16" for x y :: nat by simp
  have "(c + 15) div 16 = (if c = 0 then 0 else 1)" using l(2) by (cases c) simp_all
  then have cd: "ceil_div (16 * a + c) 16 = a + (if c = 0 then 0 else 1)"
    using d [of a "c + 15"] by (simp add: ceil_div_def add.assoc)
  have "piece_padding (16 * a + c) = (if c = 0 then 0 else 16 - c)" using l(2) by (simp add: piece_padding_def cv)
  then have "16 * a + c + piece_padding (16 * a + c) = 16 * (a + (if c = 0 then 0 else 1))" using l(2) by simp
  then have "processdatalengthelem (16 * a + c) = (16 * (a + (if c = 0 then 0 else 1)) + 15) div 16"
    by (simp add: processdatalengthelem_def ceil_div_def cv)
  then show "processdatalengthelem len = ceil_div len 16" unfolding l(1) cd using d [of _ 15] by simp
  show "len \<le> 16 * k \<Longrightarrow> ceil_div len 16 \<le> k" "0 < len \<Longrightarrow> 0 < ceil_div len 16"
    unfolding l(1) cd using l(2) by (auto split: if_splits)
qed

text \<open>The padding behind a partial piece is given in elements, and the device counts it in blocks of sixteen: in the second
  half of the accumulator memory the simulator therefore accepts the load of the second operand of a piece of \<open>len\<close>
  elements only if the blocks of both operands and one block per missing element fit, although the blocks alone always do.
  A last piece of 8177 to 8191 elements is rejected.\<close>

lemma padded_load_overruns:
  assumes wf: "runtime_wf r t" and h: "h \<in> dom (allocated r)" and room: "iq_count (insn_queue r) < queue_room"
    and len: "0 < len" "len \<le> maxelements"
  defines "n \<equiv> processdatalengthelem len" and "base \<equiv> 2 * processdatalengthelem maxelements"
  shows "base + 2 * n \<le> VTA_ACC_BUFF_DEPTH \<and>
    (\<exists>r' i. LoadBuffer2D drv junk h off (word_of_nat (ceil_div len computevectorsize)) 1 1 0 0 (word_of_nat (piece_padding len)) 0
        (word_of_nat (base + n)) (ucast VTA_MEM_ID_ACC) r = Inr r' \<and>
      iq_buf (insn_queue r') = iq_buf (insn_queue r) @ [MemInsn i] \<and>
      (\<forall>dv a. \<not> SkipExec (prof dv) \<and> GetAddr (dram_addr i VTA_ACC_ELEM_BYTES) (dram dv) = Inr a \<longrightarrow>
        ((\<exists>dv'. Run_Insn (MemInsn i) dv = Inr dv') \<longleftrightarrow> base + 2 * n + piece_padding len \<le> VTA_ACC_BUFF_DEPTH)))"
proof -
  obtain b where b: "allocated r h = Some b" using h by blast
  have mx: "maxelements = 8192" by (simp add: maxelements_def NUM_THREADS_def spec_consts)
  have "ceil_div 8192 16 = (512 :: nat)" by (simp add: ceil_div_def)
  then have base: "base = 1024" by (simp add: base_def piece_blocks(1) mx)
  have n: "n = ceil_div len 16" "n \<le> 512" "0 < n"
    using piece_blocks(3) [of len 512] piece_blocks(4) [OF len(1)] len(2) by (simp_all add: n_def piece_blocks(1) mx)
  note p = piece_blocks(2) [of len]
  define i where "i = (\<lparr>opcode = VTA_OPCODE_LOAD, pop_prev_dep = pending_pop_prev (insn_queue r) kComputeStage,
      pop_next_dep = pending_pop_next (insn_queue r) kComputeStage, push_prev_dep = False, push_next_dep = False,
      memory_type = VTA_MEM_ID_ACC, sram_base = word_of_nat (base + n), dram_base = buf_phy b div 64 + off, y_size = 1,
      x_size = word_of_nat n, x_stride = 1, y_pad_0 = 0, y_pad_1 = 0, x_pad_0 = 0, x_pad_1 = word_of_nat (piece_padding len)\<rparr> :: VTAMemInsn)"
  have st: "GetMemPipelineStage (ucast VTA_MEM_ID_ACC) = kComputeStage" by (simp add: GetMemPipelineStage_def spec_consts)
  define mk where "mk = (\<lambda>a c. i\<lparr>pop_prev_dep := a, pop_next_dep := c\<rparr>)"
  let ?r = "r\<lparr>insn_queue := CreateMemInsn (ucast VTA_MEM_ID_ACC) mk (insn_queue r)\<rparr>"
  have mt: "ucast (ucast VTA_MEM_ID_ACC :: u32) = VTA_MEM_ID_ACC" by (simp add: spec_consts)
  have cv: "ceil_div len computevectorsize = n" by (simp add: computevectorsize_def n(1) spec_consts)
  have "CheckInsnOverFlow drv junk ?r = Inr ?r" using room by (intro room_no_sync) (simp add: CreateMemInsn_def iq_count_def)
  moreover have "LoadBuffer2D drv junk h off (word_of_nat n) 1 1 0 0 (word_of_nat (piece_padding len)) 0 (word_of_nat w)
      (ucast VTA_MEM_ID_ACC) r = CheckInsnOverFlow drv junk ?r" if "w = base + n" for w
    unfolding LoadBuffer2D_def deref_def FromHandle_def b phy_elem_def acc_loadable(2)
    by (simp add: Let_def mk_def i_def ucast_down_nat mt flip: that)
  moreover have "iq_buf (insn_queue ?r) = iq_buf (insn_queue r) @ [MemInsn i]" by (simp add: CreateMemInsn_def st mk_def i_def)
  ultimately have e: "LoadBuffer2D drv junk h off (word_of_nat n) 1 1 0 0 (word_of_nat (piece_padding len)) 0 (word_of_nat (base + n))
      (ucast VTA_MEM_ID_ACC) r = Inr ?r" "iq_buf (insn_queue ?r) = iq_buf (insn_queue r) @ [MemInsn i]" by metis+
  have w: "unat (word_of_nat x :: u16) = x" if "x \<le> 2048" for x using that by (intro unat_word_of_nat_small) simp
  have f: "sram_base i = word_of_nat (base + n)" "x_size i = word_of_nat n" "x_pad_0 i = 0" "x_pad_1 i = word_of_nat (piece_padding len)"
    "y_size i = 1" "y_pad_0 i = 0" "y_pad_1 i = 0" by (simp_all add: i_def)
  have "base + n \<le> 2048" "n \<le> 2048" using base n(2) by simp_all
  note wn = this [THEN w]
  have u: "unat (sram_base i) = base + n" unfolding f by (rule wn(1))
  moreover have "unat (word_of_nat (piece_padding len) :: 4 word) = piece_padding len" using p by (intro unat_word_of_nat_small) simp
  then have xt: "xtotal i = n + piece_padding len" unfolding xtotal_def f wn(2) by simp
  have yt: "ytotal i = 1" unfolding ytotal_def f by simp
  have nz: "x_size i \<noteq> 0" unfolding f using wn(2) n(3) by (metis less_numeral_extra(3) unsigned_0)
  have "((\<exists>dv'. Run_Insn (MemInsn i) dv = Inr dv') \<longleftrightarrow> base + 2 * n + piece_padding len \<le> VTA_ACC_BUFF_DEPTH)"
    if "\<not> SkipExec (prof dv)" "GetAddr (dram_addr i VTA_ACC_ELEM_BYTES) (dram dv) = Inr a" for dv a
  proof -
    have k: "kElemBytes VTA_ACC_WIDTH acc_lanes = VTA_ACC_ELEM_BYTES" by (simp add: kElemBytes_def spec_consts)
    have ids: "VTA_MEM_ID_ACC \<noteq> VTA_MEM_ID_INP" "VTA_MEM_ID_ACC \<noteq> VTA_MEM_ID_WGT" by (simp_all add: spec_consts)
    have m: "memory_type i = VTA_MEM_ID_ACC" "insn_opcode (MemInsn i) = VTA_OPCODE_LOAD" by (simp_all add: i_def)
    have "(\<exists>d'. load_2d acc_lanes VTA_ACC_BUFF_DEPTH lb rd a i d = Inr d') \<longleftrightarrow> base + 2 * n + piece_padding len \<le> VTA_ACC_BUFF_DEPTH"
      for lb rd and d :: "u32 list"
      unfolding load_2d_def Let_def u xt yt by (simp add: check_def split_def mult_2 add.assoc)
    then show ?thesis
      unfolding Run_Insn_def Let_def m using that nz
      by (simp add: RunLoad_def Load_def Let_def m k ids)
  qed
  moreover have "base + 2 * n \<le> VTA_ACC_BUFF_DEPTH" using base n(2) by (simp add: spec_consts)
  ultimately show ?thesis unfolding cv using e by blast
qed

lemma padded_load_overruns_instance:
  "\<exists>r' i. LoadBuffer2D null_driver blank_gem 1 512 512 1 1 0 0 1 0 1536 3 sample_runtime = Inr r' \<and>
    iq_buf (insn_queue r') = [MemInsn i] \<and>
    (\<forall>dv a. \<not> SkipExec (prof dv) \<and> GetAddr (dram_addr i 64) (dram dv) = Inr a \<longrightarrow> \<not> (\<exists>dv'. Run_Insn (MemInsn i) dv = Inr dv'))"
proof -
  have mx: "maxelements = 8192" by (simp add: maxelements_def NUM_THREADS_def spec_consts)
  have e: "ceil_div 8191 computevectorsize = 512" "piece_padding 8191 = 1" "processdatalengthelem 8191 = 512" "processdatalengthelem maxelements = 512"
    by (simp_all add: ceil_div_def piece_padding_def computevectorsize_def processdatalengthelem_def mx spec_consts)
  have r: "iq_buf (insn_queue sample_runtime) = []" "1 \<in> dom (allocated sample_runtime)" "iq_count (insn_queue sample_runtime) < queue_room"
    by (simp_all add: sample_runtime_def fresh_runtime_def InsnQueue_InitSpace_def iq_count_def queue_room_def spec_consts)
  show ?thesis
    using padded_load_overruns [OF sample_runtime_wf r(2,3), of 8191 null_driver blank_gem 512] unfolding e r(1)
    by (auto simp: mx spec_consts)
qed

end
