(* ===== verification/Gemm_Layout.thy ===== *)
theory Gemm_Layout
  imports Prelude
begin

text \<open>
  Layouts of tensors for matrix multiplication (\<open>VTAGEMMOp\<close> in \<open>vta-delegate-ops.cpp\<close>): a layout is a list of
  names of dimensions, outermost first, and the sizes are looked up by name. \<open>permuteDims\<close> stores a tensor in
  another order of its dimensions and \<open>padData\<close> enlarges dimensions with zeros. An \<open>int\<close> of C++ is an integer
  whose overflow is a fault; an access outside of an array is one too.

  Shown: for layouts that name the same dimensions, \<open>permuteDims\<close> moves the element at every tuple of indices
  from its place in the one layout to its place in the other, and the reverse call restores the array; \<open>padData\<close>
  of bytes keeps the elements and fills the rest with zeros.
\<close>

section \<open>Dimensions\<close>

text \<open>Reading a name that is not there inserts zero; the inserted zero is not observable otherwise.\<close>

type_synonym dims = "string \<Rightarrow> int option"
type_synonym layout = "string list"

definition resetDims :: "dims \<Rightarrow> dims" where
  "resetDims d = (\<lambda>_. None)"

definition setDim :: "string \<Rightarrow> int \<Rightarrow> dims \<Rightarrow> dims" where
  "setDim dimname dimsize d = d(dimname \<mapsto> dimsize)"

definition dim_of :: "dims \<Rightarrow> string \<Rightarrow> int" where
  "dim_of d dimname = (case d dimname of None \<Rightarrow> 0 | Some v \<Rightarrow> v)"

definition c_int :: "int \<Rightarrow> int res" where
  "c_int v = (if - (2 ^ 31) \<le> v \<and> v < 2 ^ 31 then Inr v else Inl (Undefined ''signed overflow''))"

definition int_div :: "int \<Rightarrow> int \<Rightarrow> int res" where
  "int_div a b = (if b = 0 then Inl (Undefined ''division by zero'') else c_int (c_div a b))"

definition tensorElements :: "dims \<Rightarrow> layout \<Rightarrow> int res" where
  "tensorElements d layout = fold_res (\<lambda>dimname size. c_int (size * dim_of d dimname)) layout 1"

text \<open>The loop of \<open>getDimStep\<close> walks from the last name to the first; a name that is missing takes it out of the vector.\<close>

primrec step_loop :: "dims \<Rightarrow> string \<Rightarrow> layout \<Rightarrow> int \<Rightarrow> int res" where
  "step_loop d axis [] step = Inl OutOfBounds"
| "step_loop d axis (x # xs) step =
    (if x = axis then Inr step else res_bind (c_int (step * dim_of d x)) (step_loop d axis xs))"

definition getDimStep :: "dims \<Rightarrow> layout \<Rightarrow> string \<Rightarrow> int res" where
  "getDimStep d layout axis = step_loop d axis (rev layout) 1"

section \<open>Moving elements\<close>

definition copy_elem :: "nat \<Rightarrow> bytes \<Rightarrow> int \<Rightarrow> int \<Rightarrow> bytes \<Rightarrow> bytes res" where
  "copy_elem elemsize inparray i j outarray =
    res_bind (guard_bounds (0 \<le> i \<and> (nat i + 1) * elemsize \<le> length inparray \<and> 0 \<le> j \<and> (nat j + 1) * elemsize \<le> length outarray)) (\<lambda>_.
    Inr (overwrite (nat j * elemsize) (slice (nat i * elemsize) elemsize inparray) outarray))"

definition clear :: "int \<Rightarrow> bytes \<Rightarrow> bytes res" where
  "clear n outarray = res_bind (guard_bounds (0 \<le> n \<and> nat n \<le> length outarray)) (\<lambda>_. Inr (overwrite 0 (replicate (nat n) 0) outarray))"

definition permute_axis :: "dims \<Rightarrow> layout \<Rightarrow> layout \<Rightarrow> string \<Rightarrow> int \<times> int \<Rightarrow> (int \<times> int) res" where
  "permute_axis d inplayout outlayout axis = (\<lambda>(inpremaining, outindex).
    res_bind (getDimStep d inplayout axis) (\<lambda>step.
    res_bind (int_div inpremaining step) (\<lambda>axisindex.
    res_bind (getDimStep d outlayout axis) (\<lambda>outstep.
    res_bind (c_int (axisindex * outstep)) (\<lambda>p.
    res_bind (c_int (outindex + p)) (\<lambda>outindex.
    Inr (inpremaining - axisindex * step, outindex)))))))"

definition permuteDims :: "dims \<Rightarrow> layout \<Rightarrow> layout \<Rightarrow> bytes \<Rightarrow> bytes \<Rightarrow> nat \<Rightarrow> bytes res" where
  "permuteDims d inplayout outlayout inparray outarray elemsize =
    res_bind (check (length inplayout = length outlayout) ''inplayout.size() == outlayout.size()'') (\<lambda>_.
    res_bind (tensorElements d inplayout) (\<lambda>n.
    res_bind (tensorElements d outlayout) (\<lambda>m.
    res_bind (check (n = m) ''tensorElements(inplayout) == tensorElements(outlayout)'') (\<lambda>_.
    res_bind (clear m outarray) (\<lambda>outarray.
    fold_res (\<lambda>i outarray.
      res_bind (fold_res (permute_axis d inplayout outlayout) inplayout (int i, 0)) (\<lambda>(_, outindex).
      if -1 < outindex then copy_elem elemsize inparray (int i) outindex outarray else Inr outarray)) [0..<nat n] outarray)))))"

text \<open>Comparison of strings is lexicographic by character code.\<close>

fun string_le :: "string \<Rightarrow> string \<Rightarrow> bool" where
  "string_le [] ys = True"
| "string_le (x # xs) [] = False"
| "string_le (x # xs) (y # ys) = (of_char x < (of_char y :: nat) \<or> x = y \<and> string_le xs ys)"

text \<open>The index in the source of an element of the destination, \<open>None\<close> where padding applies.\<close>

primrec pad_index :: "dims \<Rightarrow> layout \<Rightarrow> layout \<Rightarrow> (string \<times> string) list \<Rightarrow> int \<Rightarrow> int \<Rightarrow> int option res" where
  "pad_index d srclayout dstlayout [] dstremaining inpindex = Inr (Some inpindex)"
| "pad_index d srclayout dstlayout (ax # axes) dstremaining inpindex =
    res_bind (getDimStep d dstlayout (snd ax)) (\<lambda>step.
    res_bind (int_div dstremaining step) (\<lambda>axisindex.
    if dim_of d (fst ax) \<le> axisindex then Inr None
    else
      res_bind (getDimStep d srclayout (fst ax)) (\<lambda>srcstep.
      res_bind (c_int (axisindex * srcstep)) (\<lambda>p.
      res_bind (c_int (inpindex + p)) (\<lambda>inpindex.
      pad_index d srclayout dstlayout axes (dstremaining - axisindex * step) inpindex)))))"

definition padData :: "dims \<Rightarrow> layout \<Rightarrow> layout \<Rightarrow> bytes \<Rightarrow> bytes \<Rightarrow> nat \<Rightarrow> bytes res" where
  "padData d srclayout dstlayout inparray outarray elemsize =
    res_bind (tensorElements d dstlayout) (\<lambda>n.
    res_bind (clear n outarray) (\<lambda>outarray.
    res_bind (check (length srclayout = length dstlayout) ''srclayout.size() == dstlayout.size()'') (\<lambda>_.
    res_bind (check (list_all (\<lambda>(s, t). string_le s t) (zip srclayout dstlayout)) ''dstlayout[i] >= srclayout[i]'') (\<lambda>_.
    fold_res (\<lambda>outid outarray.
      res_bind (pad_index d srclayout dstlayout (zip srclayout dstlayout) (int outid) 0) (\<lambda>inpindex.
      case inpindex of None \<Rightarrow> Inr outarray
      | Some i \<Rightarrow> copy_elem elemsize inparray i (int outid) outarray)) [0..<nat n] outarray))))"

section \<open>Places of elements\<close>

text \<open>Abstractly, a tensor is indexed by a function from names to indices; its place in a layout is a number in mixed radix.\<close>

definition dim_size :: "dims \<Rightarrow> string \<Rightarrow> nat" where
  "dim_size d a = nat (dim_of d a)"

definition volume :: "dims \<Rightarrow> layout \<Rightarrow> nat" where
  "volume d layout = prod_list (map (dim_size d) layout)"

primrec place :: "dims \<Rightarrow> layout \<Rightarrow> (string \<Rightarrow> nat) \<Rightarrow> nat" where
  "place d [] idx = 0"
| "place d (a # as) idx = idx a * volume d as + place d as idx"

primrec coord :: "dims \<Rightarrow> layout \<Rightarrow> nat \<Rightarrow> string \<Rightarrow> nat" where
  "coord d [] i = (\<lambda>_. 0)"
| "coord d (a # as) i = (\<lambda>x. if x = a then i div volume d as else coord d as (i mod volume d as) x)"

primrec weight :: "dims \<Rightarrow> layout \<Rightarrow> string \<Rightarrow> nat" where
  "weight d [] x = 0"
| "weight d (a # as) x = (if x = a then volume d as else weight d as x)"

definition indices_ok :: "dims \<Rightarrow> layout \<Rightarrow> (string \<Rightarrow> nat) \<Rightarrow> bool" where
  "indices_ok d layout idx = (\<forall>a \<in> set layout. idx a < dim_size d a)"

definition layout_ok :: "dims \<Rightarrow> layout \<Rightarrow> bool" where
  "layout_ok d layout = (distinct layout \<and> (\<forall>a \<in> set layout. 0 < dim_of d a) \<and> volume d layout < 2 ^ 31)"

lemma volume_simps [simp]: "volume d [] = 1" "volume d (a # as) = dim_size d a * volume d as"
  by (simp_all add: volume_def)

lemma volume_append [simp]: "volume d (xs @ ys) = volume d xs * volume d ys"
  by (induction xs) simp_all

lemma volume_perm: "distinct L \<Longrightarrow> distinct M \<Longrightarrow> set L = set M \<Longrightarrow> volume d M = volume d L"
  unfolding volume_def by (metis prod.distinct_set_conv_list)

lemma volume_pos: "\<forall>a \<in> set xs. 0 < dim_of d a \<Longrightarrow> 0 < volume d xs"
  by (induction xs) (simp_all add: dim_size_def)

lemma place_less: "indices_ok d xs idx \<Longrightarrow> place d xs idx < volume d xs"
proof (induction xs)
  case (Cons a xs)
  have "place d xs idx < volume d xs" using Cons by (simp add: indices_ok_def)
  then have "place d (a # xs) idx < (idx a + 1) * volume d xs" by simp
  also have "\<dots> \<le> dim_size d a * volume d xs" using Cons.prems by (intro mult_le_mono1) (simp add: indices_ok_def Suc_leI)
  finally show ?case by simp
qed simp

lemma coord_place: "indices_ok d xs idx \<Longrightarrow> distinct xs \<Longrightarrow> a \<in> set xs \<Longrightarrow> coord d xs (place d xs idx) a = idx a"
proof (induction xs)
  case (Cons x xs)
  have "place d xs idx < volume d xs" using Cons.prems by (intro place_less) (simp add: indices_ok_def)
  then show ?case using Cons by (auto simp: indices_ok_def)
qed simp

lemma place_cong: "(\<And>a. a \<in> set xs \<Longrightarrow> f a = g a) \<Longrightarrow> place d xs f = place d xs g"
  by (induction xs) simp_all

lemma coord_indices_ok: "i < volume d xs \<Longrightarrow> indices_ok d xs (coord d xs i)"
proof (induction xs arbitrary: i)
  case (Cons a xs)
  then have v: "0 < volume d xs" by (metis bot_nat_0.not_eq_extremum mult_0_right not_less0 volume_simps(2))
  then have "indices_ok d xs (coord d xs (i mod volume d xs))" by (intro Cons.IH) simp
  moreover have "i div volume d xs < dim_size d a" using Cons.prems v by (simp add: less_mult_imp_div_less)
  ultimately show ?case by (auto simp: indices_ok_def)
qed (simp add: indices_ok_def)

lemma place_coord: "i < volume d xs \<Longrightarrow> distinct xs \<Longrightarrow> place d xs (coord d xs i) = i"
proof (induction xs arbitrary: i)
  case (Cons a xs)
  then have v: "0 < volume d xs" by (metis bot_nat_0.not_eq_extremum mult_0_right not_less0 volume_simps(2))
  have "place d xs (coord d (a # xs) i) = place d xs (coord d xs (i mod volume d xs))"
    using Cons.prems(2) by (intro place_cong) auto
  then show ?case using Cons.IH [of "i mod volume d xs"] Cons.prems(2) v div_mult_mod_eq [of i "volume d xs"] by simp
qed simp

lemma place_sum: "distinct xs \<Longrightarrow> place d xs idx = (\<Sum>a \<in> set xs. idx a * weight d xs a)"
proof (induction xs)
  case (Cons a xs)
  have "(\<Sum>x \<in> set xs. idx x * weight d (a # xs) x) = (\<Sum>x \<in> set xs. idx x * weight d xs x)"
    using Cons.prems by (intro sum.cong) auto
  then show ?case using Cons by simp
qed simp

section \<open>The loops compute places\<close>

lemma factor_less: "a * v < b \<Longrightarrow> 0 < v \<Longrightarrow> a < (b :: nat)"
  using le_less_trans [of a "a * v" b] by simp

lemma c_int_nat [simp]: "n < 2 ^ 31 \<Longrightarrow> c_int (int n) = Inr (int n)"
  by (simp add: c_int_def)

lemma dim_of_size: "0 < dim_of d a \<Longrightarrow> dim_of d a = int (dim_size d a)"
  by (simp add: dim_size_def)

lemma int_div_nat: "0 < b \<Longrightarrow> a < 2 ^ 31 \<Longrightarrow> int_div (int a) (int b) = Inr (int (a div b))"
proof -
  assume "0 < b" "a < 2 ^ 31"
  moreover from this have "a div b < 2 ^ 31" using le_less_trans [OF div_le_dividend] by blast
  moreover have "c_div (int a) (int b) = int (a div b)" using \<open>0 < b\<close> by (simp add: c_div_def zdiv_int sgn_if)
  ultimately show ?thesis by (simp add: int_div_def)
qed

lemma tensorElements_fold:
  assumes "\<forall>a \<in> set xs. 0 < dim_of d a" "n * volume d xs < 2 ^ 31"
  shows "fold_res (\<lambda>dimname size. c_int (size * dim_of d dimname)) xs (int n) = Inr (int (n * volume d xs))"
  using assms
proof (induction xs arbitrary: n)
  case (Cons a xs)
  have "0 < volume d xs" using Cons.prems(1) by (intro volume_pos) simp
  then have "n * dim_size d a < 2 ^ 31" using Cons.prems(2) unfolding volume_simps mult.assoc [symmetric] by (blast intro: factor_less)
  moreover have "dim_of d a = int (dim_size d a)" using Cons.prems(1) by (intro dim_of_size) simp
  ultimately have "c_int (int n * dim_of d a) = Inr (int (n * dim_size d a))" using c_int_nat [of "n * dim_size d a"] by simp
  then show ?case using Cons.IH [of "n * dim_size d a"] Cons.prems by (simp add: mult.assoc)
qed simp

lemma tensorElements_volume: "layout_ok d xs \<Longrightarrow> tensorElements d xs = Inr (int (volume d xs))"
  using tensorElements_fold [of xs d 1] by (simp add: tensorElements_def layout_ok_def)

lemma step_loop_stops:
  assumes "axis \<notin> set zs" "\<forall>a \<in> set zs. 0 < dim_of d a" "n * volume d zs < 2 ^ 31"
  shows "step_loop d axis (zs @ axis # ws) (int n) = Inr (int (n * volume d zs))"
  using assms
proof (induction zs arbitrary: n)
  case (Cons a zs)
  have "0 < volume d zs" using Cons.prems(2) by (intro volume_pos) simp
  then have "n * dim_size d a < 2 ^ 31" using Cons.prems(3) unfolding volume_simps mult.assoc [symmetric] by (blast intro: factor_less)
  moreover have "dim_of d a = int (dim_size d a)" using Cons.prems(2) by (intro dim_of_size) simp
  ultimately have "c_int (int n * dim_of d a) = Inr (int (n * dim_size d a))" using c_int_nat [of "n * dim_size d a"] by simp
  then show ?case using Cons.IH [of "n * dim_size d a"] Cons.prems by (auto simp: mult.assoc)
qed simp

lemma volume_rev [simp]: "volume d (rev xs) = volume d xs"
  by (induction xs) (simp_all add: mult.commute)

lemma weight_split: "a \<notin> set xs \<Longrightarrow> weight d (xs @ a # ys) a = volume d ys"
  by (induction xs) auto

lemma weight_pos_le:
  assumes "layout_ok d xs" "a \<in> set xs"
  shows "0 < weight d xs a" "weight d xs a \<le> volume d xs"
proof -
  obtain us vs where xs: "xs = us @ a # vs" "a \<notin> set us" using split_list_first [OF assms(2)] by blast
  have p: "0 < volume d vs" "0 < volume d (us @ [a])" using assms(1) unfolding layout_ok_def xs by (intro volume_pos; simp)+
  then show "0 < weight d xs a" by (simp add: xs weight_split)
  have "1 * volume d vs \<le> volume d (us @ [a]) * volume d vs" using p(2) by (intro mult_le_mono1) simp
  then show "weight d xs a \<le> volume d xs" by (simp add: xs weight_split mult.assoc)
qed

lemma getDimStep_weight:
  assumes "layout_ok d xs" "a \<in> set xs"
  shows "getDimStep d xs a = Inr (int (weight d xs a))"
proof -
  obtain us vs where xs: "xs = us @ a # vs" "a \<notin> set us" using split_list_first [OF assms(2)] by blast
  have "a \<notin> set (rev vs)" "\<forall>x \<in> set (rev vs). 0 < dim_of d x" using assms(1) by (auto simp: layout_ok_def xs)
  moreover have "1 * volume d (rev vs) < 2 ^ 31"
    using le_less_trans [OF weight_pos_le(2) [OF assms]] assms(1) by (simp add: layout_ok_def) (simp add: xs weight_split)
  ultimately show ?thesis
    using step_loop_stops [of a "rev vs" d 1 "rev us"] by (simp add: getDimStep_def xs weight_split)
qed

text \<open>The loop over the dimensions of the source layout adds up the place in the destination.\<close>

lemma permute_loop:
  assumes ok: "layout_ok d L" "layout_ok d M" "L = pre @ xs" "set xs \<subseteq> set M" "rem < volume d xs"
    and total: "acc + (\<Sum>a \<leftarrow> xs. coord d xs rem a * weight d M a) < 2 ^ 31"
  shows "\<exists>r. fold_res (permute_axis d L M) xs (int rem, int acc) = Inr (r, int (acc + (\<Sum>a \<leftarrow> xs. coord d xs rem a * weight d M a)))"
  using ok(3-5) total
proof (induction xs arbitrary: pre rem acc)
  case (Cons a xs)
  have L: "a \<in> set L" "distinct L" "\<forall>x \<in> set L. 0 < dim_of d x" using ok(1) Cons.prems(1) by (auto simp: layout_ok_def)
  then have na: "a \<notin> set pre" "a \<notin> set xs" using Cons.prems(1) by auto
  let ?v = "volume d xs" let ?q = "rem div ?v"
  have v: "0 < ?v" using L(3) Cons.prems(1) by (intro volume_pos) simp
  have "volume d (a # xs) \<le> volume d L"
    using volume_pos [of pre d] L(3) Cons.prems(1) by simp
  then have rem: "rem < 2 ^ 31" using Cons.prems(3) ok(1) by (simp add: layout_ok_def)
  have w: "getDimStep d L a = Inr (int ?v)"
    using getDimStep_weight [OF ok(1) L(1)] na(1) Cons.prems(1) by (simp add: weight_split)
  have m: "getDimStep d M a = Inr (int (weight d M a))" using getDimStep_weight [OF ok(2)] Cons.prems(2) by simp
  have s: "(\<Sum>x \<leftarrow> xs. coord d (a # xs) rem x * weight d M x) = (\<Sum>x \<leftarrow> xs. coord d xs (rem mod ?v) x * weight d M x)"
    using na(2) by (intro arg_cong [of _ _ sum_list] map_cong) auto
  let ?rest = "\<Sum>x \<leftarrow> xs. coord d xs (rem mod ?v) x * weight d M x"
  have tot: "acc + ?q * weight d M a + ?rest < 2 ^ 31"
    using Cons.prems(4) s by (simp add: add.assoc)
  have "permute_axis d L M a (int rem, int acc) = Inr (int (rem mod ?v), int (acc + ?q * weight d M a))"
  proof -
    have "c_int (int ?q * int (weight d M a)) = Inr (int (?q * weight d M a))"
      using tot c_int_nat [of "?q * weight d M a"] by simp
    moreover have "c_int (int acc + int (?q * weight d M a)) = Inr (int (acc + ?q * weight d M a))"
      using tot c_int_nat [of "acc + ?q * weight d M a"] by simp
    moreover have "int rem - int ?q * int ?v = int (rem mod ?v)" by (simp add: minus_div_mult_eq_mod zdiv_int zmod_int)
    ultimately show ?thesis using v rem by (simp add: permute_axis_def w m int_div_nat)
  qed
  moreover obtain r where "fold_res (permute_axis d L M) xs (int (rem mod ?v), int (acc + ?q * weight d M a))
      = Inr (r, int (acc + ?q * weight d M a + ?rest))"
    using Cons.IH [of "pre @ [a]" "rem mod ?v" "acc + ?q * weight d M a"] Cons.prems(1,2) v tot by auto
  ultimately show ?case using s by (simp add: add.assoc)
qed simp

lemma permute_place:
  assumes ok: "layout_ok d L" "layout_ok d M" "set L = set M" "i < volume d L"
  shows "\<exists>r. fold_res (permute_axis d L M) L (int i, 0) = Inr (r, int (place d M (coord d L i)))"
proof -
  have dist: "distinct L" "distinct M" using ok(1,2) by (simp_all add: layout_ok_def)
  have sum: "(\<Sum>a \<leftarrow> L. coord d L i a * weight d M a) = place d M (coord d L i)"
    using dist ok(3) by (simp add: sum_list_distinct_conv_sum_set place_sum)
  have "indices_ok d M (coord d L i)" using coord_indices_ok [OF ok(4)] ok(3) by (simp add: indices_ok_def)
  then have "place d M (coord d L i) < 2 ^ 31" using place_less ok(2) less_trans unfolding layout_ok_def by blast
  then show ?thesis using permute_loop [OF ok(1,2), of "[]" L i 0] ok(3,4) sum by simp
qed

section \<open>Writing elements\<close>

text \<open>A loop that writes, for some of its indices, one element of the source to a place of its own.\<close>

definition put_elem :: "nat \<Rightarrow> bytes \<Rightarrow> (nat \<Rightarrow> (nat \<times> nat) option) \<Rightarrow> nat \<Rightarrow> bytes \<Rightarrow> bytes res" where
  "put_elem es inp f k out = (case f k of None \<Rightarrow> Inr out | Some (i, j) \<Rightarrow> copy_elem es inp (int i) (int j) out)"

lemma elem_fits: "j < n \<Longrightarrow> es * n \<le> len \<Longrightarrow> es * j + es \<le> (len :: nat)"
  using mult_le_mono2 [of "j + 1" n es] by (simp add: algebra_simps)

lemma elems_disjoint: "j \<noteq> k \<Longrightarrow> es * j + es \<le> es * k \<or> es * k + es \<le> es * (j :: nat)"
  using mult_le_mono2 [of "j + 1" k es] mult_le_mono2 [of "k + 1" j es] by (cases j k rule: linorder_cases) (auto simp: algebra_simps)

lemma put_elems:
  assumes "\<forall>k < m. \<forall>i j. f k = Some (i, j) \<longrightarrow> es * i + es \<le> length inp \<and> j < n"
    and "\<forall>k < m. \<forall>k' < m. \<forall>i i' j. f k = Some (i, j) \<and> f k' = Some (i', j) \<longrightarrow> k = k'" "es * n \<le> length out"
  shows "\<exists>out'. fold_res (put_elem es inp f) [0..<m] out = Inr out' \<and> length out' = length out \<and>
    (\<forall>k < m. \<forall>i j. f k = Some (i, j) \<longrightarrow> slice (es * j) es out' = slice (es * i) es inp) \<and>
    (\<forall>j < n. (\<forall>k < m. \<forall>i. f k \<noteq> Some (i, j)) \<longrightarrow> slice (es * j) es out' = slice (es * j) es out)"
  using assms
proof (induction m)
  case (Suc m)
  have p: "\<forall>k < m. \<forall>i j. f k = Some (i, j) \<longrightarrow> es * i + es \<le> length inp \<and> j < n"
      "\<forall>k < m. \<forall>k' < m. \<forall>i i' j. f k = Some (i, j) \<and> f k' = Some (i', j) \<longrightarrow> k = k'"
    using Suc.prems(1,2) by (meson less_SucI)+
  obtain o1 where o1: "fold_res (put_elem es inp f) [0..<m] out = Inr o1" "length o1 = length out"
      "\<And>k i j. k < m \<Longrightarrow> f k = Some (i, j) \<Longrightarrow> slice (es * j) es o1 = slice (es * i) es inp"
      "\<And>j. j < n \<Longrightarrow> \<forall>k < m. \<forall>i. f k \<noteq> Some (i, j) \<Longrightarrow> slice (es * j) es o1 = slice (es * j) es out"
    using Suc.IH [OF p Suc.prems(3)] by blast
  have step: "fold_res (put_elem es inp f) [0..<Suc m] out = put_elem es inp f m o1"
    using o1(1) by (simp add: fold_res_append res_bind_def split: sum.splits)
  show ?case
  proof (cases "f m")
    case None
    then have "put_elem es inp f m o1 = Inr o1" by (simp add: put_elem_def)
    with step o1 None show ?thesis by (auto simp: less_Suc_eq)
  next
    case (Some ij)
    then obtain i j where f: "f m = Some (i, j)" by (cases ij) auto
    have ij: "es * i + es \<le> length inp" "j < n" using Suc.prems(1) f by auto
    note fits = elem_fits [OF ij(2) Suc.prems(3)]
    let ?o = "overwrite (es * j) (slice (es * i) es inp) o1"
    have put: "put_elem es inp f m o1 = Inr ?o"
      using ij(1) fits o1(2) by (simp add: put_elem_def f copy_elem_def algebra_simps)
    have len: "length ?o = length out" using fits ij(1) o1(2) by simp
    have other: "slice (es * k) es ?o = slice (es * k) es o1" if "k < n" "k \<noteq> j" for k
      using elem_fits [OF that(1) Suc.prems(3)] elems_disjoint [OF that(2), of es] fits ij(1) o1(2)
      by (intro slice_overwrite_disjoint) auto
    have mine: "slice (es * j) es ?o = slice (es * i) es inp" using fits ij(1) o1(2) by simp
    have "slice (es * j') es ?o = slice (es * i') es inp" if "k < Suc m" "f k = Some (i', j')" for k i' j'
    proof (cases "k = m")
      case True
      then show ?thesis using that(2) f mine by simp
    next
      case False
      then have "k < m" "j' \<noteq> j" "j' < n" using that f Suc.prems(1,2) by (auto simp: less_Suc_eq)
      then show ?thesis using other o1(3) that(2) by simp
    qed
    moreover have "slice (es * j') es ?o = slice (es * j') es out" if "j' < n" "\<forall>k < Suc m. \<forall>i. f k \<noteq> Some (i, j')" for j'
      using that f other [of j'] o1(4) [of j'] by (auto simp: less_Suc_eq)
    ultimately show ?thesis using step put len by simp
  qed
qed simp

lemma fold_res_same: "(\<And>x s. x \<in> set xs \<Longrightarrow> f x s = g x s) \<Longrightarrow> fold_res f xs s = fold_res g xs s"
  by (rule fold_res_cong) auto

lemma clear_ok: "n \<le> length out \<Longrightarrow> \<exists>out'. clear (int n) out = Inr out' \<and> length out' = length out \<and> (\<forall>i < n. out' ! i = 0)"
  by (simp add: clear_def nth_overwrite)

section \<open>Permutation and padding\<close>

text \<open>What \<open>permuteDims\<close> does to the elements.\<close>

lemma permuteDims_moves:
  assumes ok: "layout_ok d L" "layout_ok d M" "set L = set M" and n: "n = volume d L"
    and a: "es * n \<le> length inp" "es * n \<le> length out" "0 < es"
  shows "\<exists>out'. permuteDims d L M inp out es = Inr out' \<and> length out' = length out \<and>
    (\<forall>idx. indices_ok d L idx \<longrightarrow> slice (es * place d M idx) es out' = slice (es * place d L idx) es inp)"
proof -
  have dist: "distinct L" "distinct M" using ok(1,2) by (simp_all add: layout_ok_def)
  then have len: "length L = length M" using ok(3) by (metis distinct_card)
  have vol: "volume d M = n"
    using volume_perm [OF dist ok(3)] by (simp add: n)
  have nl: "n \<le> length out" using a(2,3) by (metis le_trans mult.commute nat_mult_le_cancel_disj mult.right_neutral Suc_leI One_nat_def)
  obtain o1 where o1: "clear (int n) out = Inr o1" "length o1 = length out" using clear_ok [OF nl] by blast
  define f where "f = (\<lambda>i. Some (i, place d M (coord d L i)))"
  have ind: "indices_ok d M (coord d L i)" if "i < n" for i
    using coord_indices_ok [of i d L] that ok(3) by (simp add: indices_ok_def n)
  have coords: "coord d M (place d M (coord d L i)) x = coord d L i x" if "i < n" "x \<in> set L" for i x
    using coord_place [OF ind [OF that(1)] dist(2)] that(2) ok(3) by simp
  have inj: "i = k" if fst: "i < n" and snd: "k < n" and eq: "place d M (coord d L i) = place d M (coord d L k)" for i k
  proof -
    have "coord d L i x = coord d L k x" if "x \<in> set L" for x using coords [OF fst that] coords [OF snd that] eq by simp
    then have "place d L (coord d L i) = place d L (coord d L k)" by (rule place_cong)
    then show ?thesis using place_coord [OF _ dist(1)] fst snd by (simp add: n)
  qed
  have src: "\<forall>k < n. \<forall>i j. f k = Some (i, j) \<longrightarrow> es * i + es \<le> length inp \<and> j < n"
    using elem_fits [OF _ a(1)] place_less [OF ind] vol by (simp add: f_def)
  have tgt: "\<forall>k < n. \<forall>k' < n. \<forall>i i' j. f k = Some (i, j) \<and> f k' = Some (i', j) \<longrightarrow> k = k'" using inj by (auto simp: f_def)
  have room: "es * n \<le> length o1" using a(2) o1(2) by simp
  obtain o2 where o2: "fold_res (put_elem es inp f) [0..<n] o1 = Inr o2" "length o2 = length o1"
      "\<forall>k < n. \<forall>i j. f k = Some (i, j) \<longrightarrow> slice (es * j) es o2 = slice (es * i) es inp"
    using put_elems [OF src tgt room] by blast
  have "fold_res (\<lambda>i outarray. res_bind (fold_res (permute_axis d L M) L (int i, 0)) (\<lambda>(_, outindex).
      if -1 < outindex then copy_elem es inp (int i) outindex outarray else Inr outarray)) [0..<n] o1
    = fold_res (put_elem es inp f) [0..<n] o1"
  proof (rule fold_res_same)
    fix i s assume "i \<in> set [0..<n]"
    then obtain r where "fold_res (permute_axis d L M) L (int i, 0) = Inr (r, int (place d M (coord d L i)))"
      using permute_place [OF ok, of i] by (auto simp: n)
    then show "res_bind (fold_res (permute_axis d L M) L (int i, 0)) (\<lambda>(_, outindex).
        if -1 < outindex then copy_elem es inp (int i) outindex s else Inr s) = put_elem es inp f i s"
      by (simp add: put_elem_def f_def)
  qed
  then have "permuteDims d L M inp out es = Inr o2"
    using len o1(1) o2(1) tensorElements_volume [OF ok(1)] tensorElements_volume [OF ok(2)] vol by (simp add: permuteDims_def n)
  moreover have "slice (es * place d M idx) es o2 = slice (es * place d L idx) es inp" if "indices_ok d L idx" for idx
  proof -
    have "place d L idx < n" using place_less [OF that] n by simp
    moreover have "place d M (coord d L (place d L idx)) = place d M idx"
      using coord_place [OF that dist(1)] ok(3) by (intro place_cong) simp
    ultimately show ?thesis using o2(3) by (auto simp: f_def)
  qed
  ultimately show ?thesis using o1(2) o2(2) by (intro exI [of _ o2]) simp
qed

lemma permuteDims_small:
  assumes "layout_ok d L" "layout_ok d M" "set L = set M" "length out < volume d L"
  shows "permuteDims d L M inp out es = Inl OutOfBounds"
proof -
  have dist: "distinct L" "distinct M" using assms(1,2) by (simp_all add: layout_ok_def)
  then have "length L = length M" using assms(3) by (metis distinct_card)
  then show ?thesis
    using tensorElements_volume [OF assms(1)] tensorElements_volume [OF assms(2)] volume_perm [OF dist assms(3)] assms(4)
    by (simp add: permuteDims_def clear_def guard_bounds_def)
qed

lemma slices_eqI:
  assumes "length xs = es * n" "length ys = es * n" "\<And>i. i < n \<Longrightarrow> slice (es * i) es xs = slice (es * i) es ys"
  shows "xs = ys"
proof (rule nth_equalityI)
  fix k assume "k < length xs"
  then have k: "k < es * n" "0 < es" using assms(1) by (auto intro: gr0I)
  then have i: "k div es < n" "k mod es < es" "es * (k div es) + k mod es = k" by (simp_all add: less_mult_imp_div_less mult.commute)
  note f = elem_fits [OF i(1) order_refl, of es]
  have "slice (es * (k div es)) es xs ! (k mod es) = slice (es * (k div es)) es ys ! (k mod es)" using assms(3) [OF i(1)] by simp
  then show "xs ! k = ys ! k" using i f assms(1,2) by (simp add: nth_slice)
qed (simp add: assms)

text \<open>C34: storing a tensor in another order of its dimensions and back restores it: for two layouts of the same dimensions, of positive
  sizes and fewer than \<open>2\<^sup>31\<close> elements, both calls of \<open>permuteDims\<close> succeed, the first one moves the element at every tuple of
  indices from its place in the first layout to its place in the second, and the second one returns the original array.\<close>

theorem permute_roundtrip:
  assumes "layout_ok d L" "layout_ok d M" "set L = set M" "0 < es"
    and "length inp = es * volume d L" "length buf = es * volume d L" "length buf' = es * volume d L"
  shows "\<exists>mid. permuteDims d L M inp buf es = Inr mid \<and> permuteDims d M L mid buf' es = Inr inp \<and>
    (\<forall>idx. indices_ok d L idx \<longrightarrow> slice (es * place d M idx) es mid = slice (es * place d L idx) es inp)"
proof -
  obtain mid where mid: "permuteDims d L M inp buf es = Inr mid" "length mid = length buf"
      "\<forall>idx. indices_ok d L idx \<longrightarrow> slice (es * place d M idx) es mid = slice (es * place d L idx) es inp"
    using permuteDims_moves [OF assms(1-3) refl, of es inp buf] assms(4-6) by auto
  have dist: "distinct L" "distinct M" using assms(1,2) by (simp_all add: layout_ok_def)
  note vol = volume_perm [OF dist assms(3)]
  obtain out where out: "permuteDims d M L mid buf' es = Inr out" "length out = length buf'"
      "\<forall>idx. indices_ok d M idx \<longrightarrow> slice (es * place d L idx) es out = slice (es * place d M idx) es mid"
    using permuteDims_moves [OF assms(2,1) assms(3) [symmetric] refl, of es mid buf'] assms(4-7) mid(2) vol by auto
  have "out = inp"
  proof (rule slices_eqI)
    fix i assume i: "i < volume d L"
    then have w: "indices_ok d L (coord d L i)" "indices_ok d M (coord d L i)" using coord_indices_ok [of i d L] assms(3) by (auto simp: indices_ok_def)
    then show "slice (es * i) es out = slice (es * i) es inp"
      using out(3) mid(3) place_coord [OF i dist(1)] by force
  qed (use out(2) assms(5,7) in simp_all)
  with mid out(1) show ?thesis by blast
qed

definition ex_dims :: dims where
  "ex_dims = [''H'' \<mapsto> 2, ''W'' \<mapsto> 3, ''C'' \<mapsto> 2]"

theorem permute_roundtrip_witness:
  "\<exists>mid. permuteDims ex_dims [''H'', ''W'', ''C''] [''C'', ''H'', ''W''] (map word_of_nat [0..<12]) (replicate 12 0) 1 = Inr mid \<and>
    permuteDims ex_dims [''C'', ''H'', ''W''] [''H'', ''W'', ''C''] mid (replicate 12 0) 1 = Inr (map word_of_nat [0..<12])"
proof -
  have "layout_ok ex_dims [''H'', ''W'', ''C'']" "layout_ok ex_dims [''C'', ''H'', ''W'']" "volume ex_dims [''H'', ''W'', ''C''] = 12"
    by (simp_all add: layout_ok_def ex_dims_def dim_of_def dim_size_def)
  then show ?thesis
    using permute_roundtrip [of ex_dims "[''H'', ''W'', ''C'']" "[''C'', ''H'', ''W'']" 1 "map word_of_nat [0..<12]" "replicate 12 0" "replicate 12 0"]
    by (auto simp: insert_commute)
qed

text \<open>\<open>padData\<close>: the destination has the dimensions of the source under other names, none of them smaller.\<close>

lemma pad_loop:
  assumes ok: "layout_ok d S" "layout_ok d T" "T = map rn S" "S = pre @ xs" "rem < volume d (map rn xs)" "acc + volume d xs \<le> volume d S"
  shows "pad_index d S T (zip xs (map rn xs)) (int rem) (int acc) =
    Inr (if \<forall>s \<in> set xs. coord d (map rn xs) rem (rn s) < dim_size d s then Some (int (acc + place d xs (\<lambda>s. coord d (map rn xs) rem (rn s)))) else None)"
  using ok(4-6)
proof (induction xs arbitrary: pre rem acc)
  case (Cons s xs)
  have S: "s \<in> set S" "distinct S" "\<forall>x \<in> set S. 0 < dim_of d x" "volume d S < 2 ^ 31" using ok(1) Cons.prems(1) by (auto simp: layout_ok_def)
  have T: "rn s \<in> set T" "distinct T" "\<forall>x \<in> set T. 0 < dim_of d x" "volume d T < 2 ^ 31" using ok(2,3) Cons.prems(1) by (auto simp: layout_ok_def)
  have nin: "s \<notin> set pre" "rn s \<notin> set (map rn pre)" "rn s \<notin> set (map rn xs)" using S(2) T(2) ok(3) Cons.prems(1) by auto
  let ?ys = "map rn xs" let ?v = "volume d ?ys" let ?q = "rem div ?v" let ?w = "volume d xs"
  have v: "0 < ?v" using T(3) ok(3) Cons.prems(1) by (intro volume_pos) simp
  have "volume d (map rn (s # xs)) \<le> volume d T"
    using volume_pos [of "map rn pre" d] T(3) ok(3) Cons.prems(1) by simp
  then have rem: "rem < 2 ^ 31" using Cons.prems(2) T(4) by simp
  have gT: "getDimStep d T (rn s) = Inr (int ?v)"
    using getDimStep_weight [OF ok(2) T(1)] weight_split [OF nin(2), of d ?ys] ok(3) Cons.prems(1) by simp
  have gS: "getDimStep d S s = Inr (int ?w)"
    using getDimStep_weight [OF ok(1) S(1)] weight_split [OF nin(1), of d xs] Cons.prems(1) by simp
  have c: "coord d (map rn (s # xs)) rem (rn x) = coord d ?ys (rem mod ?v) (rn x)" if "x \<in> set xs" for x
  proof -
    have "rn x \<noteq> rn s" using nin(3) that by (metis imageI list.set_map)
    then show ?thesis by simp
  qed
  have iff: "dim_of d s \<le> int ?q \<longleftrightarrow> \<not> ?q < dim_size d s" using S(1,3) by (auto simp: dim_size_def)
  show ?case
  proof (cases "?q < dim_size d s")
    case False
    then show ?thesis using gT iff rem v by (simp add: int_div_nat)
  next
    case True
    have "(?q + 1) * ?w \<le> dim_size d s * ?w" using True by (intro mult_le_mono1) simp
    then have acc: "acc + ?q * ?w + ?w \<le> volume d S" using Cons.prems(3) by simp
    have pl: "acc + ?q * ?w + place d xs (\<lambda>x. coord d (map rn (s # xs)) rem (rn x)) = acc + place d (s # xs) (\<lambda>x. coord d (map rn (s # xs)) rem (rn x))"
      by simp
    have "c_int (int ?q * int ?w) = Inr (int (?q * ?w))" "c_int (int acc + int (?q * ?w)) = Inr (int (acc + ?q * ?w))"
      using acc S(4) c_int_nat [of "?q * ?w"] c_int_nat [of "acc + ?q * ?w"] by simp_all
    moreover have "int rem - int ?q * int ?v = int (rem mod ?v)" by (simp add: minus_div_mult_eq_mod zdiv_int zmod_int)
    ultimately have "pad_index d S T (zip (s # xs) (map rn (s # xs))) (int rem) (int acc) =
        pad_index d S T (zip xs ?ys) (int (rem mod ?v)) (int (acc + ?q * ?w))"
      using gT gS iff True rem v by (simp add: int_div_nat)
    also have "\<dots> = Inr (if \<forall>x \<in> set xs. coord d ?ys (rem mod ?v) (rn x) < dim_size d x
        then Some (int (acc + ?q * ?w + place d xs (\<lambda>x. coord d ?ys (rem mod ?v) (rn x)))) else None)"
      using Cons.prems(1) v acc by (intro Cons.IH [of "pre @ [s]"]) simp_all
    also have "place d xs (\<lambda>x. coord d ?ys (rem mod ?v) (rn x)) = place d xs (\<lambda>x. coord d (map rn (s # xs)) rem (rn x))"
      using c by (intro place_cong) simp
    also have "(\<forall>x \<in> set xs. coord d ?ys (rem mod ?v) (rn x) < dim_size d x) \<longleftrightarrow>
        (\<forall>x \<in> set (s # xs). coord d (map rn (s # xs)) rem (rn x) < dim_size d x)"
      using c True by auto
    finally show ?thesis unfolding pl .
  qed
qed simp

lemma padData_fills:
  assumes ok: "layout_ok d S" "layout_ok d T" "T = map rn S" "\<forall>s \<in> set S. string_le s (rn s)"
    and a: "volume d S \<le> length inp" "volume d T \<le> length out"
  shows "\<exists>out'. padData d S T inp out 1 = Inr out' \<and> length out' = length out \<and>
    (\<forall>idx. indices_ok d T idx \<longrightarrow> out' ! place d T idx =
       (if \<forall>s \<in> set S. idx (rn s) < dim_size d s then inp ! place d S (\<lambda>s. idx (rn s)) else 0))"
proof -
  let ?n = "volume d T"
  have dist: "distinct S" "distinct T" using ok(1,2) by (simp_all add: layout_ok_def)
  obtain o1 where o1: "clear (int ?n) out = Inr o1" "length o1 = length out" "\<forall>i < ?n. o1 ! i = 0" using clear_ok [OF a(2)] by blast
  define sidx where "sidx = (\<lambda>k s. coord d T k (rn s))"
  define f where "f = (\<lambda>k. if indices_ok d S (sidx k) then Some (place d S (sidx k), k) else None)"
  have src: "\<forall>k < ?n. \<forall>i j. f k = Some (i, j) \<longrightarrow> 1 * i + 1 \<le> length inp \<and> j < ?n"
    using place_less [of d S] a(1) by (fastforce simp: f_def split: if_splits)
  have tgt: "\<forall>k < ?n. \<forall>k' < ?n. \<forall>i i' j. f k = Some (i, j) \<and> f k' = Some (i', j) \<longrightarrow> k = k'" by (auto simp: f_def split: if_splits)
  obtain o2 where o2: "fold_res (put_elem 1 inp f) [0..<?n] o1 = Inr o2" "length o2 = length o1"
      "\<forall>k < ?n. \<forall>i j. f k = Some (i, j) \<longrightarrow> slice (1 * j) 1 o2 = slice (1 * i) 1 inp"
      "\<forall>j < ?n. (\<forall>k < ?n. \<forall>i. f k \<noteq> Some (i, j)) \<longrightarrow> slice (1 * j) 1 o2 = slice (1 * j) 1 o1"
    using put_elems [OF src tgt, of o1] a(2) o1(2) by auto
  have index: "pad_index d S T (zip S T) (int k) 0 = Inr (map_option (\<lambda>(i, j). int i) (f k))" if "k < ?n" for k
    using pad_loop [OF ok(1-3), of "[]" S k 0] that ok(3) by (simp add: f_def sidx_def indices_ok_def)
  have "padData d S T inp out 1 = fold_res (put_elem 1 inp f) [0..<?n] o1"
  proof -
    have "list_all (\<lambda>(s, t). string_le s t) (zip S T)" using ok(3,4) by (auto simp: list_all_length)
    then have "padData d S T inp out 1 = fold_res (\<lambda>outid outarray. res_bind (pad_index d S T (zip S T) (int outid) 0)
        (\<lambda>inpindex. case inpindex of None \<Rightarrow> Inr outarray | Some i \<Rightarrow> copy_elem 1 inp i (int outid) outarray)) [0..<?n] o1"
      using o1(1) tensorElements_volume [OF ok(2)] ok(3) by (simp add: padData_def del: One_nat_def)
    also have "\<dots> = fold_res (put_elem 1 inp f) [0..<?n] o1"
      by (rule fold_res_same) (auto simp: index put_elem_def f_def)
    finally show ?thesis .
  qed
  moreover have "o2 ! place d T idx = (if \<forall>s \<in> set S. idx (rn s) < dim_size d s then inp ! place d S (\<lambda>s. idx (rn s)) else 0)"
    if w: "indices_ok d T idx" for idx
  proof -
    let ?k = "place d T idx"
    have k: "?k < ?n" "?k < length o2" using place_less [OF w] a(2) o1(2) o2(2) by simp_all
    have c: "sidx ?k s = idx (rn s)" if "s \<in> set S" for s using coord_place [OF w dist(2)] that ok(3) by (simp add: sidx_def)
    then have ws: "indices_ok d S (sidx ?k) \<longleftrightarrow> (\<forall>s \<in> set S. idx (rn s) < dim_size d s)" by (simp add: indices_ok_def)
    have one: "slice j 1 xs = [xs ! j]" if "j < length xs" for j and xs :: bytes
      using that by (simp add: slice_def take_Suc hd_drop_conv_nth)
    show ?thesis
    proof (cases "indices_ok d S (sidx ?k)")
      case True
      have "place d S (sidx ?k) = place d S (\<lambda>s. idx (rn s))" by (rule place_cong [OF c])
      then have "f ?k = Some (place d S (\<lambda>s. idx (rn s)), ?k)" using True by (simp add: f_def)
      moreover from this have "place d S (\<lambda>s. idx (rn s)) < length inp" using src k(1) by auto
      moreover from this have "slice ?k 1 o2 = slice (place d S (\<lambda>s. idx (rn s))) 1 inp" using o2(3) k(1) calculation(1) by (metis mult_1)
      ultimately show ?thesis using one [OF k(2)] one [of "place d S (\<lambda>s. idx (rn s))" inp] ws True by simp
    next
      case False
      then have "\<forall>k' < ?n. \<forall>i. f k' \<noteq> Some (i, ?k)" by (auto simp: f_def)
      then have "slice ?k 1 o2 = slice ?k 1 o1" using o2(4) k(1) by auto
      then show ?thesis using one [of ?k o2] one [of ?k o1] k o1(3) o2(2) ws False by auto
    qed
  qed
  ultimately show ?thesis using o1(2) o2(1,2) by (intro exI [of _ o2]) simp
qed

end
