(* ===== verification/Gemm_Conv.thy ===== *)
theory Gemm_Conv
  imports Gemm_Layout Delegate_Add
begin

text \<open>
  The convolution of the delegate (\<open>VTAGEMMOp\<close> in \<open>vta-delegate-ops.cpp\<close>): its constructor, the preparation of the
  arrays, the limits of the on-chip memories, the stream of commands and the operation \<open>gemmConv2D\<close> as a whole. The
  operation is unfinished and \<open>IsNodeSupportedByDelegate\<close> keeps it from being used. The variable \<open>wo\<close> of the innermost
  loop of \<open>gemmcomp\<close> is not initialised: the value it happens to hold is a parameter. A quotient of floats that is
  rounded down is the quotient of the integers, which are below \<open>2\<^sup>24\<close> or give a quotient below one.

  Shown: how the input lies in blocks after padding and permutation; that no convolution succeeds.
\<close>

section \<open>The operation\<close>

definition fp_mul :: "fp \<Rightarrow> fp \<Rightarrow> fp" where
  "fp_mul x y = (let p = fmant x * fmant y in
     if 2 ^ 105 \<le> p then \<lparr>fmant = round_even p (2 ^ 53), fexp = fexp x + fexp y\<rparr>
     else \<lparr>fmant = round_even p (2 ^ 52), fexp = fexp x + fexp y - 1\<rparr>)"

record VTAGEMMOp =
  inputquant :: QuantizationData
  filtersquant :: "QuantizationData list"
  shifts :: "u32 list"
  multipliers :: "u32 list"
  outputquant_g :: QuantizationData

definition channel_quant :: "fp \<Rightarrow> fp \<Rightarrow> fp list \<Rightarrow> nat \<Rightarrow> QuantizationData res" where
  "channel_quant input_scale output_scale filter_scales chan =
    res_bind (nth_res filter_scales (if 1 < length filter_scales then chan else 0)) (\<lambda>wgtscale.
    res_bind (computeQuantizationParameters (fp_div (fp_mul input_scale wgtscale) output_scale)) (\<lambda>(m, s).
    Inr \<lparr>q_offset = 0, q_shift = s, q_multiplier = m\<rparr>))"

text \<open>\<open>filter_scales\<close> are the scales of the weights, if they have affine quantisation.\<close>

definition new_VTAGEMMOp :: "tensor_params \<Rightarrow> fp list option \<Rightarrow> tensor_params \<Rightarrow> nat \<Rightarrow> VTAGEMMOp res" where
  "new_VTAGEMMOp inp filter_scales out num_channels =
    (case filter_scales of None \<Rightarrow> Inl (CheckFailed ''affine_quantization'')
     | Some fs \<Rightarrow>
         res_bind (fold_res (\<lambda>chan qs. res_bind (channel_quant (scale inp) (scale out) fs chan) (\<lambda>q. Inr (qs @ [q])))
           [0..<num_channels] []) (\<lambda>qs.
         Inr \<lparr>inputquant = \<lparr>q_offset = - zero_point inp, q_shift = 0, q_multiplier = 0\<rparr>, filtersquant = qs,
              shifts = map (\<lambda>q. scast (q_shift q)) qs, multipliers = map (\<lambda>q. scast (q_multiplier q)) qs,
              outputquant_g = \<lparr>q_offset = zero_point out, q_shift = 0, q_multiplier = 0\<rparr>\<rparr>))"

section \<open>Dimensions and arrays\<close>

record conv_tensors =
  inp_dims :: "int list"
  wgt_dims :: "int list"
  out_dims :: "int list"
  inp_data :: bytes
  wgt_data :: bytes
  bias_data :: bytes
  out_data :: bytes

definition outer_dim :: "string \<Rightarrow> nat \<Rightarrow> dims \<Rightarrow> int res" where
  "outer_dim name block d = res_bind (c_int (dim_of d name + int block)) (\<lambda>s. int_div (s - 1) (int block))"

definition product_dim :: "string \<Rightarrow> string \<Rightarrow> string \<Rightarrow> dims \<Rightarrow> dims res" where
  "product_dim name a b d = res_bind (c_int (dim_of d a * dim_of d b)) (\<lambda>v. Inr (setDim name v d))"

definition tensor_dims :: "conv_tensors \<Rightarrow> dims \<Rightarrow> dims res" where
  "tensor_dims t d =
    res_bind (guard_bounds (3 < length (inp_dims t) \<and> 3 < length (out_dims t) \<and> 2 < length (wgt_dims t))) (\<lambda>_.
    Inr (fold (\<lambda>(name, v). setDim name v)
      [(''N'', inp_dims t ! 0), (''H'', inp_dims t ! 1), (''W'', inp_dims t ! 2), (''I'', inp_dims t ! 3),
       (''Ho'', out_dims t ! 1), (''Wo'', out_dims t ! 2), (''O'', out_dims t ! 3),
       (''Hk'', wgt_dims t ! 1), (''Wk'', wgt_dims t ! 2),
       (''Ni'', int VTA_BATCH), (''Ii'', int VTA_BLOCK_IN), (''Oi'', int VTA_BLOCK_OUT),
       (''paddingH'', 0), (''paddingW'', 0), (''strideH'', 1), (''strideW'', 1)] d))"

definition conv_dims :: "conv_tensors \<Rightarrow> dims \<Rightarrow> dims res" where
  "conv_dims t d =
    res_bind (tensor_dims t (resetDims d)) (\<lambda>d.
    res_bind (outer_dim ''N'' VTA_BATCH d) (\<lambda>no.
    res_bind (outer_dim ''I'' VTA_BLOCK_IN d) (\<lambda>io.
    res_bind (outer_dim ''O'' VTA_BLOCK_OUT d) (\<lambda>oo.
    let d = setDim ''Oo'' oo (setDim ''Io'' io (setDim ''No'' no d)) in
    res_bind (product_dim ''Naligned'' ''No'' ''Ni'' d) (\<lambda>d.
    res_bind (product_dim ''Ialigned'' ''Io'' ''Ii'' d) (\<lambda>d.
    res_bind (product_dim ''Oaligned'' ''Oo'' ''Oi'' d) (\<lambda>d.
    res_bind (c_int (dim_of d ''W'' + 2 * dim_of d ''paddingW'')) (\<lambda>w.
    Inr (setDim ''Wpadded'' w d)))))))))"

text \<open>A vector of bytes with the size of a layout, and \<open>resize\<close>. A negative size is converted to a huge one and throws.\<close>

definition resized :: "dims \<Rightarrow> layout \<Rightarrow> bytes \<Rightarrow> bytes res" where
  "resized d layout v = res_bind (tensorElements d layout) (\<lambda>n.
    if n < 0 then Inl (Aborted ''std::length_error'') else Inr (take (nat n) v @ replicate (nat n - length v) 0))"

definition conv_input :: "dims \<Rightarrow> bytes \<Rightarrow> (bytes \<times> bytes) res" where
  "conv_input d inp =
    res_bind (resized d [''Naligned'', ''Ialigned'', ''H'', ''W''] []) (\<lambda>tmp.
    res_bind (padData d [''N'', ''I'', ''H'', ''W''] [''Naligned'', ''Ialigned'', ''H'', ''W''] inp tmp 1) (\<lambda>tmp.
    res_bind (permuteDims d [''No'', ''Ni'', ''Io'', ''Ii'', ''H'', ''W''] [''No'', ''Io'', ''H'', ''W'', ''Ni'', ''Ii'']
      tmp (replicate (length inp) 0) 1) (\<lambda>inparray. Inr (tmp, inparray))))"

definition conv_weights :: "dims \<Rightarrow> bytes \<Rightarrow> bytes \<Rightarrow> bytes res" where
  "conv_weights d tmp wgt =
    res_bind (resized d [''Oaligned'', ''Ialigned'', ''H'', ''W''] tmp) (\<lambda>tmp.
    res_bind (padData d [''O'', ''I'', ''Hk'', ''Wk''] [''Oaligned'', ''Ialigned'', ''Hk'', ''Wk''] wgt tmp 1) (\<lambda>tmp.
    permuteDims d [''Oo'', ''Oi'', ''Io'', ''Ii'', ''H'', ''W''] [''Oo'', ''Io'', ''H'', ''W'', ''Oi'', ''Ii'']
      tmp (replicate (length wgt) 0) 1))"

definition conv_bias :: "dims \<Rightarrow> bytes \<Rightarrow> bytes res" where
  "conv_bias d bias =
    res_bind (resized d [''Oaligned''] []) (\<lambda>biasarray.
    padData d [''O''] [''Oaligned''] bias biasarray 4)"

section \<open>Limits of the memories\<close>

definition floor_quotient :: "int \<Rightarrow> int \<Rightarrow> int res" where
  "floor_quotient a b = (if b = 0 then Inl (Undefined ''conversion of infinity'') else Inr (a div b))"

record conv_limits =
  maxinprows :: int
  maxoutchannels :: int
  maxoutrows :: int

definition limits :: "dims \<Rightarrow> conv_limits res" where
  "limits d =
    res_bind (floor_quotient (int VTA_INP_BUFF_DEPTH) (dim_of d ''Wpadded'')) (\<lambda>rows.
    res_bind (tensorElements d [''Io'', ''Wk'', ''Hk'']) (\<lambda>kernel.
    res_bind (floor_quotient (int VTA_WGT_BUFF_DEPTH) kernel) (\<lambda>chans.
    res_bind (c_int (chans * dim_of d ''Wo'')) (\<lambda>p.
    res_bind (c_int (p + 3 * chans)) (\<lambda>s.
    res_bind (floor_quotient (int VTA_ACC_BUFF_DEPTH) s) (\<lambda>outrows.
    Inr \<lparr>maxinprows = rows, maxoutchannels = chans, maxoutrows = outrows\<rparr>))))))"

definition storefailure :: "dims \<Rightarrow> conv_limits \<Rightarrow> bool" where
  "storefailure d l = (maxinprows l = 0 \<or> maxinprows l < dim_of d ''Hk'' \<or> maxoutchannels l = 0 \<or> maxoutrows l = 0)"

section \<open>Kernels\<close>

definition VTA_UOP_GEMM :: u32 where "VTA_UOP_GEMM = 0"

type_synonym loop_arg = "int \<times> int \<times> int \<times> int"

text \<open>A lambda with two nested loops around a sequence of micro-ops: mode, reset flag, the three indices and the opcode.\<close>

definition record_kernel ::
  "loop_arg \<Rightarrow> loop_arg \<Rightarrow> (u32 \<times> u32 \<times> int \<times> int \<times> int \<times> u32) list \<Rightarrow> UopKernel \<Rightarrow> (int \<times> UopKernel) res" where
  "record_kernel = (\<lambda>(e0, d0, s0, w0) (e1, d1, s1, w1) uops k.
    res_bind (PushLoopBegin (word_of_int e0) (word_of_int d0) (word_of_int s0) (word_of_int w0) k) (\<lambda>k.
    res_bind (PushLoopBegin (word_of_int e1) (word_of_int d1) (word_of_int s1) (word_of_int w1) k) (\<lambda>k.
    res_bind (fold_res (\<lambda>(mode, reset_out, dst, src, wgt, opc). Uop_Push mode reset_out (word_of_int dst) (word_of_int src)
      (word_of_int wgt) opc 0 0) uops k) (\<lambda>k.
    Inr (0, PushLoopEnd (PushLoopEnd k))))))"

definition gemmreset :: "int \<Rightarrow> int \<Rightarrow> int \<Rightarrow> int \<Rightarrow> UopKernel \<Rightarrow> (int \<times> UopKernel) res" where
  "gemmreset accshift curroutchannels rowstoprocess Wo =
    record_kernel (curroutchannels, rowstoprocess * Wo, 0, 0) (rowstoprocess, Wo, 0, 0)
      (map (\<lambda>wo. (VTA_UOP_GEMM, 1, accshift + wo, 0, 0, 0)) [0..Wo - 1])"

text \<open>\<open>wo0 hk wk\<close> is the value that the uninitialised variable holds when the innermost loop starts.\<close>

definition gemmcomp :: "(int \<Rightarrow> int \<Rightarrow> int) \<Rightarrow> int \<Rightarrow> int \<Rightarrow> int \<Rightarrow> dims \<Rightarrow> UopKernel \<Rightarrow> (int \<times> UopKernel) res" where
  "gemmcomp wo0 accshift curroutchannels rowstoprocess d =
    (let Wo = dim_of d ''Wo''; Hk = dim_of d ''Hk''; Wk = dim_of d ''Wk''; Wpadded = dim_of d ''Wpadded'' in
     record_kernel (curroutchannels, rowstoprocess * Wo, 0, Hk * Wk) (rowstoprocess, Wo, Wpadded, 0)
       (concat (map (\<lambda>hk. concat (map (\<lambda>wk. map (\<lambda>wo.
          (VTA_UOP_GEMM, 0, accshift + wo, hk * Wpadded + wo + wk, hk * Wk + wk, 0)) [wo0 hk wk..Wo - 1]) [0..Wk - 1])) [0..Hk - 1])))"

text \<open>\<open>addbiasfun\<close>, \<open>multfun\<close> and \<open>shrfun\<close> differ in the source and the opcode only.\<close>

definition channel_alu :: "int \<Rightarrow> u32 \<Rightarrow> int \<Rightarrow> int \<Rightarrow> int \<Rightarrow> int \<Rightarrow> UopKernel \<Rightarrow> (int \<times> UopKernel) res" where
  "channel_alu src opc accshift curroutchannels rowstoprocess Wo =
    record_kernel (curroutchannels, rowstoprocess * Wo, 1, 0) (rowstoprocess, Wo, 0, 0)
      (map (\<lambda>wo. (VTA_UOP_ALU, 0, accshift + wo, src, 0, opc)) [0..Wo - 1])"

definition push_gemm :: "'m driver \<Rightarrow> VTAGemInsn \<Rightarrow> u64 \<Rightarrow> (UopKernel \<Rightarrow> (int \<times> UopKernel) res) \<Rightarrow> 'm runtime \<Rightarrow> 'm runtime res" where
  "push_gemm drv junk a finit r = VTAPushGEMMOp drv junk a finit [] (r\<lparr>kmaps := (kmaps r)(a := None)\<rparr>)"

section \<open>The stream of commands\<close>

record conv_buffers =
  inpbuf :: u64
  wgtbuf :: u64
  biasbuf :: u64
  multiplierbuf :: u64
  shiftbuf :: u64
  outbuf :: u64
  map_var :: u64

record conv_plan =
  plan_dims :: dims
  plan_limits :: conv_limits
  kernelsize :: int
  kernelparamsperoutputchannel :: int
  singleinputsize :: int
  singleoutputsize :: int
  singleoutputchannelsize :: int
  singleinputchannelsize :: int

definition new_plan :: "dims \<Rightarrow> conv_limits \<Rightarrow> conv_plan res" where
  "new_plan d l =
    res_bind (tensorElements d [''Hk'', ''Wk'']) (\<lambda>ks.
    res_bind (tensorElements d [''Hk'', ''Wk'', ''Io'']) (\<lambda>kp.
    res_bind (tensorElements d [''H'', ''W'', ''Io'']) (\<lambda>si.
    res_bind (tensorElements d [''H'', ''Wpadded'', ''Io'']) (\<lambda>_.
    res_bind (tensorElements d [''Ho'', ''Wo'', ''Oo'']) (\<lambda>so.
    res_bind (tensorElements d [''Ho'', ''Wo'']) (\<lambda>soc.
    res_bind (tensorElements d [''H'', ''Wpadded'']) (\<lambda>sic.
    Inr \<lparr>plan_dims = d, plan_limits = l, kernelsize = ks, kernelparamsperoutputchannel = kp, singleinputsize = si,
         singleoutputsize = so, singleoutputchannelsize = soc, singleinputchannelsize = sic\<rparr>)))))))"

definition rowsperthread :: "conv_limits \<Rightarrow> int" where
  "rowsperthread l = (let maxnumrows = min (maxinprows l) (maxoutrows l);
     numthreads = (if 0 < c_div maxnumrows (int NUM_THREADS) then int NUM_THREADS else 1) in c_div maxnumrows numthreads)"

definition biasmultiplieraccshift :: "conv_plan \<Rightarrow> int" where
  "biasmultiplieraccshift p = 3 * maxoutchannels (plan_limits p)"

text \<open>An argument of type \<open>uint32_t\<close> computed in \<open>int\<close>. The operands are not negative, so that an overflow of a part is one of
  the whole.\<close>

definition arg :: "int \<Rightarrow> u32 res" where
  "arg v = res_bind (c_int v) (\<lambda>v. Inr (word_of_int v))"

definition conv_ichan ::
  "'m driver \<Rightarrow> VTAGemInsn \<Rightarrow> (int \<Rightarrow> int \<Rightarrow> int) \<Rightarrow> conv_buffers \<Rightarrow> conv_plan \<Rightarrow> int \<Rightarrow> int \<Rightarrow> int \<Rightarrow> int \<Rightarrow> int \<Rightarrow> int \<Rightarrow> int
   \<Rightarrow> 'm runtime \<Rightarrow> 'm runtime res" where
  "conv_ichan drv junk wo0 b p No curroutchannels rowid rowstoprocess ypadbefore ypadafter ichanid r =
    (let d = plan_dims p in
     res_bind (VTADepPush kComputeStage kLoadStage r) (\<lambda>r.
     res_bind (VTADepPop kComputeStage kLoadStage r) (\<lambda>r.
     res_bind (arg (No * singleinputsize p + ichanid * singleinputchannelsize p + rowid * dim_of d ''W'')) (\<lambda>off.
     res_bind (LoadBuffer2D drv junk (inpbuf b) off (word_of_int (dim_of d ''W'')) (word_of_int rowstoprocess)
       (word_of_int (dim_of d ''strideW'')) (word_of_int (dim_of d ''paddingW'')) (word_of_int ypadbefore)
       (word_of_int (dim_of d ''paddingW'')) (word_of_int ypadafter) 0 (ucast VTA_MEM_ID_INP) r) (\<lambda>r.
     res_bind (VTADepPush kLoadStage kComputeStage r) (\<lambda>r.
     res_bind (VTADepPop kLoadStage kComputeStage r) (\<lambda>r.
     push_gemm drv junk (map_var b) (gemmcomp wo0 (biasmultiplieraccshift p) curroutchannels rowstoprocess d) r)))))))"

definition conv_row ::
  "'m driver \<Rightarrow> VTAGemInsn \<Rightarrow> (int \<Rightarrow> int \<Rightarrow> int) \<Rightarrow> conv_buffers \<Rightarrow> conv_plan \<Rightarrow> int \<Rightarrow> int \<Rightarrow> int \<Rightarrow> int \<Rightarrow> 'm runtime \<Rightarrow> 'm runtime res" where
  "conv_row drv junk wo0 b p No ochanid curroutchannels rowid r =
    (let d = plan_dims p; accshift = biasmultiplieraccshift p; numrows = dim_of d ''Ho''; Wo = dim_of d ''Wo''; Oo = dim_of d ''Oo'';
         rpt = rowsperthread (plan_limits p);
         ypadbefore = max 0 (dim_of d ''paddingH'' - rowid);
         ypadafter = max 0 (min (dim_of d ''paddingH'') (rowid + rpt - numrows));
         rowstoprocess = min (numrows - rowid) (rpt - ypadbefore - ypadafter);
         alu = (\<lambda>src opc. push_gemm drv junk (map_var b) (channel_alu src opc accshift curroutchannels rowstoprocess Wo)) in
     res_bind (VTADepPush kStoreStage kComputeStage r) (\<lambda>r.
     res_bind (VTADepPop kStoreStage kComputeStage r) (\<lambda>r.
     res_bind (push_gemm drv junk (map_var b) (gemmreset accshift curroutchannels rowstoprocess Wo) r) (\<lambda>r.
     res_bind (fold_res (conv_ichan drv junk wo0 b p No curroutchannels rowid rowstoprocess ypadbefore ypadafter) [0..dim_of d ''Io'' - 1] r) (\<lambda>r.
     res_bind (alu 0 (ucast VTA_ALU_OPCODE_ADD) r) (\<lambda>r.
     res_bind (alu Oo (ucast VTA_ALU_OPCODE_MUL) r) (\<lambda>r.
     res_bind (alu (Oo * 2) (ucast VTA_ALU_OPCODE_SHR) r) (\<lambda>r.
     res_bind (VTADepPop kComputeStage kStoreStage r) (\<lambda>r.
     res_bind (arg (No * singleoutputsize p + ochanid * singleoutputchannelsize p + rowid * Wo)) (\<lambda>off.
     res_bind (arg (curroutchannels * rowstoprocess * Wo)) (\<lambda>xs.
     StoreBuffer2D drv junk (word_of_int accshift) (ucast VTA_MEM_ID_OUT) (outbuf b) off xs 1 1 r)))))))))))"

function conv_rows ::
  "'m driver \<Rightarrow> VTAGemInsn \<Rightarrow> (int \<Rightarrow> int \<Rightarrow> int) \<Rightarrow> conv_buffers \<Rightarrow> conv_plan \<Rightarrow> int \<Rightarrow> int \<Rightarrow> int \<Rightarrow> int \<Rightarrow> 'm runtime \<Rightarrow> 'm runtime res" where
  "conv_rows drv junk wo0 b p No ochanid curroutchannels rowid r =
    (if dim_of (plan_dims p) ''Ho'' \<le> rowid then Inr r
     else if rowsperthread (plan_limits p) \<le> 0 then Inl (Undefined ''loop does not end'')
     else res_bind (conv_row drv junk wo0 b p No ochanid curroutchannels rowid r)
       (conv_rows drv junk wo0 b p No ochanid curroutchannels (rowid + rowsperthread (plan_limits p))))"
  by pat_completeness auto
termination
  by (relation "measure (\<lambda>(drv, junk, wo0, b, p, No, och, cur, rowid, r). nat (dim_of (plan_dims p) ''Ho'' - rowid))") auto

declare conv_rows.simps [simp del]

definition conv_ochan ::
  "'m driver \<Rightarrow> VTAGemInsn \<Rightarrow> (int \<Rightarrow> int \<Rightarrow> int) \<Rightarrow> conv_buffers \<Rightarrow> conv_plan \<Rightarrow> int \<Rightarrow> int \<Rightarrow> 'm runtime \<Rightarrow> 'm runtime res" where
  "conv_ochan drv junk wo0 b p No ochanid r =
    (let d = plan_dims p; chans = maxoutchannels (plan_limits p);
         curroutchannels = min (dim_of d ''Oo'' - ochanid) chans; cur = word_of_int curroutchannels; acc = ucast VTA_MEM_ID_ACC in
     res_bind (VTADepPop kComputeStage kLoadStage r) (\<lambda>r.
     res_bind (arg (ochanid * kernelparamsperoutputchannel p)) (\<lambda>off.
     res_bind (arg (curroutchannels * kernelsize p)) (\<lambda>xs.
     res_bind (LoadBuffer2D drv junk (wgtbuf b) off xs (word_of_int (dim_of d ''Io'')) 1 0 0 0 0
       (word_of_int (biasmultiplieraccshift p)) (ucast VTA_MEM_ID_WGT) r) (\<lambda>r.
     res_bind (LoadBuffer2D drv junk (biasbuf b) (word_of_int ochanid) cur 1 1 0 0 0 0 0 acc r) (\<lambda>r.
     res_bind (LoadBuffer2D drv junk (multiplierbuf b) (word_of_int ochanid) cur 1 1 0 0 0 0 (word_of_int chans) acc r) (\<lambda>r.
     res_bind (LoadBuffer2D drv junk (shiftbuf b) (word_of_int ochanid) cur 1 1 0 0 0 0 (word_of_int (chans * 2)) acc r) (\<lambda>r.
     conv_rows drv junk wo0 b p No ochanid curroutchannels 0 r))))))))"

definition conv_sample ::
  "'m driver \<Rightarrow> VTAGemInsn \<Rightarrow> (int \<Rightarrow> int \<Rightarrow> int) \<Rightarrow> conv_buffers \<Rightarrow> conv_plan \<Rightarrow> int \<Rightarrow> 'm runtime \<Rightarrow> 'm runtime res" where
  "conv_sample drv junk wo0 b p No r =
    res_bind (VTADepPush kComputeStage kLoadStage r) (fold_res (conv_ochan drv junk wo0 b p No) [0..dim_of (plan_dims p) ''Oo'' - 1])"

section \<open>The whole operation\<close>

definition host_bytes :: "int \<Rightarrow> bytes \<Rightarrow> bytes res" where
  "host_bytes n xs = res_bind (guard_bounds (0 \<le> n \<and> nat n \<le> length xs)) (\<lambda>_. Inr (take (nat n) xs))"

definition pad_channels :: "int \<Rightarrow> VTAGEMMOp \<Rightarrow> VTAGEMMOp res" where
  "pad_channels n op = (if n < 0 then Inl (Aborted ''std::length_error'')
     else let fit = (\<lambda>xs. take (nat n) xs @ replicate (nat n - length xs) 0) in
       Inr (op\<lparr>multipliers := fit (multipliers op), shifts := fit (shifts op)\<rparr>))"

text \<open>The buffers of a convolution, with the sizes of the input, the weights and the output in elements.\<close>

definition conv_setup ::
  "'m driver \<Rightarrow> conv_buffers \<Rightarrow> int \<Rightarrow> VTAGEMMOp \<Rightarrow> int \<times> bytes \<Rightarrow> int \<times> bytes \<Rightarrow> bytes \<Rightarrow> int \<Rightarrow> 'm runtime \<Rightarrow> 'm runtime res" where
  "conv_setup drv b oaligned op = (\<lambda>(inpelems, inparray) (wgtelems, wgtarray) biasarray outelems r.
    res_bind (VTABufferAlloc drv (inpbuf b) (word_of_int inpelems) r) (\<lambda>(_, r).
    res_bind (VTABufferAlloc drv (wgtbuf b) (word_of_int wgtelems) r) (\<lambda>(_, r).
    res_bind (VTABufferAlloc drv (biasbuf b) (word_of_int (4 * oaligned)) r) (\<lambda>(_, r).
    res_bind (VTABufferAlloc drv (multiplierbuf b) (word_of_int (4 * oaligned)) r) (\<lambda>(_, r).
    res_bind (VTABufferAlloc drv (shiftbuf b) (word_of_int (4 * oaligned)) r) (\<lambda>(_, r).
    res_bind (VTABufferAlloc drv (outbuf b) (word_of_int outelems) r) (\<lambda>(_, r).
    res_bind (host_bytes inpelems inparray) (\<lambda>bs.
    res_bind (VTABufferCopy_H2D drv bs (inpbuf b) 0 r) (\<lambda>r.
    res_bind (host_bytes wgtelems wgtarray) (\<lambda>bs.
    res_bind (VTABufferCopy_H2D drv bs (wgtbuf b) 0 r) (\<lambda>r.
    res_bind (host_bytes (4 * oaligned) biasarray) (\<lambda>bs.
    res_bind (VTABufferCopy_H2D drv bs (biasbuf b) 0 r) (\<lambda>r.
    res_bind (host_bytes (4 * oaligned) (words_bytes (multipliers op))) (\<lambda>bs.
    res_bind (VTABufferCopy_H2D drv bs (multiplierbuf b) 0 r) (\<lambda>r.
    res_bind (host_bytes (4 * oaligned) (words_bytes (shifts op))) (\<lambda>bs.
    VTABufferCopy_H2D drv bs (shiftbuf b) 0 r))))))))))))))))"

definition conv_run ::
  "'m driver \<Rightarrow> VTAGemInsn \<Rightarrow> (int \<Rightarrow> int \<Rightarrow> int) \<Rightarrow> conv_buffers \<Rightarrow> dims \<Rightarrow> conv_limits \<Rightarrow> 'm runtime \<Rightarrow> 'm runtime res" where
  "conv_run drv junk wo0 b d l r =
    res_bind (VTADepPush kComputeStage kLoadStage r) (\<lambda>r.
    res_bind (VTADepPush kStoreStage kComputeStage r) (\<lambda>r.
    res_bind (new_plan d l) (\<lambda>p.
    res_bind (fold_res (conv_sample drv junk wo0 b p) [0..dim_of d ''No'' - 1] r) (Synchronize drv junk 1000000))))"

definition gemmConv2D ::
  "'m driver \<Rightarrow> VTAGemInsn \<Rightarrow> (int \<Rightarrow> int \<Rightarrow> int) \<Rightarrow> conv_buffers \<Rightarrow> conv_tensors \<Rightarrow> VTAGEMMOp \<times> dims \<Rightarrow> 'm tls
   \<Rightarrow> (TfLiteStatus \<times> bytes \<times> (VTAGEMMOp \<times> dims) \<times> 'm tls) res" where
  "gemmConv2D drv junk wo0 b t = (\<lambda>(op, d) s.
    res_bind (conv_dims t d) (\<lambda>d.
    res_bind (conv_input d (inp_data t)) (\<lambda>(tmp, inparray).
    res_bind (conv_weights d tmp (wgt_data t)) (\<lambda>wgtarray.
    res_bind (conv_bias d (bias_data t)) (\<lambda>biasarray.
    res_bind (pad_channels (dim_of d ''Oaligned'') op) (\<lambda>op.
    res_bind (tensorElements d [''No'', ''Io'', ''H'', ''W'', ''Ni'', ''Ii'']) (\<lambda>inpelemsfull.
    res_bind (tensorElements d [''Oo'', ''Io'', ''Hk'', ''Wk'', ''Oi'', ''Ii'']) (\<lambda>wgtelemsfull.
    res_bind (tensorElements d [''No'', ''Oo'', ''Ho'', ''Wo'', ''Ni'', ''Oi'']) (\<lambda>outelemsfull.
    res_bind (limits d) (\<lambda>l.
    if storefailure d l then Inr (kTfLiteDelegateError, out_data t, (op, d), s)
    else
      res_bind (VTATLSCommandHandle drv s) (\<lambda>r.
      res_bind (conv_setup drv b (dim_of d ''Oaligned'') op (inpelemsfull, inparray) (wgtelemsfull, wgtarray) biasarray outelemsfull r) (\<lambda>r.
      res_bind (conv_run drv junk wo0 b d l r) (\<lambda>r.
      res_bind (VTABufferCopy_D2H drv (outbuf b) 0 (word_of_int outelemsfull) r) (\<lambda>(outarray, r).
      res_bind (guard_bounds (length outarray \<le> length (out_data t))) (\<lambda>_.
      res_bind (fold_res (\<lambda>h. VTABufferFree drv (h b)) [inpbuf, wgtbuf, biasbuf, multiplierbuf, shiftbuf, outbuf] r) (\<lambda>r.
      res_bind (permuteDims d [''No'', ''Oo'', ''Ho'', ''Wo'', ''Ni'', ''Oi''] [''No'', ''Ni'', ''Oo'', ''Oi'', ''Ho'', ''Wo'']
        (outarray @ replicate (length (out_data t) - length outarray) 0) (out_data t) 1) (\<lambda>out.
      Inr (kTfLiteOk, out, (op, d), True, r))))))))))))))))))"

definition compute_gemm ::
  "'m driver \<Rightarrow> VTAGemInsn \<Rightarrow> (int \<Rightarrow> int \<Rightarrow> int) \<Rightarrow> conv_buffers \<Rightarrow> TfLiteBuiltin \<Rightarrow> conv_tensors \<Rightarrow> VTAGEMMOp \<times> dims \<Rightarrow> 'm tls
   \<Rightarrow> (TfLiteStatus \<times> bytes \<times> (VTAGEMMOp \<times> dims) \<times> 'm tls) res" where
  "compute_gemm drv junk wo0 b tfliteop t op s =
    (if tfliteop = kTfLiteBuiltinConv2d then gemmConv2D drv junk wo0 b t op s else Inr (kTfLiteOk, out_data t, op, s))"

section \<open>The input in blocks\<close>

lemma setDim_simps [simp]: "dim_of (setDim a v d) b = (if a = b then v else dim_of d b)"
  by (simp add: setDim_def dim_of_def)

lemma outer_dim_ceil:
  assumes "dim_of d name = int n" "n + k < 2 ^ 31" "0 < k"
  shows "outer_dim name k d = Inr (int (ceil_div n k))"
proof -
  have "c_div (int n + int k - 1) (int k) = int ((n + k - 1) div k)"
    using assms(3) by (simp add: c_div_def sgn_if zdiv_int of_nat_diff)
  moreover have "n + k - 1 < 2 ^ 31" using assms(2) by simp
  then have "(n + k - 1) div k < 2 ^ 31" by (rule le_less_trans [OF div_le_dividend])
  ultimately show ?thesis using assms by (simp add: outer_dim_def c_int_def int_div_def ceil_div_def)
qed

text \<open>The dimensions of an input of \<open>n\<close> samples, \<open>c\<close> channels and \<open>h\<close> times \<open>w\<close> points.\<close>

definition input_dims :: "dims \<Rightarrow> nat \<Rightarrow> nat \<Rightarrow> nat \<Rightarrow> nat \<Rightarrow> bool" where
  "input_dims d n c h w = (dim_of d ''N'' = int n \<and> dim_of d ''I'' = int c \<and> dim_of d ''H'' = int h \<and> dim_of d ''W'' = int w \<and>
     dim_of d ''No'' = int n \<and> dim_of d ''Ni'' = 1 \<and> dim_of d ''Io'' = int (ceil_div c 16) \<and> dim_of d ''Ii'' = 16 \<and>
     dim_of d ''Naligned'' = int n \<and> dim_of d ''Ialigned'' = int (16 * ceil_div c 16))"

lemma conv_dims_input:
  assumes "conv_dims t d0 = Inr d" "take 4 (inp_dims t) = [int n, int h, int w, int c]" "n < 2 ^ 30" "c < 2 ^ 30"
  shows "input_dims d n c h w"
proof -
  obtain d1 where d1: "tensor_dims t (resetDims d0) = Inr d1" using assms(1) by (auto simp: conv_dims_def)
  have v: "dim_of d1 ''N'' = int n" "dim_of d1 ''I'' = int c" "dim_of d1 ''H'' = int h" "dim_of d1 ''W'' = int w"
      "dim_of d1 ''Ni'' = 1" "dim_of d1 ''Ii'' = 16"
    using d1 arg_cong [OF assms(2), of "\<lambda>xs. xs ! 0"] arg_cong [OF assms(2), of "\<lambda>xs. xs ! 1"] arg_cong [OF assms(2), of "\<lambda>xs. xs ! 2"]
      arg_cong [OF assms(2), of "\<lambda>xs. xs ! 3"] by (auto simp: tensor_dims_def spec_consts)
  have "outer_dim ''N'' VTA_BATCH d1 = Inr (int n)" "outer_dim ''I'' VTA_BLOCK_IN d1 = Inr (int (ceil_div c 16))"
    using outer_dim_ceil [OF v(1), of 1] outer_dim_ceil [OF v(2), of 16] assms(3,4) by (simp_all add: spec_consts ceil_div_def)
  then show ?thesis
    using assms(1) v by (auto simp: conv_dims_def d1 Let_def product_dim_def c_int_def input_dims_def split: if_splits)
qed

definition aligned_name :: "string \<Rightarrow> string" where
  "aligned_name s = (if s = ''N'' then ''Naligned'' else if s = ''I'' then ''Ialigned'' else s)"

lemma input_layouts:
  assumes d: "input_dims d n c h w" and pos: "0 < n" "0 < c" "0 < h" "0 < w" and bound: "n * (16 * ceil_div c 16 * (h * w)) < 2 ^ 31"
  shows "layout_ok d [''N'', ''I'', ''H'', ''W'']" "layout_ok d [''Naligned'', ''Ialigned'', ''H'', ''W'']"
    "layout_ok d [''No'', ''Ni'', ''Io'', ''Ii'', ''H'', ''W'']" "layout_ok d [''No'', ''Io'', ''H'', ''W'', ''Ni'', ''Ii'']"
    "volume d [''N'', ''I'', ''H'', ''W''] = n * (c * (h * w))"
    "volume d [''Naligned'', ''Ialigned'', ''H'', ''W''] = n * (16 * ceil_div c 16 * (h * w))"
    "volume d [''No'', ''Ni'', ''Io'', ''Ii'', ''H'', ''W''] = n * (16 * ceil_div c 16 * (h * w))"
proof -
  have c: "c \<le> 16 * ceil_div c 16" by (simp add: ceil_div_def)
  then have cp: "0 < ceil_div c 16" using pos(2) by (cases "ceil_div c 16") auto
  have "n * (c * (h * w)) \<le> n * (16 * ceil_div c 16 * (h * w))" using c by (intro mult_le_mono le_refl)
  then have b: "n * (c * (h * w)) < 2 ^ 31" using bound by (rule le_less_trans)
  show "volume d [''N'', ''I'', ''H'', ''W''] = n * (c * (h * w))"
    "volume d [''Naligned'', ''Ialigned'', ''H'', ''W''] = n * (16 * ceil_div c 16 * (h * w))"
    "volume d [''No'', ''Ni'', ''Io'', ''Ii'', ''H'', ''W''] = n * (16 * ceil_div c 16 * (h * w))"
    using d by (simp_all add: input_dims_def dim_size_def nat_mult_distrib)
  have v: "volume d [''No'', ''Io'', ''H'', ''W'', ''Ni'', ''Ii''] = n * (16 * ceil_div c 16 * (h * w))"
    using d by (simp add: input_dims_def dim_size_def nat_mult_distrib)
  show "layout_ok d [''N'', ''I'', ''H'', ''W'']" "layout_ok d [''Naligned'', ''Ialigned'', ''H'', ''W'']"
    "layout_ok d [''No'', ''Ni'', ''Io'', ''Ii'', ''H'', ''W'']" "layout_ok d [''No'', ''Io'', ''H'', ''W'', ''Ni'', ''Ii'']"
    using d b bound pos cp by (simp_all add: layout_ok_def input_dims_def dim_size_def nat_mult_distrib mult.assoc)
qed

lemma layouts_distinct: "distinct [''No'', ''Ni'', ''Io'', ''Ii'', ''H'', ''W'']" "distinct [''Naligned'', ''Ialigned'', ''H'', ''W'']"
  by simp_all

lemma resized_new: "layout_ok d L \<Longrightarrow> resized d L [] = Inr (replicate (volume d L) 0)"
  by (simp add: resized_def tensorElements_volume)

lemma pad_input:
  assumes d: "input_dims d n c h w" and pos: "0 < n" "0 < c" "0 < h" "0 < w" and bound: "n * (16 * ceil_div c 16 * (h * w)) < 2 ^ 31"
    and len: "length inp = n * (c * (h * w))" and tmp: "length tmp = n * (16 * ceil_div c 16 * (h * w))"
  shows "\<exists>tmp'. padData d [''N'', ''I'', ''H'', ''W''] [''Naligned'', ''Ialigned'', ''H'', ''W''] inp tmp 1 = Inr tmp' \<and> length tmp' = length tmp \<and>
    (\<forall>a < n. \<forall>i < 16 * ceil_div c 16. \<forall>y < h. \<forall>x < w. tmp' ! (a * (16 * ceil_div c 16 * (h * w)) + i * (h * w) + y * w + x) =
       (if i < c then inp ! (a * (c * (h * w)) + i * (h * w) + y * w + x) else 0))"
proof -
  note L = input_layouts [OF assms(1-6)]
  let ?S = "[''N'', ''I'', ''H'', ''W'']" let ?T = "[''Naligned'', ''Ialigned'', ''H'', ''W'']"
  have "\<exists>tmp'. padData d ?S ?T inp tmp 1 = Inr tmp' \<and> length tmp' = length tmp \<and>
      (\<forall>idx. indices_ok d ?T idx \<longrightarrow> tmp' ! place d ?T idx =
         (if \<forall>s \<in> set ?S. idx (aligned_name s) < dim_size d s then inp ! place d ?S (\<lambda>s. idx (aligned_name s)) else 0))"
    by (rule padData_fills [OF L(1,2)]) (use len tmp L(5,6) in \<open>simp_all add: aligned_name_def\<close>)
  then obtain tmp' where t: "padData d ?S ?T inp tmp 1 = Inr tmp'" "length tmp' = length tmp"
      "\<And>idx. indices_ok d ?T idx \<Longrightarrow> tmp' ! place d ?T idx =
         (if \<forall>s \<in> set ?S. idx (aligned_name s) < dim_size d s then inp ! place d ?S (\<lambda>s. idx (aligned_name s)) else 0)" by blast
  have "tmp' ! (a * (16 * ceil_div c 16 * (h * w)) + i * (h * w) + y * w + x) =
       (if i < c then inp ! (a * (c * (h * w)) + i * (h * w) + y * w + x) else 0)"
    if r: "a < n" "i < 16 * ceil_div c 16" "y < h" "x < w" for a i y x
  proof -
    let ?idx = "(\<lambda>_. 0)(''Naligned'' := a, ''Ialigned'' := i, ''H'' := y, ''W'' := x)"
    have "indices_ok d ?T ?idx" using d r by (simp add: indices_ok_def input_dims_def dim_size_def nat_mult_distrib)
    from t(3) [OF this] show ?thesis
      using d r by (simp add: input_dims_def dim_size_def nat_mult_distrib aligned_name_def add.assoc)
  qed
  with t show ?thesis by blast
qed

lemma block_input:
  assumes d: "input_dims d n c h w" and pos: "0 < n" "0 < c" "0 < h" "0 < w" and bound: "n * (16 * ceil_div c 16 * (h * w)) < 2 ^ 31"
    and len: "length tmp = n * (16 * ceil_div c 16 * (h * w))" "length tmp \<le> length out"
  shows "\<exists>out'. permuteDims d [''No'', ''Ni'', ''Io'', ''Ii'', ''H'', ''W''] [''No'', ''Io'', ''H'', ''W'', ''Ni'', ''Ii''] tmp out 1 = Inr out' \<and>
    length out' = length out \<and>
    (\<forall>a < n. \<forall>i < 16 * ceil_div c 16. \<forall>y < h. \<forall>x < w. out' ! ((((a * ceil_div c 16 + i div 16) * h + y) * w + x) * 16 + i mod 16) =
       tmp ! (a * (16 * ceil_div c 16 * (h * w)) + i * (h * w) + y * w + x))"
proof -
  note L = input_layouts [OF assms(1-6)]
  let ?L = "[''No'', ''Ni'', ''Io'', ''Ii'', ''H'', ''W'']" let ?M = "[''No'', ''Io'', ''H'', ''W'', ''Ni'', ''Ii'']"
  have set: "set ?L = set ?M" by auto
  have vol: "volume d ?M = volume d ?L" by (rule volume_perm [OF _ _ set]) simp_all
  obtain out' where o: "permuteDims d ?L ?M tmp out 1 = Inr out'" "length out' = length out"
      "\<And>idx. indices_ok d ?L idx \<Longrightarrow> slice (1 * place d ?M idx) 1 out' = slice (1 * place d ?L idx) 1 tmp"
    using permuteDims_moves [OF L(3,4) set refl, of 1 tmp out] len L(7) by auto
  have "out' ! ((((a * ceil_div c 16 + i div 16) * h + y) * w + x) * 16 + i mod 16) =
       tmp ! (a * (16 * ceil_div c 16 * (h * w)) + i * (h * w) + y * w + x)"
    if r: "a < n" "i < 16 * ceil_div c 16" "y < h" "x < w" for a i y x
  proof -
    define p q where "p = i div 16" and "q = i mod 16"
    let ?idx = "(\<lambda>_. 0)(''No'' := a, ''Io'' := p, ''Ii'' := q, ''H'' := y, ''W'' := x)"
    have "p < ceil_div c 16" "q < 16" using r(2) unfolding p_def q_def by (intro less_mult_imp_div_less) (simp_all add: mult.commute)
    then have w: "indices_ok d ?L ?idx" "indices_ok d ?M ?idx" using d r(1,3,4) by (simp_all add: indices_ok_def input_dims_def dim_size_def)
    have "place d ?L ?idx < length tmp" "place d ?M ?idx < length out'"
      using place_less [OF w(1)] place_less [OF w(2)] len o(2) unfolding vol L(7) by linarith+
    then have e: "out' ! place d ?M ?idx = tmp ! place d ?L ?idx"
      using o(3) [OF w(1)] by (simp add: slice_def take_Suc hd_drop_conv_nth)
    have pl: "place d ?L ?idx = a * (16 * ceil_div c 16 * (h * w)) + (16 * p + q) * (h * w) + y * w + x"
      using d by (simp add: input_dims_def dim_size_def algebra_simps)
    have pm: "place d ?M ?idx = (((a * ceil_div c 16 + p) * h + y) * w + x) * 16 + q"
      using d by (simp add: input_dims_def dim_size_def algebra_simps)
    have pq: "16 * p + q = i" by (simp add: p_def q_def)
    from e show ?thesis unfolding pl pm pq unfolding p_def q_def .
  qed
  with o show ?thesis by blast
qed


definition ex_conv :: conv_tensors where
  "ex_conv = \<lparr>inp_dims = [1, 1, 1, 16], wgt_dims = [16, 1, 1, 16], out_dims = [1, 1, 1, 16], inp_data = replicate 16 1,
     wgt_data = replicate 256 1, bias_data = replicate 64 0, out_data = replicate 16 0\<rparr>"

lemma ex_conv_dims: "\<exists>d. conv_dims ex_conv (\<lambda>_. None) = Inr d"
  by (simp add: conv_dims_def tensor_dims_def ex_conv_def outer_dim_def product_dim_def c_int_def int_div_def c_div_def Let_def
      resetDims_def spec_consts)


section \<open>No convolution succeeds\<close>

lemma outer_dim_pos: "outer_dim name k d = Inr v \<Longrightarrow> 0 < dim_of d name \<Longrightarrow> 0 < k \<Longrightarrow> 0 < v"
proof -
  assume a: "outer_dim name k d = Inr v" "0 < dim_of d name" "0 < k"
  then have "v = c_div (dim_of d name + int k - 1) (int k)" by (auto simp: outer_dim_def c_int_def int_div_def split: if_splits)
  also have "\<dots> = (dim_of d name + int k - 1) div int k" using a by (simp add: c_div_def sgn_if)
  also have "0 < \<dots>" using a by (simp add: pos_imp_zdiv_pos_iff)
  finally show ?thesis .
qed

lemma conv_dims_oaligned:
  assumes "conv_dims t d = Inr d'" "0 < out_dims t ! 3"
  shows "0 < dim_of d' ''Oaligned''"
proof -
  obtain d1 no io oo where d1: "tensor_dims t (resetDims d) = Inr d1" and oo: "outer_dim ''O'' VTA_BLOCK_OUT d1 = Inr oo"
      and d': "dim_of d' ''Oaligned'' = oo * dim_of d1 ''Oi''"
    using assms(1) by (auto simp: conv_dims_def Let_def product_dim_def c_int_def split: if_splits)
  have "dim_of d1 ''O'' = out_dims t ! 3" "dim_of d1 ''Oi'' = int VTA_BLOCK_OUT" using d1 by (auto simp: tensor_dims_def)
  moreover from this have "0 < oo" using outer_dim_pos [OF oo] assms(2) by (simp add: spec_consts)
  ultimately show ?thesis using d' by (simp add: spec_consts)
qed

lemma copy_elem_length: "copy_elem es inp i j out = Inr out' \<Longrightarrow> length out' = length out"
  by (auto simp: copy_elem_def algebra_simps)

lemma padData_length:
  assumes "padData d S T inp out es = Inr out'"
  shows "length out' = length out"
proof -
  have "length out' = length o1" if "fold_res (\<lambda>outid outarray. res_bind (pad_index d S T (zip S T) (int outid) 0)
      (\<lambda>inpindex. case inpindex of None \<Rightarrow> Inr outarray | Some i \<Rightarrow> copy_elem es inp i (int outid) outarray)) ks o1 = Inr out'" for ks o1
    by (rule fold_res_preserves [where I = "\<lambda>x. length x = length o1", OF that])
      (auto split: option.splits simp: copy_elem_length)
  then show ?thesis using assms by (fastforce simp: padData_def clear_def)
qed

lemma conv_bias_length: "conv_bias d bias = Inr arr \<Longrightarrow> length arr = nat (dim_of d ''Oaligned'')"
  by (auto simp: conv_bias_def resized_def tensorElements_def c_int_def dest!: padData_length split: if_splits)

text \<open>C36: no convolution succeeds: for a positive number of output channels, whatever the driver does, \<open>gemmConv2D\<close> either returns the
  error of a layer that does not fit or leaves defined behaviour; the array of the biases has one byte for each channel and
  four bytes are read for each.\<close>

theorem conv2d_never_succeeds:
  assumes "0 < out_dims t ! 3"
  shows "gemmConv2D drv junk wo0 b t op s \<noteq> Inr (kTfLiteOk, out, op', s')"
proof
  assume ok: "gemmConv2D drv junk wo0 b t op s = Inr (kTfLiteOk, out, op', s')"
  obtain o1 d0 where op: "op = (o1, d0)" by (cases op)
  obtain d arr o2 p q n r r' where d: "conv_dims t d0 = Inr d" and arr: "conv_bias d (bias_data t) = Inr arr"
      and st: "conv_setup drv b (dim_of d ''Oaligned'') o2 p q arr n r = Inr r'"
    using ok unfolding op gemmConv2D_def by (fastforce split: if_splits prod.splits)
  have "0 < dim_of d ''Oaligned''" by (rule conv_dims_oaligned [OF d assms])
  then have "\<not> nat (4 * dim_of d ''Oaligned'') \<le> length arr" using conv_bias_length [OF arr] by simp
  then show False using st by (cases p, cases q) (auto simp: conv_setup_def host_bytes_def)
qed

theorem conv2d_never_succeeds_witness:
  "gemmConv2D null_driver blank_gem (\<lambda>_ _. 0) \<lparr>inpbuf = 16, wgtbuf = 32, biasbuf = 48, multiplierbuf = 64, shiftbuf = 80, outbuf = 96, map_var = 112\<rparr>
     ex_conv (\<lparr>inputquant = \<lparr>q_offset = 0, q_shift = 0, q_multiplier = 0\<rparr>, filtersquant = [], shifts = [], multipliers = [],
       outputquant_g = \<lparr>q_offset = 0, q_shift = 0, q_multiplier = 0\<rparr>\<rparr>, \<lambda>_. None) (False, fresh_runtime)
   \<noteq> Inr (kTfLiteOk, [], (\<lparr>inputquant = \<lparr>q_offset = 0, q_shift = 0, q_multiplier = 0\<rparr>, filtersquant = [], shifts = [], multipliers = [],
       outputquant_g = \<lparr>q_offset = 0, q_shift = 0, q_multiplier = 0\<rparr>\<rparr>, \<lambda>_. None), False, fresh_runtime)"
  by (rule conv2d_never_succeeds) (simp add: ex_conv_def)

end
