(* ===== verification/Vta_Hw.thy ===== *)
theory Vta_Hw
  imports Vta_Runtime
begin

text \<open>
  The driver of the accelerator on the board: \<open>tf_driver.cc\<close> (memory, cache maintenance, registers and the class
  \<open>VTADevice\<close>) on \<open>pynqlib.cpp\<close> (contiguous memory from the \<open>xlnk\<close> kernel module). The system calls, the C++ heap, the
  memory behind a pointer and the registers are not code of the repository: they are the record \<open>os\<close>, an argument of every
  definition, over a state of the kernel and the hardware that the model does not look into.

  Shown: what the locale \<open>xlnk_kernel\<close> lists of the kernel and the accelerator is enough for this driver to keep the contract
  that the runtime relies on (the locale \<open>vta_driver\<close>), and that a flush makes what was copied visible to the accelerator.
\<close>

unbundle bit_operations_syntax

section \<open>The operating system and the registers\<close>

record 'k os =
  os_pagesize :: u32
  os_open :: "string \<Rightarrow> 'k \<Rightarrow> int \<times> 'k"
  os_close :: "int \<Rightarrow> 'k \<Rightarrow> 'k"
  os_reset_ioctl :: "int \<Rightarrow> 'k \<Rightarrow> int \<times> 'k"
  os_alloc_ioctl :: "int \<Rightarrow> u32 \<Rightarrow> u8 \<Rightarrow> 'k \<Rightarrow> int \<times> u32 \<times> u64 \<times> 'k"
  os_free_ioctl :: "int \<Rightarrow> u32 \<Rightarrow> 'k \<Rightarrow> int \<times> 'k"
  os_mmap :: "u64 \<Rightarrow> int \<Rightarrow> u64 \<Rightarrow> 'k \<Rightarrow> u64 \<times> 'k"
  os_munmap :: "u64 \<Rightarrow> u64 \<Rightarrow> 'k \<Rightarrow> int \<times> 'k"
  os_new :: "'k \<Rightarrow> u64 \<times> 'k"
  os_store :: "u64 \<Rightarrow> bytes \<Rightarrow> 'k \<Rightarrow> 'k res"
  os_load :: "u64 \<Rightarrow> nat \<Rightarrow> 'k \<Rightarrow> bytes res"
  os_store32 :: "u64 \<Rightarrow> u32 \<Rightarrow> 'k \<Rightarrow> 'k res"
  os_load32 :: "u64 \<Rightarrow> 'k \<Rightarrow> (u32 \<times> 'k) res"
  os_civac :: "u64 \<Rightarrow> 'k \<Rightarrow> 'k res"
  os_nanosleep :: "nat \<Rightarrow> 'k \<Rightarrow> 'k"
  os_yield :: "'k \<Rightarrow> 'k"

definition VTA_COMPUTE_ADDR :: u32 where "VTA_COMPUTE_ADDR = 0xB0002000"
definition VTA_COMPUTE_BIAS_ADDR_OFFSET :: u32 where "VTA_COMPUTE_BIAS_ADDR_OFFSET = 40"
definition VTA_COMPUTE_DONE_RD_OFFSET :: u32 where "VTA_COMPUTE_DONE_RD_OFFSET = 24"
definition VTA_COMPUTE_UOP_ADDR_OFFSET :: u32 where "VTA_COMPUTE_UOP_ADDR_OFFSET = 32"
definition VTA_FETCH_ADDR :: u32 where "VTA_FETCH_ADDR = 0xB0000000"
definition VTA_FETCH_INSN_ADDR_OFFSET :: u32 where "VTA_FETCH_INSN_ADDR_OFFSET = 24"
definition VTA_FETCH_INSN_COUNT_OFFSET :: u32 where "VTA_FETCH_INSN_COUNT_OFFSET = 16"
definition VTA_IP_REG_MAP_RANGE :: u32 where "VTA_IP_REG_MAP_RANGE = 0x1000"
definition VTA_LOAD_ADDR :: u32 where "VTA_LOAD_ADDR = 0xB0001000"
definition VTA_LOAD_INP_ADDR_OFFSET :: u32 where "VTA_LOAD_INP_ADDR_OFFSET = 16"
definition VTA_LOAD_WGT_ADDR_OFFSET :: u32 where "VTA_LOAD_WGT_ADDR_OFFSET = 24"
definition VTA_STORE_ADDR :: u32 where "VTA_STORE_ADDR = 0xB0003000"
definition VTA_STORE_OUT_ADDR_OFFSET :: u32 where "VTA_STORE_OUT_ADDR_OFFSET = 16"

definition VTA_START :: u32 where "VTA_START = 0x1"
definition VTA_AUTORESTART :: u32 where "VTA_AUTORESTART = 0x81"
definition VTA_DONE :: u32 where "VTA_DONE = 0x1"

lemmas reg_bases = VTA_FETCH_ADDR_def VTA_LOAD_ADDR_def VTA_COMPUTE_ADDR_def VTA_STORE_ADDR_def

section \<open>State\<close>

record cma_mem =
  phys :: u64
  virt :: u64
  cma_len :: u32
  cma_id :: u32

record VTADevice =
  vta_fetch_handle :: u64
  vta_load_handle :: u64
  vta_compute_handle :: u64
  vta_store_handle :: u64

text \<open>The globals of \<open>pynqlib.cpp\<close>, the live \<open>VTADevice\<close> objects by address, and the rest of the machine.\<close>

record 'k hw =
  xlnkfd :: int
  maps :: "cma_mem list"
  objs :: "u64 \<rightharpoonup> VTADevice"
  kern :: 'k

section \<open>Contiguous memory (pynqlib.cpp)\<close>

definition cma_init :: "'k os \<Rightarrow> 'k hw \<Rightarrow> 'k hw" where
  "cma_init os s =
    (let (fd, k) = os_open os ''/dev/xlnk'' (kern s) in
     if fd < 0 then s\<lparr>xlnkfd := fd, kern := k\<rparr>
     else let (rc, k) = os_reset_ioctl os fd k in s\<lparr>xlnkfd := fd, kern := k\<rparr>)"

definition cma_clean :: "'k os \<Rightarrow> 'k hw \<Rightarrow> 'k hw" where
  "cma_clean os s = s\<lparr>kern := os_close os (xlnkfd s) (kern s)\<rparr>"

text \<open>The offset \<open>(id << 4) * 4096\<close> is computed in \<open>int\<close>; a negative id or one of \<open>2\<^sup>15\<close> and more is undefined.\<close>

definition cma_offset :: "u32 \<Rightarrow> u64 res" where
  "cma_offset bid = (if 0 \<le> sint bid \<and> sint bid * 16 * 4096 < 2 ^ 31 then Inr (word_of_int (sint bid * 16 * 4096))
     else Inl (Undefined ''int overflow''))"

definition cma_mmap :: "'k os \<Rightarrow> int \<Rightarrow> u32 \<Rightarrow> u32 \<Rightarrow> 'k \<Rightarrow> (u64 \<times> 'k) res" where
  "cma_mmap os fd bid len k = res_bind (cma_offset bid) (\<lambda>off. Inr (os_mmap os (ucast len) fd off k))"

definition cma_alloc :: "'k os \<Rightarrow> u32 \<Rightarrow> bool \<Rightarrow> 'k hw \<Rightarrow> (u64 \<times> 'k hw) res" where
  "cma_alloc os len cacheable s =
    (case os_alloc_ioctl os (xlnkfd s) len (if cacheable then 1 else 0) (kern s) of (rc, bid, phyaddr, k) \<Rightarrow>
     if rc < 0 then Inr (0, s\<lparr>kern := k\<rparr>)
     else res_bind (cma_mmap os (xlnkfd s) bid len k) (\<lambda>(p, k).
       Inr (p, s\<lparr>maps := maps s @ [\<lparr>phys = phyaddr, virt = p, cma_len = len, cma_id = bid\<rparr>], kern := k\<rparr>)))"

definition lookup :: "u64 \<Rightarrow> cma_mem list \<Rightarrow> cma_mem option" where
  "lookup buf = find (\<lambda>val. virt val = buf)"

definition cma_get_phy_addr :: "u64 \<Rightarrow> 'k hw \<Rightarrow> u64" where
  "cma_get_phy_addr buf s = (case lookup buf (maps s) of Some val \<Rightarrow> phys val | None \<Rightarrow> 0)"

fun erase :: "u64 \<Rightarrow> cma_mem list \<Rightarrow> cma_mem list" where
  "erase buf [] = []"
| "erase buf (it # rest) = (if virt it = buf then rest else it # erase buf rest)"

definition cma_free :: "'k os \<Rightarrow> u64 \<Rightarrow> 'k hw \<Rightarrow> 'k hw" where
  "cma_free os buf s =
    (case lookup buf (maps s) of None \<Rightarrow> s
     | Some it \<Rightarrow>
       (let (rc, k) = os_munmap os (virt it) (ucast (cma_len it)) (kern s);
            (rc, k) = os_free_ioctl os (xlnkfd s) (cma_id it) k
        in s\<lparr>maps := erase buf (maps s), kern := k\<rparr>))"

text \<open>The loop of \<open>cma_flush_cache\<close>: the branch \<open>b.lt\<close> compares signed, and near the largest signed address it never falls
  through.\<close>

partial_function (option) flush_loop :: "'k os \<Rightarrow> u64 \<Rightarrow> u64 \<Rightarrow> 'k \<Rightarrow> 'k res option" where
  "flush_loop os line end' k =
    (case os_civac os line k of Inl e \<Rightarrow> Some (Inl e)
     | Inr k \<Rightarrow> if sint (line + 64) < sint end' then flush_loop os (line + 64) end' k else Some (Inr k))"

definition cma_flush_cache :: "'k os \<Rightarrow> u64 \<Rightarrow> u32 \<Rightarrow> u32 \<Rightarrow> 'k hw \<Rightarrow> 'k hw res" where
  "cma_flush_cache os buf phys_addr sz s =
    (case flush_loop os (buf AND NOT 0x3F) (buf + scast sz) (kern s) of
       None \<Rightarrow> Inl (Undefined ''does not return'') | Some x \<Rightarrow> res_bind x (\<lambda>k. Inr (s\<lparr>kern := k\<rparr>)))"

definition cma_invalidate_cache :: "'k os \<Rightarrow> u64 \<Rightarrow> u32 \<Rightarrow> u32 \<Rightarrow> 'k hw \<Rightarrow> 'k hw res" where
  "cma_invalidate_cache = cma_flush_cache"

section \<open>The device (tf\_driver.cc)\<close>

definition VTAMapRegister :: "'k os \<Rightarrow> u32 \<Rightarrow> 'k \<Rightarrow> u64 \<times> 'k" where
  "VTAMapRegister os addr k =
    (let virt_base = addr AND NOT (os_pagesize os - 1);
         virt_offset = addr - virt_base;
         (mmap_file, k) = os_open os ''/dev/mem'' k
     in os_mmap os (ucast (VTA_IP_REG_MAP_RANGE + virt_offset)) mmap_file (ucast virt_base) k)"

definition VTAUnmapRegister :: "'k os \<Rightarrow> u64 \<Rightarrow> 'k \<Rightarrow> 'k res" where
  "VTAUnmapRegister os vta k =
    (let (status, k) = os_munmap os vta (ucast VTA_IP_REG_MAP_RANGE) k in
     res_bind (check (status = 0) ''status == 0'') (\<lambda>_. Inr k))"

definition VTAWriteMappedReg :: "'k os \<Rightarrow> u64 \<times> u32 \<times> u32 \<Rightarrow> 'k \<Rightarrow> 'k res" where
  "VTAWriteMappedReg os = (\<lambda>(base_addr, offset, val). os_store32 os (base_addr + ucast offset) val)"

definition VTAReadMappedReg :: "'k os \<Rightarrow> u64 \<Rightarrow> u32 \<Rightarrow> 'k \<Rightarrow> (u32 \<times> 'k) res" where
  "VTAReadMappedReg os base_addr offset = os_load32 os (base_addr + ucast offset)"

definition new_VTADevice :: "'k os \<Rightarrow> 'k \<Rightarrow> VTADevice \<times> 'k" where
  "new_VTADevice os k =
    (let (f, k) = VTAMapRegister os VTA_FETCH_ADDR k;
         (l, k) = VTAMapRegister os VTA_LOAD_ADDR k;
         (c, k) = VTAMapRegister os VTA_COMPUTE_ADDR k;
         (st, k) = VTAMapRegister os VTA_STORE_ADDR k
     in (\<lparr>vta_fetch_handle = f, vta_load_handle = l, vta_compute_handle = c, vta_store_handle = st\<rparr>, k))"

definition delete_VTADevice :: "'k os \<Rightarrow> VTADevice \<Rightarrow> 'k \<Rightarrow> 'k res" where
  "delete_VTADevice os d =
    fold_res (VTAUnmapRegister os) [vta_fetch_handle d, vta_load_handle d, vta_compute_handle d, vta_store_handle d]"

text \<open>The registers \<open>Run\<close> writes, in order.\<close>

definition start_writes :: "VTADevice \<Rightarrow> u32 \<Rightarrow> u32 \<Rightarrow> (u64 \<times> u32 \<times> u32) list" where
  "start_writes d insn_phy_addr insn_count =
    [(vta_fetch_handle d, VTA_FETCH_INSN_COUNT_OFFSET, insn_count),
     (vta_fetch_handle d, VTA_FETCH_INSN_ADDR_OFFSET, insn_phy_addr),
     (vta_load_handle d, VTA_LOAD_INP_ADDR_OFFSET, 0),
     (vta_load_handle d, VTA_LOAD_WGT_ADDR_OFFSET, 0),
     (vta_compute_handle d, VTA_COMPUTE_UOP_ADDR_OFFSET, 0),
     (vta_compute_handle d, VTA_COMPUTE_BIAS_ADDR_OFFSET, 0),
     (vta_store_handle d, VTA_STORE_OUT_ADDR_OFFSET, 0),
     (vta_fetch_handle d, 0x0, VTA_START),
     (vta_load_handle d, 0x0, VTA_AUTORESTART),
     (vta_compute_handle d, 0x0, VTA_AUTORESTART),
     (vta_store_handle d, 0x0, VTA_AUTORESTART)]"

fun poll :: "'k os \<Rightarrow> u64 \<Rightarrow> nat \<Rightarrow> 'k \<Rightarrow> (int \<times> 'k) res" where
  "poll os compute 0 k = Inr (1, k)"
| "poll os compute (Suc left) k =
    res_bind (VTAReadMappedReg os compute VTA_COMPUTE_DONE_RD_OFFSET k) (\<lambda>(flag, k).
    if flag = VTA_DONE then Inr (0, k) else poll os compute left (os_yield os k))"

definition VTADevice_Run :: "'k os \<Rightarrow> VTADevice \<Rightarrow> u32 \<Rightarrow> u32 \<Rightarrow> u32 \<Rightarrow> 'k \<Rightarrow> (int \<times> 'k) res" where
  "VTADevice_Run os d insn_phy_addr insn_count wait_cycles k =
    res_bind (fold_res (VTAWriteMappedReg os) (start_writes d insn_phy_addr insn_count) k) (\<lambda>k.
    poll os (vta_compute_handle d) (unat wait_cycles) (os_nanosleep os 1000 k))"

text \<open>The functions of \<open>driver.h\<close>. \<open>memcpy\<close> is a store to or a load from the address; \<open>delete\<close> of a null pointer does nothing.\<close>

definition the_device :: "u64 \<Rightarrow> 'k hw \<Rightarrow> VTADevice res" where
  "the_device h s = (case objs s h of None \<Rightarrow> Inl (Undefined ''not a VTADevice'') | Some d \<Rightarrow> Inr d)"

definition hw_driver :: "'k os \<Rightarrow> 'k hw driver" where
  "hw_driver os =
    \<lparr>VTAMemAlloc = (\<lambda>sz cacheable s. res_bind (check (unat sz \<le> VTA_MAX_XFER) ''size <= VTA_MAX_XFER'') (\<lambda>_. cma_alloc os (ucast sz) cacheable s)),
     VTAMemFree = (\<lambda>buf s. Inr (cma_free os buf s)),
     VTAMemGetPhyAddr = (\<lambda>buf s. Inr (ucast (cma_get_phy_addr buf s))),
     VTAMemCopyFromHost = (\<lambda>dst src s. res_bind (os_store os dst src (kern s)) (\<lambda>k. Inr (s\<lparr>kern := k\<rparr>))),
     VTAMemCopyToHost = (\<lambda>src sz s. os_load os src (unat sz) (kern s)),
     VTAFlushCache = cma_flush_cache os,
     VTAInvalidateCache = cma_invalidate_cache os,
     VTADeviceAlloc = (\<lambda>s. let (p, k) = os_new os (kern s); (d, k) = new_VTADevice os k in Inr (p, s\<lparr>objs := (objs s)(p \<mapsto> d), kern := k\<rparr>)),
     VTADeviceFree = (\<lambda>h s. if h = 0 then Inr s else
       res_bind (the_device h s) (\<lambda>d. res_bind (delete_VTADevice os d (kern s)) (\<lambda>k. Inr (s\<lparr>objs := (objs s)(h := None), kern := k\<rparr>)))),
     VTADeviceRun = (\<lambda>h phy count wait s.
       res_bind (the_device h s) (\<lambda>d. res_bind (VTADevice_Run os d phy count wait (kern s)) (\<lambda>(rc, k). Inr (rc, s\<lparr>kern := k\<rparr>))))\<rparr>"

definition VTAStartCommunication :: "'k os \<Rightarrow> 'k hw \<Rightarrow> 'k hw" where
  "VTAStartCommunication = cma_init"

definition VTAEndCommunication :: "'k os \<Rightarrow> 'k hw \<Rightarrow> 'k hw" where
  "VTAEndCommunication = cma_clean"

section \<open>What the driver relies on\<close>

text \<open>The resources of the kernel: the descriptor of \<open>/dev/xlnk\<close>, the mapped buffers (size, id, physical address), the mapped
  register windows, and how many bytes, buffers and file descriptors are left.\<close>

record kres =
  kfd :: int
  kbufs :: "u64 \<rightharpoonup> nat \<times> u32 \<times> u64"
  kregs :: "u64 \<rightharpoonup> u32"
  kbytes :: nat
  kslots :: nat
  kfds :: nat

definition in_line :: "u64 \<Rightarrow> u64 \<Rightarrow> bool" where
  "in_line l x = (\<exists>t < 64. x = l + word_of_nat t)"

definition registers :: "kres \<Rightarrow> VTADevice \<Rightarrow> bool" where
  "registers a d = (kregs a (vta_fetch_handle d) = Some VTA_FETCH_ADDR \<and> kregs a (vta_load_handle d) = Some VTA_LOAD_ADDR \<and>
     kregs a (vta_compute_handle d) = Some VTA_COMPUTE_ADDR \<and> kregs a (vta_store_handle d) = Some VTA_STORE_ADDR)"

text \<open>\<open>K\<close> relates a state of the machine to these resources and \<open>B k a c\<close> says that the accelerator is busy and done after at
  most \<open>c\<close> more polls. \<open>latest k x v\<close> says that the processor stored \<open>v\<close> at \<open>x\<close> last, \<open>ram k x\<close> is the byte the accelerator reads
  there. The module hands out buffers in the low 4 GiB with small ids, mapped on page boundaries of the user's address space;
  \<open>dc civac\<close> writes a line back; the accelerator finishes a stream that can finish within \<open>W\<close> polls.\<close>

locale xlnk_kernel =
  fixes os :: "'k os" and K :: "'k \<Rightarrow> kres \<Rightarrow> bool" and B :: "'k \<Rightarrow> kres \<Rightarrow> nat \<Rightarrow> bool"
    and latest :: "'k \<Rightarrow> u64 \<Rightarrow> u8 \<Rightarrow> bool" and ram :: "'k \<Rightarrow> u64 \<Rightarrow> u8" and W :: nat
  assumes pages: "os_pagesize os = 4096"
    and alloc_ioctl: "K k a \<Longrightarrow> 0 < len \<Longrightarrow> unat len \<le> VTA_MAX_XFER \<Longrightarrow> unat len \<le> kbytes a \<Longrightarrow> 0 < kslots a \<Longrightarrow>
      \<exists>rc bid phy k1 p k2. os_alloc_ioctl os (kfd a) len cb k = (rc, bid, phy, k1) \<and> 0 \<le> rc \<and> unat bid < 2 ^ 15 \<and> phy \<noteq> 0 \<and> unat phy < 2 ^ 32 \<and>
        os_mmap os (ucast len) (kfd a) (ucast bid * 65536) k1 = (p, k2) \<and> kbufs a p = None \<and>
        K k2 (a\<lparr>kbufs := (kbufs a)(p \<mapsto> (unat len, bid, phy)), kbytes := kbytes a - unat len, kslots := kslots a - 1\<rparr>)"
    and mapped: "K k a \<Longrightarrow> kbufs a p = Some (n, bid, phy) \<Longrightarrow> p \<noteq> 0 \<and> p AND 0x3F = 0 \<and> unat p + n \<le> 2 ^ 47 \<and> n \<le> VTA_MAX_XFER"
    and free_ioctl: "K k a \<Longrightarrow> kbufs a p = Some (n, bid, phy) \<Longrightarrow>
      \<exists>rc k1 rc' k2. os_munmap os p (word_of_nat n) k = (rc, k1) \<and> os_free_ioctl os (kfd a) bid k1 = (rc', k2) \<and>
        K k2 (a\<lparr>kbufs := (kbufs a)(p := None), kbytes := kbytes a + n, kslots := kslots a + 1\<rparr>)"
    and store: "K k a \<Longrightarrow> kbufs a p = Some (n, bid, phy) \<Longrightarrow> length bs \<le> n \<Longrightarrow>
      \<exists>k'. os_store os p bs k = Inr k' \<and> K k' a \<and> (\<forall>i < length bs. latest k' (p + word_of_nat i) (bs ! i))"
    and load: "K k a \<Longrightarrow> kbufs a p = Some (n, bid, phy) \<Longrightarrow> m \<le> n \<Longrightarrow> \<exists>bs. os_load os p m k = Inr bs \<and> length bs = m"
    and civac: "K k a \<Longrightarrow> kbufs a p = Some (n, bid, phy) \<Longrightarrow> i = 0 \<or> 64 * i < n \<Longrightarrow>
      \<exists>k'. os_civac os (p + word_of_nat (64 * i)) k = Inr k' \<and> K k' a \<and>
        (\<forall>x v. latest k x v \<longrightarrow> latest k' x v \<and> (in_line (p + word_of_nat (64 * i)) x \<or> ram k x = v \<longrightarrow> ram k' x = v))"
    and heap: "K k a \<Longrightarrow> \<exists>p k'. os_new os k = (p, k') \<and> p \<noteq> 0 \<and> K k' a"
    and map_reg: "K k a \<Longrightarrow> base \<in> {VTA_FETCH_ADDR, VTA_LOAD_ADDR, VTA_COMPUTE_ADDR, VTA_STORE_ADDR} \<Longrightarrow> 0 < kfds a \<Longrightarrow>
      \<exists>fd k1 p k2. os_open os ''/dev/mem'' k = (fd, k1) \<and> os_mmap os (ucast VTA_IP_REG_MAP_RANGE) fd (ucast base) k1 = (p, k2) \<and>
        kregs a p = None \<and> K k2 (a\<lparr>kregs := (kregs a)(p \<mapsto> base), kfds := kfds a - 1\<rparr>)"
    and unmap_reg: "K k a \<Longrightarrow> kregs a p = Some base \<Longrightarrow>
      \<exists>k'. os_munmap os p (ucast VTA_IP_REG_MAP_RANGE) k = (0, k') \<and> K k' (a\<lparr>kregs := (kregs a)(p := None)\<rparr>)"
    and start: "K k a \<Longrightarrow> registers a d \<Longrightarrow> kbufs a p = Some (n, bid, phy) \<Longrightarrow>
      (\<And>i. i < 16 * length is \<Longrightarrow> ram k (p + word_of_nat i) = concat (map insn_bytes is) ! i) \<Longrightarrow> can_finish is \<Longrightarrow> 16 * length is \<le> n \<Longrightarrow>
      \<exists>k'. fold_res (VTAWriteMappedReg os) (start_writes d (ucast phy) (word_of_nat (length is))) k = Inr k' \<and> B (os_nanosleep os 1000 k') a W"
    and finishes: "B k a c \<Longrightarrow> registers a d \<Longrightarrow>
      \<exists>flag k'. os_load32 os (vta_compute_handle d + ucast VTA_COMPUTE_DONE_RD_OFFSET) k = Inr (flag, k') \<and>
        (if flag = VTA_DONE then K k' a else 0 < c \<and> B (os_yield os k') a (c - 1))"

text \<open>The table of \<open>pynqlib.cpp\<close> as a map, and the invariant of the driver.\<close>

definition cma_table :: "cma_mem list \<Rightarrow> u64 \<rightharpoonup> nat \<times> u32 \<times> u64" where
  "cma_table ms p = map_option (\<lambda>m. (unat (cma_len m), cma_id m, phys m)) (lookup p ms)"

definition hw_ok :: "'k hw \<Rightarrow> resources \<Rightarrow> kres \<Rightarrow> bool" where
  "hw_ok s g a = (kfd a = xlnkfd s \<and> bytes_left g = kbytes a \<and> bufs_left g = kslots a \<and> 4 * devs_left g \<le> kfds a \<and>
     distinct (map virt (maps s)) \<and> kbufs a = cma_table (maps s) \<and>
     bufs g = (\<lambda>p. map_option (\<lambda>(n, bid, phy). (n, ucast phy)) (kbufs a p)) \<and>
     devices g = dom (objs s) \<and> (\<forall>h d. objs s h = Some d \<longrightarrow> h \<noteq> 0 \<and> objs s = [h \<mapsto> d] \<and> registers a d))"

definition hw_inv :: "('k \<Rightarrow> kres \<Rightarrow> bool) \<Rightarrow> 'k hw \<Rightarrow> resources \<Rightarrow> bool" where
  "hw_inv K s g = (\<exists>a. K (kern s) a \<and> hw_ok s g a)"

lemma lookup_Nil [simp]: "lookup p [] = None"
  and lookup_Cons [simp]: "lookup p (m # ms) = (if virt m = p then Some m else lookup p ms)"
  by (simp_all add: lookup_def)

lemma lookup_virt: "lookup p ms = Some m \<Longrightarrow> virt m = p"
  by (induction ms) (auto split: if_splits)

lemma lookup_append: "lookup p (ms @ [m]) = (case lookup p ms of None \<Rightarrow> if virt m = p then Some m else None | Some x \<Rightarrow> Some x)"
  by (induction ms) auto

lemma lookup_none: "(lookup p ms = None) = (p \<notin> virt ` set ms)"
  by (induction ms) auto

lemma hw_ok_kern [simp]: "hw_ok (s\<lparr>kern := k\<rparr>) g a = hw_ok s g a"
  by (simp add: hw_ok_def)

lemma hw_ok_buf:
  assumes "hw_ok s g a" "bufs g p = Some (n, phy)"
  obtains e where "lookup p (maps s) = Some e" "n = unat (cma_len e)" "phy = ucast (phys e)" "kbufs a p = Some (n, cma_id e, phys e)" "virt e = p"
proof -
  obtain e where e: "lookup p (maps s) = Some e" "n = unat (cma_len e)" "phy = ucast (phys e)" "kbufs a p = Some (n, cma_id e, phys e)"
    using assms by (auto simp: hw_ok_def cma_table_def)
  from that [OF this lookup_virt [OF e(1)]] show thesis .
qed

lemma hw_ok_dev:
  assumes "hw_ok s g a" "h \<in> devices g"
  obtains d where "objs s = [h \<mapsto> d]" "h \<noteq> 0" "registers a d" "devices g = {h}"
proof -
  obtain d where "objs s h = Some d" using assms by (auto simp: hw_ok_def)
  with assms(1) have d: "objs s = [h \<mapsto> d]" "h \<noteq> 0" "registers a d" "devices g = dom (objs s)" by (auto simp: hw_ok_def)
  then have "devices g = {h}" by simp
  with d(1-3) that show thesis by blast
qed

definition hw_shared :: "('k \<Rightarrow> u64 \<Rightarrow> u8) \<Rightarrow> 'k hw \<Rightarrow> u64 \<Rightarrow> bytes \<Rightarrow> bool" where
  "hw_shared ram s p bs = (\<forall>i < length bs. ram (kern s) (p + word_of_nat i) = bs ! i)"

lemma cma_table_push:
  assumes "cma_table ms (virt m) = None"
  shows "cma_table (ms @ [m]) = (cma_table ms)(virt m \<mapsto> (unat (cma_len m), cma_id m, phys m))" "distinct (map virt ms) \<Longrightarrow> distinct (map virt (ms @ [m]))"
proof -
  have n: "lookup (virt m) ms = None" using assms by (simp add: cma_table_def)
  show "cma_table (ms @ [m]) = (cma_table ms)(virt m \<mapsto> (unat (cma_len m), cma_id m, phys m))"
    using n by (auto simp: fun_eq_iff cma_table_def lookup_append split: option.split)
  show "distinct (map virt ms) \<Longrightarrow> distinct (map virt (ms @ [m]))" using n by (auto simp: lookup_none)
qed

lemma set_erase: "set (map virt (erase p ms)) \<subseteq> set (map virt ms)"
  by (induction ms) auto

lemma cma_table_erase:
  assumes "distinct (map virt ms)"
  shows "cma_table (erase p ms) = (cma_table ms)(p := None)" "distinct (map virt (erase p ms))"
proof -
  have "lookup q (erase p ms) = (if q = p then None else lookup q ms)" for q
    using assms by (induction ms) (auto simp: lookup_none)
  then show "cma_table (erase p ms) = (cma_table ms)(p := None)" by (auto simp: fun_eq_iff cma_table_def)
  show "distinct (map virt (erase p ms))" using assms set_erase [of p] by (induction ms) fastforce+
qed

section \<open>The driver keeps the contract\<close>

lemma sint_small:
  fixes x :: "'a :: len word"
  assumes "unat x < 2 ^ (LENGTH('a) - 1)"
  shows "sint x = int (unat x)"
proof -
  have u: "uint x = int (unat x)" by simp
  have "int (unat x) < 2 ^ (LENGTH('a) - 1)" using assms by (metis of_nat_less_iff of_nat_numeral of_nat_power)
  moreover have "- (2 ^ (LENGTH('a) - 1)) \<le> (0 :: int)" by simp
  then have "- (2 ^ (LENGTH('a) - 1)) \<le> int (unat x)" by (rule order_trans) simp
  ultimately show ?thesis unfolding sint_uint u One_nat_def [symmetric] by (rule signed_take_bit_int_eq_self [rotated])
qed

lemma user_sint: "unat (x :: u64) < 2 ^ 63 \<Longrightarrow> sint x = int (unat x)"
  by (rule sint_small) simp

lemma and_not_self:
  fixes p m :: "'a :: len word"
  assumes "p AND m = 0"
  shows "p AND NOT m = p"
proof -
  have "p = p AND (m OR NOT m)" by simp
  also have "\<dots> = (p AND m) OR (p AND NOT m)" by (rule bit.conj_disj_distrib)
  finally show ?thesis unfolding assms by simp
qed

lemma cma_offset_small:
  assumes "unat (bid :: u32) < 2 ^ 15"
  shows "cma_offset bid = Inr (ucast bid * 65536)"
proof -
  have s: "sint bid = int (unat bid)" using assms by (intro sint_small) simp
  have "int (unat bid) < 2 ^ 15" using assms by (metis of_nat_less_iff of_nat_numeral of_nat_power)
  then have r: "0 \<le> int (unat bid) \<and> int (unat bid) * 16 * 4096 < 2 ^ 31" by simp
  have "ucast bid = (word_of_int (int (unat bid)) :: u64)" by (simp only: ucast_eq uint_nat)
  then have "word_of_int (int (unat bid) * 16 * 4096) = (ucast bid * 65536 :: u64)"
    by (simp only: of_int_mult of_int_numeral mult.assoc) simp
  with r show ?thesis unfolding cma_offset_def s by (simp only: simp_thms if_True)
qed

lemma low_phys:
  assumes "phy \<noteq> 0" "unat (phy :: u64) < 2 ^ 32"
  shows "(ucast phy :: u32) \<noteq> 0"
proof
  assume "(ucast phy :: u32) = 0"
  moreover have "unat (ucast phy :: u32) = unat phy" using assms(2) by (simp add: unsigned_ucast_eq take_bit_nat_eq_self)
  ultimately have "unat phy = 0" by simp
  then show False using assms(1) by (simp add: unat_eq_0)
qed

context xlnk_kernel
begin

text \<open>The flush loop from line \<open>j\<close> of a buffer on: it ends, and every byte of the remaining lines that the processor stored
  last is in memory, as are the ones that were there before.\<close>

lemma flush_loop_lines:
  assumes "kbufs a p = Some (n, bid, phy)" "sz \<le> n" "j = 0 \<or> 64 * j < sz" "K k a"
  shows "\<exists>k'. flush_loop os (p + word_of_nat (64 * j)) (p + word_of_nat sz) k = Some (Inr k') \<and> K k' a \<and>
    (\<forall>x v. latest k x v \<longrightarrow> latest k' x v \<and>
      (ram k x = v \<or> (\<exists>i \<ge> j. 64 * i < sz \<and> in_line (p + word_of_nat (64 * i)) x) \<longrightarrow> ram k' x = v))"
  using assms(3,4)
proof (induction "sz - 64 * j" arbitrary: j k rule: less_induct)
  case less
  note m = mapped [OF less.prems(2) assms(1)]
  obtain k1 where k1: "os_civac os (p + word_of_nat (64 * j)) k = Inr k1" "K k1 a"
      "\<And>x v. latest k x v \<Longrightarrow> latest k1 x v \<and> (in_line (p + word_of_nat (64 * j)) x \<or> ram k x = v \<longrightarrow> ram k1 x = v)"
    using civac [OF less.prems(2) assms(1), of j] less.prems(1) assms(2) by auto
  have u: "unat (p + word_of_nat t) = unat p + t" if "t \<le> sz + 64" for t
    using m that assms(2) by (subst unat_plus_simple [THEN iffD1]) (auto simp: unat_word_of_nat_small spec_consts no_olen_add_nat)
  have next_line: "p + word_of_nat (64 * j) + 64 = p + word_of_nat (64 * Suc j)" by simp
  have "sint (p + word_of_nat (64 * Suc j)) = int (unat p + 64 * Suc j)" "sint (p + word_of_nat sz) = int (unat p + sz)"
    using u [of "64 * Suc j"] u [of sz] m less.prems(1) assms(2) by (auto simp: user_sint spec_consts)
  then have cmp: "(sint (p + word_of_nat (64 * j) + 64) < sint (p + word_of_nat sz)) = (64 * Suc j < sz)" unfolding next_line by linarith
  show ?case
  proof (cases "64 * Suc j < sz")
    case True
    then have "sz - 64 * Suc j < sz - 64 * j" by simp
    from less.hyps [OF this _ k1(2)] True obtain k2 where k2: "flush_loop os (p + word_of_nat (64 * Suc j)) (p + word_of_nat sz) k1 = Some (Inr k2)" "K k2 a"
        "\<And>x v. latest k1 x v \<Longrightarrow> latest k2 x v \<and>
          (ram k1 x = v \<or> (\<exists>i \<ge> Suc j. 64 * i < sz \<and> in_line (p + word_of_nat (64 * i)) x) \<longrightarrow> ram k2 x = v)" by auto
    have "flush_loop os (p + word_of_nat (64 * j)) (p + word_of_nat sz) k = Some (Inr k2)"
      using k1(1) k2(1) True cmp unfolding flush_loop.simps [of os "p + word_of_nat (64 * j)"] next_line by simp
    moreover have "latest k2 x v \<and> (ram k x = v \<or> (\<exists>i \<ge> j. 64 * i < sz \<and> in_line (p + word_of_nat (64 * i)) x) \<longrightarrow> ram k2 x = v)"
      if "latest k x v" for x v
      using k1(3) [OF that] k2(3) by (metis Suc_leI le_neq_implies_less)
    ultimately show ?thesis using k2(2) by blast
  next
    case False
    then have "flush_loop os (p + word_of_nat (64 * j)) (p + word_of_nat sz) k = Some (Inr k1)"
      using k1(1) cmp unfolding flush_loop.simps [of os "p + word_of_nat (64 * j)"] by simp
    moreover have "i = j" if "j \<le> i" "64 * i < sz" for i using that False by simp
    ultimately show ?thesis using k1(2,3) by blast
  qed
qed

lemma flush_serves:
  assumes "K (kern s) a" "kbufs a p = Some (n, bid, phy)" "sz \<le> n"
  shows "\<exists>k'. cma_flush_cache os p pa (word_of_nat sz) s = Inr (s\<lparr>kern := k'\<rparr>) \<and> K k' a \<and>
    (\<forall>i v. i < sz \<and> latest (kern s) (p + word_of_nat i) v \<longrightarrow> ram k' (p + word_of_nat i) = v)"
proof -
  note m = mapped [OF assms(1,2)]
  have small: "sz \<le> 2 ^ 25" using m assms(3) by (simp add: spec_consts)
  have "scast (word_of_nat sz :: u32) = (word_of_nat sz :: u64)"
  proof -
    have "sint (word_of_nat sz :: u32) = int sz" using small by (simp add: signed_of_nat signed_take_bit_int_eq_self)
    then show ?thesis by (simp only: scast_eq of_int_of_nat_eq)
  qed
  moreover have "p AND NOT 0x3F = p" using m and_not_self by blast
  moreover obtain k' where k': "flush_loop os (p + word_of_nat (64 * 0)) (p + word_of_nat sz) (kern s) = Some (Inr k')" "K k' a"
      "\<forall>x v. latest (kern s) x v \<longrightarrow> latest k' x v \<and>
        (ram (kern s) x = v \<or> (\<exists>i \<ge> 0. 64 * i < sz \<and> in_line (p + word_of_nat (64 * i)) x) \<longrightarrow> ram k' x = v)"
    using flush_loop_lines [OF assms(2,3) _ assms(1), of 0] by auto
  ultimately have "cma_flush_cache os p pa (word_of_nat sz) s = Inr (s\<lparr>kern := k'\<rparr>)" by (simp add: cma_flush_cache_def)
  moreover have "ram k' (p + word_of_nat i) = v" if "i < sz" "latest (kern s) (p + word_of_nat i) v" for i v
  proof -
    have "in_line (p + word_of_nat (64 * (i div 64))) (p + word_of_nat i)"
      unfolding in_line_def by (intro exI [of _ "i mod 64"]) (simp add: add.assoc flip: of_nat_add of_nat_mult)
    moreover have "64 * (i div 64) < sz" using that(1) by (metis div_mult_mod_eq le_add1 le_less_trans mult.commute)
    ultimately show ?thesis using k'(3) that(2) by blast
  qed
  ultimately show ?thesis using k'(2) by blast
qed

lemma poll_serves: "B k a c \<Longrightarrow> registers a d \<Longrightarrow> c < n \<Longrightarrow> \<exists>k'. poll os (vta_compute_handle d) n k = Inr (0, k') \<and> K k' a"
proof (induction n arbitrary: k c)
  case (Suc n)
  obtain flag k1 where f: "os_load32 os (vta_compute_handle d + ucast VTA_COMPUTE_DONE_RD_OFFSET) k = Inr (flag, k1)"
      "if flag = VTA_DONE then K k1 a else 0 < c \<and> B (os_yield os k1) a (c - 1)"
    using finishes [OF Suc.prems(1,2)] by blast
  show ?case
  proof (cases "flag = VTA_DONE")
    case False
    then have "\<exists>k'. poll os (vta_compute_handle d) n (os_yield os k1) = Inr (0, k') \<and> K k' a"
      using f(2) Suc.IH [of "os_yield os k1" "c - 1"] Suc.prems(2,3) by auto
    then show ?thesis using f(1) False by (auto simp: VTAReadMappedReg_def)
  qed (use f in \<open>auto simp: VTAReadMappedReg_def\<close>)
qed simp

lemma map_register_serves:
  assumes "K k a" "base \<in> {VTA_FETCH_ADDR, VTA_LOAD_ADDR, VTA_COMPUTE_ADDR, VTA_STORE_ADDR}" "0 < kfds a"
  shows "\<exists>p k'. VTAMapRegister os base k = (p, k') \<and> kregs a p = None \<and> K k' (a\<lparr>kregs := (kregs a)(p \<mapsto> base), kfds := kfds a - 1\<rparr>)"
proof -
  have "base AND NOT (os_pagesize os - 1) = base" using assms(2) by (auto simp: pages reg_bases)
  then have "VTAMapRegister os base k = (case os_open os ''/dev/mem'' k of (fd, k) \<Rightarrow> os_mmap os (ucast VTA_IP_REG_MAP_RANGE) fd (ucast base) k)"
    by (simp add: VTAMapRegister_def)
  with map_reg [OF assms] show ?thesis by auto
qed

lemma unmap_register_serves:
  "K k a \<Longrightarrow> kregs a p = Some base \<Longrightarrow> \<exists>k'. VTAUnmapRegister os p k = Inr k' \<and> K k' (a\<lparr>kregs := (kregs a)(p := None)\<rparr>)"
  using unmap_reg [of k a p base] by (auto simp: VTAUnmapRegister_def check_def)

lemma new_device_serves:
  assumes "K k a" "4 \<le> kfds a"
  shows "\<exists>d k' rs. new_VTADevice os k = (d, k') \<and> registers (a\<lparr>kregs := rs, kfds := kfds a - 4\<rparr>) d \<and> K k' (a\<lparr>kregs := rs, kfds := kfds a - 4\<rparr>)"
proof -
  obtain f k1 where 1: "VTAMapRegister os VTA_FETCH_ADDR k = (f, k1)" "K k1 (a\<lparr>kregs := (kregs a)(f \<mapsto> VTA_FETCH_ADDR), kfds := kfds a - 1\<rparr>)"
    using map_register_serves [OF assms(1), of VTA_FETCH_ADDR] assms(2) by auto
  obtain l k2 where 2: "VTAMapRegister os VTA_LOAD_ADDR k1 = (l, k2)" "l \<noteq> f"
      "K k2 (a\<lparr>kregs := (kregs a)(f \<mapsto> VTA_FETCH_ADDR, l \<mapsto> VTA_LOAD_ADDR), kfds := kfds a - 2\<rparr>)"
    using map_register_serves [OF 1(2), of VTA_LOAD_ADDR] assms(2) by (auto simp: numeral_eq_Suc split: if_splits)
  obtain c k3 where 3: "VTAMapRegister os VTA_COMPUTE_ADDR k2 = (c, k3)" "c \<noteq> f" "c \<noteq> l"
      "K k3 (a\<lparr>kregs := (kregs a)(f \<mapsto> VTA_FETCH_ADDR, l \<mapsto> VTA_LOAD_ADDR, c \<mapsto> VTA_COMPUTE_ADDR), kfds := kfds a - 3\<rparr>)"
    using map_register_serves [OF 2(3), of VTA_COMPUTE_ADDR] assms(2) by (auto simp: numeral_eq_Suc split: if_splits)
  obtain st k4 where 4: "VTAMapRegister os VTA_STORE_ADDR k3 = (st, k4)" "st \<noteq> f" "st \<noteq> l" "st \<noteq> c"
      "K k4 (a\<lparr>kregs := (kregs a)(f \<mapsto> VTA_FETCH_ADDR, l \<mapsto> VTA_LOAD_ADDR, c \<mapsto> VTA_COMPUTE_ADDR, st \<mapsto> VTA_STORE_ADDR), kfds := kfds a - 4\<rparr>)"
    using map_register_serves [OF 3(4), of VTA_STORE_ADDR] assms(2) by (auto simp: numeral_eq_Suc split: if_splits)
  show ?thesis using 1(1) 2(1,2) 3(1-3) 4
    by (intro exI [of _ "\<lparr>vta_fetch_handle = f, vta_load_handle = l, vta_compute_handle = c, vta_store_handle = st\<rparr>"] exI [of _ k4]
      exI [of _ "(kregs a)(f \<mapsto> VTA_FETCH_ADDR, l \<mapsto> VTA_LOAD_ADDR, c \<mapsto> VTA_COMPUTE_ADDR, st \<mapsto> VTA_STORE_ADDR)"])
      (simp add: new_VTADevice_def registers_def)
qed

lemma delete_device_serves:
  assumes "K k a" "registers a d"
  shows "\<exists>k' rs. delete_VTADevice os d k = Inr k' \<and> K k' (a\<lparr>kregs := rs\<rparr>)"
proof -
  let ?f = "vta_fetch_handle d" let ?l = "vta_load_handle d" let ?c = "vta_compute_handle d" let ?s = "vta_store_handle d"
  have d: "?l \<noteq> ?f" "?c \<notin> {?f, ?l}" "?s \<notin> {?f, ?l, ?c}" using assms(2) by (auto simp: registers_def reg_bases)
  obtain k1 where 1: "VTAUnmapRegister os ?f k = Inr k1" "K k1 (a\<lparr>kregs := (kregs a)(?f := None)\<rparr>)"
    using unmap_register_serves [OF assms(1), of ?f] assms(2) by (auto simp: registers_def)
  obtain k2 where 2: "VTAUnmapRegister os ?l k1 = Inr k2" "K k2 (a\<lparr>kregs := (kregs a)(?f := None, ?l := None)\<rparr>)"
    using unmap_register_serves [OF 1(2), of ?l] assms(2) d by (auto simp: registers_def)
  obtain k3 where 3: "VTAUnmapRegister os ?c k2 = Inr k3" "K k3 (a\<lparr>kregs := (kregs a)(?f := None, ?l := None, ?c := None)\<rparr>)"
    using unmap_register_serves [OF 2(2), of ?c] assms(2) d by (auto simp: registers_def)
  obtain k4 where "VTAUnmapRegister os ?s k3 = Inr k4" "K k4 (a\<lparr>kregs := (kregs a)(?f := None, ?l := None, ?c := None, ?s := None)\<rparr>)"
    using unmap_register_serves [OF 3(2), of ?s] assms(2) d by (auto simp: registers_def)
  with 1 2 3 show ?thesis by (auto simp: delete_VTADevice_def)
qed

text \<open>The laws of the driver's contract.\<close>

lemma hw_alloc:
  assumes "hw_inv K m g" "0 < sz" "unat sz \<le> VTA_MAX_XFER" "unat sz \<le> bytes_left g" "0 < bufs_left g"
  shows "\<exists>p phy m'. VTAMemAlloc (hw_driver os) sz cache m = Inr (p, m') \<and> p \<noteq> 0 \<and> phy \<noteq> 0 \<and> bufs g p = None \<and> hw_inv K m' (take_buf p (unat sz) phy g)"
proof -
  obtain a where a: "K (kern m) a" "hw_ok m g a" using assms(1) by (auto simp: hw_inv_def)
  have u: "unat (ucast sz :: u32) = unat sz" using assms(3) by (simp add: unsigned_ucast_eq take_bit_nat_eq_self spec_consts)
  then have "0 < (ucast sz :: u32)" using assms(2) by (metis unat_gt_0 unsigned_0 word_gt_0)
  then obtain rc bid phy k1 p k2 where k: "os_alloc_ioctl os (kfd a) (ucast sz) (if cache then 1 else 0) (kern m) = (rc, bid, phy, k1)" "0 \<le> rc"
      "unat bid < 2 ^ 15" "phy \<noteq> 0" "unat phy < 2 ^ 32" "os_mmap os (ucast (ucast sz :: u32)) (kfd a) (ucast bid * 65536) k1 = (p, k2)" "kbufs a p = None"
      "K k2 (a\<lparr>kbufs := (kbufs a)(p \<mapsto> (unat sz, bid, phy)), kbytes := kbytes a - unat sz, kslots := kslots a - 1\<rparr>)"
    using alloc_ioctl [OF a(1), of "ucast sz" "if cache then 1 else 0"] assms(3-5) a(2) u by (auto simp: hw_ok_def)
  let ?e = "\<lparr>phys = phy, virt = p, cma_len = ucast sz, cma_id = bid\<rparr>"
  let ?m = "m\<lparr>maps := maps m @ [?e], kern := k2\<rparr>"
  have "cma_offset bid = Inr (ucast bid * 65536)" using k(3) by (rule cma_offset_small)
  then have "VTAMemAlloc (hw_driver os) sz cache m = Inr (p, ?m)"
    using assms(3) k(1,2,6) a(2) by (simp add: hw_driver_def check_def cma_alloc_def cma_mmap_def hw_ok_def)
  moreover have "p \<noteq> 0" using mapped [OF k(8), of p] by simp
  moreover have "(ucast phy :: u32) \<noteq> 0" using k(4,5) by (rule low_phys)
  moreover have "hw_inv K ?m (take_buf p (unat sz) (ucast phy) g)"
    using a(2) k(8) cma_table_push [of "maps m" ?e] k(7) u unfolding hw_inv_def
    by (intro exI [of _ "a\<lparr>kbufs := (kbufs a)(p \<mapsto> (unat sz, bid, phy)), kbytes := kbytes a - unat sz, kslots := kslots a - 1\<rparr>"])
      (auto simp: hw_ok_def fun_eq_iff registers_def)
  moreover have "bufs g p = None" using a(2) k(7) by (simp add: hw_ok_def)
  ultimately show ?thesis by blast
qed

lemma hw_free:
  assumes "hw_inv K m g" "bufs g p = Some (n, phy)"
  shows "\<exists>m'. VTAMemFree (hw_driver os) p m = Inr m' \<and> hw_inv K m' (give_buf p n g)"
proof -
  obtain a where a: "K (kern m) a" "hw_ok m g a" using assms(1) by (auto simp: hw_inv_def)
  obtain e where e: "lookup p (maps m) = Some e" "n = unat (cma_len e)" "kbufs a p = Some (n, cma_id e, phys e)" "virt e = p"
    using hw_ok_buf [OF a(2) assms(2)] by metis
  have l: "word_of_nat n = (ucast (cma_len e) :: u64)" unfolding e(2) by (simp add: unsigned_def)
  obtain rc k1 rc' k2 where k: "os_munmap os p (word_of_nat n) (kern m) = (rc, k1)" "os_free_ioctl os (kfd a) (cma_id e) k1 = (rc', k2)"
      "K k2 (a\<lparr>kbufs := (kbufs a)(p := None), kbytes := kbytes a + n, kslots := kslots a + 1\<rparr>)"
    using free_ioctl [OF a(1) e(3)] by blast
  let ?m = "m\<lparr>maps := erase p (maps m), kern := k2\<rparr>"
  have "VTAMemFree (hw_driver os) p m = Inr ?m" using e(1,4) k(1,2) a(2) l by (simp add: hw_driver_def cma_free_def hw_ok_def)
  moreover have "hw_inv K ?m (give_buf p n g)"
    using a(2) k(3) cma_table_erase [of "maps m" p] unfolding hw_inv_def
    by (intro exI [of _ "a\<lparr>kbufs := (kbufs a)(p := None), kbytes := kbytes a + n, kslots := kslots a + 1\<rparr>"]) (auto simp: hw_ok_def fun_eq_iff registers_def)
  ultimately show ?thesis by blast
qed

lemma hw_phys: "hw_inv K m g \<Longrightarrow> bufs g p = Some (n, phy) \<Longrightarrow> VTAMemGetPhyAddr (hw_driver os) p m = Inr phy"
  by (auto simp: hw_inv_def hw_driver_def cma_get_phy_addr_def elim: hw_ok_buf)

lemma hw_stage:
  assumes "hw_inv K m g" "bufs g p = Some (n, phy)" "length bs \<le> n"
  shows "\<exists>m1 m2. VTAMemCopyFromHost (hw_driver os) p bs m = Inr m1 \<and> VTAFlushCache (hw_driver os) p phy (word_of_nat (length bs)) m1 = Inr m2 \<and>
    hw_inv K m2 g \<and> hw_shared ram m2 p bs"
proof -
  obtain a where a: "K (kern m) a" "hw_ok m g a" using assms(1) by (auto simp: hw_inv_def)
  obtain bid pa where b: "kbufs a p = Some (n, bid, pa)" using hw_ok_buf [OF a(2) assms(2)] by metis
  obtain k1 where k1: "os_store os p bs (kern m) = Inr k1" "K k1 a" "\<forall>i < length bs. latest k1 (p + word_of_nat i) (bs ! i)"
    using store [OF a(1) b assms(3)] by blast
  obtain k2 where "cma_flush_cache os p phy (word_of_nat (length bs)) (m\<lparr>kern := k1\<rparr>) = Inr (m\<lparr>kern := k2\<rparr>)" "K k2 a"
      "\<forall>i v. i < length bs \<and> latest k1 (p + word_of_nat i) v \<longrightarrow> ram k2 (p + word_of_nat i) = v"
    using flush_serves [OF _ b assms(3), of "m\<lparr>kern := k1\<rparr>" phy] k1(2) by auto
  with k1 a(2) show ?thesis by (auto simp: hw_driver_def hw_shared_def hw_inv_def)
qed

lemma hw_collect:
  assumes "hw_inv K m g" "bufs g p = Some (n, phy)" "unat sz \<le> n"
  shows "\<exists>m' bs. VTAInvalidateCache (hw_driver os) p phy (ucast sz) m = Inr m' \<and> hw_inv K m' g \<and>
    VTAMemCopyToHost (hw_driver os) p sz m' = Inr bs \<and> length bs = unat sz"
proof -
  obtain a where a: "K (kern m) a" "hw_ok m g a" using assms(1) by (auto simp: hw_inv_def)
  obtain bid pa where b: "kbufs a p = Some (n, bid, pa)" using hw_ok_buf [OF a(2) assms(2)] by metis
  have "word_of_nat (unat sz) = (ucast sz :: u32)" by (simp only: ucast_eq uint_nat of_int_of_nat_eq)
  then obtain k where k: "cma_flush_cache os p phy (ucast sz) m = Inr (m\<lparr>kern := k\<rparr>)" "K k a"
    using flush_serves [OF a(1) b assms(3), of phy] by metis
  obtain bs where "os_load os p (unat sz) k = Inr bs" "length bs = unat sz" using load [OF k(2) b assms(3)] by blast
  with k a(2) show ?thesis by (auto simp: hw_driver_def cma_invalidate_cache_def hw_inv_def)
qed

lemma hw_open_dev:
  assumes "hw_inv K m g" "devices g = {}" "0 < devs_left g"
  shows "\<exists>h m'. VTADeviceAlloc (hw_driver os) m = Inr (h, m') \<and> h \<noteq> 0 \<and> hw_inv K m' (take_dev h g)"
proof -
  obtain a where a: "K (kern m) a" "hw_ok m g a" using assms(1) by (auto simp: hw_inv_def)
  have e: "objs m = Map.empty" using a(2) assms(2) unfolding hw_ok_def by (metis dom_eq_empty_conv)
  obtain h k0 where h: "os_new os (kern m) = (h, k0)" "h \<noteq> 0" "K k0 a" using heap [OF a(1)] by blast
  obtain d k1 rs where d: "new_VTADevice os k0 = (d, k1)" "registers (a\<lparr>kregs := rs, kfds := kfds a - 4\<rparr>) d" "K k1 (a\<lparr>kregs := rs, kfds := kfds a - 4\<rparr>)"
    using new_device_serves [OF h(3)] a(2) assms(3) by (fastforce simp: hw_ok_def)
  have "VTADeviceAlloc (hw_driver os) m = Inr (h, m\<lparr>objs := [h \<mapsto> d], kern := k1\<rparr>)" using h(1) d(1) e by (simp add: hw_driver_def)
  moreover have "hw_inv K (m\<lparr>objs := [h \<mapsto> d], kern := k1\<rparr>) (take_dev h g)"
    using a(2) d(2,3) h(2) assms(2,3) unfolding hw_inv_def by (intro exI [of _ "a\<lparr>kregs := rs, kfds := kfds a - 4\<rparr>"]) (auto simp: hw_ok_def)
  ultimately show ?thesis using h(2) by blast
qed

lemma hw_close_dev:
  assumes "hw_inv K m g" "h \<in> devices g"
  shows "\<exists>m'. VTADeviceFree (hw_driver os) h m = Inr m' \<and> hw_inv K m' (give_dev h g)"
proof -
  obtain a where a: "K (kern m) a" "hw_ok m g a" using assms(1) by (auto simp: hw_inv_def)
  obtain d where d: "objs m = [h \<mapsto> d]" "h \<noteq> 0" "registers a d" "devices g = {h}" by (rule hw_ok_dev [OF a(2) assms(2)])
  obtain k rs where k: "delete_VTADevice os d (kern m) = Inr k" "K k (a\<lparr>kregs := rs\<rparr>)" using delete_device_serves [OF a(1) d(3)] by blast
  have "VTADeviceFree (hw_driver os) h m = Inr (m\<lparr>objs := Map.empty, kern := k\<rparr>)" using d(1,2) k(1) by (simp add: hw_driver_def the_device_def)
  moreover have "hw_inv K (m\<lparr>objs := Map.empty, kern := k\<rparr>) (give_dev h g)"
    using a(2) d(4) k(2) unfolding hw_inv_def by (intro exI [of _ "a\<lparr>kregs := rs\<rparr>"]) (auto simp: hw_ok_def)
  ultimately show ?thesis by blast
qed

lemma hw_run:
  assumes "hw_inv K m g" "h \<in> devices g" "bufs g p = Some (n, phy)" "hw_shared ram m p (concat (map insn_bytes is))" "can_finish is"
    "16 * length is \<le> n" "W < unat w"
  shows "\<exists>m'. VTADeviceRun (hw_driver os) h phy (word_of_nat (length is)) w m = Inr (0, m') \<and> hw_inv K m' g"
proof -
  obtain a where a: "K (kern m) a" "hw_ok m g a" using assms(1) by (auto simp: hw_inv_def)
  obtain d where d: "objs m = [h \<mapsto> d]" "registers a d" using hw_ok_dev [OF a(2) assms(2)] by metis
  obtain bid pa where b: "kbufs a p = Some (n, bid, pa)" "phy = ucast pa" using hw_ok_buf [OF a(2) assms(3)] by metis
  have "ram (kern m) (p + word_of_nat i) = concat (map insn_bytes is) ! i" if "i < 16 * length is" for i
    using assms(4) that insn_code.enc_array_length [of "is"] by (simp add: hw_shared_def)
  then obtain k1 where k1: "fold_res (VTAWriteMappedReg os) (start_writes d phy (word_of_nat (length is))) (kern m) = Inr k1" "B (os_nanosleep os 1000 k1) a W"
    using start [OF a(1) d(2) b(1) _ assms(5,6)] unfolding b(2) by blast
  obtain k2 where "poll os (vta_compute_handle d) (unat w) (os_nanosleep os 1000 k1) = Inr (0, k2)" "K k2 a"
    using poll_serves [OF k1(2) d(2) assms(7)] by blast
  with k1(1) a(2) d(1) show ?thesis by (auto simp: hw_driver_def the_device_def VTADevice_Run_def hw_inv_def)
qed

end

sublocale xlnk_kernel \<subseteq> hw: vta_driver "hw_driver os" "hw_inv K" "hw_shared ram" W
  by unfold_locales (fact hw_alloc hw_phys hw_free hw_stage hw_collect hw_open_dev hw_close_dev hw_run)+

context xlnk_kernel
begin

lemma keeps_contract: "vta_driver (hw_driver os) (hw_inv K) (hw_shared ram) W"
  by (rule hw.vta_driver_axioms)

end

end
