(* ===== verification/Vta_Board.thy ===== *)
theory Vta_Board
  imports Vta_Hw
begin

text \<open>
  A machine on which the driver of \<open>Vta_Hw\<close> works: an instance of the contract of the kernel and the accelerator, so that what is
  shown of the driver under that contract is not empty.
\<close>

section \<open>A machine that keeps its promises\<close>

text \<open>An instance of the contract: eight slots of contiguous memory of 32 MiB, coherent memory, and an accelerator that is done at
  the first poll. Descriptor 3 is \<open>/dev/xlnk\<close>, 4 is \<open>/dev/mem\<close>.\<close>

record zynq =
  b_bufs :: "u64 \<rightharpoonup> nat \<times> u32 \<times> u64"
  b_regs :: "u64 \<rightharpoonup> u32"
  b_bytes :: nat
  b_fds :: nat
  b_mem :: host

definition slot :: "nat \<Rightarrow> u64" where
  "slot i = word_of_nat (2 ^ 26 * (i + 1))"

definition window :: "nat \<Rightarrow> u64" where
  "window j = word_of_nat (2 ^ 40 + 4096 * j)"

definition free_slots :: "zynq \<Rightarrow> nat list" where
  "free_slots k = filter (\<lambda>i. b_bufs k (slot i) = None) [0..<8]"

definition board_mmap :: "u64 \<Rightarrow> int \<Rightarrow> u64 \<Rightarrow> zynq \<Rightarrow> u64 \<times> zynq" where
  "board_mmap len fd off k =
    (if fd = 3 then let i = unat off div 65536 in
       (slot i, k\<lparr>b_bufs := (b_bufs k)(slot i \<mapsto> (unat len, word_of_nat i, slot i)), b_bytes := b_bytes k - unat len\<rparr>)
     else (window (b_fds k), k\<lparr>b_regs := (b_regs k)(window (b_fds k) \<mapsto> ucast off)\<rparr>))"

definition board_munmap :: "u64 \<Rightarrow> u64 \<Rightarrow> zynq \<Rightarrow> int \<times> zynq" where
  "board_munmap p len k =
    (0, case b_bufs k p of Some (n, _) \<Rightarrow> k\<lparr>b_bufs := (b_bufs k)(p := None), b_bytes := b_bytes k + n\<rparr>
        | None \<Rightarrow> k\<lparr>b_regs := (b_regs k)(p := None)\<rparr>)"

definition board_os :: "zynq os" where
  "board_os =
    \<lparr>os_pagesize = 4096,
     os_open = (\<lambda>name k. if b_fds k = 0 then (-1, k) else (if name = ''/dev/xlnk'' then 3 else 4, k\<lparr>b_fds := b_fds k - 1\<rparr>)),
     os_close = (\<lambda>_ k. k\<lparr>b_fds := b_fds k + 1\<rparr>),
     os_reset_ioctl = (\<lambda>_ k. (0, k)),
     os_alloc_ioctl = (\<lambda>_ len _ k. case free_slots k of [] \<Rightarrow> (-1, 0, 0, k) | i # _ \<Rightarrow> (0, word_of_nat i, slot i, k)),
     os_free_ioctl = (\<lambda>_ _ k. (0, k)),
     os_mmap = board_mmap,
     os_munmap = board_munmap,
     os_new = (\<lambda>k. (8, k)),
     os_store = (\<lambda>p bs k. Inr (k\<lparr>b_mem := mem_write (b_mem k) p bs\<rparr>)),
     os_load = (\<lambda>p n k. Inr (mem_read (b_mem k) p n)),
     os_store32 = (\<lambda>_ _ k. Inr k),
     os_load32 = (\<lambda>_ k. Inr (VTA_DONE, k)),
     os_civac = (\<lambda>_ k. Inr k),
     os_nanosleep = (\<lambda>_ k. k),
     os_yield = (\<lambda>k. k)\<rparr>"

definition zynq_ok :: "zynq \<Rightarrow> kres \<Rightarrow> bool" where
  "zynq_ok k a = (kfd a = 3 \<and> kbufs a = b_bufs k \<and> kregs a = b_regs k \<and> kbytes a = b_bytes k \<and>
     kslots a = card {i. i < 8 \<and> b_bufs k (slot i) = None} \<and> kfds a = b_fds k \<and> b_fds k \<le> 2 ^ 20 \<and>
     (\<forall>p n bid phy. b_bufs k p = Some (n, bid, phy) \<longrightarrow> n \<le> VTA_MAX_XFER \<and> (\<exists>i < 8. p = slot i)) \<and>
     (\<forall>p. b_regs k p \<noteq> None \<longrightarrow> (\<exists>j. b_fds k \<le> j \<and> j < 2 ^ 20 \<and> p = window j)))"

lemma zynq_ok_buf: "zynq_ok k a \<Longrightarrow> b_bufs k p = Some (n, bid, phy) \<Longrightarrow> n \<le> VTA_MAX_XFER \<and> (\<exists>i < 8. p = slot i)"
  unfolding zynq_ok_def by blast

lemma zynq_ok_reg: "zynq_ok k a \<Longrightarrow> b_regs k p = Some base \<Longrightarrow> \<exists>j. b_fds k \<le> j \<and> j < 2 ^ 20 \<and> p = window j"
  unfolding zynq_ok_def by blast

lemma zynq_ok_same: "zynq_ok k a \<Longrightarrow> kbufs a = b_bufs k \<and> kregs a = b_regs k \<and> kfds a = b_fds k"
  by (simp add: zynq_ok_def)

lemma unat_slot: "i < 8 \<Longrightarrow> unat (slot i) = 2 ^ 26 * (i + 1)"
  unfolding slot_def by (intro unat_word_of_nat_small) simp

lemma unat_window: "j < 2 ^ 20 \<Longrightarrow> unat (window j) = 2 ^ 40 + 4096 * j"
  unfolding window_def by (intro unat_word_of_nat_small) simp

lemma slot_inj:
  assumes "i < 8" "j < 8"
  shows "(slot i = slot j) = (i = j)"
proof
  assume e: "slot i = slot j"
  have "2 ^ 26 * (i + 1) = unat (slot i)" by (rule unat_slot [OF assms(1), symmetric])
  also have "\<dots> = 2 ^ 26 * (j + 1)" unfolding e by (rule unat_slot [OF assms(2)])
  finally show "i = j" by simp
qed simp

lemma slot_window:
  assumes "i < 8" "j < 2 ^ 20"
  shows "slot i \<noteq> window j"
proof
  assume e: "slot i = window j"
  have "2 ^ 26 * (i + 1) = unat (slot i)" by (rule unat_slot [OF assms(1), symmetric])
  also have "\<dots> = 2 ^ 40 + 4096 * j" unfolding e by (rule unat_window [OF assms(2)])
  finally show False using assms(1) by simp
qed

lemma free_slots_Cons:
  assumes "free_slots k = i # is"
  shows "i < 8" "b_bufs k (slot i) = None"
proof -
  have "i \<in> set (free_slots k)" using assms by simp
  then show "i < 8" "b_bufs k (slot i) = None" by (auto simp: free_slots_def)
qed

lemma board_alloc:
  assumes "zynq_ok k a" "0 < len" "unat len \<le> VTA_MAX_XFER" "unat len \<le> kbytes a" "0 < kslots a"
  shows "\<exists>rc bid phy k1 p k2. os_alloc_ioctl board_os (kfd a) len cb k = (rc, bid, phy, k1) \<and> 0 \<le> rc \<and> unat bid < 2 ^ 15 \<and> phy \<noteq> 0 \<and>
    unat phy < 2 ^ 32 \<and> os_mmap board_os (ucast len) (kfd a) (ucast bid * 65536) k1 = (p, k2) \<and> kbufs a p = None \<and>
    zynq_ok k2 (a\<lparr>kbufs := (kbufs a)(p \<mapsto> (unat len, bid, phy)), kbytes := kbytes a - unat len, kslots := kslots a - 1\<rparr>)"
proof -
  have "{i. i < 8 \<and> b_bufs k (slot i) = None} = set (free_slots k)" by (auto simp: free_slots_def)
  then have "free_slots k \<noteq> []" using assms(1,5) by (auto simp: zynq_ok_def)
  then obtain i "is" where i: "free_slots k = i # is" by (cases "free_slots k") auto
  note f = free_slots_Cons [OF i]
  have w: "unat (word_of_nat i :: u32) = i" "unat (ucast (word_of_nat i :: u32) * 65536 :: u64) div 65536 = i"
    using f(1) by (auto simp: unat_word_of_nat_small unat_mult_lem [THEN iffD1] unsigned_ucast_eq take_bit_nat_eq_self)
  let ?k = "k\<lparr>b_bufs := (b_bufs k)(slot i \<mapsto> (unat len, word_of_nat i, slot i)), b_bytes := b_bytes k - unat len\<rparr>"
  have "{j. j < 8 \<and> b_bufs ?k (slot j) = None} = {j. j < 8 \<and> b_bufs k (slot j) = None} - {i}"
    using slot_inj [OF _ f(1)] by (auto split: if_splits)
  then have card: "card {j. j < 8 \<and> b_bufs ?k (slot j) = None} = card {j. j < 8 \<and> b_bufs k (slot j) = None} - 1"
    using f by (simp only: card_Diff_singleton [of i "{j. j < 8 \<and> b_bufs k (slot j) = None}"] mem_Collect_eq simp_thms)
  have ok: "zynq_ok ?k (a\<lparr>kbufs := (kbufs a)(slot i \<mapsto> (unat len, word_of_nat i, slot i)), kbytes := kbytes a - unat len, kslots := kslots a - 1\<rparr>)"
    using assms(1,3) f(1) card by (auto simp: zynq_ok_def)
  have l: "unat (ucast len :: u64) = unat len" using unsigned_less [of len, where 'a = nat] by (simp add: unsigned_ucast_eq take_bit_nat_eq_self)
  have "os_alloc_ioctl board_os (kfd a) len cb k = (0, word_of_nat i, slot i, k)" by (simp add: board_os_def i)
  moreover have "os_mmap board_os (ucast len) (kfd a) (ucast (word_of_nat i :: u32) * 65536) k = (slot i, ?k)"
    using assms(1) w(2) by (simp add: board_os_def board_mmap_def zynq_ok_def l)
  moreover have "slot i \<noteq> 0" "unat (slot i) < 2 ^ 32" using unat_slot [OF f(1)] f(1) by auto
  moreover have "kbufs a (slot i) = None" using assms(1) f(2) by (simp add: zynq_ok_def)
  ultimately show ?thesis using ok w(1) f(1) by (intro exI conjI) auto
qed


lemma board_mapped:
  assumes "zynq_ok k a" "kbufs a p = Some (n, bid, phy)"
  shows "p \<noteq> 0 \<and> p AND 0x3F = 0 \<and> unat p + n \<le> 2 ^ 47 \<and> n \<le> VTA_MAX_XFER"
proof -
  obtain i where i: "i < 8" "p = slot i" "n \<le> VTA_MAX_XFER" using zynq_ok_buf [OF assms(1)] zynq_ok_same [OF assms(1)] assms(2) by metis
  note u = unat_slot [OF i(1)]
  have "p \<noteq> 0" using u i(1,2) by auto
  moreover have "unat (p AND 0x3F) = 0"
  proof -
    have "(0x3F :: u64) = mask 6" by (simp add: mask_eq_exp_minus_1)
    then have "unat (p AND 0x3F) = unat p mod 2 ^ 6" by (simp only: take_bit_eq_mask [symmetric] unsigned_take_bit_eq take_bit_nat_def)
    then show ?thesis unfolding i(2) u by simp
  qed
  ultimately show ?thesis using u i by (auto simp: unat_eq_0 spec_consts)
qed

lemma board_free:
  assumes "zynq_ok k a" "kbufs a p = Some (n, bid, phy)"
  shows "\<exists>rc k1 rc' k2. os_munmap board_os p (word_of_nat n) k = (rc, k1) \<and> os_free_ioctl board_os (kfd a) bid k1 = (rc', k2) \<and>
    zynq_ok k2 (a\<lparr>kbufs := (kbufs a)(p := None), kbytes := kbytes a + n, kslots := kslots a + 1\<rparr>)"
proof -
  obtain i where i: "i < 8" "p = slot i" using zynq_ok_buf [OF assms(1)] zynq_ok_same [OF assms(1)] assms(2) by metis
  have b: "b_bufs k p = Some (n, bid, phy)" using assms by (simp add: zynq_ok_def)
  let ?k = "k\<lparr>b_bufs := (b_bufs k)(p := None), b_bytes := b_bytes k + n\<rparr>"
  let ?F = "{j. j < 8 \<and> b_bufs k (slot j) = None}"
  have "{j. j < 8 \<and> b_bufs ?k (slot j) = None} = insert i ?F" using i slot_inj [OF _ i(1)] by auto
  moreover have "i \<notin> ?F" "finite ?F" using b i(2) by auto
  ultimately have card: "card {j. j < 8 \<and> b_bufs ?k (slot j) = None} = card ?F + 1" by (simp only: card_insert_disjoint) simp
  have "zynq_ok ?k (a\<lparr>kbufs := (kbufs a)(p := None), kbytes := kbytes a + n, kslots := kslots a + 1\<rparr>)"
    using assms(1) card by (auto simp: zynq_ok_def)
  then show ?thesis using b by (simp add: board_os_def board_munmap_def)
qed

lemma board_map_reg:
  assumes "zynq_ok k a" "base \<in> {VTA_FETCH_ADDR, VTA_LOAD_ADDR, VTA_COMPUTE_ADDR, VTA_STORE_ADDR}" "0 < kfds a"
  shows "\<exists>fd k1 p k2. os_open board_os ''/dev/mem'' k = (fd, k1) \<and> os_mmap board_os (ucast VTA_IP_REG_MAP_RANGE) fd (ucast base) k1 = (p, k2) \<and>
    kregs a p = None \<and> zynq_ok k2 (a\<lparr>kregs := (kregs a)(p \<mapsto> base), kfds := kfds a - 1\<rparr>)"
proof -
  let ?j = "b_fds k - 1"
  let ?k = "k\<lparr>b_fds := ?j, b_regs := (b_regs k)(window ?j \<mapsto> base)\<rparr>"
  have f: "0 < b_fds k" "b_fds k \<le> 2 ^ 20" using assms by (simp_all add: zynq_ok_def)
  have b: "ucast (ucast base :: u64) = base" by (rule bit_word_eqI) (simp add: bit_simps)
  have "kregs a (window ?j) = None"
  proof (rule ccontr)
    assume "kregs a (window ?j) \<noteq> None"
    then obtain base' where "b_regs k (window ?j) = Some base'" using zynq_ok_same [OF assms(1)] by auto
    then obtain j where j: "b_fds k \<le> j" "j < 2 ^ 20" "window ?j = window j" using zynq_ok_reg [OF assms(1)] by blast
    have "2 ^ 40 + 4096 * ?j = unat (window ?j)" using f by (intro unat_window [symmetric]) simp
    also have "\<dots> = 2 ^ 40 + 4096 * j" unfolding j(3) by (rule unat_window [OF j(2)])
    finally show False using j(1) f by simp
  qed
  moreover have "\<exists>j. ?j \<le> j \<and> j < 2 ^ 20 \<and> p = window j" if r: "b_regs ?k p \<noteq> None" for p
  proof (cases "p = window ?j")
    case True
    then show ?thesis using f by (intro exI [of _ ?j]) simp
  next
    case False
    then obtain base' where "b_regs k p = Some base'" using r by auto
    then obtain j where "b_fds k \<le> j" "j < 2 ^ 20" "p = window j" using zynq_ok_reg [OF assms(1)] by blast
    then show ?thesis by (intro exI [of _ j]) simp
  qed
  then have "zynq_ok ?k (a\<lparr>kregs := (kregs a)(window ?j \<mapsto> base), kfds := kfds a - 1\<rparr>)"
    using assms(1) f by (auto simp: zynq_ok_def)
  ultimately show ?thesis using f(1) by (simp add: board_os_def board_mmap_def b)
qed

lemma board_unmap_reg:
  assumes "zynq_ok k a" "kregs a p = Some base"
  shows "\<exists>k'. os_munmap board_os p (ucast VTA_IP_REG_MAP_RANGE) k = (0, k') \<and> zynq_ok k' (a\<lparr>kregs := (kregs a)(p := None)\<rparr>)"
proof -
  obtain j where j: "j < 2 ^ 20" "p = window j" using zynq_ok_reg [OF assms(1)] zynq_ok_same [OF assms(1)] assms(2) by metis
  have "b_bufs k p = None"
  proof (rule ccontr)
    assume "b_bufs k p \<noteq> None"
    then obtain n bid phy where "b_bufs k p = Some (n, bid, phy)" by auto
    then obtain i where "i < 8" "p = slot i" using zynq_ok_buf [OF assms(1)] by blast
    then show False using slot_window [of i j] j by simp
  qed
  then show ?thesis using assms by (simp add: board_os_def board_munmap_def) (simp add: zynq_ok_def)
qed

interpretation zynq: xlnk_kernel board_os zynq_ok "\<lambda>k a c. zynq_ok k a" "\<lambda>k x v. b_mem k x = v" b_mem 0
proof
  show "os_pagesize board_os = 4096" by (simp add: board_os_def)
  fix k :: zynq and a p n bid m and phy :: u64 and bs :: bytes and c i :: nat and d :: VTADevice and "is"
  assume k: "zynq_ok k a"
  show "\<exists>p k'. os_new board_os k = (p, k') \<and> p \<noteq> 0 \<and> zynq_ok k' a" using k by (simp add: board_os_def)
  show "\<exists>flag k'. os_load32 board_os (vta_compute_handle d + ucast VTA_COMPUTE_DONE_RD_OFFSET) k = Inr (flag, k') \<and>
      (if flag = VTA_DONE then zynq_ok k' a else 0 < c \<and> zynq_ok (os_yield board_os k') a)" using k by (simp add: board_os_def)
  show "\<exists>k'. fold_res (VTAWriteMappedReg board_os) (start_writes d (ucast phy) (word_of_nat (length is))) k = Inr k' \<and>
      zynq_ok (os_nanosleep board_os 1000 k') a" using k by (simp add: start_writes_def VTAWriteMappedReg_def board_os_def)
  assume b: "kbufs a p = Some (n, bid, phy)"
  show "\<exists>k'. os_civac board_os (p + word_of_nat (64 * i)) k = Inr k' \<and> zynq_ok k' a \<and>
      (\<forall>x v. b_mem k x = v \<longrightarrow> b_mem k' x = v \<and> (in_line (p + word_of_nat (64 * i)) x \<or> b_mem k x = v \<longrightarrow> b_mem k' x = v))"
    using k by (simp add: board_os_def)
  show "\<exists>bs. os_load board_os p m k = Inr bs \<and> length bs = m" by (simp add: board_os_def)
  assume l: "length bs \<le> n"
  have "length bs \<le> 2 ^ 64" using board_mapped [OF k b] l by (simp add: spec_consts)
  then show "\<exists>k'. os_store board_os p bs k = Inr k' \<and> zynq_ok k' a \<and> (\<forall>i < length bs. b_mem k' (p + word_of_nat i) = bs ! i)"
    using k by (simp add: board_os_def mem_write_at) (simp add: zynq_ok_def)
qed (fact board_alloc board_mapped board_free board_map_reg board_unmap_reg)+

definition board_hw :: "nat \<Rightarrow> zynq hw" where
  "board_hw n = \<lparr>xlnkfd = 3, maps = [], objs = Map.empty,
     kern = \<lparr>b_bufs = Map.empty, b_regs = Map.empty, b_bytes = 2 ^ 28, b_fds = n, b_mem = (\<lambda>_. 0)\<rparr>\<rparr>"

definition board_res :: "nat \<Rightarrow> resources" where
  "board_res n = \<lparr>bufs = Map.empty, devices = {}, bytes_left = 2 ^ 28, bufs_left = 8, devs_left = n div 4\<rparr>"

lemma board_start: "n \<le> 2 ^ 20 \<Longrightarrow> hw_inv zynq_ok (board_hw n) (board_res n)"
  unfolding hw_inv_def
  by (intro exI [of _ "\<lparr>kfd = 3, kbufs = Map.empty, kregs = Map.empty, kbytes = 2 ^ 28, kslots = 8, kfds = n\<rparr>"])
    (auto simp: board_hw_def board_res_def zynq_ok_def hw_ok_def cma_table_def)

section \<open>Properties\<close>

text \<open>C38: the driver's table of contiguous memory refines a map of live buffers, for every kernel and accelerator that behave as
  \<open>xlnk_kernel\<close> lists: an allocation within the limits returns the address of a fresh buffer that is not null and enters it,
  \<open>VTAMemGetPhyAddr\<close> finds the physical address of exactly the buffer, \<open>VTAMemFree\<close> removes it and gives its bytes back, and what
  \<open>VTAMemCopyFromHost\<close> copies to a buffer is, after \<open>VTAFlushCache\<close> of that many bytes, what the accelerator reads, byte by byte.\<close>

theorem hw_memory_refines:
  assumes "xlnk_kernel os K B latest ram W" "hw_inv K s g"
  shows "(\<forall>sz cache. 0 < sz \<and> unat sz \<le> VTA_MAX_XFER \<and> unat sz \<le> bytes_left g \<and> 0 < bufs_left g \<longrightarrow>
      (\<exists>p phy s'. VTAMemAlloc (hw_driver os) sz cache s = Inr (p, s') \<and> p \<noteq> 0 \<and> bufs g p = None \<and> hw_inv K s' (take_buf p (unat sz) phy g))) \<and>
    (\<forall>p n phy. bufs g p = Some (n, phy) \<longrightarrow> VTAMemGetPhyAddr (hw_driver os) p s = Inr phy \<and>
      (\<exists>s'. VTAMemFree (hw_driver os) p s = Inr s' \<and> hw_inv K s' (give_buf p n g)) \<and>
      (\<forall>bs. length bs \<le> n \<longrightarrow> (\<exists>s1 s2. VTAMemCopyFromHost (hw_driver os) p bs s = Inr s1 \<and>
        VTAFlushCache (hw_driver os) p phy (word_of_nat (length bs)) s1 = Inr s2 \<and> hw_inv K s2 g \<and>
        (\<forall>i < length bs. ram (kern s2) (p + word_of_nat i) = bs ! i))))"
proof -
  note x = assms(1)
  have "\<exists>p phy s'. VTAMemAlloc (hw_driver os) sz cache s = Inr (p, s') \<and> p \<noteq> 0 \<and> bufs g p = None \<and> hw_inv K s' (take_buf p (unat sz) phy g)"
    if "0 < sz \<and> unat sz \<le> VTA_MAX_XFER \<and> unat sz \<le> bytes_left g \<and> 0 < bufs_left g" for sz cache
    using xlnk_kernel.hw_alloc [OF x assms(2), of sz cache] that by metis
  moreover have "\<exists>s1 s2. VTAMemCopyFromHost (hw_driver os) p bs s = Inr s1 \<and> VTAFlushCache (hw_driver os) p phy (word_of_nat (length bs)) s1 = Inr s2 \<and>
      hw_inv K s2 g \<and> (\<forall>i < length bs. ram (kern s2) (p + word_of_nat i) = bs ! i)" if "bufs g p = Some (n, phy)" "length bs \<le> n" for p n phy bs
    using xlnk_kernel.hw_stage [OF x assms(2) that] by (simp add: hw_shared_def)
  ultimately show ?thesis
    using xlnk_kernel.hw_phys [OF x assms(2)] xlnk_kernel.hw_free [OF x assms(2)] by blast
qed

theorem hw_memory_refines_witness:
  "\<exists>p phy s'. VTAMemAlloc (hw_driver board_os) 4096 True (board_hw 100) = Inr (p, s') \<and> p \<noteq> 0 \<and>
     hw_inv zynq_ok s' (take_buf p 4096 phy (board_res 100))"
proof -
  have s: "hw_inv zynq_ok (board_hw 100) (board_res 100)" by (rule board_start) simp
  have "0 < (4096 :: u64) \<and> unat (4096 :: u64) \<le> VTA_MAX_XFER \<and> unat (4096 :: u64) \<le> bytes_left (board_res 100) \<and> 0 < bufs_left (board_res 100)"
    by (simp add: board_res_def spec_consts)
  with hw_memory_refines [OF zynq.xlnk_kernel_axioms s]
  obtain p phy s' where "VTAMemAlloc (hw_driver board_os) 4096 True (board_hw 100) = Inr (p, s')" "p \<noteq> 0"
      "hw_inv zynq_ok s' (take_buf p (unat (4096 :: u64)) phy (board_res 100))" by blast
  then show ?thesis by auto
qed

text \<open>The state after \<open>n\<close> polls that did not read \<open>VTA_DONE\<close>.\<close>

primrec idle_polls :: "'k os \<Rightarrow> u64 \<Rightarrow> nat \<Rightarrow> 'k \<Rightarrow> 'k \<Rightarrow> bool" where
  "idle_polls os c 0 k k' = (k' = k)"
| "idle_polls os c (Suc n) k k' = (\<exists>flag k1. VTAReadMappedReg os c VTA_COMPUTE_DONE_RD_OFFSET k = Inr (flag, k1) \<and> flag \<noteq> VTA_DONE \<and>
     idle_polls os c n (os_yield os k1) k')"

lemma poll_result:
  "poll os c w k = Inr (rc, k') \<longleftrightarrow>
    rc = 0 \<and> (\<exists>n < w. \<exists>k1. idle_polls os c n k k1 \<and> VTAReadMappedReg os c VTA_COMPUTE_DONE_RD_OFFSET k1 = Inr (VTA_DONE, k')) \<or>
    rc = 1 \<and> idle_polls os c w k k'"
proof (induction w arbitrary: k)
  case (Suc w)
  show ?case
  proof (cases "VTAReadMappedReg os c VTA_COMPUTE_DONE_RD_OFFSET k")
    case (Inr x)
    obtain flag k1 where x: "x = (flag, k1)" by (cases x)
    show ?thesis
    proof (cases "flag = VTA_DONE")
      case True
      have "n = 0" if "idle_polls os c n k k2" for n k2 using that Inr x True by (cases n) auto
      then show ?thesis using Inr x True by fastforce
    next
      case False
      have "idle_polls os c (Suc n) k k2 = idle_polls os c n (os_yield os k1) k2" for n k2 using Inr x False by auto
      moreover have "(\<exists>n < Suc w. P n) = (P 0 \<or> (\<exists>n < w. P (Suc n)))" for P by (rule Ex_less_Suc2)
      ultimately show ?thesis using Inr x False Suc.IH [of "os_yield os k1"] by simp
    qed
  next
    case (Inl e)
    have "n = 0" if "idle_polls os c n k k2" for n k2 using that Inl by (cases n) auto
    then show ?thesis using Inl by fastforce
  qed
qed auto

text \<open>\<open>VTADevice::Run\<close> on any machine: it returns exactly when the eleven register writes go through, the count and the address of
  the instructions and the zeroed offsets before the start bits, and then either some poll before the limit is the first to
  read \<open>VTA_DONE\<close> (the result is 0, the accelerator is not polled again) or all \<open>wait_cycles\<close> polls are without it (the result is
  1). It ends for every \<open>wait_cycles\<close>, and with 0 it reports a timeout without looking.\<close>

lemma device_run_result:
  "VTADevice_Run os d phy count wait_cycles k = Inr (rc, k') \<longleftrightarrow>
    (\<exists>k1. fold_res (\<lambda>(handle, offset :: u32, val). os_store32 os (handle + ucast offset) val)
        ([(vta_fetch_handle d, 16, count), (vta_fetch_handle d, 24, phy), (vta_load_handle d, 16, 0), (vta_load_handle d, 24, 0),
          (vta_compute_handle d, 32, 0), (vta_compute_handle d, 40, 0), (vta_store_handle d, 16, 0)] @
         [(vta_fetch_handle d, 0, 1), (vta_load_handle d, 0, 0x81), (vta_compute_handle d, 0, 0x81), (vta_store_handle d, 0, 0x81)]) k = Inr k1 \<and>
      (rc = 0 \<and> (\<exists>n < unat wait_cycles. \<exists>k2. idle_polls os (vta_compute_handle d) n (os_nanosleep os 1000 k1) k2 \<and>
           VTAReadMappedReg os (vta_compute_handle d) VTA_COMPUTE_DONE_RD_OFFSET k2 = Inr (VTA_DONE, k')) \<or>
       rc = 1 \<and> idle_polls os (vta_compute_handle d) (unat wait_cycles) (os_nanosleep os 1000 k1) k'))"
proof -
  have w: "VTAWriteMappedReg os = (\<lambda>(handle, offset, val). os_store32 os (handle + ucast offset) val)" by (simp add: VTAWriteMappedReg_def)
  have l: "start_writes d phy count =
      [(vta_fetch_handle d, 16, count), (vta_fetch_handle d, 24, phy), (vta_load_handle d, 16, 0), (vta_load_handle d, 24, 0),
       (vta_compute_handle d, 32, 0), (vta_compute_handle d, 40, 0), (vta_store_handle d, 16, 0)] @
      [(vta_fetch_handle d, 0, 1), (vta_load_handle d, 0, 0x81), (vta_compute_handle d, 0, 0x81), (vta_store_handle d, 0, 0x81)]"
    by (simp add: start_writes_def VTA_FETCH_INSN_COUNT_OFFSET_def VTA_FETCH_INSN_ADDR_OFFSET_def VTA_LOAD_INP_ADDR_OFFSET_def
      VTA_LOAD_WGT_ADDR_OFFSET_def VTA_COMPUTE_UOP_ADDR_OFFSET_def VTA_COMPUTE_BIAS_ADDR_OFFSET_def VTA_STORE_OUT_ADDR_OFFSET_def
      VTA_START_def VTA_AUTORESTART_def)
  show ?thesis unfolding VTADevice_Run_def res_bind_eq_Inr poll_result w l by (rule refl)
qed

text \<open>How an allocation of a buffer ends on the hardware driver when something fails: a size above \<open>VTA_MAX_XFER\<close> and a refused \<open>ioctl\<close>
  are caught by a check, but a failed \<open>mmap\<close> is not: its result \<open>MAP_FAILED\<close> is not null, so the buffer is registered at the
  address \<open>-1\<close>, with the physical address of the memory that was allocated for it.\<close>

lemma buffer_alloc_failures:
  assumes "os_alloc_ioctl os (xlnkfd (dev r)) (ucast sz) 1 (kern (dev r)) = (rc, bid, phy, k)"
  shows "(VTA_MAX_XFER < unat sz \<longrightarrow> VTABufferAlloc (hw_driver os) h sz r = Inl (CheckFailed ''size <= VTA_MAX_XFER'')) \<and>
    (unat sz \<le> VTA_MAX_XFER \<and> rc < 0 \<longrightarrow> VTABufferAlloc (hw_driver os) h sz r = Inl (CheckFailed ''data != nullptr'')) \<and>
    (unat sz \<le> VTA_MAX_XFER \<and> 0 \<le> rc \<and> unat bid < 2 ^ 15 \<and> fst (os_mmap os (ucast (ucast sz :: u32)) (xlnkfd (dev r)) (ucast bid * 65536) k) = - 1 \<and>
      lookup (- 1) (maps (dev r)) = None \<longrightarrow>
      (\<exists>r'. VTABufferAlloc (hw_driver os) h sz r = Inr (h, r') \<and> allocated r' h = Some \<lparr>buf_data = - 1, buf_phy = ucast phy\<rparr>))"
proof -
  have "VTABufferAlloc (hw_driver os) h sz r = Inl (CheckFailed ''size <= VTA_MAX_XFER'')" if "VTA_MAX_XFER < unat sz"
    using that by (simp add: VTABufferAlloc_def hw_driver_def check_def)
  moreover have "VTABufferAlloc (hw_driver os) h sz r = Inl (CheckFailed ''data != nullptr'')" if "unat sz \<le> VTA_MAX_XFER" "rc < 0"
    using assms that by (simp add: VTABufferAlloc_def hw_driver_def check_def cma_alloc_def kAlwaysCache_def)
  moreover have "\<exists>r'. VTABufferAlloc (hw_driver os) h sz r = Inr (h, r') \<and> allocated r' h = Some \<lparr>buf_data = - 1, buf_phy = ucast phy\<rparr>"
    if t: "unat sz \<le> VTA_MAX_XFER" "0 \<le> rc" "unat bid < 2 ^ 15" "fst (os_mmap os (ucast (ucast sz :: u32)) (xlnkfd (dev r)) (ucast bid * 65536) k) = - 1"
      "lookup (- 1) (maps (dev r)) = None"
  proof -
    obtain k' where k': "os_mmap os (ucast (ucast sz :: u32)) (xlnkfd (dev r)) (ucast bid * 65536) k = (- 1, k')" using t(4) by (metis prod.collapse)
    let ?m = "(dev r)\<lparr>maps := maps (dev r) @ [\<lparr>phys = phy, virt = - 1, cma_len = ucast sz, cma_id = bid\<rparr>], kern := k'\<rparr>"
    have "VTAMemAlloc (hw_driver os) sz kAlwaysCache (dev r) = Inr (- 1, ?m)"
      using assms t(1,2) cma_offset_small [OF t(3)] k'
      by (simp add: hw_driver_def check_def cma_alloc_def cma_mmap_def kAlwaysCache_def)
    moreover have "VTAMemGetPhyAddr (hw_driver os) (- 1) ?m = Inr (ucast phy)"
      using t(5) by (simp add: hw_driver_def cma_get_phy_addr_def lookup_append)
    ultimately show ?thesis by (simp add: VTABufferAlloc_def check_def)
  qed
  ultimately show ?thesis by blast
qed

definition full_os :: "zynq os" where
  "full_os = board_os\<lparr>os_mmap := (\<lambda>_ _ _ k. (- 1, k))\<rparr>"

definition board_runtime :: "nat \<Rightarrow> zynq hw runtime" where
  "board_runtime n = \<lparr>debug_flag = 0, kernels = [], kmaps = (\<lambda>_. None), uop_queue = fresh_uq 4096,
     insn_queue = InsnQueue_InitSpace 1 8192, allocated = (\<lambda>_. None), device_handle = 0, dev = board_hw n\<rparr>"

lemma buffer_alloc_failures_instance:
  "\<exists>r'. VTABufferAlloc (hw_driver full_os) 16 4096 (board_runtime 100) = Inr (16, r') \<and>
     allocated r' 16 = Some \<lparr>buf_data = - 1, buf_phy = ucast (slot 0)\<rparr>"
proof -
  have "os_alloc_ioctl full_os (xlnkfd (dev (board_runtime 100))) (ucast (4096 :: u64)) 1 (kern (dev (board_runtime 100))) = (0, 0, slot 0, kern (board_hw 100))"
    by (simp add: full_os_def board_os_def board_runtime_def board_hw_def free_slots_def upt_rec)
  from buffer_alloc_failures [OF this, of 16] show ?thesis
    by (auto simp: full_os_def board_runtime_def board_hw_def spec_consts)
qed

end
