(* ===== verification/Delegate_Kernel.thy ===== *)
theory Delegate_Kernel
  imports Delegate_Stream Gemm_Conv Vta_Board
begin

text \<open>
  The delegate kernel (\<open>VTADelegateKernel\<close> in \<open>vta-delegate.cpp\<close>): \<open>Init\<close> creates an operation for every node that the
  interpreter hands over, \<open>Eval\<close> computes them in order on the tensors of the context. The interpreter's
  function that finds a node is a parameter. The addresses of the objects an operation allocates are chosen by
  \<open>operator new\<close> and are a parameter of the state.

  Shown: every operation keeps the types of all tensors; a graph of nodes the delegate accepts consists of
  additions, is initialised, and its evaluation ends with \<open>kTfLiteOk\<close>.
\<close>

section \<open>Tensors, nodes and operations\<close>

record TfLiteTensor =
  t_data :: tensor
  t_params :: tensor_params
  t_dims :: "int list"
  t_scales :: "fp list option"

record TfLiteNode =
  builtin_code :: TfLiteBuiltin
  node_inputs :: "nat list"
  node_outputs :: "nat list"

datatype VTAOp =
    ALU TfLiteBuiltin VTAALUOp "nat list" "nat list"
  | GEMM TfLiteBuiltin "VTAGEMMOp \<times> dims" "nat list" "nat list"

record VTADelegateKernel =
  ops :: "VTAOp list"
  commcontext :: bool

definition tensor_at :: "TfLiteTensor list \<Rightarrow> nat list \<Rightarrow> nat \<Rightarrow> TfLiteTensor res" where
  "tensor_at tensors ids k = res_bind (nth_res ids k) (nth_res tensors)"

text \<open>The raw bytes of a tensor; those of an element type the delegate does not know are not read.\<close>

fun bytes_words :: "bytes \<Rightarrow> u32 list" where
  "bytes_words (a # b # c # e # bs) = word_of_nat (le_value [a, b, c, e]) # bytes_words bs"
| "bytes_words _ = []"

fun tensor_bytes :: "tensor \<Rightarrow> bytes" where
  "tensor_bytes (Int8 xs) = xs"
| "tensor_bytes (UInt8 xs) = xs"
| "tensor_bytes (Int32 xs) = words_bytes xs"
| "tensor_bytes (OtherType _ _) = []"

fun put_bytes :: "tensor \<Rightarrow> bytes \<Rightarrow> tensor" where
  "put_bytes (Int8 _) bs = Int8 bs"
| "put_bytes (UInt8 _) bs = UInt8 bs"
| "put_bytes (Int32 _) bs = Int32 (bytes_words bs)"
| "put_bytes (OtherType c n) _ = OtherType c n"

section \<open>Init\<close>

definition make_alu :: "TfLiteTensor list \<Rightarrow> TfLiteNode \<Rightarrow> VTAOp res" where
  "make_alu tensors node =
    res_bind (tensor_at tensors (node_inputs node) 0) (\<lambda>in1.
    res_bind (tensor_at tensors (node_inputs node) 1) (\<lambda>in2.
    res_bind (tensor_at tensors (node_outputs node) 0) (\<lambda>out.
    res_bind (new_VTAALUOp (t_params in1) (t_params in2) (t_params out)) (\<lambda>op.
    Inr (ALU (builtin_code node) op (node_inputs node) (node_outputs node))))))"

definition make_gemm :: "TfLiteTensor list \<Rightarrow> TfLiteNode \<Rightarrow> VTAOp res" where
  "make_gemm tensors node =
    res_bind (tensor_at tensors (node_inputs node) 0) (\<lambda>inp.
    res_bind (tensor_at tensors (node_inputs node) 1) (\<lambda>wgt.
    res_bind (tensor_at tensors (node_inputs node) 2) (\<lambda>bs.
    res_bind (tensor_at tensors (node_outputs node) 0) (\<lambda>out.
    res_bind (nth_res (t_dims out) 3) (\<lambda>num_channels.
    if num_channels < 0 then Inl (Aborted ''std::length_error'')
    else
      res_bind (new_VTAGEMMOp (t_params inp) (t_scales wgt) (t_params out) (nat num_channels)) (\<lambda>op.
      Inr (GEMM (builtin_code node) (op, \<lambda>_. None) (node_inputs node) (node_outputs node))))))))"

primrec init_nodes ::
  "(nat \<Rightarrow> TfLiteNode option) \<Rightarrow> TfLiteTensor list \<Rightarrow> nat list \<Rightarrow> VTAOp list \<Rightarrow> (TfLiteStatus \<times> VTAOp list) res" where
  "init_nodes get_node tensors [] os = Inr (kTfLiteOk, os)"
| "init_nodes get_node tensors (i # is) os =
    (case get_node i of None \<Rightarrow> Inr (kTfLiteError, os)
     | Some node \<Rightarrow> (case builtin_code node of
         kTfLiteBuiltinAdd \<Rightarrow> res_bind (make_alu tensors node) (\<lambda>op. init_nodes get_node tensors is (os @ [op]))
       | kTfLiteBuiltinConv2d \<Rightarrow> res_bind (make_gemm tensors node) (\<lambda>op. init_nodes get_node tensors is (os @ [op]))
       | _ \<Rightarrow> Inr (kTfLiteUnresolvedOps, os)))"

definition Init ::
  "(nat \<Rightarrow> TfLiteNode option) \<Rightarrow> TfLiteTensor list \<Rightarrow> nat list \<Rightarrow> VTADelegateKernel \<Rightarrow> (TfLiteStatus \<times> VTADelegateKernel) res" where
  "Init get_node tensors nodes_to_replace k =
    res_bind (init_nodes get_node tensors nodes_to_replace (ops k)) (\<lambda>(status, os).
    Inr (status, k\<lparr>ops := os, commcontext := True\<rparr>))"

section \<open>Eval\<close>

definition compute ::
  "'m driver \<Rightarrow> VTAGemInsn \<Rightarrow> (int \<Rightarrow> int \<Rightarrow> int) \<Rightarrow> ('m tls \<Rightarrow> add_buffers \<times> conv_buffers) \<Rightarrow> VTAOp \<Rightarrow> TfLiteTensor list \<Rightarrow> 'm tls
   \<Rightarrow> (TfLiteStatus \<times> VTAOp \<times> TfLiteTensor list \<times> 'm tls) res" where
  "compute drv junk wo0 addr vop tensors s = (case vop of
     ALU code op inputs outputs \<Rightarrow>
       res_bind (tensor_at tensors inputs 0) (\<lambda>in1.
       res_bind (tensor_at tensors inputs 1) (\<lambda>in2.
       res_bind (tensor_at tensors outputs 0) (\<lambda>out.
       res_bind (compute_alu drv junk (fst (addr s)) code op (t_data in1) (t_data in2) (t_data out) s) (\<lambda>(status, data, s).
       Inr (status, vop, tensors[outputs ! 0 := out\<lparr>t_data := data\<rparr>], s)))))
   | GEMM code op inputs outputs \<Rightarrow>
       res_bind (tensor_at tensors inputs 0) (\<lambda>inp.
       res_bind (tensor_at tensors inputs 1) (\<lambda>wgt.
       res_bind (tensor_at tensors inputs 2) (\<lambda>bs.
       res_bind (tensor_at tensors outputs 0) (\<lambda>out.
       res_bind (compute_gemm drv junk wo0 (snd (addr s)) code \<lparr>inp_dims = t_dims inp, wgt_dims = t_dims wgt, out_dims = t_dims out,
         inp_data = tensor_bytes (t_data inp), wgt_data = tensor_bytes (t_data wgt), bias_data = tensor_bytes (t_data bs),
         out_data = tensor_bytes (t_data out)\<rparr> op s) (\<lambda>(status, data, op, s).
       Inr (status, GEMM code op inputs outputs, tensors[outputs ! 0 := out\<lparr>t_data := put_bytes (t_data out) data\<rparr>], s)))))))"

primrec eval_ops ::
  "'m driver \<Rightarrow> VTAGemInsn \<Rightarrow> (int \<Rightarrow> int \<Rightarrow> int) \<Rightarrow> ('m tls \<Rightarrow> add_buffers \<times> conv_buffers) \<Rightarrow> VTAOp list \<Rightarrow> TfLiteTensor list \<Rightarrow> 'm tls
   \<Rightarrow> (TfLiteStatus \<times> VTAOp list \<times> TfLiteTensor list \<times> 'm tls) res" where
  "eval_ops drv junk wo0 addr [] tensors s = Inr (kTfLiteOk, [], tensors, s)"
| "eval_ops drv junk wo0 addr (vop # vops) tensors s =
    res_bind (compute drv junk wo0 addr vop tensors s) (\<lambda>(status, vop, tensors, s).
    if status \<noteq> kTfLiteOk then Inr (status, vop # vops, tensors, s)
    else res_bind (eval_ops drv junk wo0 addr vops tensors s) (\<lambda>(status, vops, tensors, s). Inr (status, vop # vops, tensors, s)))"

definition Eval ::
  "'m driver \<Rightarrow> VTAGemInsn \<Rightarrow> (int \<Rightarrow> int \<Rightarrow> int) \<Rightarrow> ('m tls \<Rightarrow> add_buffers \<times> conv_buffers) \<Rightarrow> VTADelegateKernel \<Rightarrow> TfLiteTensor list \<Rightarrow> 'm tls
   \<Rightarrow> (TfLiteStatus \<times> VTADelegateKernel \<times> TfLiteTensor list \<times> 'm tls) res" where
  "Eval drv junk wo0 addr k tensors s =
    res_bind (eval_ops drv junk wo0 addr (ops k) tensors s) (\<lambda>(status, vops, tensors, s).
    Inr (status, k\<lparr>ops := vops\<rparr>, tensors, s))"

section \<open>Types\<close>

text \<open>The same element type, parameters and dimensions.\<close>

definition same_kind :: "TfLiteTensor \<Rightarrow> TfLiteTensor \<Rightarrow> bool" where
  "same_kind x y = (same_type (t_data x) (t_data y) \<and> t_params x = t_params y \<and> t_dims x = t_dims y \<and> t_scales x = t_scales y)"

lemma same_type_refl [simp]: "same_type t t"
  by (cases t) simp_all

lemma same_type_trans: "same_type a b \<Longrightarrow> same_type b c \<Longrightarrow> same_type a c"
  by (cases a; cases b; cases c) auto

lemma put_output_type [simp]: "same_type t (put_output t bs)"
  by (cases t) simp_all

lemma put_bytes_type [simp]: "same_type t (put_bytes t bs)"
  by (cases t) simp_all

lemma aluAdd_type:
  assumes "aluAdd drv junk b op in1 in2 out s = Inr (status, dat, s')"
  shows "same_type out dat"
proof (cases "NumElements in1 \<noteq> NumElements in2 \<or> NumElements in1 \<noteq> NumElements out \<or> \<not> same_type in1 in2")
  case True
  then show ?thesis using assms by (auto simp: aluAdd_def)
next
  case False
  then obtain x where "add_operands op in1 in2 = Inr x" using assms by (auto simp: aluAdd_def Let_def split_def)
  then show ?thesis
    using assms False by (cases x) (auto simp: aluAdd_def Let_def split: if_splits)
qed

lemma kinds_refl: "list_all2 same_kind xs xs"
  by (rule list_all2_refl) (simp add: same_kind_def)

lemma kinds_trans: "list_all2 same_kind xs ys \<Longrightarrow> list_all2 same_kind ys zs \<Longrightarrow> list_all2 same_kind xs zs"
  using list_all2_trans [of same_kind same_kind same_kind xs ys zs] same_type_trans by (auto simp: same_kind_def)

lemma kinds_update:
  assumes "tensor_at tensors ids 0 = Inr out" "same_type (t_data out) dat"
  shows "list_all2 same_kind tensors (tensors[ids ! 0 := out\<lparr>t_data := dat\<rparr>])"
  using assms by (auto simp: tensor_at_def list_all2_conv_all_nth nth_list_update same_kind_def)

lemma compute_kinds:
  assumes "compute drv junk wo0 addr vop tensors s = Inr (status, vop', tensors', s')"
  shows "list_all2 same_kind tensors tensors'"
proof (cases vop)
  case (ALU code op inputs outputs)
  then obtain in1 in2 :: TfLiteTensor and out dat where "tensor_at tensors outputs 0 = Inr out"
      "compute_alu drv junk (fst (addr s)) code op (t_data in1) (t_data in2) (t_data out) s = Inr (status, dat, s')"
      "tensors' = tensors[outputs ! 0 := out\<lparr>t_data := dat\<rparr>]"
    using assms by (auto simp: compute_def split: prod.splits)
  then show ?thesis
    using kinds_update [of tensors outputs out dat] aluAdd_type [of drv junk "fst (addr s)" op "t_data in1" "t_data in2" "t_data out" s status dat s']
    by (auto simp: compute_alu_def split: if_splits)
next
  case (GEMM code op inputs outputs)
  then obtain out dat where "tensor_at tensors outputs 0 = Inr out" "tensors' = tensors[outputs ! 0 := out\<lparr>t_data := put_bytes (t_data out) dat\<rparr>]"
    using assms by (auto simp: compute_def split: prod.splits)
  then show ?thesis using kinds_update by simp
qed

lemma eval_kinds:
  assumes "eval_ops drv junk wo0 addr vops tensors s = Inr (status, vops', tensors', s')"
  shows "list_all2 same_kind tensors tensors'"
  using assms
proof (induction vops arbitrary: tensors s vops')
  case Nil
  then show ?case using kinds_refl by simp
next
  case (Cons vop vops)
  then obtain st v ts s1 where c: "compute drv junk wo0 addr vop tensors s = Inr (st, v, ts, s1)" by auto
  note k = compute_kinds [OF c]
  show ?case
  proof (cases "st = kTfLiteOk")
    case True
    then obtain vs where "eval_ops drv junk wo0 addr vops ts s1 = Inr (status, vs, tensors', s')" using Cons.prems c by auto
    from kinds_trans [OF k Cons.IH [OF this]] show ?thesis .
  next
    case False
    then show ?thesis using Cons.prems c k by auto
  qed
qed

section \<open>Graphs of additions\<close>

definition same_shape :: "TfLiteTensor \<Rightarrow> TfLiteTensor \<Rightarrow> bool" where
  "same_shape x y = (same_kind x y \<and> NumElements (t_data x) = NumElements (t_data y))"

definition int8_tensor :: "TfLiteTensor \<Rightarrow> bool" where
  "int8_tensor t = (case t_data t of Int8 _ \<Rightarrow> quantised_tensor (t_params t) | _ \<Rightarrow> False)"

text \<open>A node with two inputs and an output of 8 bits, all of the same size; as 32-bit words an operand has at most the 32 MiB of
  one allocation.\<close>

definition node_fits :: "TfLiteTensor list \<Rightarrow> nat list \<Rightarrow> nat list \<Rightarrow> bool" where
  "node_fits ts inputs outputs = (1 < length inputs \<and> 0 < length outputs \<and>
     list_all (\<lambda>k. k < length ts \<and> int8_tensor (ts ! k) \<and> NumElements (t_data (ts ! k)) = NumElements (t_data (ts ! (outputs ! 0))))
       [inputs ! 0, inputs ! 1, outputs ! 0] \<and>
     0 < NumElements (t_data (ts ! (outputs ! 0))) \<and> 4 * NumElements (t_data (ts ! (outputs ! 0))) \<le> VTA_MAX_XFER)"

definition op_ready :: "TfLiteTensor list \<Rightarrow> VTAOp \<Rightarrow> bool" where
  "op_ready ts vop = (\<exists>op inputs outputs. vop = ALU kTfLiteBuiltinAdd op inputs outputs \<and> node_fits ts inputs outputs \<and>
     new_VTAALUOp (t_params (ts ! (inputs ! 0))) (t_params (ts ! (inputs ! 1))) (t_params (ts ! (outputs ! 0))) = Inr op)"

lemma int8_tensorE:
  assumes "int8_tensor t"
  obtains xs where "t_data t = Int8 xs" "quantised_tensor (t_params t)"
  using assms by (cases "t_data t") (auto simp: int8_tensor_def)

lemma shape_int8: "same_shape x y \<Longrightarrow> int8_tensor x \<Longrightarrow> int8_tensor y"
  by (cases "t_data x"; cases "t_data y") (auto simp: same_shape_def same_kind_def int8_tensor_def)

lemma shapes_ready:
  assumes "list_all2 same_shape ts ts'" "op_ready ts vop"
  shows "op_ready ts' vop"
proof -
  have at: "same_shape (ts ! k) (ts' ! k)" "k < length ts'" if "k < length ts" for k
    using assms(1) that by (auto simp: list_all2_conv_all_nth)
  obtain op ins outs where v: "vop = ALU kTfLiteBuiltinAdd op ins outs" "node_fits ts ins outs"
      "new_VTAALUOp (t_params (ts ! (ins ! 0))) (t_params (ts ! (ins ! 1))) (t_params (ts ! (outs ! 0))) = Inr op"
    using assms(2) by (auto simp: op_ready_def)
  let ?ks = "[ins ! 0, ins ! 1, outs ! 0]"
  have k: "k < length ts" "int8_tensor (ts ! k)" if "k \<in> set ?ks" for k using v(2) that by (auto simp: node_fits_def)
  have "t_params (ts' ! k) = t_params (ts ! k)" "NumElements (t_data (ts' ! k)) = NumElements (t_data (ts ! k))" "int8_tensor (ts' ! k)" "k < length ts'"
    if "k \<in> set ?ks" for k
    using at [OF k(1) [OF that]] shape_int8 [OF _ k(2) [OF that]] by (auto simp: same_shape_def same_kind_def)
  then show ?thesis using v unfolding op_ready_def node_fits_def by auto
qed

text \<open>Fresh and distinct addresses of the objects of an operation, while the buffers \<open>bs\<close> are allocated.\<close>

definition fresh_addr :: "('m tls \<Rightarrow> add_buffers \<times> conv_buffers) \<Rightarrow> (u64 \<rightharpoonup> DataBuffer) \<Rightarrow> bool" where
  "fresh_addr addr bs = (\<forall>s. allocated (snd s) = bs \<longrightarrow> (let b = fst (addr s) in distinct [vtainput1 b, vtainput2 b, vtaoutput b] \<and>
     {vtainput1 b, vtainput2 b, vtaoutput b} \<inter> dom bs = {}))"

text \<open>Resources for \<open>n\<close> additions of any accepted size, one after the other.\<close>

definition spare :: "resources \<Rightarrow> nat \<Rightarrow> bool" where
  "spare g n = (devices g = {} \<and> add_bytes (VTA_MAX_XFER div 4) \<le> bytes_left g \<and> 5 \<le> bufs_left g \<and> n \<le> devs_left g)"

context vta_driver
begin

lemma compute_ready:
  assumes "op_ready ts vop" "spare g 1" "fresh_addr addr (allocated r)" "\<forall>k \<in> set (kernels r). \<not> cached k" "J (dev r) g" "W < 1000000"
  shows "\<exists>ts' r'. compute drv junk wo0 addr vop ts (False, r) = Inr (kTfLiteOk, vop, ts', False, r') \<and> list_all2 same_shape ts ts' \<and>
    allocated r' = allocated r \<and> (\<forall>k \<in> set (kernels r'). \<not> cached k) \<and> J (dev r') (g\<lparr>devs_left := devs_left g - 1\<rparr>)"
proof -
  obtain op ins outs where v: "vop = ALU kTfLiteBuiltinAdd op ins outs" "node_fits ts ins outs"
      "new_VTAALUOp (t_params (ts ! (ins ! 0))) (t_params (ts ! (ins ! 1))) (t_params (ts ! (outs ! 0))) = Inr op"
    using assms(1) by (auto simp: op_ready_def)
  have i: "int8_tensor (ts ! (ins ! 0))" "int8_tensor (ts ! (ins ! 1))" "int8_tensor (ts ! (outs ! 0))" and l: "ins ! 0 < length ts" "ins ! 1 < length ts"
      "outs ! 0 < length ts" "1 < length ins" "0 < length outs"
    using v(2) by (auto simp: node_fits_def)
  obtain xs where x: "t_data (ts ! (ins ! 0)) = Int8 xs" "quantised_tensor (t_params (ts ! (ins ! 0)))" using i(1) by (rule int8_tensorE)
  obtain ys where y: "t_data (ts ! (ins ! 1)) = Int8 ys" "quantised_tensor (t_params (ts ! (ins ! 1)))" using i(2) by (rule int8_tensorE)
  obtain zs where z: "t_data (ts ! (outs ! 0)) = Int8 zs" "quantised_tensor (t_params (ts ! (outs ! 0)))" using i(3) by (rule int8_tensorE)
  let ?b = "fst (addr (False, r))" let ?out = "ts ! (outs ! 0)"
  have len: "length ys = length xs" "length zs = length xs" "0 < length xs" "4 * length xs \<le> VTA_MAX_XFER"
    using v(2) x(1) y(1) z(1) by (auto simp: node_fits_def)
  then have "length xs \<le> VTA_MAX_XFER div 4" by simp
  then have g: "add_bytes (length xs) \<le> bytes_left g" "5 \<le> bufs_left g" "devices g = {}" "0 < devs_left g"
    using assms(2) by (auto simp: spare_def add_bytes_def)
  have b: "distinct [vtainput1 ?b, vtainput2 ?b, vtaoutput ?b]" "{vtainput1 ?b, vtainput2 ?b, vtaoutput ?b} \<inter> dom (allocated r) = {}"
    using assms(3) unfolding fresh_addr_def Let_def by (metis snd_conv)+
  obtain out r' where a: "aluAdd drv junk ?b op (Int8 xs) (Int8 ys) (Int8 zs) (False, r) = Inr (kTfLiteOk, Int8 out, False, r')"
      "length out = length xs" "\<forall>k \<in> set (kernels r'). \<not> cached k"
      "J (dev r') (g\<lparr>devs_left := devs_left g - 1\<rparr>)" "allocated r' = (allocated r)(vtainput1 ?b := None, vtainput2 ?b := None, vtaoutput ?b := None)"
    using alu_add_completes [OF assms(5) g assms(6,4) x(2) y(2) z(2) v(3) len b(1)] by blast
  let ?ts = "ts[outs ! 0 := ?out\<lparr>t_data := Int8 out\<rparr>]"
  have "compute drv junk wo0 addr vop ts (False, r) = Inr (kTfLiteOk, vop, ?ts, False, r')"
    using a(1) l x(1) y(1) z(1) by (force simp: compute_def v(1) tensor_at_def compute_alu_def)
  moreover have "list_all2 same_shape ts ?ts"
    using z(1) a(2) len l by (auto simp: list_all2_conv_all_nth nth_list_update same_shape_def same_kind_def)
  moreover have "allocated r' = allocated r" using a(5) b(2) by (auto simp: fun_eq_iff dom_def)
  ultimately show ?thesis using a(3,4) by blast
qed

lemma eval_ready:
  assumes "list_all (op_ready ts) vops" "spare g (length vops)" "fresh_addr addr (allocated r)" "\<forall>k \<in> set (kernels r). \<not> cached k" "J (dev r) g"
    and W: "W < 1000000"
  shows "\<exists>ts' r'. eval_ops drv junk wo0 addr vops ts (False, r) = Inr (kTfLiteOk, vops, ts', False, r') \<and> list_all2 same_shape ts ts' \<and>
    allocated r' = allocated r \<and> (\<forall>k \<in> set (kernels r'). \<not> cached k) \<and> J (dev r') (g\<lparr>devs_left := devs_left g - length vops\<rparr>)"
  using assms(1-5)
proof (induction vops arbitrary: ts r g)
  case Nil
  have "list_all2 same_shape ts ts" by (rule list_all2_refl) (simp add: same_shape_def same_kind_def)
  with Nil show ?case by simp
next
  case (Cons vop vops)
  obtain t1 r1 where c: "compute drv junk wo0 addr vop ts (False, r) = Inr (kTfLiteOk, vop, t1, False, r1)" "list_all2 same_shape ts t1"
      "allocated r1 = allocated r" "\<forall>k \<in> set (kernels r1). \<not> cached k" "J (dev r1) (g\<lparr>devs_left := devs_left g - 1\<rparr>)"
    using compute_ready [OF _ _ Cons.prems(3-5) W, of ts vop junk wo0] Cons.prems(1,2) by (auto simp: spare_def simp del: split_paired_Ex)
  have "list_all (op_ready t1) vops" using Cons.prems(1) shapes_ready [OF c(2)] by (auto simp: list_all_iff)
  moreover have "fresh_addr addr (allocated r1)" using Cons.prems(3) c(3) by simp
  moreover have "spare (g\<lparr>devs_left := devs_left g - 1\<rparr>) (length vops)" using Cons.prems(2) by (auto simp: spare_def)
  ultimately obtain t2 r2 where e: "eval_ops drv junk wo0 addr vops t1 (False, r1) = Inr (kTfLiteOk, vops, t2, False, r2)" "list_all2 same_shape t1 t2"
      "allocated r2 = allocated r1" "\<forall>k \<in> set (kernels r2). \<not> cached k" "J (dev r2) (g\<lparr>devs_left := devs_left g - 1 - length vops\<rparr>)"
    using Cons.IH [OF _ _ _ c(4,5)] by fastforce
  have "list_all2 same_shape ts t2"
    by (rule list_all2_trans [OF _ c(2) e(2)]) (auto simp: same_shape_def same_kind_def intro: same_type_trans)
  with c e show ?case by simp
qed

end

lemma make_alu_ready:
  assumes "builtin_code node = kTfLiteBuiltinAdd" "node_fits ts (node_inputs node) (node_outputs node)"
  shows "\<exists>vop. make_alu ts node = Inr vop \<and> op_ready ts vop"
proof -
  let ?i = "node_inputs node" let ?o = "node_outputs node"
  have l: "?i ! 0 < length ts" "?i ! 1 < length ts" "?o ! 0 < length ts" "1 < length ?i" "0 < length ?o"
      "int8_tensor (ts ! (?i ! 0))" "int8_tensor (ts ! (?i ! 1))" "int8_tensor (ts ! (?o ! 0))"
    using assms(2) by (auto simp: node_fits_def)
  then have "quantised_tensor (t_params (ts ! (?i ! 0)))" "quantised_tensor (t_params (ts ! (?i ! 1)))" "quantised_tensor (t_params (ts ! (?o ! 0)))"
    by (meson int8_tensorE)+
  then obtain op where "new_VTAALUOp (t_params (ts ! (?i ! 0))) (t_params (ts ! (?i ! 1))) (t_params (ts ! (?o ! 0))) = Inr op"
    using new_VTAALUOp_ok by blast
  then show ?thesis using l assms by (auto simp: make_alu_def tensor_at_def op_ready_def)
qed

lemma init_ready:
  assumes "\<forall>i \<in> set is. \<exists>node. get_node i = Some node \<and> builtin_code node = kTfLiteBuiltinAdd \<and> node_fits ts (node_inputs node) (node_outputs node)"
  shows "\<exists>vops. init_nodes get_node ts is os = Inr (kTfLiteOk, os @ vops) \<and> length vops = length is \<and> list_all (op_ready ts) vops"
  using assms
proof (induction "is" arbitrary: os)
  case (Cons i "is")
  then obtain node where n: "get_node i = Some node" "builtin_code node = kTfLiteBuiltinAdd" "node_fits ts (node_inputs node) (node_outputs node)" by auto
  obtain vop where v: "make_alu ts node = Inr vop" "op_ready ts vop" using make_alu_ready [OF n(2,3)] by blast
  obtain vops where "init_nodes get_node ts is (os @ [vop]) = Inr (kTfLiteOk, (os @ [vop]) @ vops)" "length vops = length is" "list_all (op_ready ts) vops"
    using Cons.IH Cons.prems by fastforce
  then show ?case using n(1,2) v by (intro exI [of _ "vop # vops"]) simp
qed simp

section \<open>Properties\<close>


definition ex_tensor :: "u8 list \<Rightarrow> TfLiteTensor" where
  "ex_tensor xs = \<lparr>t_data = Int8 xs, t_params = ex_params 0x800000 0 0, t_dims = [1, 1, 1, int (length xs)], t_scales = None\<rparr>"

definition ex_addr :: "unit tls \<Rightarrow> add_buffers \<times> conv_buffers" where
  "ex_addr s = (ex_buffers, \<lparr>inpbuf = 16, wgtbuf = 32, biasbuf = 48, multiplierbuf = 64, shiftbuf = 80, outbuf = 96, map_var = 112\<rparr>)"



definition ex_board_addr :: "zynq hw tls \<Rightarrow> add_buffers \<times> conv_buffers" where
  "ex_board_addr s = (ex_buffers, \<lparr>inpbuf = 16, wgtbuf = 32, biasbuf = 48, multiplierbuf = 64, shiftbuf = 80, outbuf = 96, map_var = 112\<rparr>)"


end
