(* ===== verification/Rpu_Tc.thy ===== *)
theory Rpu_Tc
  imports Prelude
begin

text \<open>
  The target controller of the real-time processor (\<open>tc.h\<close>, \<open>tc.c\<close>): the registers the host writes, the
  submission and completion queues and their doorbells. The register map and the bit-fields of the registers
  come from a generated header, so their addresses, shifts and masks are a parameter. Arrays of queues are
  lists of length \<open>QUEUES\<close> and an index outside of them is \<open>OutOfBounds\<close>.

  Shown: the completion ring is the abstract ring of the NVMe specification - the \<open>k\<close>-th entry goes to slot
  \<open>k mod size\<close> with a phase tag that changes with every pass - and never overtakes the host.
\<close>

section \<open>Constants\<close>

definition IO_QUEUES :: nat where [spec_consts]: "IO_QUEUES = 1"
definition QUEUES :: nat where [spec_consts]: "QUEUES = IO_QUEUES + 1"
definition DOORBELLS :: nat where [spec_consts]: "DOORBELLS = 5"
definition DOORBELL_BASE :: nat where [spec_consts]: "DOORBELL_BASE = 0x1000"

definition DOORBELL_REG :: "nat \<Rightarrow> nat" where
  "DOORBELL_REG n = DOORBELL_BASE + n * 4"

definition DOORBELL_TAIL :: "nat \<Rightarrow> nat" where
  "DOORBELL_TAIL n = DOORBELL_REG (n * 2)"

definition DOORBELL_HEAD :: "nat \<Rightarrow> nat" where
  "DOORBELL_HEAD n = DOORBELL_REG (n * 2 + 1)"

definition ADM_QUEUE_ID :: nat where [spec_consts]: "ADM_QUEUE_ID = 0"

text \<open>The macro argument of \<open>DOORBELL_TAIL\<close> is not parenthesised: \<open>DOORBELL_TAIL(n+1)\<close> expands to \<open>n+1*2\<close>.\<close>

definition NVME_TC_REG_IO_TAIL :: "nat \<Rightarrow> nat" where
  "NVME_TC_REG_IO_TAIL n = DOORBELL_REG (n + 1 * 2)"

definition NVME_TC_REG_IO_HEAD :: "nat \<Rightarrow> nat" where
  "NVME_TC_REG_IO_HEAD n = DOORBELL_REG (n + 1 * 2 + 1)"

definition NVME_TC_SQ_ENTRY_SIZE :: nat where [spec_consts]: "NVME_TC_SQ_ENTRY_SIZE = 64"
definition NVME_TC_CQ_ENTRY_SIZE :: nat where [spec_consts]: "NVME_TC_CQ_ENTRY_SIZE = 16"
definition NVME_CMD_SLAB_SIZE :: nat where [spec_consts]: "NVME_CMD_SLAB_SIZE = 1024"
definition NVME_PRP_SLAB_SIZE :: nat where [spec_consts]: "NVME_PRP_SLAB_SIZE = 1024"
definition NVME_PRP_LIST_SIZE :: nat where [spec_consts]: "NVME_PRP_LIST_SIZE = 4096"
definition NVME_TC_SHUTDOWN_COMPLETE :: u32 where [spec_consts]: "NVME_TC_SHUTDOWN_COMPLETE = 2"

section \<open>Registers\<close>

text \<open>What the code uses of the generated register headers: addresses, and shift and mask of fields.\<close>

record reg_map =
  REG_CC :: nat
  REG_CSTS :: nat
  REG_AQA :: nat
  REG_ASQ_0 :: nat
  REG_ASQ_1 :: nat
  REG_ACQ_0 :: nat
  REG_ACQ_1 :: nat
  CC_SHN :: "nat \<times> u32"
  CC_MPS :: "nat \<times> u32"
  CC_EN :: u32
  CSTS_SHST :: "nat \<times> u32"
  CSTS_RDY :: u32
  AQA_ACQS :: "nat \<times> u32"
  AQA_ASQS :: "nat \<times> u32"

definition NVME_TC_GET_FIELD :: "u32 \<Rightarrow> nat \<times> u32 \<Rightarrow> u32" where
  "NVME_TC_GET_FIELD reg f = and (drop_bit (fst f) reg) (snd f)"

definition NVME_TC_SET_FIELD :: "u32 \<Rightarrow> u32 \<Rightarrow> nat \<times> u32 \<Rightarrow> u32" where
  "NVME_TC_SET_FIELD reg v f = or reg (push_bit (fst f) (and v (snd f)))"

section \<open>State\<close>

record tc =
  enabled :: bool
  memory_page_size :: nat
  queues :: int
  sq_valid :: "bool list"
  sq_size :: "u16 list"
  sq_base :: "u64 list"
  sq_tail :: "u16 list"
  sq_head :: "u16 list"
  sq_pc :: "bool list"
  cq_valid :: "bool list"
  cq_size :: "u16 list"
  cq_base :: "u64 list"
  cq_tail :: "u16 list"
  cq_head :: "u16 list"
  cq_pc :: "bool list"
  cq_phase :: "bool list"
  cq_ien :: "bool list"
  cq_iv :: "u16 list"
  regs :: "nat \<Rightarrow> u32"
  irq_host :: "u32 list"   \<comment> \<open>values written to \<open>NVME_TC_REG_IRQ_HOST\<close>\<close>

definition nvme_tc_init :: "(nat \<Rightarrow> u32) \<Rightarrow> tc" where
  "nvme_tc_init rs = \<lparr>enabled = False, memory_page_size = 0, queues = 0,
     sq_valid = replicate QUEUES False, sq_size = replicate QUEUES 0, sq_base = replicate QUEUES 0,
     sq_tail = replicate QUEUES 0, sq_head = replicate QUEUES 0, sq_pc = replicate QUEUES False,
     cq_valid = replicate QUEUES False, cq_size = replicate QUEUES 0, cq_base = replicate QUEUES 0,
     cq_tail = replicate QUEUES 0, cq_head = replicate QUEUES 0, cq_pc = replicate QUEUES False,
     cq_phase = replicate QUEUES False, cq_ien = replicate QUEUES False, cq_iv = replicate QUEUES 0,
     regs = (\<lambda>a. if a < DOORBELL_TAIL DOORBELLS \<and> a mod 4 = 0 then 0 else rs a), irq_host = []\<rparr>"

text \<open>Writing element \<open>i\<close> of an array.\<close>

definition set_res :: "'a list \<Rightarrow> nat \<Rightarrow> 'a \<Rightarrow> 'a list res" where
  "set_res xs i v = (if i < length xs then Inr (xs[i := v]) else Inl OutOfBounds)"

lemma set_res_eq_Inr [simp]: "(set_res xs i v = Inr ys) = (i < length xs \<and> ys = xs[i := v])"
  by (auto simp: set_res_def)

lemma set_res_in [simp]: "i < length xs \<Longrightarrow> set_res xs i v = Inr (xs[i := v])"
  by (simp add: set_res_def)

section \<open>Register handlers\<close>

text \<open>The entry sizes, the arbitration and the command set are only checked to print warnings.\<close>

definition nvme_tc_cc_handler :: "reg_map \<Rightarrow> tc \<Rightarrow> tc" where
  "nvme_tc_cc_handler r t =
    (let cc = regs t (REG_CC r); csts = regs t (REG_CSTS r);
         csts = (if NVME_TC_GET_FIELD cc (CC_SHN r) \<noteq> 0 then NVME_TC_SET_FIELD csts NVME_TC_SHUTDOWN_COMPLETE (CSTS_SHST r) else csts);
         t = t\<lparr>memory_page_size := 2 ^ (unat (NVME_TC_GET_FIELD cc (CC_MPS r)) + 12)\<rparr>;
         (t, csts) = (if and cc (CC_EN r) \<noteq> 0 then (t\<lparr>enabled := True\<rparr>, or csts (CSTS_RDY r))
                      else if enabled t then (t\<lparr>enabled := False\<rparr>, and csts (not (CSTS_RDY r)))
                      else (t, csts))
     in t\<lparr>regs := (regs t)(REG_CSTS r := csts)\<rparr>)"

definition nvme_tc_aqa_handler :: "reg_map \<Rightarrow> tc \<Rightarrow> tc" where
  "nvme_tc_aqa_handler r t =
    (let aqa = regs t (REG_AQA r) in
     t\<lparr>cq_size := (cq_size t)[ADM_QUEUE_ID := ucast (NVME_TC_GET_FIELD aqa (AQA_ACQS r) + 1)],
       sq_size := (sq_size t)[ADM_QUEUE_ID := ucast (NVME_TC_GET_FIELD aqa (AQA_ASQS r) + 1)]\<rparr>)"

definition nvme_tc_asq_handler :: "reg_map \<Rightarrow> tc \<Rightarrow> tc" where
  "nvme_tc_asq_handler r t =
    (let asq0 = regs t (REG_ASQ_0 r); asq1 = regs t (REG_ASQ_1 r) in
     t\<lparr>sq_base := (sq_base t)[ADM_QUEUE_ID := or (push_bit 32 (ucast asq1)) (ucast asq0)],
       sq_valid := (sq_valid t)[ADM_QUEUE_ID := True]\<rparr>)"

definition nvme_tc_acq_handler :: "reg_map \<Rightarrow> tc \<Rightarrow> tc" where
  "nvme_tc_acq_handler r t =
    (let acq0 = regs t (REG_ACQ_0 r); acq1 = regs t (REG_ACQ_1 r) in
     t\<lparr>cq_base := (cq_base t)[ADM_QUEUE_ID := or (push_bit 32 (ucast acq1)) (ucast acq0)],
       cq_valid := (cq_valid t)[ADM_QUEUE_ID := True]\<rparr>)"

section \<open>Queues\<close>

definition mod_res :: "nat \<Rightarrow> nat \<Rightarrow> nat res" where
  "mod_res a b = (if b = 0 then Inl (Undefined ''division by zero'') else Inr (a mod b))"

lemma mod_res_eq_Inr [simp]: "(mod_res a b = Inr c) = (b \<noteq> 0 \<and> c = a mod b)"
  by (auto simp: mod_res_def)

definition nvme_tc_get_sq_addr :: "nat \<Rightarrow> tc \<Rightarrow> (u64 \<times> tc) res" where
  "nvme_tc_get_sq_addr qid t =
    res_bind (nth_res (sq_base t) qid) (\<lambda>base.
    res_bind (nth_res (sq_head t) qid) (\<lambda>head.
    res_bind (nth_res (sq_size t) qid) (\<lambda>sz.
    res_bind (mod_res (unat head + 1) (unat sz)) (\<lambda>head'.
    Inr (base + word_of_nat (unat head * NVME_TC_SQ_ENTRY_SIZE), t\<lparr>sq_head := (sq_head t)[qid := word_of_nat head']\<rparr>)))))"

definition nvme_tc_cq_notify :: "nat \<Rightarrow> tc \<Rightarrow> tc res" where
  "nvme_tc_cq_notify qid t =
    res_bind (nth_res (cq_iv t) qid) (\<lambda>iv.
    let iv = unat iv mod 256 in
    if iv < 31 then Inr (t\<lparr>irq_host := irq_host t @ [push_bit iv 1]\<rparr>) else Inl (Undefined ''shift''))"

text \<open>The address of the next completion entry, or zero when the ring is full.\<close>

definition nvme_tc_get_cq_addr :: "nat \<Rightarrow> tc \<Rightarrow> (u64 \<times> tc) res" where
  "nvme_tc_get_cq_addr qid t =
    res_bind (nth_res (cq_tail t) qid) (\<lambda>tail.
    res_bind (nth_res (cq_size t) qid) (\<lambda>sz.
    res_bind (mod_res (unat tail + 1) (unat sz)) (\<lambda>next.
    res_bind (nth_res (cq_head t) qid) (\<lambda>head.
    res_bind (nth_res (cq_base t) qid) (\<lambda>base.
    res_bind (nth_res (cq_phase t) qid) (\<lambda>phase.
    if unat head \<noteq> next then
      let t = (if tail = 0 then t\<lparr>cq_phase := (cq_phase t)[qid := \<not> phase]\<rparr> else t) in
      Inr (base + word_of_nat (unat tail * NVME_TC_CQ_ENTRY_SIZE), t\<lparr>cq_tail := (cq_tail t)[qid := word_of_nat next]\<rparr>)
    else Inr (0, t)))))))"

definition nvme_tc_head_handler :: "nat \<Rightarrow> tc \<Rightarrow> tc res" where
  "nvme_tc_head_handler qid t =
    res_bind (set_res (cq_head t) qid (ucast (regs t (DOORBELL_HEAD qid)))) (\<lambda>h. Inr (t\<lparr>cq_head := h\<rparr>))"

section \<open>The shape of the state\<close>

definition tc_wf :: "tc \<Rightarrow> bool" where
  "tc_wf t = (length (sq_valid t) = QUEUES \<and> length (sq_size t) = QUEUES \<and> length (sq_base t) = QUEUES \<and>
     length (sq_tail t) = QUEUES \<and> length (sq_head t) = QUEUES \<and> length (sq_pc t) = QUEUES \<and>
     length (cq_valid t) = QUEUES \<and> length (cq_size t) = QUEUES \<and> length (cq_base t) = QUEUES \<and>
     length (cq_tail t) = QUEUES \<and> length (cq_head t) = QUEUES \<and> length (cq_pc t) = QUEUES \<and>
     length (cq_phase t) = QUEUES \<and> length (cq_ien t) = QUEUES \<and> length (cq_iv t) = QUEUES)"

lemma tc_wf_handlers [simp]:
  "tc_wf t \<Longrightarrow> tc_wf (nvme_tc_cc_handler r t)" "tc_wf t \<Longrightarrow> tc_wf (nvme_tc_aqa_handler r t)"
  "tc_wf t \<Longrightarrow> tc_wf (nvme_tc_asq_handler r t)" "tc_wf t \<Longrightarrow> tc_wf (nvme_tc_acq_handler r t)"
  by (simp_all add: tc_wf_def nvme_tc_cc_handler_def nvme_tc_aqa_handler_def nvme_tc_asq_handler_def nvme_tc_acq_handler_def Let_def)

lemma tc_wf_init [simp]: "tc_wf (nvme_tc_init rs)"
  by (simp add: tc_wf_def nvme_tc_init_def)

lemma tc_wf_sq_addr: "nvme_tc_get_sq_addr qid t = Inr (a, t') \<Longrightarrow> tc_wf t \<Longrightarrow> tc_wf t'"
  by (auto simp: tc_wf_def nvme_tc_get_sq_addr_def)

lemma tc_wf_cq_addr: "nvme_tc_get_cq_addr qid t = Inr (a, t') \<Longrightarrow> tc_wf t \<Longrightarrow> tc_wf t'"
  by (auto simp: tc_wf_def nvme_tc_get_cq_addr_def Let_def split: if_splits)

lemma tc_wf_head: "nvme_tc_head_handler qid t = Inr t' \<Longrightarrow> tc_wf t \<Longrightarrow> tc_wf t'"
  by (auto simp: tc_wf_def nvme_tc_head_handler_def)

lemma tc_wf_notify: "nvme_tc_cq_notify qid t = Inr t' \<Longrightarrow> tc_wf t \<Longrightarrow> tc_wf t'"
  by (auto simp: tc_wf_def nvme_tc_cq_notify_def Let_def split: if_splits)

section \<open>The completion ring\<close>

text \<open>The ring of the specification: \<open>n\<close> entries were posted and the host has consumed \<open>c\<close> of them.\<close>

datatype ring_op = Post | Consume nat

fun abs_ring :: "nat \<Rightarrow> ring_op list \<Rightarrow> nat \<Rightarrow> nat \<Rightarrow> (nat \<times> bool) option list" where
  "abs_ring sz [] n c = []"
| "abs_ring sz (Post # ops) n c =
    (if n - c < sz - 1 then Some (n mod sz, even (n div sz)) # abs_ring sz ops (n + 1) c else None # abs_ring sz ops n c)"
| "abs_ring sz (Consume k # ops) n c = abs_ring sz ops n (c + k)"

text \<open>A host consumes only what was posted.\<close>

fun host_ok :: "nat \<Rightarrow> ring_op list \<Rightarrow> nat \<Rightarrow> nat \<Rightarrow> bool" where
  "host_ok sz [] n c = True"
| "host_ok sz (Post # ops) n c = host_ok sz ops (if n - c < sz - 1 then n + 1 else n) c"
| "host_ok sz (Consume k # ops) n c = (c + k \<le> n \<and> host_ok sz ops n (c + k))"

text \<open>The controller: posting takes the next address and the phase, consuming writes the head doorbell.\<close>

fun ring_run :: "nat \<Rightarrow> nat \<Rightarrow> ring_op list \<Rightarrow> tc \<Rightarrow> (u64 \<times> bool) option list res" where
  "ring_run sz qid [] t = Inr []"
| "ring_run sz qid (Post # ops) t =
    res_bind (nvme_tc_get_cq_addr qid t) (\<lambda>(a, t).
    res_bind (ring_run sz qid ops t) (\<lambda>os. Inr ((if a = 0 then None else Some (a, cq_phase t ! qid)) # os)))"
| "ring_run sz qid (Consume k # ops) t =
    res_bind (nvme_tc_head_handler qid
      (t\<lparr>regs := (regs t)(DOORBELL_HEAD qid := word_of_nat ((unat (cq_head t ! qid) + k) mod sz))\<rparr>)) (ring_run sz qid ops)"

definition ring_rel :: "nat \<Rightarrow> nat \<Rightarrow> u64 \<Rightarrow> nat \<Rightarrow> nat \<Rightarrow> tc \<Rightarrow> bool" where
  "ring_rel sz qid base n c t = (tc_wf t \<and> qid < QUEUES \<and> 2 \<le> sz \<and> unat (cq_size t ! qid) = sz \<and> cq_base t ! qid = base \<and>
     c \<le> n \<and> n - c < sz \<and> unat (cq_tail t ! qid) = n mod sz \<and> unat (cq_head t ! qid) = c mod sz \<and>
     cq_phase t ! qid = (n \<noteq> 0 \<and> even ((n - 1) div sz)))"

lemma ring_next:
  assumes "c \<le> n" "n - c < sz" "2 \<le> (sz :: nat)"
  shows "(c mod sz = (n mod sz + 1) mod sz) = (n - c = sz - 1)"
proof -
  have "(c mod sz = (n mod sz + 1) mod sz) = (sz dvd (n + 1) - c)"
    using assms(1) mod_eq_dvd_iff_nat [of c "n + 1" sz] by (simp add: mod_Suc_eq eq_commute)
  also have "\<dots> = (n + 1 - c = sz)"
    using assms by (auto dest: dvd_imp_le)
  finally show ?thesis using assms by auto
qed

lemma ring_phase:
  assumes "0 < (sz :: nat)"
  shows "even (n div sz) = (if n mod sz = 0 then \<not> (n \<noteq> 0 \<and> even ((n - 1) div sz)) else (n \<noteq> 0 \<and> even ((n - 1) div sz)))"
proof (cases n)
  case (Suc m)
  then show ?thesis by (auto simp: div_Suc mod_Suc)
qed simp

lemma ring_sizes: "ring_rel sz qid base n c t \<Longrightarrow> qid < length (cq_size t) \<and> qid < length (cq_base t) \<and> qid < length (cq_tail t) \<and>
    qid < length (cq_head t) \<and> qid < length (cq_phase t) \<and> sz < 2 ^ 16"
  using unat_less_width [of "cq_size t ! qid"] by (simp add: ring_rel_def tc_wf_def)

lemma unat_u16: "k < sz \<Longrightarrow> sz < 2 ^ 16 \<Longrightarrow> unat (word_of_nat k :: u16) = k"
  by (intro unat_word_of_nat_small) simp

lemma ring_post:
  assumes r: "ring_rel sz qid base n c t"
  shows "\<exists>t'. nvme_tc_get_cq_addr qid t = Inr (if n - c < sz - 1 then base + word_of_nat (n mod sz * 16) else 0, t') \<and>
    (if n - c < sz - 1 then ring_rel sz qid base (n + 1) c t' \<and> cq_phase t' ! qid = even (n div sz) else t' = t)"
proof -
  note len = ring_sizes [OF r]
  have c: "c \<le> n" "n - c < sz" "2 \<le> sz" "unat (cq_size t ! qid) = sz" "unat (cq_tail t ! qid) = n mod sz" "unat (cq_head t ! qid) = c mod sz"
      "cq_base t ! qid = base" and ph: "cq_phase t ! qid = (n \<noteq> 0 \<and> even ((n - 1) div sz))" using r by (simp_all add: ring_rel_def)
  have tail0: "(cq_tail t ! qid = 0) = (n mod sz = 0)" using c(5) by (metis unat_eq_0)
  show ?thesis
  proof (cases "n - c < sz - 1")
    case True
    then have ne: "c mod sz \<noteq> (n mod sz + 1) mod sz" using ring_next [OF c(1-3)] by simp
    define t1 where "t1 = (if cq_tail t ! qid = 0 then t\<lparr>cq_phase := (cq_phase t)[qid := \<not> cq_phase t ! qid]\<rparr> else t)"
    define t2 where "t2 = t1\<lparr>cq_tail := (cq_tail t)[qid := word_of_nat ((n mod sz + 1) mod sz)]\<rparr>"
    have same: "cq_tail t1 = cq_tail t" by (simp add: t1_def)
    have get: "nvme_tc_get_cq_addr qid t = Inr (base + word_of_nat (n mod sz * 16), t2)"
      unfolding nvme_tc_get_cq_addr_def t2_def t1_def Let_def using len c ne by (simp add: spec_consts)
    have phase: "cq_phase t2 ! qid = even (n div sz)"
      unfolding ring_phase [of sz n, OF order.strict_trans2 [OF _ c(3)], simplified] using tail0 ph len by (simp add: t2_def t1_def)
    have "unat (word_of_nat ((n mod sz + 1) mod sz) :: u16) = (n + 1) mod sz"
      using unat_u16 [of "(n + 1) mod sz" sz] len c(3) by (simp add: mod_Suc_eq)
    moreover have "tc_wf t2" "cq_size t2 = cq_size t" "cq_base t2 = cq_base t" "cq_head t2 = cq_head t"
      using r by (simp_all add: ring_rel_def tc_wf_def t2_def t1_def)
    moreover have "n + 1 - c < sz" using True by simp
    ultimately have "ring_rel sz qid base (n + 1) c t2"
      using c phase r len by (simp add: ring_rel_def t2_def)
    with get phase True show ?thesis by simp
  next
    case False
    then have "c mod sz = (n mod sz + 1) mod sz" using ring_next [OF c(1-3)] c(2) by simp
    then show ?thesis using False len c by (simp add: nvme_tc_get_cq_addr_def)
  qed
qed

lemma ring_consume:
  assumes r: "ring_rel sz qid base n c t" and k: "c + k \<le> n"
  shows "\<exists>t'. nvme_tc_head_handler qid (t\<lparr>regs := (regs t)(DOORBELL_HEAD qid := word_of_nat ((unat (cq_head t ! qid) + k) mod sz))\<rparr>) = Inr t' \<and>
    ring_rel sz qid base n (c + k) t'"
proof -
  let ?h = "(unat (cq_head t ! qid) + k) mod sz"
  have h: "?h = (c + k) mod sz" using r by (simp add: ring_rel_def mod_add_left_eq)
  have "?h < 2 ^ 16" using ring_sizes [OF r] r by (auto simp: ring_rel_def intro: less_trans [OF mod_less_divisor])
  then have "unat (ucast (word_of_nat ?h :: u32) :: u16) = ?h"
    by (simp add: unsigned_ucast_eq unsigned_of_nat take_bit_nat_eq_self)
  moreover have "n - c < sz" using r by (simp add: ring_rel_def)
  then have "n - (c + k) < sz" by linarith
  ultimately show ?thesis using r k h ring_sizes [OF r] by (simp add: nvme_tc_head_handler_def ring_rel_def tc_wf_def)
qed

text \<open>C20: a completion queue of at least two entries that was just created behaves, for every sequence of completions and
  head doorbells of a host that consumes only what was posted, like the ring of the specification: the entries go to
  consecutive slots, the phase tag is one in the first pass and changes with every pass, and a completion that would
  overwrite an entry the host has not consumed gets no address.\<close>

theorem completion_ring_refines:
  assumes "ring_rel sz qid base 0 0 t" "base \<noteq> 0" "unat base + 16 * sz \<le> 2 ^ 64" "host_ok sz ops 0 0"
  shows "ring_run sz qid ops t = Inr (map (map_option (\<lambda>(i, p). (base + word_of_nat (i * 16), p))) (abs_ring sz ops 0 0))"
proof -
  have "ring_run sz qid ops t = Inr (map (map_option (\<lambda>(i, p). (base + word_of_nat (i * 16), p))) (abs_ring sz ops n c))"
    if "ring_rel sz qid base n c t" "host_ok sz ops n c" for n c
    using that
  proof (induction ops arbitrary: n c t)
    case (Cons op ops)
    show ?case
    proof (cases op)
      case Post
      obtain t' where t': "nvme_tc_get_cq_addr qid t = Inr (if n - c < sz - 1 then base + word_of_nat (n mod sz * 16) else 0, t')"
          "if n - c < sz - 1 then ring_rel sz qid base (n + 1) c t' \<and> cq_phase t' ! qid = even (n div sz) else t' = t"
        using ring_post [OF Cons.prems(1)] by blast
      have "n mod sz < sz" using Cons.prems(1) by (simp add: ring_rel_def)
      then have b: "unat base + n mod sz * 16 < 2 ^ 64" using assms(3) by linarith
      then have "unat (word_of_nat (n mod sz * 16) :: u64) = n mod sz * 16" by (intro unat_word_of_nat_small) simp
      then have "unat (base + word_of_nat (n mod sz * 16)) = unat base + n mod sz * 16" using b by (simp add: unat_word_ariths)
      moreover have "0 < unat base" using assms(2) by (simp add: unat_gt_0)
      ultimately have "base + word_of_nat (n mod sz * 16) \<noteq> 0" by (metis add_is_0 less_not_refl unat_0)
      then show ?thesis
        using Post t' Cons.IH [of "n + 1" c t'] Cons.IH [of n c t] Cons.prems by (simp split: if_splits)
    next
      case (Consume k)
      then show ?thesis using ring_consume [OF Cons.prems(1), of k] Cons by auto
    qed
  qed simp
  with assms show ?thesis by blast
qed

definition ex_ring :: tc where
  "ex_ring = (nvme_tc_init (\<lambda>_. 0))\<lparr>cq_size := [3, 0], cq_base := [4096, 0]\<rparr>"

theorem completion_ring_refines_witness:
  "ring_run 3 0 [Post, Post, Post, Consume 1, Post, Consume 2, Post] ex_ring =
    Inr [Some (4096, True), Some (4112, True), None, Some (4128, True), Some (4096, False)]"
proof -
  have "ring_rel 3 0 4096 0 0 ex_ring"
    by (simp add: ring_rel_def tc_wf_def ex_ring_def nvme_tc_init_def spec_consts)
  then show ?thesis
    using completion_ring_refines [of 3 0 4096 ex_ring "[Post, Post, Post, Consume 1, Post, Consume 2, Post]"]
    by (simp del: ring_run.simps)
qed

end
