(* ===== verification/Apu_Acc.thy ===== *)
theory Apu_Acc
  imports Prelude
begin

text \<open>
  Accelerators of the application processor (\<open>acc.h\<close>, \<open>acc.cpp\<close>): an accelerator holds a firmware, the
  ranges of the ramdisk its input comes from and its output goes to, and runs its firmware in the uBPF
  machine on a thread of its own. Accelerator objects are reached through pointers by the command handlers
  and by the threads, so they live in a heap in which a deleted object is \<open>None\<close>. \<open>/dev/mem\<close> is a byte
  memory; whether a mapping succeeds and what the uBPF library does are parameters.
\<close>

section \<open>Environment\<close>

text \<open>uBPF: \<open>ubpf_create\<close>, \<open>ubpf_load_elf\<close> on the firmware, \<open>ubpf_exec\<close> from the firmware, the input and the
  output buffer to the two buffers it leaves.\<close>

record ubpf =
  ubpf_create :: bool
  ubpf_load_elf :: "bytes \<Rightarrow> bool"
  ubpf_exec :: "bytes \<Rightarrow> bytes \<Rightarrow> bytes \<Rightarrow> bytes \<times> bytes"

record env =
  mmap_ok :: "u32 \<Rightarrow> u32 \<Rightarrow> bool"
  vm :: ubpf

text \<open>\<open>mmap_buffer\<close> as a range of physical memory, or an error number.\<close>

definition mmap_buffer :: "env \<Rightarrow> u32 \<Rightarrow> u32 \<Rightarrow> u64 option" where
  "mmap_buffer e base len = (if mmap_ok e base len then Some (ucast base) else None)"

section \<open>Accelerators\<close>

datatype AccState = Idle | Running | Done | Fail

fun state_code :: "AccState \<Rightarrow> u32" where
  "state_code Idle = 0"
| "state_code Running = 1"
| "state_code Done = 2"
| "state_code Fail = 3"

record Acc =
  ramdisk_in :: bool
  ramdisk_in_base :: u32
  ramdisk_in_size :: u32
  ramdisk_out :: bool
  ramdisk_out_base :: u32
  ramdisk_out_size :: u32
  acc_id :: u32
  firmware :: bytes
  ibuf :: bytes
  obuf :: bytes
  acc_state :: AccState

definition new_Acc :: "u32 \<Rightarrow> Acc" where
  "new_Acc i = \<lparr>ramdisk_in = False, ramdisk_in_base = 0, ramdisk_in_size = 0, ramdisk_out = False,
     ramdisk_out_base = 0, ramdisk_out_size = 0, acc_id = i, firmware = [], ibuf = [], obuf = [], acc_state = Idle\<rparr>"

definition addRamdiskIn :: "u32 \<Rightarrow> u32 \<Rightarrow> Acc \<Rightarrow> Acc" where
  "addRamdiskIn base sz a = a\<lparr>ramdisk_in := True, ramdisk_in_base := base, ramdisk_in_size := sz\<rparr>"

definition addRamdiskOut :: "u32 \<Rightarrow> u32 \<Rightarrow> Acc \<Rightarrow> Acc" where
  "addRamdiskOut base sz a = a\<lparr>ramdisk_out := True, ramdisk_out_base := base, ramdisk_out_size := sz\<rparr>"

definition addFirmware :: "bytes \<Rightarrow> Acc \<Rightarrow> Acc" where
  "addFirmware fw a = a\<lparr>firmware := fw\<rparr>"

text \<open>The two copies do not test the result of \<open>mmap_buffer\<close>: after a failure they use an indeterminate
  pointer.\<close>

definition ramdiskToBuf :: "env \<Rightarrow> host \<Rightarrow> Acc \<Rightarrow> Acc res" where
  "ramdiskToBuf e mem a = (case mmap_buffer e (ramdisk_in_base a) (ramdisk_in_size a) of
     None \<Rightarrow> Inl (Undefined ''indeterminate pointer'')
   | Some p \<Rightarrow> Inr (a\<lparr>ibuf := mem_read mem p (unat (ramdisk_in_size a))\<rparr>))"

definition bufToRamdisk :: "env \<Rightarrow> host \<Rightarrow> Acc \<Rightarrow> host res" where
  "bufToRamdisk e mem a = (case mmap_buffer e (ramdisk_out_base a) (ramdisk_out_size a) of
     None \<Rightarrow> Inl (Undefined ''indeterminate pointer'')
   | Some p \<Rightarrow>
       res_bind (guard_bounds (length (obuf a) \<le> unat (ramdisk_out_size a))) (\<lambda>_. Inr (mem_write mem p (obuf a))))"

definition resize :: "nat \<Rightarrow> bytes \<Rightarrow> bytes" where
  "resize n bs = take n bs @ replicate (n - length bs) 0"

lemma length_resize [simp]: "length (resize n bs) = n"
  by (simp add: resize_def)

text \<open>The body of the thread after the state was set to running.\<close>

definition runBPF :: "env \<Rightarrow> host \<Rightarrow> Acc \<Rightarrow> (host \<times> Acc) res" where
  "runBPF e mem a =
    (if \<not> ubpf_create (vm e) then Inr (mem, a\<lparr>acc_state := Fail\<rparr>)
     else if \<not> ubpf_load_elf (vm e) (firmware a) then Inr (mem, a\<lparr>acc_state := Fail\<rparr>)
     else
       res_bind (if ramdisk_in a then ramdiskToBuf e mem a else Inr a) (\<lambda>a.
       let a = (if ramdisk_out a then a\<lparr>obuf := resize (unat (ramdisk_out_size a)) (obuf a)\<rparr> else a);
           (ib, ob) = ubpf_exec (vm e) (firmware a) (ibuf a) (obuf a);
           a = a\<lparr>ibuf := ib, obuf := ob\<rparr> in
       res_bind (if ramdisk_out a then bufToRamdisk e mem a else Inr mem) (\<lambda>mem.
       Inr (mem, a\<lparr>acc_state := Done\<rparr>))))"

text \<open>What the code relies on of uBPF: the program works in the buffers it was given.\<close>

definition ubpf_keeps_sizes :: "ubpf \<Rightarrow> bool" where
  "ubpf_keeps_sizes v = (\<forall>fw i b. length (fst (ubpf_exec v fw i b)) = length i \<and> length (snd (ubpf_exec v fw i b)) = length b)"

section \<open>The heap of accelerators\<close>

type_synonym acc_heap = "Acc option list"

definition acc_at :: "nat \<Rightarrow> acc_heap \<Rightarrow> Acc res" where
  "acc_at p h = (if p < length h then (case h ! p of None \<Rightarrow> Inl (Undefined ''use after free'') | Some a \<Rightarrow> Inr a) else Inl OutOfBounds)"

definition acc_update :: "nat \<Rightarrow> (Acc \<Rightarrow> Acc) \<Rightarrow> acc_heap \<Rightarrow> acc_heap res" where
  "acc_update p f h = res_bind (acc_at p h) (\<lambda>a. Inr (h[p := Some (f a)]))"

lemma acc_at_Inr [simp]: "acc_at p h = Inr a \<longleftrightarrow> p < length h \<and> h ! p = Some a"
  by (auto simp: acc_at_def split: option.splits)

lemma acc_update_Inr [simp]: "acc_update p f h = Inr h' \<longleftrightarrow> (\<exists>a. p < length h \<and> h ! p = Some a \<and> h' = h[p := Some (f a)])"
  by (auto simp: acc_update_def)

text \<open>A job that loads: the whole run in one equation.\<close>

lemma runBPF_loaded:
  fixes mem :: host
  assumes "ubpf_create (vm e)" "ubpf_load_elf (vm e) (firmware a)" "ubpf_keeps_sizes (vm e)"
    and "ramdisk_in a" "mmap_ok e (ramdisk_in_base a) (ramdisk_in_size a)"
    and "ramdisk_out a" "mmap_ok e (ramdisk_out_base a) (ramdisk_out_size a)"
  defines "input \<equiv> mem_read mem (ucast (ramdisk_in_base a)) (unat (ramdisk_in_size a))"
  defines "r \<equiv> ubpf_exec (vm e) (firmware a) input (resize (unat (ramdisk_out_size a)) (obuf a))"
  shows "runBPF e mem a = Inr (mem_write mem (ucast (ramdisk_out_base a)) (snd r), a\<lparr>ibuf := fst r, obuf := snd r, acc_state := Done\<rparr>)"
proof -
  have "length (snd r) = unat (ramdisk_out_size a)" using assms(3) by (simp add: r_def ubpf_keeps_sizes_def)
  moreover have "ubpf_exec (vm e) (firmware a) input (resize (unat (ramdisk_out_size a)) (obuf a)) = (fst r, snd r)"
    by (simp add: r_def)
  ultimately show ?thesis
    using assms(1,2,4-7)
    by (simp add: runBPF_def ramdiskToBuf_def bufToRamdisk_def mmap_buffer_def input_def [symmetric] Let_def split_def)
qed

end
