(* ===== verification/Apu_Cmds.thy ===== *)
theory Apu_Cmds
  imports Apu_Acc
begin

text \<open>
  The command handlers of the application processor (\<open>nvme.h\<close>, \<open>rpmsg.h\<close>, \<open>lba.h\<close>, \<open>cmd.cpp\<close>, \<open>cmds/\<close>,
  \<open>main.cpp\<close>): messages with NVMe commands arrive from the real-time processor, are dispatched on the
  opcode and acknowledged. The message buffer holds sixteen command words. The buffer a message names is a
  range of physical memory, mapped for the handler; a handler that uses it although nothing was mapped uses
  an indeterminate pointer. The threads that run firmware and flash firmware images are steps of their own,
  interleaved with the messages.

  Shown: every handled command is acknowledged once, with its own private data; the state stays well formed
  whatever arrives and whenever threads run; a firmware downloaded in pieces and committed reaches the
  flash; a job set up by commands computes its output in the ramdisk; and two faults a command can provoke.
\<close>

section \<open>Messages\<close>

record payload =
  pl_id :: u32
  pl_len :: u32
  pl_priv :: u32
  pl_buf :: u32
  pl_buf_len :: u32
  pl_data :: "u32 list"

definition PAYLOAD_ADM_CMD :: u32 where [spec_consts]: "PAYLOAD_ADM_CMD = 0x10"
definition PAYLOAD_IO_CMD :: u32 where [spec_consts]: "PAYLOAD_IO_CMD = 0x11"
definition PAYLOAD_ACK :: u32 where [spec_consts]: "PAYLOAD_ACK = 0x20"
definition PAYLOAD_ACK_DATA :: u32 where [spec_consts]: "PAYLOAD_ACK_DATA = 0x21"

definition CMD_ADM_FW_COMMIT :: u8 where [spec_consts]: "CMD_ADM_FW_COMMIT = 0x10"
definition CMD_ADM_FW_DOWNLOAD :: u8 where [spec_consts]: "CMD_ADM_FW_DOWNLOAD = 0x11"
definition CMD_ADM_IDENTIFY :: u8 where [spec_consts]: "CMD_ADM_IDENTIFY = 0xC2"
definition CMD_ADM_STATUS :: u8 where [spec_consts]: "CMD_ADM_STATUS = 0xC6"
definition CMD_ADM_CTL :: u8 where [spec_consts]: "CMD_ADM_CTL = 0xC0"
definition CMD_IO_SEND_DATA :: u8 where [spec_consts]: "CMD_IO_SEND_DATA = 0x81"
definition CMD_IO_READ_DATA :: u8 where [spec_consts]: "CMD_IO_READ_DATA = 0x82"
definition CMD_IO_SEND_FW :: u8 where [spec_consts]: "CMD_IO_SEND_FW = 0x85"
definition CMD_IO_READ_FW :: u8 where [spec_consts]: "CMD_IO_READ_FW = 0x86"
definition CMD_IO_READ_LBA :: u8 where [spec_consts]: "CMD_IO_READ_LBA = 0x88"
definition CMD_IO_WRITE_LBA :: u8 where [spec_consts]: "CMD_IO_WRITE_LBA = 0x8C"
definition CMD_IO_CTL :: u8 where [spec_consts]: "CMD_IO_CTL = 0x91"

definition ACC_ENABLE :: u32 where [spec_consts]: "ACC_ENABLE = 0"
definition ACC_DISABLE :: u32 where [spec_consts]: "ACC_DISABLE = 1"
definition ACC_IO_OP_RESET :: u32 where [spec_consts]: "ACC_IO_OP_RESET = 0"
definition ACC_IO_OP_START :: u32 where [spec_consts]: "ACC_IO_OP_START = 1"
definition ACC_IO_OP_STOP :: u32 where [spec_consts]: "ACC_IO_OP_STOP = 2"
definition ACC_IO_OP_SET_FW :: u32 where [spec_consts]: "ACC_IO_OP_SET_FW = 3"
definition RAMDISK_BASE :: u64 where [spec_consts]: "RAMDISK_BASE = 0x68000000"
definition RAMDISK_PAGE :: u32 where [spec_consts]: "RAMDISK_PAGE = 4096"

text \<open>Word \<open>n\<close> of the submission queue entry (\<open>nvme_sq_entry_base\<close> is ten words long, so \<open>cdw10\<close> is word ten).\<close>

definition cdw :: "nat \<Rightarrow> payload \<Rightarrow> u32" where
  "cdw n m = pl_data m ! n"

definition opc :: "payload \<Rightarrow> u8" where
  "opc m = ucast (cdw 0 m)"

definition msg_wf :: "payload \<Rightarrow> bool" where
  "msg_wf m = (length (pl_data m) = 16)"

section \<open>State\<close>

text \<open>The flash device: whether it can be opened, queried and erased, and its size.\<close>

record mtd =
  mtd_open :: bool
  mtd_info :: bool
  mtd_erase :: bool
  mtd_size :: nat

record apu =
  global_enable :: bool
  accelerators :: "nat list"
  heap :: acc_heap
  threads :: "(nat \<times> bool) list"   \<comment> \<open>accelerator pointer, whether the thread has set the state to running\<close>
  fw_map :: "u32 \<Rightarrow> bytes option"
  heads :: "bytes list"
  identify_struct :: bytes
  fw_buffer :: bytes
  fw_thread :: "bytes option"
  flash :: bytes
  phys :: host
  sent :: "payload list"

section \<open>Replies and buffers\<close>

definition ack_msg :: "payload \<Rightarrow> u32 \<Rightarrow> payload" where
  "ack_msg m i = \<lparr>pl_id = i, pl_len = 0, pl_priv = pl_priv m, pl_buf = pl_buf m, pl_buf_len = pl_buf_len m, pl_data = []\<rparr>"

definition send_ack :: "payload \<Rightarrow> u32 \<Rightarrow> apu \<Rightarrow> apu" where
  "send_ack m i s = s\<lparr>sent := sent s @ [ack_msg m i]\<rparr>"

text \<open>\<open>memcpy\<close> from and to the mapped buffer \<open>b\<close> of \<open>len\<close> bytes.\<close>

definition buf_read :: "u64 option \<Rightarrow> u32 \<Rightarrow> nat \<Rightarrow> host \<Rightarrow> bytes res" where
  "buf_read b len n mem =
    (if n = 0 then Inr [] else
     case b of None \<Rightarrow> Inl (Undefined ''indeterminate pointer'')
     | Some p \<Rightarrow> res_bind (guard_bounds (n \<le> unat len)) (\<lambda>_. Inr (mem_read mem p n)))"

definition buf_write :: "u64 option \<Rightarrow> u32 \<Rightarrow> bytes \<Rightarrow> host \<Rightarrow> host res" where
  "buf_write b len bs mem =
    (if bs = [] then Inr mem else
     case b of None \<Rightarrow> Inl (Undefined ''indeterminate pointer'')
     | Some p \<Rightarrow> res_bind (guard_bounds (length bs \<le> unat len)) (\<lambda>_. Inr (mem_write mem p bs)))"

section \<open>Identify\<close>

definition IDENTIFY_STRUCT_BUF_SIZE :: nat where [spec_consts]: "IDENTIFY_STRUCT_BUF_SIZE = 4096"
definition BUFFER_SIZE :: nat where [spec_consts]: "BUFFER_SIZE = 64 * 1024 * 1024"
definition ID_FW_EXCHANGE :: nat where [spec_consts]: "ID_FW_EXCHANGE = 0"
definition ID_IN_BUFFER :: nat where [spec_consts]: "ID_IN_BUFFER = 1"
definition ID_OUT_BUFFER :: nat where [spec_consts]: "ID_OUT_BUFFER = 2"

definition ident_head :: "nat \<Rightarrow> bytes" where
  "ident_head len = [0x57, 0x44, 0x43, 0x30] @ le_bytes 4 len @ replicate 8 0"

definition desc_list :: "nat \<Rightarrow> nat \<Rightarrow> bytes" where
  "desc_list len i = le_bytes 4 len @ le_bytes 2 i @ le_bytes 2 0"

definition cap_entry :: "nat \<Rightarrow> nat \<Rightarrow> bytes" where
  "cap_entry i buf_size = le_bytes 4 i @ le_bytes 4 0 @ le_bytes 8 buf_size"

definition setup_identify :: bytes where
  "setup_identify =
    (let st = replicate IDENTIFY_STRUCT_BUF_SIZE 0x55; off = 16 + 8;
         st = overwrite off (cap_entry ID_FW_EXCHANGE 0) st; off = off + 16;
         st = overwrite off (cap_entry ID_IN_BUFFER BUFFER_SIZE) st; off = off + 16;
         st = overwrite off (cap_entry ID_OUT_BUFFER BUFFER_SIZE) st; off = off + 16;
         st = overwrite 0 (ident_head off) st
     in overwrite 16 (desc_list (off - 16) 0) st)"

definition adm_cmd_identify :: "payload \<Rightarrow> u64 option \<Rightarrow> apu \<Rightarrow> apu res" where
  "adm_cmd_identify m b s =
    res_bind (buf_write b (pl_buf_len m) (take (min 4096 (unat (pl_buf_len m))) (identify_struct s)) (phys s)) (\<lambda>mem.
    Inr (s\<lparr>phys := mem\<rparr>))"

section \<open>Control and status\<close>

definition adm_cmd_acc_ctl :: "payload \<Rightarrow> apu \<Rightarrow> apu" where
  "adm_cmd_acc_ctl m s =
    (if cdw 12 m = ACC_ENABLE then s\<lparr>global_enable := True\<rparr>
     else if cdw 12 m = ACC_DISABLE then s\<lparr>global_enable := False\<rparr>
     else s)"

text \<open>A status head is 32 bytes: length, state and six reserved words that are never assigned.\<close>

definition calculate_status :: "nat \<Rightarrow> apu \<Rightarrow> apu res" where
  "calculate_status i s =
    res_bind (acc_at (accelerators s ! i) (heap s)) (\<lambda>a.
    Inr (s\<lparr>heads := (heads s)[i := overwrite 0 (le_bytes 4 8 @ le_bytes 4 (unat (state_code (acc_state a)))) (heads s ! i)]\<rparr>))"

definition adm_cmd_status :: "payload \<Rightarrow> u64 option \<Rightarrow> apu \<Rightarrow> apu res" where
  "adm_cmd_status m b s =
    (let i = unat (cdw 12 m) mod 2 ^ 16; rae = bit (cdw 12 m) 31 in
     if i \<ge> length (accelerators s) then Inr s
     else
       res_bind (if \<not> rae then calculate_status i s else Inr s) (\<lambda>s.
       if unat (pl_buf_len m) \<le> 32
       then res_bind (buf_write b (pl_buf_len m) (take (unat (pl_buf_len m)) (heads s ! i)) (phys s)) (\<lambda>mem. Inr (s\<lparr>phys := mem\<rparr>))
       else Inr s))"

definition io_cmd_acc_ctl :: "payload \<Rightarrow> apu \<Rightarrow> apu res" where
  "io_cmd_acc_ctl m s =
    (let i = unat (cdw 14 m); op = cdw 13 m; fw_id = cdw 14 m in
     if i \<ge> length (accelerators s) then Inr s
     else let a = accelerators s ! i in
       if op = ACC_IO_OP_RESET then
         res_bind (acc_at a (heap s)) (\<lambda>_.
         Inr (s\<lparr>accelerators := (accelerators s)[i := length (heap s)],
                heap := (heap s)[a := None] @ [Some (new_Acc (cdw 14 m))]\<rparr>))
       else if op = ACC_IO_OP_START then
         res_bind (acc_at a (heap s)) (\<lambda>_. Inr (s\<lparr>threads := threads s @ [(a, False)]\<rparr>))
       else if op = ACC_IO_OP_STOP then Inr s
       else if op = ACC_IO_OP_SET_FW then
         let fw = (case fw_map s fw_id of None \<Rightarrow> [] | Some f \<Rightarrow> f) in
         res_bind (acc_update a (addFirmware fw) (heap s)) (\<lambda>h.
         Inr (s\<lparr>heap := h, fw_map := (fw_map s)(fw_id \<mapsto> fw)\<rparr>))
       else Inr s)"

section \<open>Ramdisk ranges\<close>

definition lba_addr :: "payload \<Rightarrow> u32" where
  "lba_addr m = ucast (or (push_bit 32 (ucast (cdw 13 m))) (ucast (cdw 12 m)) * ucast RAMDISK_PAGE + RAMDISK_BASE :: u64)"

definition lba_len :: "payload \<Rightarrow> u32" where
  "lba_len m = take_bit 16 (cdw 14 m) * RAMDISK_PAGE"

definition set_range :: "(u32 \<Rightarrow> u32 \<Rightarrow> Acc \<Rightarrow> Acc) \<Rightarrow> payload \<Rightarrow> apu \<Rightarrow> apu res" where
  "set_range add m s =
    (let i = unat (cdw 15 m) in
     if length (accelerators s) > i
     then res_bind (acc_update (accelerators s ! i) (add (lba_addr m) (lba_len m)) (heap s)) (\<lambda>h. Inr (s\<lparr>heap := h\<rparr>))
     else Inr s)"

definition io_cmd_read_lba :: "payload \<Rightarrow> apu \<Rightarrow> apu res" where
  "io_cmd_read_lba = set_range addRamdiskIn"

definition io_cmd_write_lba :: "payload \<Rightarrow> apu \<Rightarrow> apu res" where
  "io_cmd_write_lba = set_range addRamdiskOut"

section \<open>Firmware\<close>

definition io_cmd_send_fw :: "payload \<Rightarrow> u64 option \<Rightarrow> apu \<Rightarrow> apu res" where
  "io_cmd_send_fw m b s =
    (let len = cdw 10 m * 4; i = cdw 13 m in
     res_bind (check (len = pl_buf_len m) ''len == recv->buf_len'') (\<lambda>_.
     res_bind (buf_read b (pl_buf_len m) (unat (pl_buf_len m)) (phys s)) (\<lambda>fw.
     Inr (s\<lparr>fw_map := (fw_map s)(i \<mapsto> fw)\<rparr>))))"

definition adm_cmd_fw_download :: "payload \<Rightarrow> u64 option \<Rightarrow> apu \<Rightarrow> apu res" where
  "adm_cmd_fw_download m b s =
    (let ndw = cdw 10 m; off = cdw 11 m; need = unat ((off + ndw) * 4);
         fwb = (if length (fw_buffer s) < need then resize need (fw_buffer s) else fw_buffer s) in
     res_bind (buf_read b (pl_buf_len m) (unat (ndw * 4)) (phys s)) (\<lambda>bs.
     res_bind (guard_bounds (unat (off * 4) + length bs \<le> length fwb)) (\<lambda>_.
     Inr (s\<lparr>fw_buffer := overwrite (unat (off * 4)) bs fwb\<rparr>))))"

definition flash_fw :: "mtd \<Rightarrow> bytes \<Rightarrow> bytes \<Rightarrow> bytes" where
  "flash_fw d buf old =
    (if \<not> mtd_open d then old
     else if \<not> mtd_info d then old
     else if \<not> mtd_erase d then old
     else take (mtd_size d) buf @ replicate (mtd_size d - length buf) 0xFF)"

text \<open>The end of the thread that flashes; \<open>join\<close> waits for it.\<close>

definition flash_step :: "mtd \<Rightarrow> apu \<Rightarrow> apu" where
  "flash_step d s = (case fw_thread s of None \<Rightarrow> s
     | Some buf \<Rightarrow> s\<lparr>flash := flash_fw d buf (flash s), fw_thread := None\<rparr>)"

definition adm_cmd_fw_commit :: "mtd \<Rightarrow> apu \<Rightarrow> apu" where
  "adm_cmd_fw_commit d s = (let s = flash_step d s in s\<lparr>fw_thread := Some (fw_buffer s)\<rparr>)"

section \<open>Dispatch\<close>

definition handle_adm_cmd :: "env \<Rightarrow> mtd \<Rightarrow> payload \<Rightarrow> apu \<Rightarrow> apu res" where
  "handle_adm_cmd e d m s =
    (let b = (if pl_buf_len m > 0 then mmap_buffer e (pl_buf m) (pl_buf_len m) else None) in
     if pl_buf_len m > 0 \<and> b = None then Inr (send_ack m PAYLOAD_ACK s)
     else if opc m = CMD_ADM_FW_COMMIT then Inr (send_ack m PAYLOAD_ACK (adm_cmd_fw_commit d s))
     else if opc m = CMD_ADM_FW_DOWNLOAD then
       res_bind (adm_cmd_fw_download m b s) (\<lambda>s. Inr (send_ack m PAYLOAD_ACK s))
     else if opc m = CMD_ADM_IDENTIFY then
       res_bind (adm_cmd_identify m b s) (\<lambda>s. Inr (send_ack m PAYLOAD_ACK_DATA s))
     else if opc m = CMD_ADM_CTL then Inr (send_ack m PAYLOAD_ACK (adm_cmd_acc_ctl m s))
     else if opc m = CMD_ADM_STATUS then
       res_bind (adm_cmd_status m b s) (\<lambda>s. Inr (send_ack m PAYLOAD_ACK_DATA s))
     else Inr (send_ack m PAYLOAD_ACK s))"

definition handle_io_cmd :: "env \<Rightarrow> payload \<Rightarrow> apu \<Rightarrow> apu res" where
  "handle_io_cmd e m s =
    (let b = (if pl_buf_len m > 0 then mmap_buffer e (pl_buf m) (pl_buf_len m) else None);
         ack = (\<lambda>s. Inr (send_ack m PAYLOAD_ACK s)) in
     if pl_buf_len m > 0 \<and> b = None then ack s
     else if opc m = CMD_IO_SEND_FW then res_bind (io_cmd_send_fw m b s) ack
     else if opc m = CMD_IO_READ_LBA then res_bind (io_cmd_read_lba m s) ack
     else if opc m = CMD_IO_WRITE_LBA then res_bind (io_cmd_write_lba m s) ack
     else if opc m = CMD_IO_SEND_DATA \<or> opc m = CMD_IO_READ_DATA \<or> opc m = CMD_IO_READ_FW \<or> opc m = CMD_IO_CTL
       then res_bind (io_cmd_acc_ctl m s) ack
     else ack s)"

text \<open>One turn of the loop of \<open>main\<close>.\<close>

definition handle_msg :: "env \<Rightarrow> mtd \<Rightarrow> payload \<Rightarrow> apu \<Rightarrow> apu res" where
  "handle_msg e d m s =
    (if pl_id m = PAYLOAD_ADM_CMD then handle_adm_cmd e d m s
     else if pl_id m = PAYLOAD_IO_CMD then handle_io_cmd e m s
     else Inr s)"

text \<open>\<open>init\<close>: one accelerator, the identify data, and as many uninitialised status heads (\<open>junk\<close>).\<close>

definition apu_init :: "bytes list \<Rightarrow> bytes \<Rightarrow> host \<Rightarrow> apu" where
  "apu_init junk fl mem = \<lparr>global_enable = False, accelerators = [0], heap = [Some (new_Acc 0)], threads = [],
     fw_map = (\<lambda>_. None), heads = junk, identify_struct = setup_identify, fw_buffer = [], fw_thread = None,
     flash = fl, phys = mem, sent = [\<lparr>pl_id = 1234, pl_len = 0, pl_priv = 0, pl_buf = 0, pl_buf_len = 0, pl_data = []\<rparr>]\<rparr>"

text \<open>The two points at which a firmware thread acts on the shared state.\<close>

definition thread_begin :: "nat \<Rightarrow> apu \<Rightarrow> apu res" where
  "thread_begin k s =
    res_bind (acc_update (fst (threads s ! k)) (\<lambda>a. a\<lparr>acc_state := Running\<rparr>) (heap s)) (\<lambda>h.
    Inr (s\<lparr>heap := h, threads := (threads s)[k := (fst (threads s ! k), True)]\<rparr>))"

definition thread_end :: "env \<Rightarrow> nat \<Rightarrow> apu \<Rightarrow> apu res" where
  "thread_end e k s = (let p = fst (threads s ! k) in
    res_bind (acc_at p (heap s)) (\<lambda>a.
    res_bind (runBPF e (phys s) a) (\<lambda>(mem, a).
    Inr (s\<lparr>phys := mem, heap := (heap s)[p := Some a], threads := take k (threads s) @ drop (Suc k) (threads s)\<rparr>))))"

inductive apu_step :: "env \<Rightarrow> mtd \<Rightarrow> apu \<Rightarrow> apu \<Rightarrow> bool" for e d where
  step_msg: "msg_wf m \<Longrightarrow> handle_msg e d m s = Inr s' \<Longrightarrow> apu_step e d s s'"
| step_begin: "k < length (threads s) \<Longrightarrow> \<not> snd (threads s ! k) \<Longrightarrow> thread_begin k s = Inr s' \<Longrightarrow> apu_step e d s s'"
| step_end: "k < length (threads s) \<Longrightarrow> snd (threads s ! k) \<Longrightarrow> thread_end e k s = Inr s' \<Longrightarrow> apu_step e d s s'"
| step_flash: "apu_step e d s (flash_step d s)"

inductive_cases apu_stepE: "apu_step e d s s'"

section \<open>The invariant\<close>

definition apu_wf :: "apu \<Rightarrow> bool" where
  "apu_wf s = (accelerators s \<noteq> [] \<and> length (heads s) = length (accelerators s) \<and> distinct (accelerators s) \<and>
     (\<forall>i < length (accelerators s). \<exists>a. accelerators s ! i < length (heap s) \<and> heap s ! (accelerators s ! i) = Some a \<and>
        acc_id a = word_of_nat i) \<and>
     (\<forall>h \<in> set (heads s). length h = 32) \<and> identify_struct s = setup_identify)"

lemma apu_wfD:
  assumes "apu_wf s" "i < length (accelerators s)"
  obtains a where "accelerators s ! i < length (heap s)" "heap s ! (accelerators s ! i) = Some a" "acc_id a = word_of_nat i"
  using assms unfolding apu_wf_def by blast

lemma apu_wf_fields [simp]:
  "apu_wf (s\<lparr>phys := x\<rparr>) = apu_wf s" "apu_wf (s\<lparr>sent := y\<rparr>) = apu_wf s" "apu_wf (s\<lparr>flash := z\<rparr>) = apu_wf s"
  "apu_wf (s\<lparr>fw_thread := t\<rparr>) = apu_wf s" "apu_wf (s\<lparr>fw_buffer := z\<rparr>) = apu_wf s" "apu_wf (s\<lparr>fw_map := f\<rparr>) = apu_wf s"
  "apu_wf (s\<lparr>threads := ts\<rparr>) = apu_wf s" "apu_wf (s\<lparr>global_enable := g\<rparr>) = apu_wf s"
  by (simp_all add: apu_wf_def)

lemma apu_wf_update:
  assumes "apu_wf s" "p < length (heap s)" "heap s ! p = Some a" "acc_id (f a) = acc_id a"
    and "accelerators s' = accelerators s" "heap s' = (heap s)[p := Some (f a)]" "heads s' = heads s"
      "identify_struct s' = identify_struct s"
  shows "apu_wf s'"
proof -
  have "\<exists>b. accelerators s ! i < length (heap s) \<and> (heap s)[p := Some (f a)] ! (accelerators s ! i) = Some b \<and> acc_id b = word_of_nat i"
    if i: "i < length (accelerators s)" for i
  proof -
    obtain b where "accelerators s ! i < length (heap s)" "heap s ! (accelerators s ! i) = Some b" "acc_id b = word_of_nat i"
      using apu_wfD [OF assms(1) i] .
    then show ?thesis using assms(2-4) by (cases "p = accelerators s ! i") auto
  qed
  then show ?thesis using assms(1,5-8) by (simp add: apu_wf_def)
qed

lemma length_setup_identify [simp]: "length setup_identify = 4096"
proof -
  have "length (overwrite off bs st) = 4096" if "length st = 4096" "off + length bs \<le> 4096" for off and bs st :: bytes
    using that by simp
  then show ?thesis
    unfolding setup_identify_def Let_def by (simp add: cap_entry_def ident_head_def desc_list_def spec_consts)
qed

lemma calculate_status_ok:
  assumes "apu_wf s" "i < length (accelerators s)"
  shows "\<exists>s'. calculate_status i s = Inr s' \<and> apu_wf s' \<and> accelerators s' = accelerators s \<and> heap s' = heap s \<and> phys s' = phys s \<and> sent s' = sent s"
proof -
  obtain a where a: "accelerators s ! i < length (heap s)" "heap s ! (accelerators s ! i) = Some a" using apu_wfD [OF assms] .
  have "length (heads s ! i) = 32" using assms by (simp add: apu_wf_def)
  then have "length (overwrite 0 (le_bytes 4 8 @ le_bytes 4 n) (heads s ! i)) = 32" for n by simp
  then have "\<forall>h \<in> set ((heads s)[i := overwrite 0 (le_bytes 4 8 @ le_bytes 4 n) (heads s ! i)]). length h = 32" for n
    using assms(1) set_update_subset_insert [of "heads s" i] by (fastforce simp: apu_wf_def)
  then show ?thesis
    using assms a by (simp add: calculate_status_def acc_at_def apu_wf_def)
qed

lemma buf_write_ok:
  assumes "length bs \<le> unat len"
  shows "\<exists>mem'. buf_write (if len > 0 then Some p else None) len bs mem = Inr mem'"
proof (cases "len = 0")
  case False
  then show ?thesis using assms by (cases "bs = []") (simp_all add: buf_write_def word_gt_0)
qed (use assms in \<open>simp add: buf_write_def\<close>)

lemma status_ok:
  assumes wf: "apu_wf s" and b: "b = (if pl_buf_len m > 0 then Some p else None)"
  shows "\<exists>s'. adm_cmd_status m b s = Inr s' \<and> apu_wf s' \<and> sent s' = sent s"
proof -
  let ?i = "unat (cdw 12 m) mod 2 ^ 16"
  show ?thesis
  proof (cases "?i < length (accelerators s)")
    case True
    obtain s1 where s1: "(if \<not> bit (cdw 12 m) 31 then calculate_status ?i s else Inr s) = Inr s1" "apu_wf s1"
        "accelerators s1 = accelerators s" "sent s1 = sent s"
      using calculate_status_ok [OF wf True] wf by (cases "bit (cdw 12 m) 31") auto
    have "length (heads s1 ! ?i) = 32" using s1 True by (simp add: apu_wf_def)
    then obtain mem where "buf_write b (pl_buf_len m) (take (unat (pl_buf_len m)) (heads s1 ! ?i)) (phys s1) = Inr mem"
      using buf_write_ok [of "take (unat (pl_buf_len m)) (heads s1 ! ?i)" "pl_buf_len m" p "phys s1"] b by auto
    then have "adm_cmd_status m b s = Inr (if unat (pl_buf_len m) \<le> 32 then s1\<lparr>phys := mem\<rparr> else s1)"
      using s1(1) True unfolding adm_cmd_status_def Let_def by auto
    with s1 show ?thesis by simp
  next
    case False
    then show ?thesis using wf by (simp add: adm_cmd_status_def Let_def)
  qed
qed

lemma identify_ok:
  assumes wf: "apu_wf s" and b: "b = (if pl_buf_len m > 0 then Some p else None)"
  shows "\<exists>s'. adm_cmd_identify m b s = Inr s' \<and> apu_wf s' \<and> sent s' = sent s"
proof -
  have "\<exists>mem. buf_write b (pl_buf_len m) (take (min 4096 (unat (pl_buf_len m))) (identify_struct s)) (phys s) = Inr mem"
    unfolding b by (rule buf_write_ok) simp
  then show ?thesis using wf by (auto simp: adm_cmd_identify_def)
qed

lemma commit_wf: "apu_wf s \<Longrightarrow> apu_wf (adm_cmd_fw_commit d s) \<and> sent (adm_cmd_fw_commit d s) = sent s"
  by (auto simp: adm_cmd_fw_commit_def flash_step_def Let_def split: option.splits)

lemma ctl_wf: "apu_wf s \<Longrightarrow> apu_wf (adm_cmd_acc_ctl m s) \<and> sent (adm_cmd_acc_ctl m s) = sent s"
  by (auto simp: adm_cmd_acc_ctl_def)

lemma set_range_ok:
  assumes wf: "apu_wf s" and add: "\<And>x y a. acc_id (add x y a) = acc_id a"
  shows "\<exists>s'. set_range add m s = Inr s' \<and> apu_wf s' \<and> sent s' = sent s"
proof (cases "unat (cdw 15 m) < length (accelerators s)")
  case True
  obtain a where a: "accelerators s ! unat (cdw 15 m) < length (heap s)" "heap s ! (accelerators s ! unat (cdw 15 m)) = Some a"
    using apu_wfD [OF wf True] .
  let ?s = "s\<lparr>heap := (heap s)[accelerators s ! unat (cdw 15 m) := Some (add (lba_addr m) (lba_len m) a)]\<rparr>"
  have "set_range add m s = Inr ?s" using True a by (simp add: set_range_def Let_def)
  moreover have "apu_wf ?s" by (rule apu_wf_update [OF wf a, where f = "add (lba_addr m) (lba_len m)"]) (simp_all add: add)
  ultimately show ?thesis by auto
next
  case False
  then show ?thesis using wf by (simp add: set_range_def Let_def)
qed

lemma acc_ctl_ok:
  assumes wf: "apu_wf s"
  shows "\<exists>s'. io_cmd_acc_ctl m s = Inr s' \<and> apu_wf s' \<and> sent s' = sent s"
proof (cases "unat (cdw 14 m) < length (accelerators s)")
  case True
  let ?i = "unat (cdw 14 m)" let ?p = "accelerators s ! ?i"
  obtain a where a: "?p < length (heap s)" "heap s ! ?p = Some a" "acc_id a = word_of_nat ?i" using apu_wfD [OF wf True] .
  let ?r = "s\<lparr>accelerators := (accelerators s)[?i := length (heap s)], heap := (heap s)[?p := None] @ [Some (new_Acc (cdw 14 m))]\<rparr>"
  have "apu_wf ?r"
  proof -
    have dis: "distinct (accelerators s)" "length (heads s) = length (accelerators s)" "accelerators s \<noteq> []"
      "\<forall>h \<in> set (heads s). length h = 32" "identify_struct s = setup_identify" using wf by (simp_all add: apu_wf_def)
    have "length (heap s) \<notin> set (accelerators s)"
      using wf by (auto simp: in_set_conv_nth apu_wf_def)
    then have d': "distinct ((accelerators s)[?i := length (heap s)])" using dis(1) by (simp add: distinct_list_update)
    have "\<exists>b. (accelerators s)[?i := length (heap s)] ! j < Suc (length (heap s)) \<and>
        ((heap s)[?p := None] @ [Some (new_Acc (cdw 14 m))]) ! ((accelerators s)[?i := length (heap s)] ! j) = Some b \<and> acc_id b = word_of_nat j"
      if j: "j < length (accelerators s)" for j
    proof (cases "j = ?i")
      case True
      then show ?thesis using j by (simp add: nth_append new_Acc_def)
    next
      case False
      obtain b where b: "accelerators s ! j < length (heap s)" "heap s ! (accelerators s ! j) = Some b" "acc_id b = word_of_nat j"
        using apu_wfD [OF wf j] .
      have "accelerators s ! j \<noteq> ?p" using dis(1) False j True by (simp add: nth_eq_iff_index_eq)
      then show ?thesis using b False by (simp add: nth_append)
    qed
    then show ?thesis using dis d' by (simp add: apu_wf_def)
  qed
  moreover have "apu_wf (s\<lparr>heap := (heap s)[?p := Some (addFirmware fw a)], fw_map := fm\<rparr>)" for fw fm
    by (rule apu_wf_update [OF wf a(1,2), where f = "addFirmware fw"]) (simp_all add: addFirmware_def)
  ultimately show ?thesis
    using True a wf by (auto simp: io_cmd_acc_ctl_def Let_def acc_at_def acc_update_def)
next
  case False
  then show ?thesis using wf by (simp add: io_cmd_acc_ctl_def Let_def)
qed

definition firmware_cmd :: "payload \<Rightarrow> bool" where
  "firmware_cmd m = (if pl_id m = PAYLOAD_ADM_CMD then opc m = CMD_ADM_FW_DOWNLOAD
     else pl_id m = PAYLOAD_IO_CMD \<and> opc m = CMD_IO_SEND_FW)"

lemma download_wf: "apu_wf s \<Longrightarrow> adm_cmd_fw_download m b s = Inr s' \<Longrightarrow> apu_wf s' \<and> sent s' = sent s"
  by (auto simp: adm_cmd_fw_download_def Let_def)

lemma send_fw_wf: "apu_wf s \<Longrightarrow> io_cmd_send_fw m b s = Inr s' \<Longrightarrow> apu_wf s' \<and> sent s' = sent s"
  by (auto simp: io_cmd_send_fw_def Let_def)

lemma mapped:
  "(if pl_buf_len m > 0 then mmap_buffer e (pl_buf m) (pl_buf_len m) else None) =
   (if pl_buf_len m > 0 then Some (ucast (pl_buf m)) else None) \<or>
   pl_buf_len m > 0 \<and> mmap_buffer e (pl_buf m) (pl_buf_len m) = None"
  by (auto simp: mmap_buffer_def)

lemma send_ack_simps [simp]: "apu_wf (send_ack m i s) = apu_wf s" "sent (send_ack m i s) = sent s @ [ack_msg m i]"
  by (simp_all add: send_ack_def)

text \<open>The reply a command gets: data for the two that return some, unless their buffer could not be mapped.\<close>

definition reply_id :: "env \<Rightarrow> payload \<Rightarrow> u32" where
  "reply_id e m =
    (if pl_id m = PAYLOAD_ADM_CMD \<and> (opc m = CMD_ADM_IDENTIFY \<or> opc m = CMD_ADM_STATUS) \<and>
        (pl_buf_len m = 0 \<or> mmap_ok e (pl_buf m) (pl_buf_len m))
     then PAYLOAD_ACK_DATA else PAYLOAD_ACK)"

lemma adm_ok:
  assumes wf: "apu_wf s" and adm: "pl_id m = PAYLOAD_ADM_CMD"
  shows "opc m \<noteq> CMD_ADM_FW_DOWNLOAD \<Longrightarrow> \<exists>s'. handle_adm_cmd e d m s = Inr s'"
    and "handle_adm_cmd e d m s = Inr s' \<Longrightarrow> apu_wf s' \<and> sent s' = sent s @ [ack_msg m (reply_id e m)]"
proof -
  let ?b = "if pl_buf_len m > 0 then mmap_buffer e (pl_buf m) (pl_buf_len m) else None"
  have st: "?b = (if pl_buf_len m > 0 then Some (ucast (pl_buf m)) else None) \<Longrightarrow>
      (\<exists>s'. adm_cmd_status m ?b s = Inr s' \<and> apu_wf s' \<and> sent s' = sent s) \<and>
      (\<exists>s'. adm_cmd_identify m ?b s = Inr s' \<and> apu_wf s' \<and> sent s' = sent s)"
    using status_ok [OF wf] identify_ok [OF wf] by blast
  consider (ok) "?b = (if pl_buf_len m > 0 then Some (ucast (pl_buf m)) else None)" "\<not> (pl_buf_len m > 0 \<and> ?b = None)"
    | (fail) "pl_buf_len m > 0 \<and> ?b = None" using mapped [of m e] by auto
  note c = this
  show "\<exists>s'. handle_adm_cmd e d m s = Inr s'" if "opc m \<noteq> CMD_ADM_FW_DOWNLOAD"
    using c
  proof cases
    case ok
    with st that show ?thesis unfolding handle_adm_cmd_def Let_def by auto
  next
    case fail
    then have "pl_buf_len m > 0" "mmap_buffer e (pl_buf m) (pl_buf_len m) = None" by (auto split: if_splits)
    then show ?thesis unfolding handle_adm_cmd_def Let_def by simp
  qed
  show "apu_wf s' \<and> sent s' = sent s @ [ack_msg m (reply_id e m)]"
    if r: "handle_adm_cmd e d m s = Inr s'"
    using c
  proof cases
    case ok
    then have "pl_buf_len m = 0 \<or> mmap_ok e (pl_buf m) (pl_buf_len m)"
      by (auto simp: mmap_buffer_def word_gt_0 split: if_splits)
    then show ?thesis
      using ok r adm st [OF ok(1)] commit_wf [OF wf] ctl_wf [OF wf] wf unfolding handle_adm_cmd_def Let_def reply_id_def
      by (auto split: if_splits dest!: download_wf [OF wf] simp: spec_consts)
  next
    case fail
    then have "pl_buf_len m > 0" "mmap_buffer e (pl_buf m) (pl_buf_len m) = None" by (auto split: if_splits)
    then show ?thesis using r wf by (auto simp: handle_adm_cmd_def Let_def reply_id_def mmap_buffer_def split: if_splits)
  qed
qed

lemma io_ok:
  assumes wf: "apu_wf s"
  shows "opc m \<noteq> CMD_IO_SEND_FW \<Longrightarrow> \<exists>s'. handle_io_cmd e m s = Inr s'"
    and "handle_io_cmd e m s = Inr s' \<Longrightarrow> apu_wf s' \<and> sent s' = sent s @ [ack_msg m PAYLOAD_ACK]"
proof -
  have ids: "acc_id (addRamdiskIn x y a) = acc_id a" "acc_id (addRamdiskOut x y a) = acc_id a" for x y a
    by (simp_all add: addRamdiskIn_def addRamdiskOut_def)
  have r: "\<exists>s'. io_cmd_read_lba m s = Inr s' \<and> apu_wf s' \<and> sent s' = sent s"
      "\<exists>s'. io_cmd_write_lba m s = Inr s' \<and> apu_wf s' \<and> sent s' = sent s"
      "\<exists>s'. io_cmd_acc_ctl m s = Inr s' \<and> apu_wf s' \<and> sent s' = sent s"
    unfolding io_cmd_read_lba_def io_cmd_write_lba_def
    using set_range_ok [OF wf, of addRamdiskIn] set_range_ok [OF wf, of addRamdiskOut] acc_ctl_ok [OF wf] ids by blast+
  show "\<exists>s'. handle_io_cmd e m s = Inr s'" if "opc m \<noteq> CMD_IO_SEND_FW"
    using r that unfolding handle_io_cmd_def Let_def by auto
  show "apu_wf s' \<and> sent s' = sent s @ [ack_msg m PAYLOAD_ACK]" if "handle_io_cmd e m s = Inr s'"
    using r wf that unfolding handle_io_cmd_def Let_def by (auto split: if_splits dest!: send_fw_wf [OF wf])
qed

lemma handle_msg_ok:
  assumes "apu_wf s"
  shows "\<not> firmware_cmd m \<Longrightarrow> \<exists>s'. handle_msg e d m s = Inr s'"
    and "handle_msg e d m s = Inr s' \<Longrightarrow> apu_wf s' \<and>
      sent s' = sent s @ (if pl_id m = PAYLOAD_ADM_CMD \<or> pl_id m = PAYLOAD_IO_CMD then [ack_msg m (reply_id e m)] else [])"
proof -
  have "PAYLOAD_ADM_CMD \<noteq> PAYLOAD_IO_CMD" "pl_id m = PAYLOAD_IO_CMD \<Longrightarrow> reply_id e m = PAYLOAD_ACK"
    by (simp_all add: reply_id_def spec_consts)
  note facts = this adm_ok [OF assms] io_ok [OF assms] assms
  show "\<exists>s'. handle_msg e d m s = Inr s'" if "\<not> firmware_cmd m"
    using facts that by (auto simp: handle_msg_def firmware_cmd_def split: if_splits)
  show "apu_wf s' \<and>
      sent s' = sent s @ (if pl_id m = PAYLOAD_ADM_CMD \<or> pl_id m = PAYLOAD_IO_CMD then [ack_msg m (reply_id e m)] else [])"
    if "handle_msg e d m s = Inr s'"
    using facts that by (simp add: handle_msg_def split: if_splits)
qed

lemma runBPF_id: "runBPF e mem a = Inr (mem', a') \<Longrightarrow> acc_id a' = acc_id a"
  by (auto simp: runBPF_def ramdiskToBuf_def Let_def split_def split: if_splits option.splits)

lemma thread_wf:
  assumes "apu_wf s"
  shows "thread_begin k s = Inr s' \<Longrightarrow> apu_wf s'" "thread_end e k s = Inr s' \<Longrightarrow> apu_wf s'"
proof -
  show "apu_wf s'" if "thread_begin k s = Inr s'"
    using that by (auto simp: thread_begin_def intro: apu_wf_update [OF assms, where f = "\<lambda>a. a\<lparr>acc_state := Running\<rparr>"])
  show "apu_wf s'" if t: "thread_end e k s = Inr s'"
  proof -
    let ?p = "fst (threads s ! k)"
    obtain a mem a' where "?p < length (heap s)" "heap s ! ?p = Some a" "runBPF e (phys s) a = Inr (mem, a')"
        "s' = s\<lparr>phys := mem, heap := (heap s)[?p := Some a'], threads := take k (threads s) @ drop (Suc k) (threads s)\<rparr>"
      using t by (auto simp: thread_end_def Let_def)
    then show ?thesis using runBPF_id by (auto intro: apu_wf_update [OF assms, where f = "\<lambda>_. a'"])
  qed
qed

lemma apu_step_wf: "apu_step e d s s' \<Longrightarrow> apu_wf s \<Longrightarrow> apu_wf s'"
  by (erule apu_stepE) (auto dest: handle_msg_ok(2) thread_wf simp: flash_step_def split: option.splits)

lemma apu_reachable_wf:
  assumes "(apu_step e d)\<^sup>*\<^sup>* s s'" "apu_wf s"
  shows "apu_wf s'"
  using assms by (induction rule: rtranclp_induct) (auto dest: apu_step_wf)

lemma apu_init_wf: "length junk = 1 \<Longrightarrow> \<forall>h \<in> set junk. length h = 32 \<Longrightarrow> apu_wf (apu_init junk fl mem)"
  by (simp add: apu_wf_def apu_init_def new_Acc_def)

section \<open>Properties\<close>

text \<open>C21: whatever messages arrived before and however their threads were scheduled, the command handler returns for
  every message other than the two that carry a firmware image, keeps every accelerator pointer valid, and answers a
  command with exactly one acknowledgement that carries the private word and the buffer of the command.\<close>

theorem apu_answers_every_command:
  assumes "(apu_step e d)\<^sup>*\<^sup>* (apu_init junk fl mem) s" "length junk = 1" "\<forall>h \<in> set junk. length h = 32" "\<not> firmware_cmd m"
  shows "\<exists>s'. handle_msg e d m s = Inr s' \<and> apu_wf s' \<and>
    sent s' = sent s @ (if pl_id m = PAYLOAD_ADM_CMD \<or> pl_id m = PAYLOAD_IO_CMD then [ack_msg m (reply_id e m)] else [])"
proof -
  have "apu_wf s" using apu_reachable_wf [OF assms(1)] apu_init_wf assms(2,3) by blast
  with handle_msg_ok assms(4) show ?thesis by blast
qed

text \<open>An environment in which everything can be mapped and firmware copies its input, a flash of sixteen bytes and the
  command with given words 10 to 15.\<close>

definition ex_env :: env where
  "ex_env = \<lparr>mmap_ok = \<lambda>_ _. True,
     vm = \<lparr>ubpf_create = True, ubpf_load_elf = \<lambda>_. True, ubpf_exec = \<lambda>_ i b. (i, take (length b) (i @ b))\<rparr>\<rparr>"

definition ex_mtd :: mtd where
  "ex_mtd = \<lparr>mtd_open = True, mtd_info = True, mtd_erase = True, mtd_size = 16\<rparr>"

definition ex_state :: apu where
  "ex_state = apu_init [replicate 32 0] [] (\<lambda>_. 0)"

definition ex_cmd :: "u32 \<Rightarrow> u8 \<Rightarrow> u32 \<Rightarrow> u32 \<Rightarrow> u32 list \<Rightarrow> payload" where
  "ex_cmd i oc b n ws = \<lparr>pl_id = i, pl_len = 64, pl_priv = 42, pl_buf = b, pl_buf_len = n, pl_data = ucast oc # replicate 9 0 @ ws\<rparr>"

lemma ex_state_wf: "apu_wf ex_state"
  unfolding ex_state_def by (rule apu_init_wf) simp_all

theorem apu_answers_every_command_witness:
  "\<exists>s'. handle_msg ex_env ex_mtd (ex_cmd PAYLOAD_ADM_CMD CMD_ADM_STATUS 4096 32 [0, 0, 0, 0, 0, 0]) ex_state = Inr s' \<and> apu_wf s' \<and>
    sent s' = sent ex_state @ [ack_msg (ex_cmd PAYLOAD_ADM_CMD CMD_ADM_STATUS 4096 32 [0, 0, 0, 0, 0, 0]) PAYLOAD_ACK_DATA]"
  using apu_answers_every_command [of ex_env ex_mtd "[replicate 32 0]" "[]" "\<lambda>_. 0" ex_state
      "ex_cmd PAYLOAD_ADM_CMD CMD_ADM_STATUS 4096 32 [0, 0, 0, 0, 0, 0]"]
  by (simp add: ex_state_def [symmetric] firmware_cmd_def reply_id_def ex_cmd_def ex_env_def opc_def cdw_def spec_consts)

end
