(* ===== verification/Rpu_Cmd.thy ===== *)
theory Rpu_Cmd
  imports Rpu_Tc Apu_Cmds
begin

text \<open>
  The command processing of the real-time processor (\<open>dma.h\<close>, \<open>dma.c\<close>, \<open>cmd.h\<close>, \<open>cmd.c\<close>, \<open>cmds/\<close>, \<open>ramdisk.c\<close>,
  \<open>rpmsg.c\<close>): commands are fetched from the host by DMA into a slot, handled, their data is moved by further
  transfers along lists of pages, and completed by a transfer of the completion entry. Every transfer names
  what is called when it ends, so the handlers are continuations kept in the DMA queues.

  Memory: the slots, their submission and completion entries and the buffers for page lists are objects of
  their own; ramdisk, response buffers and buffers of vendor commands are ranges of the physical memory the
  application processor maps as well. Zephyr's allocators and the rpmsg transport are parameters.
\<close>

section \<open>State\<close>

datatype cb = Nvme_cmd_handler | Cq_cb | Nvme_cmd_return_cb | Prp_cb | Vendor_cb | Rpmsg_cmd_return_cb

datatype loc = Sq_buf nat | Cq_buf nat | Prp_list nat | Local u32

datatype dir = DIR_FROM_HOST | DIR_TO_HOST

record nvme_cmd_priv =
  qid :: nat
  dir :: dir
  prp_size :: nat
  xfer_base :: u32
  xfer_size :: u32
  xfer_buf :: u32
  xfer_len :: u32
  xfer_cb :: "cb option"
  block :: u32             \<comment> \<open>\<open>block.data\<close>, zero when nothing is allocated\<close>
  sq_buf :: "u32 list"
  cq_buf :: "u32 list"

record nvme_dma_xfer_def =
  xd_cb :: "(cb \<times> nat) option"
  host_addr :: u64
  local_addr :: loc
  xd_len :: u32
  xd_tag :: u32

record nvme_dma_priv =
  rx_fifo :: "nvme_dma_xfer_def list"
  tx_fifo :: "nvme_dma_xfer_def list"
  rx_dma_running :: bool
  tx_dma_running :: bool
  rx_regs :: "nvme_dma_xfer_def option"   \<comment> \<open>the transfer the registers of the read channel describe\<close>
  tx_regs :: "nvme_dma_xfer_def option"
  descs :: nat                            \<comment> \<open>descriptors taken from the slab\<close>

record rpu =
  tc :: tc
  dma :: nvme_dma_priv
  slots :: "nvme_cmd_priv option list"
  prps :: "u64 list list"
  prp_used :: "bool list"
  pool :: "u32 list"
  hmem :: host
  lmem :: host
  to_apu :: "payload list"

text \<open>Zephyr and the board: which free slab entry is handed out, the memory pool, \<open>k_malloc\<close>, \<open>rpmsg_send\<close>, the
  address of a command slot, the ramdisk and the static response buffers.\<close>

record board =
  slab_pick :: "nat list \<Rightarrow> nat"
  pool_alloc :: "u32 list \<Rightarrow> nat \<Rightarrow> u32 option"
  malloc_ok :: bool
  rpmsg_send_ok :: bool
  cmd_addr :: "nat \<Rightarrow> u32"
  sram_base :: u32
  sram_size :: nat
  smart_buf :: u32
  ident_buf :: "nat \<Rightarrow> u32"
  id_off :: "string \<Rightarrow> nat"      \<comment> \<open>\<open>NVME_ID_FIELD_\<dots>\<close> of the generated header\<close>
  id_size :: "string \<Rightarrow> nat"

definition slab_free :: "bool list \<Rightarrow> nat list" where
  "slab_free used = filter (\<lambda>i. \<not> used ! i) [0..<length used]"

definition board_ok :: "board \<Rightarrow> bool" where
  "board_ok z = ((\<forall>xs. xs \<noteq> [] \<longrightarrow> slab_pick z xs \<in> set xs) \<and> inj_on (cmd_addr z) {0..<NVME_CMD_SLAB_SIZE})"

definition slot_at :: "nat \<Rightarrow> rpu \<Rightarrow> nvme_cmd_priv res" where
  "slot_at i s = (if i < length (slots s) then (case slots s ! i of None \<Rightarrow> Inl (Undefined ''use after free'') | Some c \<Rightarrow> Inr c)
     else Inl OutOfBounds)"

definition slot_set :: "nat \<Rightarrow> nvme_cmd_priv \<Rightarrow> rpu \<Rightarrow> rpu" where
  "slot_set i c s = s\<lparr>slots := (slots s)[i := Some c]\<rparr>"

section \<open>DMA\<close>

definition NVME_DMA_SLAB_ENTRIES :: nat where [spec_consts]: "NVME_DMA_SLAB_ENTRIES = 4096 * 16"

definition nvme_dma_init :: nvme_dma_priv where
  "nvme_dma_init = \<lparr>rx_fifo = [], tx_fifo = [], rx_dma_running = False, tx_dma_running = False, rx_regs = None, tx_regs = None, descs = 0\<rparr>"

definition nvme_dma_xfer_fill_desc :: "nvme_dma_priv \<Rightarrow> u64 \<Rightarrow> loc \<Rightarrow> u32 \<Rightarrow> u32 \<Rightarrow> (cb \<times> nat) option \<Rightarrow> nvme_dma_xfer_def option" where
  "nvme_dma_xfer_fill_desc d h l len tag k =
    (if descs d < NVME_DMA_SLAB_ENTRIES
     then Some \<lparr>xd_cb = k, host_addr = h, local_addr = l, xd_len = len, xd_tag = tag\<rparr> else None)"

text \<open>No caller looks at the error code: without a descriptor nothing happens.\<close>

definition nvme_dma_xfer_host_to_mem :: "u64 \<Rightarrow> loc \<Rightarrow> u32 \<Rightarrow> (cb \<times> nat) option \<Rightarrow> rpu \<Rightarrow> rpu" where
  "nvme_dma_xfer_host_to_mem src dst len k s =
    (case nvme_dma_xfer_fill_desc (dma s) src dst len 0xAA k of None \<Rightarrow> s
     | Some x \<Rightarrow> s\<lparr>dma := (let d = (dma s)\<lparr>descs := descs (dma s) + 1, rx_fifo := rx_fifo (dma s) @ [x]\<rparr> in
         if \<not> rx_dma_running d then d\<lparr>rx_regs := Some x, rx_dma_running := True\<rparr> else d)\<rparr>)"

definition nvme_dma_xfer_mem_to_host :: "loc \<Rightarrow> u64 \<Rightarrow> u32 \<Rightarrow> (cb \<times> nat) option \<Rightarrow> rpu \<Rightarrow> rpu" where
  "nvme_dma_xfer_mem_to_host src dst len k s =
    (case nvme_dma_xfer_fill_desc (dma s) dst src len 0x55 k of None \<Rightarrow> s
     | Some x \<Rightarrow> s\<lparr>dma := (let d = (dma s)\<lparr>descs := descs (dma s) + 1, tx_fifo := tx_fifo (dma s) @ [x]\<rparr> in
         if \<not> tx_dma_running d then d\<lparr>tx_regs := Some x, tx_dma_running := True\<rparr> else d)\<rparr>)"

section \<open>Entries of the queues\<close>

definition sq_opc :: "nvme_cmd_priv \<Rightarrow> nat" where
  "sq_opc c = unat (sq_buf c ! 0) mod 256"

definition sq_psdt :: "nvme_cmd_priv \<Rightarrow> nat" where
  "sq_psdt c = unat (sq_buf c ! 0) div 2 ^ 14 mod 4"

definition sq_cid :: "nvme_cmd_priv \<Rightarrow> nat" where
  "sq_cid c = unat (sq_buf c ! 0) div 2 ^ 16"

definition sq_dw64 :: "nat \<Rightarrow> nvme_cmd_priv \<Rightarrow> u64" where
  "sq_dw64 n c = or (push_bit 32 (ucast (sq_buf c ! (n + 1)))) (ucast (sq_buf c ! n))"

definition prp1 :: "nvme_cmd_priv \<Rightarrow> u64" where "prp1 = sq_dw64 6"
definition prp2 :: "nvme_cmd_priv \<Rightarrow> u64" where "prp2 = sq_dw64 8"

definition fill_cq_resp :: "nat \<Rightarrow> rpu \<Rightarrow> rpu res" where
  "fill_cq_resp i s =
    res_bind (slot_at i s) (\<lambda>c.
    res_bind (nth_res (sq_head (tc s)) (qid c)) (\<lambda>h.
    Inr (slot_set i (c\<lparr>cq_buf := [0, 0, ucast h, word_of_nat (sq_cid c)]\<rparr>) s)))"

definition nvme_cmd_return :: "nat \<Rightarrow> rpu \<Rightarrow> rpu res" where
  "nvme_cmd_return i s =
    res_bind (slot_at i s) (\<lambda>c.
    res_bind (nvme_tc_get_cq_addr (qid c) (tc s)) (\<lambda>(a, t).
    let s = s\<lparr>tc := t\<rparr> in
    if a = 0 then Inr s
    else
      res_bind (nth_res (cq_phase t) (qid c)) (\<lambda>p.
      let c = c\<lparr>cq_buf := (cq_buf c)[3 := (if p then set_bit else unset_bit) 16 (cq_buf c ! 3)]\<rparr> in
      Inr (nvme_dma_xfer_mem_to_host (Cq_buf i) a (word_of_nat NVME_TC_CQ_ENTRY_SIZE) (Some (Cq_cb, i)) (slot_set i c s)))))"

section \<open>Data transfers\<close>

definition transfer_chunk :: "nat \<Rightarrow> u64 \<Rightarrow> u32 \<Rightarrow> u32 \<Rightarrow> rpu \<Rightarrow> rpu res" where
  "transfer_chunk i h l len s =
    res_bind (slot_at i s) (\<lambda>c.
    let k = (if xfer_len c = len then map_option (\<lambda>f. (f, i)) (xfer_cb c) else None);
        s = (if dir c = DIR_TO_HOST then nvme_dma_xfer_mem_to_host (Local l) h len k s
             else nvme_dma_xfer_host_to_mem h (Local l) len k s)
    in Inr (slot_set i (c\<lparr>xfer_len := xfer_len c - len, xfer_buf := xfer_buf c + len\<rparr>) s))"

definition calc_prp_size :: "u64 \<Rightarrow> nat \<Rightarrow> u32 \<Rightarrow> nat" where
  "calc_prp_size base mps len =
    (let total = ((unat len + mps - 1) mod 2 ^ 32 div mps) * 8; page = mps - unat base mod mps in
     if page > total then total else page)"

text \<open>The loop over the entries of a page list in buffer \<open>k\<close>, which has room for 512 of them.\<close>

function prp_loop :: "nat \<Rightarrow> nat \<Rightarrow> nat \<Rightarrow> rpu \<Rightarrow> rpu res" where
  "prp_loop i k n s =
    res_bind (slot_at i s) (\<lambda>c.
    if xfer_len c = 0 then Inr (s\<lparr>prp_used := (prp_used s)[k := False]\<rparr>)
    else if n \<ge> NVME_PRP_LIST_SIZE div 8 then Inl OutOfBounds
    else
      let mps = memory_page_size (tc s); l = (if mps > unat (xfer_len c) then xfer_len c else word_of_nat mps);
          list = prps s ! k;
          last = prp_size c div 8 in
      if n + 1 = last \<and> unat (xfer_len c) > mps then
        let sz = calc_prp_size (list ! n) mps (xfer_len c) in
        Inr (nvme_dma_xfer_host_to_mem (list ! n) (Prp_list k) (word_of_nat sz) (Some (Prp_cb, i)) (slot_set i (c\<lparr>prp_size := sz\<rparr>) s))
      else
        res_bind (transfer_chunk i (list ! n) (xfer_buf c) l s) (prp_loop i k (n + 1)))"
  by pat_completeness auto
termination
  by (relation "measure (\<lambda>(i, k, n, s). NVME_PRP_LIST_SIZE div 8 - n)") auto

declare prp_loop.simps [simp del]

definition prp_cb :: "nat \<Rightarrow> nat \<Rightarrow> rpu \<Rightarrow> rpu res" where
  "prp_cb i k s = prp_loop i k 0 s"

definition transfer_data_with_prps :: "board \<Rightarrow> nat \<Rightarrow> rpu \<Rightarrow> rpu res" where
  "transfer_data_with_prps z i s =
    res_bind (slot_at i s) (\<lambda>c.
    let mps = memory_page_size (tc s) in
    res_bind (mod_res (unat (prp1 c)) mps) (\<lambda>off.
    let l = (if mps - off > unat (xfer_len c) then xfer_len c else word_of_nat (mps - off)) in
    res_bind (transfer_chunk i (prp1 c) (xfer_buf c) l s) (\<lambda>s.
    res_bind (slot_at i s) (\<lambda>c.
    if xfer_len c = 0 then Inr s
    else if unat (xfer_len c) > mps then
      let free = slab_free (prp_used s) in
      if free \<noteq> [] then
        let k = slab_pick z free; sz = calc_prp_size (prp2 c) mps (xfer_len c) in
        Inr (nvme_dma_xfer_host_to_mem (prp2 c) (Prp_list k) (word_of_nat sz) (Some (Prp_cb, i))
          (slot_set i (c\<lparr>prp_size := sz\<rparr>) (s\<lparr>prp_used := (prp_used s)[k := True]\<rparr>)))
      else nvme_cmd_return i s
    else transfer_chunk i (prp2 c) (xfer_buf c) (xfer_len c) s))))"

text \<open>The result is true when the transfer was refused.\<close>

definition nvme_cmd_transfer_data :: "board \<Rightarrow> nat \<Rightarrow> rpu \<Rightarrow> (bool \<times> rpu) res" where
  "nvme_cmd_transfer_data z i s =
    res_bind (slot_at i s) (\<lambda>c.
    if sq_psdt c \<noteq> 0 then Inr (True, s)
    else res_bind (transfer_data_with_prps z i s) (\<lambda>s. Inr (False, s)))"

definition start_xfer :: "nat \<Rightarrow> u32 \<Rightarrow> u32 \<Rightarrow> dir \<Rightarrow> cb \<Rightarrow> rpu \<Rightarrow> rpu res" where
  "start_xfer i buf len d k s =
    res_bind (slot_at i s) (\<lambda>c.
    Inr (slot_set i (c\<lparr>xfer_base := buf, xfer_buf := buf, xfer_size := len, xfer_len := len, dir := d, xfer_cb := Some k\<rparr>) s))"

definition nvme_cmd_get_data :: "board \<Rightarrow> nat \<Rightarrow> u32 \<Rightarrow> u32 \<Rightarrow> rpu \<Rightarrow> rpu res" where
  "nvme_cmd_get_data z i buf len s =
    res_bind (start_xfer i buf len DIR_FROM_HOST Nvme_cmd_return_cb s) (\<lambda>s.
    res_bind (nvme_cmd_transfer_data z i s) (\<lambda>(bad, s). if bad then nvme_cmd_return i s else Inr s))"

definition nvme_cmd_return_data :: "board \<Rightarrow> nat \<Rightarrow> u32 \<Rightarrow> u32 \<Rightarrow> rpu \<Rightarrow> rpu res" where
  "nvme_cmd_return_data z i buf len s =
    res_bind (start_xfer i buf len DIR_TO_HOST Nvme_cmd_return_cb s) (\<lambda>s.
    res_bind (nvme_cmd_transfer_data z i s) (\<lambda>(bad, s). if bad then nvme_cmd_return i s else Inr s))"

section \<open>Ramdisk\<close>

definition BLK_SHIFT :: nat where [spec_consts]: "BLK_SHIFT = 9"
definition BLK_SIZE :: nat where [spec_consts]: "BLK_SIZE = 512"

definition BLK_CNT :: "board \<Rightarrow> nat" where
  "BLK_CNT z = sram_size z div BLK_SIZE"

definition ramdisk_init :: "board \<Rightarrow> host \<Rightarrow> host" where
  "ramdisk_init z mem = mem_write mem (ucast (sram_base z)) (map word_of_nat [0..<BLK_SIZE])"

definition ramdisk_read :: "board \<Rightarrow> u32 \<Rightarrow> u32 \<Rightarrow> u32 option" where
  "ramdisk_read z lba nlb = (if unat lba \<le> BLK_CNT z then Some (sram_base z + lba * word_of_nat BLK_SIZE) else None)"

definition ramdisk_write :: "board \<Rightarrow> u32 \<Rightarrow> u32 \<Rightarrow> u32 option" where
  "ramdisk_write z lba nlb =
    (if unat lba \<le> BLK_CNT z \<and> unat (lba + nlb) \<le> BLK_CNT z then Some (sram_base z + lba * word_of_nat BLK_SIZE) else None)"

definition rw_lba :: "nvme_cmd_priv \<Rightarrow> u32" where
  "rw_lba c = sq_buf c ! 10"

definition rw_nlb :: "nvme_cmd_priv \<Rightarrow> u32" where
  "rw_nlb c = take_bit 16 (sq_buf c ! 12) + 1"

definition nvme_cmd_io_read :: "board \<Rightarrow> nat \<Rightarrow> rpu \<Rightarrow> rpu res" where
  "nvme_cmd_io_read z i s =
    res_bind (slot_at i s) (\<lambda>c.
    case ramdisk_read z (rw_lba c) (rw_nlb c) of
      Some buf \<Rightarrow> nvme_cmd_return_data z i buf (rw_nlb c * word_of_nat BLK_SIZE) s
    | None \<Rightarrow> nvme_cmd_return i s)"

definition nvme_cmd_io_write :: "board \<Rightarrow> nat \<Rightarrow> rpu \<Rightarrow> rpu res" where
  "nvme_cmd_io_write z i s =
    res_bind (slot_at i s) (\<lambda>c.
    case ramdisk_write z (rw_lba c) (rw_nlb c) of
      Some buf \<Rightarrow> nvme_cmd_get_data z i buf (rw_nlb c * word_of_nat BLK_SIZE) s
    | None \<Rightarrow> nvme_cmd_return i s)"

section \<open>Logs and identification\<close>

definition poke :: "u32 \<Rightarrow> nat \<Rightarrow> nat \<Rightarrow> nat \<Rightarrow> host \<Rightarrow> host" where
  "poke buf off n v mem = mem_write mem (ucast (buf + word_of_nat off)) (le_bytes n v)"

definition SMART_RESP_SIZE :: nat where [spec_consts]: "SMART_RESP_SIZE = 512"

definition fill_smart_struct :: "u32 \<Rightarrow> host \<Rightarrow> host" where
  "fill_smart_struct buf mem =
    (let mem = mem_write mem (ucast buf) (replicate SMART_RESP_SIZE 0);
         mem = poke buf 1 2 298 mem;
         mem = poke buf 3 1 100 mem;
         mem = poke buf 4 1 5 mem;
         mem = poke buf 128 4 2000 mem;
         mem = poke buf 144 4 10 mem;
         mem = poke buf 148 4 0 mem;
         mem = poke buf 152 4 0 mem
     in poke buf 156 4 0 mem)"

definition get_smart_log :: "board \<Rightarrow> nat \<Rightarrow> u32 \<Rightarrow> rpu \<Rightarrow> rpu res" where
  "get_smart_log z i len s =
    (let len = (if unat len > SMART_RESP_SIZE then word_of_nat SMART_RESP_SIZE else len) in
     nvme_cmd_return_data z i (smart_buf z) len (s\<lparr>lmem := fill_smart_struct (smart_buf z) (lmem s)\<rparr>))"

definition nvme_cmd_adm_get_log :: "board \<Rightarrow> nat \<Rightarrow> rpu \<Rightarrow> rpu res" where
  "nvme_cmd_adm_get_log z i s =
    res_bind (slot_at i s) (\<lambda>c.
    let len = or (push_bit 16 (take_bit 16 (sq_buf c ! 11))) (drop_bit 16 (sq_buf c ! 10)); len = (len + 1) * 4 in
    if take_bit 8 (sq_buf c ! 10) = 2 then get_smart_log z i len s else nvme_cmd_return i s)"

definition NVME_CMD_IDENTIFY_RESP_SIZE :: nat where [spec_consts]: "NVME_CMD_IDENTIFY_RESP_SIZE = 4096"

text \<open>\<open>strncat\<close> to a string that starts at \<open>off\<close> of the response buffer, looking for its end inside the buffer.\<close>

definition strncat :: "u32 \<Rightarrow> nat \<Rightarrow> string \<Rightarrow> nat \<Rightarrow> host \<Rightarrow> host" where
  "strncat buf off src n mem =
    (let str = mem_read mem (ucast (buf + word_of_nat off)) (NVME_CMD_IDENTIFY_RESP_SIZE - off);
         at = off + length (takeWhile (\<lambda>b. b \<noteq> 0) str)
     in mem_write mem (ucast (buf + word_of_nat at)) (map of_char (take n src) @ [0]))"

definition fill_identify_struct :: "board \<Rightarrow> u32 \<Rightarrow> host \<Rightarrow> host" where
  "fill_identify_struct z buf mem =
    (let w = (\<lambda>f d n v. poke buf (id_off z f + d) n v);
         mem = mem_write mem (ucast buf) (replicate NVME_CMD_IDENTIFY_RESP_SIZE 0);
         mem = w ''VID'' 0 2 0x1b96 mem;
         mem = w ''SSVID'' 0 2 0x1b96 mem;
         mem = strncat buf (id_off z ''SN'') ''0123456789'' (id_size z ''SN'' - 1) mem;
         mem = strncat buf (id_off z ''MN'') ''DEADBEEF'' (id_size z ''MN'' - 1) mem;
         mem = strncat buf (id_off z ''FR'') ''12.34'' (id_size z ''FR'' - 1) mem;
         mem = w ''IEEE'' 0 2 0x00 mem;
         mem = w ''IEEE'' 2 2 0x90 mem;
         mem = w ''IEEE'' 4 2 0xA9 mem;
         mem = w ''VER'' 0 4 0x00010304 mem;
         mem = w ''CNTRLTYPE'' 0 1 1 mem;
         mem = w ''ACL'' 0 1 3 mem;
         mem = w ''AERL'' 0 1 3 mem;
         mem = w ''FRMW'' 0 1 3 mem;
         mem = w ''AVSCC'' 0 1 1 mem;
         mem = w ''WCTEMP'' 0 2 0x0157 mem;
         mem = w ''CCTEMP'' 0 2 0x0300 mem;
         mem = w ''FWUG'' 0 1 128 mem;
         mem = w ''SQES'' 0 1 0x66 mem;
         mem = w ''CQES'' 0 1 0x44 mem;
         mem = w ''NN'' 0 4 1 mem;
         mem = w ''FNA'' 0 1 1 mem;
         mem = w ''AWUN'' 0 2 0xFFFF mem;
         mem = w ''AWUPF'' 0 2 0xFFFF mem;
         mem = w ''NVSCC'' 0 1 1 mem
     in strncat buf (id_off z ''SUBNQN'') ''NVMe Open Source Controller'' (id_size z ''SUBNQN'' - 1) mem)"

definition respond :: "board \<Rightarrow> nat \<Rightarrow> nat \<Rightarrow> (u32 \<Rightarrow> host \<Rightarrow> host) \<Rightarrow> rpu \<Rightarrow> rpu res" where
  "respond z i k fill s =
    nvme_cmd_return_data z i (ident_buf z k) (word_of_nat NVME_CMD_IDENTIFY_RESP_SIZE) (s\<lparr>lmem := fill (ident_buf z k) (lmem s)\<rparr>)"

definition identify_controller :: "board \<Rightarrow> nat \<Rightarrow> rpu \<Rightarrow> rpu res" where
  "identify_controller z i = respond z i 0 (fill_identify_struct z)"

definition fill_identify_namespace_list :: "board \<Rightarrow> u32 \<Rightarrow> host \<Rightarrow> host" where
  "fill_identify_namespace_list z buf mem =
    poke buf (id_off z ''VID'') 4 1 (mem_write mem (ucast buf) (replicate NVME_CMD_IDENTIFY_RESP_SIZE 0))"

definition identify_namespace_list :: "board \<Rightarrow> nat \<Rightarrow> rpu \<Rightarrow> rpu res" where
  "identify_namespace_list z i = respond z i 1 (fill_identify_namespace_list z)"

definition identify_namespace_ident_list :: "board \<Rightarrow> nat \<Rightarrow> rpu \<Rightarrow> rpu res" where
  "identify_namespace_ident_list z i = respond z i 2 (\<lambda>buf mem.
    let mem = mem_write mem (ucast buf) (replicate NVME_CMD_IDENTIFY_RESP_SIZE 0);
        mem = poke buf 0 1 3 mem;
        mem = poke buf 1 1 0x10 mem
    in fold (\<lambda>j. poke buf (4 + j) 1 (j + 1)) [0..<16] mem)"

definition identify_namespace :: "board \<Rightarrow> nat \<Rightarrow> rpu \<Rightarrow> rpu res" where
  "identify_namespace z i = respond z i 3 (\<lambda>buf mem.
    let mem = mem_write mem (ucast buf) (replicate NVME_CMD_IDENTIFY_RESP_SIZE 0);
        mem = poke buf 0 4 (BLK_CNT z) mem;
        mem = poke buf 8 4 (BLK_CNT z) mem
    in poke buf 128 4 (BLK_SHIFT * 2 ^ 16) mem)"

definition nvme_cmd_adm_identify :: "board \<Rightarrow> nat \<Rightarrow> rpu \<Rightarrow> rpu res" where
  "nvme_cmd_adm_identify z i s =
    res_bind (slot_at i s) (\<lambda>c.
    let cns = unat (sq_buf c ! 10) mod 256 in
    if cns = 0 then identify_namespace z i s
    else if cns = 1 then identify_controller z i s
    else if cns = 2 then identify_namespace_list z i s
    else if cns = 3 then identify_namespace_ident_list z i s
    else nvme_cmd_return i s)"

end
