(* ===== verification/Rpu_Ctrl.thy ===== *)
theory Rpu_Ctrl
  imports Rpu_Cmd
begin

text \<open>
  Control of the real-time processor: creation of queues and features (\<open>cmds/queues.c\<close>, \<open>cmds/set_features.c\<close>), vendor
  commands that are forwarded to the application processor and their return (\<open>cmds/vendor.c\<close>, \<open>rpmsg.c\<close>), the dispatch of
  commands (\<open>cmd.c\<close>) and the two interrupt handlers (\<open>tc.c\<close>, \<open>dma.c\<close>). The events of the whole controller are a data
  type; between events nothing of the controller runs.
\<close>

section \<open>Queues and features\<close>

definition cdw10_qid :: "nvme_cmd_priv \<Rightarrow> nat" where
  "cdw10_qid c = unat (sq_buf c ! 10) mod 2 ^ 16"

definition cdw10_qsize :: "nvme_cmd_priv \<Rightarrow> u16" where
  "cdw10_qsize c = word_of_nat (unat (sq_buf c ! 10) div 2 ^ 16)"

definition bad_qid :: "nat \<Rightarrow> bool" where
  "bad_qid q = (q = 0 \<or> q > QUEUES)"

definition nvme_cmd_adm_create_sq :: "nat \<Rightarrow> rpu \<Rightarrow> rpu res" where
  "nvme_cmd_adm_create_sq i s =
    res_bind (slot_at i s) (\<lambda>c.
    let q = cdw10_qid c; t = tc s in
    if bad_qid q then nvme_cmd_return i s
    else
      res_bind (set_res (sq_base t) q (prp1 c)) (\<lambda>b.
      res_bind (set_res (sq_head t) q 0) (\<lambda>h.
      res_bind (set_res (sq_tail t) q 0) (\<lambda>l.
      res_bind (set_res (sq_pc t) q (bit (sq_buf c ! 11) 0)) (\<lambda>p.
      res_bind (set_res (sq_size t) q (cdw10_qsize c + 1)) (\<lambda>z.
      res_bind (set_res (sq_valid t) q True) (\<lambda>v.
      nvme_cmd_return i (s\<lparr>tc := t\<lparr>sq_base := b, sq_head := h, sq_tail := l, sq_pc := p, sq_size := z, sq_valid := v\<rparr>\<rparr>))))))))"

definition nvme_cmd_adm_delete_sq :: "nat \<Rightarrow> rpu \<Rightarrow> rpu res" where
  "nvme_cmd_adm_delete_sq i s =
    res_bind (slot_at i s) (\<lambda>c.
    let q = cdw10_qid c; t = tc s in
    if bad_qid q then nvme_cmd_return i s
    else res_bind (set_res (sq_valid t) q False) (\<lambda>v. nvme_cmd_return i (s\<lparr>tc := t\<lparr>sq_valid := v\<rparr>\<rparr>)))"

definition nvme_cmd_adm_create_cq :: "nat \<Rightarrow> rpu \<Rightarrow> rpu res" where
  "nvme_cmd_adm_create_cq i s =
    res_bind (slot_at i s) (\<lambda>c.
    let q = cdw10_qid c; t = tc s in
    if bad_qid q then nvme_cmd_return i s
    else
      res_bind (set_res (cq_base t) q (prp1 c)) (\<lambda>b.
      res_bind (set_res (cq_head t) q 0) (\<lambda>h.
      res_bind (set_res (cq_tail t) q 0) (\<lambda>l.
      res_bind (set_res (cq_phase t) q False) (\<lambda>f.
      res_bind (set_res (cq_ien t) q (bit (sq_buf c ! 11) 1)) (\<lambda>n.
      res_bind (set_res (cq_pc t) q (bit (sq_buf c ! 11) 0)) (\<lambda>p.
      res_bind (set_res (cq_size t) q (cdw10_qsize c + 1)) (\<lambda>z.
      res_bind (set_res (cq_iv t) q (ucast (drop_bit 16 (sq_buf c ! 11)))) (\<lambda>iv.
      res_bind (set_res (cq_valid t) q True) (\<lambda>v.
      nvme_cmd_return i (s\<lparr>tc := t\<lparr>cq_base := b, cq_head := h, cq_tail := l, cq_phase := f, cq_ien := n, cq_pc := p,
        cq_size := z, cq_iv := iv, cq_valid := v\<rparr>\<rparr>)))))))))))"

definition nvme_cmd_adm_delete_cq :: "nat \<Rightarrow> rpu \<Rightarrow> rpu res" where
  "nvme_cmd_adm_delete_cq i s =
    res_bind (slot_at i s) (\<lambda>c.
    let q = cdw10_qid c; t = tc s in
    if bad_qid q then nvme_cmd_return i s
    else res_bind (set_res (cq_valid t) q False) (\<lambda>v. nvme_cmd_return i (s\<lparr>tc := t\<lparr>cq_valid := v\<rparr>\<rparr>)))"

definition FID_NUMBER_OF_QUEUES :: nat where [spec_consts]: "FID_NUMBER_OF_QUEUES = 7"

definition number_of_queues :: "nat \<Rightarrow> rpu \<Rightarrow> rpu res" where
  "number_of_queues i s =
    res_bind (slot_at i s) (\<lambda>c.
    let n = 1 :: int in
    Inr (slot_set i (c\<lparr>cq_buf := (cq_buf c)[0 := or (push_bit 16 (word_of_int (n - 1))) (word_of_int (n - 1))]\<rparr>)
      (s\<lparr>tc := (tc s)\<lparr>queues := n\<rparr>\<rparr>)))"

definition nvme_cmd_adm_set_features :: "nat \<Rightarrow> rpu \<Rightarrow> rpu res" where
  "nvme_cmd_adm_set_features i s =
    res_bind (slot_at i s) (\<lambda>c.
    res_bind (if unat (sq_buf c ! 10) mod 256 = FID_NUMBER_OF_QUEUES then number_of_queues i s else Inr s) (nvme_cmd_return i))"

section \<open>Vendor commands\<close>

definition RPMSG_HANDLE_CUSTOM_ADM_COMMAND :: u32 where [spec_consts]: "RPMSG_HANDLE_CUSTOM_ADM_COMMAND = 0x10"
definition RPMSG_HANDLE_CUSTOM_IO_COMMAND :: u32 where [spec_consts]: "RPMSG_HANDLE_CUSTOM_IO_COMMAND = 0x11"
definition RPMSG_CMD_RETURN :: u32 where [spec_consts]: "RPMSG_CMD_RETURN = 0x20"
definition RPMSG_CMD_RETURN_DATA :: u32 where [spec_consts]: "RPMSG_CMD_RETURN_DATA = 0x21"
definition NVME_CMD_XFER_NONE :: nat where [spec_consts]: "NVME_CMD_XFER_NONE = 0"
definition NVME_CMD_XFER_TO_HOST :: nat where [spec_consts]: "NVME_CMD_XFER_TO_HOST = 2"

definition vendor_msg :: "board \<Rightarrow> nat \<Rightarrow> nvme_cmd_priv \<Rightarrow> payload" where
  "vendor_msg z i c =
    \<lparr>pl_id = (if qid c > 0 then RPMSG_HANDLE_CUSTOM_IO_COMMAND else RPMSG_HANDLE_CUSTOM_ADM_COMMAND), pl_len = 64,
     pl_priv = cmd_addr z i, pl_buf = block c, pl_buf_len = sq_buf c ! 10 * 4, pl_data = sq_buf c\<rparr>"

text \<open>When the message cannot be built or sent, an error code is returned that no caller looks at.\<close>

definition send_cmd :: "board \<Rightarrow> nat \<Rightarrow> rpu \<Rightarrow> rpu res" where
  "send_cmd z i s =
    res_bind (slot_at i s) (\<lambda>c.
    if \<not> malloc_ok z then Inr s
    else if \<not> rpmsg_send_ok z then Inr s
    else Inr (s\<lparr>to_apu := to_apu s @ [vendor_msg z i c]\<rparr>))"

definition vendor_cb :: "board \<Rightarrow> nat \<Rightarrow> rpu \<Rightarrow> rpu res" where
  "vendor_cb = send_cmd"

text \<open>The part after the buffer was allocated: the message is sent now or after the data was fetched.\<close>

definition vendor_start :: "board \<Rightarrow> nat \<Rightarrow> nat \<Rightarrow> int \<Rightarrow> rpu \<Rightarrow> rpu res" where
  "vendor_start z i d buffer_size s =
    (if buffer_size = 0 \<or> d = NVME_CMD_XFER_TO_HOST then send_cmd z i s
     else
       res_bind (slot_at i s) (\<lambda>c.
       res_bind (start_xfer i (block c) (word_of_int buffer_size) DIR_FROM_HOST Vendor_cb s) (\<lambda>s.
       res_bind (nvme_cmd_transfer_data z i s) (\<lambda>(bad, s). Inr s))))"

definition nvme_cmd_vendor :: "board \<Rightarrow> nat \<Rightarrow> bool \<Rightarrow> rpu \<Rightarrow> rpu res" where
  "nvme_cmd_vendor z i zero_based s =
    res_bind (slot_at i s) (\<lambda>c.
    let d = sq_opc c mod 4;
        c = (if zero_based then c\<lparr>sq_buf := (sq_buf c)[10 := sq_buf c ! 10 + 1]\<rparr> else c);
        buffer_size = sint (sq_buf c ! 10 * 4);
        s = slot_set i c s
    in
    if d \<noteq> NVME_CMD_XFER_NONE \<and> buffer_size > 0 then
      (case pool_alloc z (pool s) (nat buffer_size) of
         None \<Rightarrow> Inr s
       | Some b \<Rightarrow> vendor_start z i d buffer_size (slot_set i (c\<lparr>block := b\<rparr>) (s\<lparr>pool := b # pool s\<rparr>)))
    else vendor_start z i d buffer_size s)"

definition k_mem_pool_free :: "u32 \<Rightarrow> rpu \<Rightarrow> rpu res" where
  "k_mem_pool_free b s =
    (if b \<in> set (pool s) then Inr (s\<lparr>pool := remove1 b (pool s)\<rparr>) else Inl (Undefined ''free of a block that is not allocated''))"

definition rpmsg_cmd_return_cb :: "nat \<Rightarrow> rpu \<Rightarrow> rpu res" where
  "rpmsg_cmd_return_cb i s =
    res_bind (slot_at i s) (\<lambda>c. res_bind (k_mem_pool_free (block c) s) (nvme_cmd_return i))"

definition rpmsg_cmd_return_data :: "board \<Rightarrow> nat \<Rightarrow> u32 \<Rightarrow> u32 \<Rightarrow> rpu \<Rightarrow> rpu res" where
  "rpmsg_cmd_return_data z i buf len s =
    res_bind (start_xfer i buf len DIR_TO_HOST Rpmsg_cmd_return_cb s) (\<lambda>s.
    res_bind (slot_at i s) (\<lambda>c.
    if sq_psdt c \<noteq> 0 then nvme_cmd_return i s
    else res_bind (nvme_cmd_transfer_data z i s) (\<lambda>(bad, s). Inr s)))"

text \<open>The slot a message names by its address.\<close>

definition slot_of :: "board \<Rightarrow> u32 \<Rightarrow> nat res" where
  "slot_of z p = (case find (\<lambda>i. cmd_addr z i = p) [0..<NVME_CMD_SLAB_SIZE] of
     None \<Rightarrow> Inl (Undefined ''wild pointer'') | Some i \<Rightarrow> Inr i)"

definition rpmsg_endpoint_cb :: "board \<Rightarrow> payload \<Rightarrow> rpu \<Rightarrow> rpu res" where
  "rpmsg_endpoint_cb z m s =
    (if pl_id m = RPMSG_CMD_RETURN then
       res_bind (slot_of z (pl_priv m)) (\<lambda>i.
       res_bind (nvme_cmd_return i s) (\<lambda>s.
       res_bind (slot_at i s) (\<lambda>c.
       if block c \<noteq> 0 then k_mem_pool_free (block c) s else Inr s)))
     else if pl_id m = RPMSG_CMD_RETURN_DATA then
       res_bind (slot_of z (pl_priv m)) (\<lambda>i. rpmsg_cmd_return_data z i (pl_buf m) (pl_buf_len m) s)
     else Inr s)"

section \<open>Dispatch\<close>

definition handle_adm :: "board \<Rightarrow> nat \<Rightarrow> rpu \<Rightarrow> rpu res" where
  "handle_adm z i s =
    res_bind (slot_at i s) (\<lambda>c. let oc = sq_opc c in
    if oc = 0x02 then nvme_cmd_adm_get_log z i s
    else if oc = 0x06 then nvme_cmd_adm_identify z i s
    else if oc = 0x09 then nvme_cmd_adm_set_features i s
    else if oc = 0x01 then nvme_cmd_adm_create_sq i s
    else if oc = 0x05 then nvme_cmd_adm_create_cq i s
    else if oc = 0x00 then nvme_cmd_adm_delete_sq i s
    else if oc = 0x04 then nvme_cmd_adm_delete_cq i s
    else if oc = 0x10 then nvme_cmd_vendor z i False s
    else if oc = 0x11 then nvme_cmd_vendor z i True s
    else if oc \<ge> 0xC0 then nvme_cmd_vendor z i False s
    else nvme_cmd_return i s)"

definition handle_io :: "board \<Rightarrow> nat \<Rightarrow> rpu \<Rightarrow> rpu res" where
  "handle_io z i s =
    res_bind (slot_at i s) (\<lambda>c. let oc = sq_opc c in
    if oc = 0x00 then nvme_cmd_return i s
    else if oc = 0x01 then nvme_cmd_io_write z i s
    else if oc = 0x02 then nvme_cmd_io_read z i s
    else if oc \<ge> 0x80 then nvme_cmd_vendor z i False s
    else nvme_cmd_return i s)"

definition nvme_cmd_handler :: "board \<Rightarrow> nat \<Rightarrow> rpu \<Rightarrow> rpu res" where
  "nvme_cmd_handler z i s =
    res_bind (fill_cq_resp i s) (\<lambda>s.
    res_bind (slot_at i s) (\<lambda>c.
    if qid c = ADM_QUEUE_ID then handle_adm z i s else handle_io z i s))"

definition cq_cb :: "nat \<Rightarrow> rpu \<Rightarrow> rpu res" where
  "cq_cb i s =
    res_bind (slot_at i s) (\<lambda>c.
    res_bind (nvme_tc_cq_notify (qid c) (tc s)) (\<lambda>t.
    Inr (s\<lparr>tc := t, slots := (slots s)[i := None]\<rparr>)))"

definition run_cb :: "board \<Rightarrow> cb \<Rightarrow> nat \<Rightarrow> loc \<Rightarrow> rpu \<Rightarrow> rpu res" where
  "run_cb z f i l s = (case f of
     Nvme_cmd_handler \<Rightarrow> nvme_cmd_handler z i s
   | Cq_cb \<Rightarrow> cq_cb i s
   | Nvme_cmd_return_cb \<Rightarrow> nvme_cmd_return i s
   | Prp_cb \<Rightarrow> (case l of Prp_list k \<Rightarrow> prp_cb i k s | _ \<Rightarrow> Inl (Undefined ''not a page list''))
   | Vendor_cb \<Rightarrow> vendor_cb z i s
   | Rpmsg_cmd_return_cb \<Rightarrow> rpmsg_cmd_return_cb i s)"

section \<open>The DMA interrupt\<close>

definition irq_read :: "board \<Rightarrow> rpu \<Rightarrow> rpu res" where
  "irq_read z s =
    res_bind (case rx_fifo (dma s) of
        [] \<Rightarrow> Inr s
      | x # xs \<Rightarrow>
          res_bind ((case xd_cb x of None \<Rightarrow> Inr | Some (f, i) \<Rightarrow> run_cb z f i (local_addr x)) (s\<lparr>dma := (dma s)\<lparr>rx_fifo := xs\<rparr>\<rparr>)) (\<lambda>s.
          Inr (s\<lparr>dma := (dma s)\<lparr>descs := descs (dma s) - 1\<rparr>\<rparr>))) (\<lambda>s.
    Inr (s\<lparr>dma := (case rx_fifo (dma s) of [] \<Rightarrow> (dma s)\<lparr>rx_dma_running := False\<rparr> | x # _ \<Rightarrow> (dma s)\<lparr>rx_regs := Some x\<rparr>)\<rparr>))"

definition irq_write :: "board \<Rightarrow> rpu \<Rightarrow> rpu res" where
  "irq_write z s =
    res_bind (case tx_fifo (dma s) of
        [] \<Rightarrow> Inr s
      | x # xs \<Rightarrow>
          res_bind ((case xd_cb x of None \<Rightarrow> Inr | Some (f, i) \<Rightarrow> run_cb z f i (local_addr x)) (s\<lparr>dma := (dma s)\<lparr>tx_fifo := xs\<rparr>\<rparr>)) (\<lambda>s.
          Inr (s\<lparr>dma := (dma s)\<lparr>descs := descs (dma s) - 1\<rparr>\<rparr>))) (\<lambda>s.
    Inr (s\<lparr>dma := (case tx_fifo (dma s) of [] \<Rightarrow> (dma s)\<lparr>tx_dma_running := False\<rparr> | x # _ \<Rightarrow> (dma s)\<lparr>tx_regs := Some x\<rparr>)\<rparr>))"

definition nvme_dma_irq_handler :: "board \<Rightarrow> bool \<Rightarrow> bool \<Rightarrow> rpu \<Rightarrow> rpu res" where
  "nvme_dma_irq_handler z read_status write_status s =
    res_bind (if read_status then irq_read z s else Inr s) (\<lambda>s. if write_status then irq_write z s else Inr s)"

section \<open>The target controller interrupt\<close>

text \<open>A fresh command context.\<close>

definition new_cmd :: "nat \<Rightarrow> nvme_cmd_priv" where
  "new_cmd q = \<lparr>qid = q, dir = DIR_FROM_HOST, prp_size = 0, xfer_base = 0, xfer_size = 0, xfer_buf = 0, xfer_len = 0,
     xfer_cb = None, block = 0, sq_buf = replicate 16 0, cq_buf = replicate 4 0\<rparr>"

definition tail_body :: "board \<Rightarrow> nat \<Rightarrow> rpu \<Rightarrow> rpu res" where
  "tail_body z q s =
    res_bind (nvme_tc_get_sq_addr q (tc s)) (\<lambda>(a, t).
    let s = s\<lparr>tc := t\<rparr>; free = slab_free (map (\<lambda>c. c \<noteq> None) (slots s)) in
    if free \<noteq> [] then
      let i = slab_pick z free in
      Inr (nvme_dma_xfer_host_to_mem a (Sq_buf i) (word_of_nat NVME_TC_SQ_ENTRY_SIZE) (Some (Nvme_cmd_handler, i)) (slot_set i (new_cmd q) s))
    else Inr s)"

text \<open>The loop of the tail doorbell; \<open>None\<close> when it does not end.\<close>

partial_function (option) tail_loop :: "board \<Rightarrow> nat \<Rightarrow> rpu \<Rightarrow> rpu res option" where
  "tail_loop z q s =
    (if sq_tail (tc s) ! q = sq_head (tc s) ! q then Some (Inr s)
     else if isl (tail_body z q s) then Some (tail_body z q s)
     else tail_loop z q (projr (tail_body z q s)))"

definition nvme_tc_tail_handler :: "board \<Rightarrow> nat \<Rightarrow> rpu \<Rightarrow> rpu res option" where
  "nvme_tc_tail_handler z q s =
    (case set_res (sq_tail (tc s)) q (ucast (regs (tc s) (DOORBELL_TAIL q))) of
       Inl e \<Rightarrow> Some (Inl e)
     | Inr l \<Rightarrow> tail_loop z q (s\<lparr>tc := (tc s)\<lparr>sq_tail := l\<rparr>\<rparr>))"

definition tc_only :: "tc res \<Rightarrow> rpu \<Rightarrow> rpu res option" where
  "tc_only t s = Some (res_bind t (\<lambda>t. Inr (s\<lparr>tc := t\<rparr>)))"

text \<open>The doorbells of the I/O queues, tried in order.\<close>

fun io_doorbell :: "board \<Rightarrow> nat \<Rightarrow> nat list \<Rightarrow> rpu \<Rightarrow> rpu res option" where
  "io_doorbell z reg [] s = Some (Inr s)"
| "io_doorbell z reg (i # ns) s =
    (if reg = NVME_TC_REG_IO_TAIL i then nvme_tc_tail_handler z (i + 1) s
     else if reg = NVME_TC_REG_IO_HEAD i then tc_only (nvme_tc_head_handler (i + 1) (tc s)) s
     else io_doorbell z reg ns s)"

definition reg_written :: "board \<Rightarrow> reg_map \<Rightarrow> nat \<Rightarrow> rpu \<Rightarrow> rpu res option" where
  "reg_written z r reg s =
    (if reg = REG_CC r then tc_only (Inr (nvme_tc_cc_handler r (tc s))) s
     else if reg = REG_AQA r then tc_only (Inr (nvme_tc_aqa_handler r (tc s))) s
     else if reg = REG_ASQ_0 r then Some (Inr s)
     else if reg = REG_ASQ_1 r then tc_only (Inr (nvme_tc_asq_handler r (tc s))) s
     else if reg = REG_ACQ_0 r then Some (Inr s)
     else if reg = REG_ACQ_1 r then tc_only (Inr (nvme_tc_acq_handler r (tc s))) s
     else if reg = DOORBELL_TAIL ADM_QUEUE_ID then nvme_tc_tail_handler z ADM_QUEUE_ID s
     else if reg = DOORBELL_HEAD ADM_QUEUE_ID then tc_only (nvme_tc_head_handler ADM_QUEUE_ID (tc s)) s
     else io_doorbell z reg [0..<QUEUES] s)"

text \<open>The register numbers the hardware reports while its status is set.\<close>

fun nvme_tc_irq_handler :: "board \<Rightarrow> reg_map \<Rightarrow> u32 list \<Rightarrow> rpu \<Rightarrow> rpu res option" where
  "nvme_tc_irq_handler z r [] s = Some (Inr s)"
| "nvme_tc_irq_handler z r (d # ds) s = (case reg_written z r (unat (ucast (d * 4) :: u16)) s of
     None \<Rightarrow> None
   | Some (Inl e) \<Rightarrow> Some (Inl e)
   | Some (Inr s) \<Rightarrow> nvme_tc_irq_handler z r ds s)"

section \<open>Events\<close>

text \<open>The transfer of a DMA channel, done by the hardware.\<close>

fun le_words :: "nat \<Rightarrow> bytes \<Rightarrow> 'a::len word list" where
  "le_words n [] = []"
| "le_words n (b # bs) = (if n = 0 then [] else word_of_nat (le_value (take n (b # bs))) # le_words n (drop (n - 1) bs))"

definition hw_read :: "nvme_dma_xfer_def \<Rightarrow> rpu \<Rightarrow> rpu res" where
  "hw_read x s =
    (let bs = mem_read (hmem s) (host_addr x) (unat (xd_len x)) in
     case local_addr x of
       Sq_buf i \<Rightarrow> res_bind (slot_at i s) (\<lambda>c. Inr (slot_set i (c\<lparr>sq_buf := le_words 4 bs\<rparr>) s))
     | Cq_buf i \<Rightarrow> Inr s
     | Prp_list k \<Rightarrow> Inr (s\<lparr>prps := (prps s)[k := overwrite 0 (le_words 8 bs) (prps s ! k)]\<rparr>)
     | Local a \<Rightarrow> Inr (s\<lparr>lmem := mem_write (lmem s) (ucast a) bs\<rparr>))"

definition hw_write :: "nvme_dma_xfer_def \<Rightarrow> rpu \<Rightarrow> rpu res" where
  "hw_write x s =
    (case local_addr x of
       Cq_buf i \<Rightarrow> res_bind (slot_at i s) (\<lambda>c.
         Inr (s\<lparr>hmem := mem_write (hmem s) (host_addr x) (concat (map (\<lambda>w. le_bytes 4 (unat w)) (cq_buf c)))\<rparr>))
     | Local a \<Rightarrow> Inr (s\<lparr>hmem := mem_write (hmem s) (host_addr x) (mem_read (lmem s) (ucast a) (unat (xd_len x)))\<rparr>)
     | _ \<Rightarrow> Inr s)"

datatype ev =
    Host_mem u64 bytes       \<comment> \<open>the host writes its memory\<close>
  | Host_reg nat u32         \<comment> \<open>the host writes a register\<close>
  | Tc_irq "u32 list"        \<comment> \<open>the controller interrupt, with the registers it reports\<close>
  | Rx_done                  \<comment> \<open>the read channel has moved its data and interrupts\<close>
  | Tx_done
  | Ack payload u32          \<comment> \<open>the application processor answers a message it has got\<close>

fun rpu_event :: "board \<Rightarrow> reg_map \<Rightarrow> ev \<Rightarrow> rpu \<Rightarrow> rpu res option" where
  "rpu_event z r (Host_mem a bs) s = Some (Inr (s\<lparr>hmem := mem_write (hmem s) a bs\<rparr>))"
| "rpu_event z r (Host_reg a v) s = Some (Inr (s\<lparr>tc := (tc s)\<lparr>regs := (regs (tc s))(a := v)\<rparr>\<rparr>))"
| "rpu_event z r (Tc_irq ds) s = nvme_tc_irq_handler z r ds s"
| "rpu_event z r Rx_done s = (if rx_dma_running (dma s)
     then Some (case rx_regs (dma s) of None \<Rightarrow> Inr s | Some x \<Rightarrow> res_bind (hw_read x s) (nvme_dma_irq_handler z True False)) else Some (Inr s))"
| "rpu_event z r Tx_done s = (if tx_dma_running (dma s)
     then Some (case tx_regs (dma s) of None \<Rightarrow> Inr s | Some x \<Rightarrow> res_bind (hw_write x s) (nvme_dma_irq_handler z False True)) else Some (Inr s))"
| "rpu_event z r (Ack m a) s = (if m \<in> set (to_apu s)
     then Some (rpmsg_endpoint_cb z (ack_msg m a) (s\<lparr>to_apu := remove1 m (to_apu s)\<rparr>)) else Some (Inr s))"

definition rpu_init :: "board \<Rightarrow> (nat \<Rightarrow> u32) \<Rightarrow> u64 list list \<Rightarrow> host \<Rightarrow> host \<Rightarrow> rpu" where
  "rpu_init z rs junk hm lm = \<lparr>tc = nvme_tc_init rs, dma = nvme_dma_init, slots = replicate NVME_CMD_SLAB_SIZE None, prps = junk,
     prp_used = replicate NVME_PRP_SLAB_SIZE False, pool = [], hmem = hm, lmem = ramdisk_init z lm, to_apu = []\<rparr>"

inductive rpu_reach :: "board \<Rightarrow> reg_map \<Rightarrow> rpu \<Rightarrow> rpu \<Rightarrow> bool" for z r s0 where
  reach_init: "rpu_reach z r s0 s0"
| reach_event: "rpu_reach z r s0 s \<Longrightarrow> rpu_event z r e s = Some (Inr s') \<Longrightarrow> rpu_reach z r s0 s'"

end
