(* ===== verification/Rpu_Safety.thy ===== *)
theory Rpu_Safety
  imports Rpu_Ctrl
begin

text \<open>
  Ownership of command slots on the real-time processor. A command that is being processed is referred to by exactly
  one pending continuation - a callback in one of the DMA queues, or a message at the application processor - and a
  free slot by none. The contract of a continuation is stated once as a locale and proved for each of the six callbacks
  and for the return of a message; the interrupt handlers keep the invariant because of it.

  Shown: no sequence of events makes the controller use a command slot after it was freed, or handle it twice.
\<close>

section \<open>Pending continuations\<close>

definition holds :: "nat \<Rightarrow> nvme_dma_xfer_def \<Rightarrow> bool" where
  "holds i x = (case xd_cb x of None \<Rightarrow> False | Some (f, j) \<Rightarrow> j = i)"

definition pend :: "board \<Rightarrow> nat \<Rightarrow> rpu \<Rightarrow> nat" where
  "pend z i s = length (filter (holds i) (rx_fifo (dma s))) + length (filter (holds i) (tx_fifo (dma s))) +
     (if i < NVME_CMD_SLAB_SIZE then length (filter (\<lambda>m. pl_priv m = cmd_addr z i) (to_apu s)) else 0)"

definition live :: "nat \<Rightarrow> rpu \<Rightarrow> bool" where
  "live i s = (i < length (slots s) \<and> slots s ! i \<noteq> None)"

definition owned :: "board \<Rightarrow> rpu \<Rightarrow> bool" where
  "owned z s = (length (slots s) = NVME_CMD_SLAB_SIZE \<and> (\<forall>i. pend z i s \<le> of_bool (live i s)))"

abbreviation use_after_free :: fault where
  "use_after_free \<equiv> Undefined ''use after free''"

text \<open>The channels: a descriptor that moves the entry of a slot continues that slot, and a channel that runs works on the first
  descriptor of its queue. Starting transfers keeps this.\<close>

definition loc_ok :: "nat \<Rightarrow> loc \<Rightarrow> bool" where
  "loc_ok i l = (case l of Sq_buf j \<Rightarrow> j = i | Cq_buf j \<Rightarrow> j = i | _ \<Rightarrow> True)"

definition desc_ok :: "nvme_dma_xfer_def \<Rightarrow> bool" where
  "desc_ok x = (case local_addr x of Sq_buf j \<Rightarrow> holds j x | Cq_buf j \<Rightarrow> holds j x | _ \<Rightarrow> True)"

definition descs_ok :: "nvme_dma_priv \<Rightarrow> bool" where
  "descs_ok d = (\<forall>x \<in> set (rx_fifo d) \<union> set (tx_fifo d). desc_ok x)"

definition rx_ok :: "nvme_dma_priv \<Rightarrow> bool" where
  "rx_ok d = (if rx_dma_running d then rx_fifo d \<noteq> [] \<and> rx_regs d = Some (hd (rx_fifo d)) else rx_fifo d = [])"

definition tx_ok :: "nvme_dma_priv \<Rightarrow> bool" where
  "tx_ok d = (if tx_dma_running d then tx_fifo d \<noteq> [] \<and> tx_regs d = Some (hd (tx_fifo d)) else tx_fifo d = [])"

definition dma_grows :: "nvme_dma_priv \<Rightarrow> nvme_dma_priv \<Rightarrow> bool" where
  "dma_grows d d' = ((descs_ok d \<longrightarrow> descs_ok d') \<and> (rx_ok d \<longrightarrow> rx_ok d') \<and> (tx_ok d \<longrightarrow> tx_ok d') \<and>
     (rx_dma_running d \<longrightarrow> rx_dma_running d') \<and> (tx_dma_running d \<longrightarrow> tx_dma_running d'))"

lemma dma_grows_refl [simp]: "dma_grows d d"
  by (simp add: dma_grows_def)

lemma dma_grows_trans: "dma_grows d e \<Longrightarrow> dma_grows e f \<Longrightarrow> dma_grows d f"
  by (simp add: dma_grows_def)

lemma loc_ok_simps [simp]: "loc_ok i (Sq_buf j) = (j = i)" "loc_ok i (Cq_buf j) = (j = i)" "loc_ok i (Prp_list k)" "loc_ok i (Local a)"
  by (simp_all add: loc_ok_def)

text \<open>What a continuation of slot \<open>i\<close> may change of the others, and its contract: it is called when nothing else refers to
  the slot and leaves at most one continuation.\<close>

definition frame :: "board \<Rightarrow> nat \<Rightarrow> rpu \<Rightarrow> rpu \<Rightarrow> bool" where
  "frame z i s s' = (length (slots s') = length (slots s) \<and> dma_grows (dma s) (dma s') \<and> (tc_wf (tc s) \<longrightarrow> tc_wf (tc s')) \<and>
     (\<forall>j. j \<noteq> i \<longrightarrow> pend z j s' = pend z j s \<and> slots s' ! j = slots s ! j))"

definition idle :: "board \<Rightarrow> nat \<Rightarrow> rpu \<Rightarrow> bool" where
  "idle z i s = (live i s \<and> pend z i s = 0 \<and> length (slots s) = NVME_CMD_SLAB_SIZE)"

definition contract :: "board \<Rightarrow> nat \<Rightarrow> rpu \<Rightarrow> rpu res \<Rightarrow> bool" where
  "contract z i s m = (case m of Inl e \<Rightarrow> e \<noteq> use_after_free | Inr s' \<Rightarrow> frame z i s s' \<and> pend z i s' \<le> of_bool (live i s'))"

definition quiet :: "board \<Rightarrow> nat \<Rightarrow> rpu \<Rightarrow> rpu res \<Rightarrow> bool" where
  "quiet z i s m = (case m of Inl e \<Rightarrow> e \<noteq> use_after_free | Inr s' \<Rightarrow> frame z i s s' \<and> idle z i s')"

lemma frame_refl [simp]: "frame z i s s"
  by (simp add: frame_def)

lemma frame_trans: "frame z i s t \<Longrightarrow> frame z i t u \<Longrightarrow> frame z i s u"
  by (auto simp: frame_def intro: dma_grows_trans)

lemma contract_Inr [simp]: "contract z i s (Inr s') = (frame z i s s' \<and> pend z i s' \<le> of_bool (live i s'))"
  and contract_Inl [simp]: "contract z i s (Inl e) = (e \<noteq> use_after_free)"
  and quiet_Inr [simp]: "quiet z i s (Inr s') = (frame z i s s' \<and> idle z i s')"
  and quiet_Inl [simp]: "quiet z i s (Inl e) = (e \<noteq> use_after_free)"
  by (simp_all add: contract_def quiet_def)

lemma contract_frame: "frame z i s t \<Longrightarrow> contract z i t m \<Longrightarrow> contract z i s m"
  by (cases m) (auto dest: frame_trans)

lemma quiet_bind:
  assumes "quiet z i s m" "\<And>s'. m = Inr s' \<Longrightarrow> idle z i s' \<Longrightarrow> contract z i s' (f s')"
  shows "contract z i s (res_bind m f)"
  using assms by (cases m) (auto intro: contract_frame)

lemma quiet_contract: "quiet z i s m \<Longrightarrow> contract z i s m"
  by (cases m) (auto simp: idle_def)

text \<open>A step that fails without touching a slot, in front of a continuation.\<close>

lemma contract_bind_pure:
  assumes "m \<noteq> Inl use_after_free" "\<And>a. m = Inr a \<Longrightarrow> contract z i s (f a)"
  shows "contract z i s (res_bind m f)"
  using assms by (cases m) auto

lemma slot_at_idle: "idle z i s \<Longrightarrow> \<exists>c. slot_at i s = Inr c \<and> slots s ! i = Some c \<and> i < length (slots s)"
  by (auto simp: idle_def live_def slot_at_def)

lemma contract_slot:
  assumes "idle z i s" "\<And>c. slots s ! i = Some c \<Longrightarrow> i < length (slots s) \<Longrightarrow> contract z i s (f c)"
  shows "contract z i s (res_bind (slot_at i s) f)"
  using slot_at_idle [OF assms(1)] assms(2) by auto

lemma slot_at_eq_Inr [simp]: "(slot_at i s = Inr c) = (i < length (slots s) \<and> slots s ! i = Some c)"
  by (auto simp: slot_at_def split: option.splits)

named_theorems pend_simps \<open>how operations change the pending continuations\<close>

lemma pend_fields [simp]:
  "pend z i (s\<lparr>tc := a\<rparr>) = pend z i s" "pend z i (s\<lparr>slots := b\<rparr>) = pend z i s" "pend z i (s\<lparr>prps := c\<rparr>) = pend z i s"
  "pend z i (s\<lparr>prp_used := d\<rparr>) = pend z i s" "pend z i (s\<lparr>pool := e\<rparr>) = pend z i s" "pend z i (s\<lparr>hmem := g\<rparr>) = pend z i s"
  "pend z i (s\<lparr>lmem := g\<rparr>) = pend z i s" "pend z i (slot_set j x s) = pend z i s"
  by (simp_all add: pend_def slot_set_def)

lemma slot_set_simps [simp]:
  "slots (slot_set i c s) = (slots s)[i := Some c]" "tc (slot_set i c s) = tc s" "dma (slot_set i c s) = dma s"
  "to_apu (slot_set i c s) = to_apu s" "prps (slot_set i c s) = prps s" "prp_used (slot_set i c s) = prp_used s"
  "pool (slot_set i c s) = pool s" "lmem (slot_set i c s) = lmem s" "hmem (slot_set i c s) = hmem s"
  by (simp_all add: slot_set_def)

lemma xfer_simps [simp]:
  "slots (nvme_dma_xfer_host_to_mem a b n k s) = slots s" "slots (nvme_dma_xfer_mem_to_host b a n k s) = slots s"
  "tc (nvme_dma_xfer_host_to_mem a b n k s) = tc s" "tc (nvme_dma_xfer_mem_to_host b a n k s) = tc s"
  "prps (nvme_dma_xfer_host_to_mem a b n k s) = prps s" "prps (nvme_dma_xfer_mem_to_host b a n k s) = prps s"
  by (simp_all add: nvme_dma_xfer_host_to_mem_def nvme_dma_xfer_mem_to_host_def nvme_dma_xfer_fill_desc_def)

lemma pend_xfer [pend_simps]:
  "pend z j (nvme_dma_xfer_host_to_mem a b n k s) =
     pend z j s + (if descs (dma s) < NVME_DMA_SLAB_ENTRIES \<and> (\<exists>f. k = Some (f, j)) then 1 else 0)"
  "pend z j (nvme_dma_xfer_mem_to_host b a n k s) =
     pend z j s + (if descs (dma s) < NVME_DMA_SLAB_ENTRIES \<and> (\<exists>f. k = Some (f, j)) then 1 else 0)"
  by (auto simp: pend_def holds_def Let_def nvme_dma_xfer_host_to_mem_def nvme_dma_xfer_mem_to_host_def
      nvme_dma_xfer_fill_desc_def split: option.splits)

lemma dma_grows_xfer:
  assumes "k = None \<and> (\<exists>a. b = Local a) \<or> (\<exists>f i. k = Some (f, i) \<and> loc_ok i b)"
  shows "dma_grows (dma s) (dma (nvme_dma_xfer_host_to_mem a b n k s))" "dma_grows (dma s) (dma (nvme_dma_xfer_mem_to_host b a n k s))"
proof -
  have "desc_ok \<lparr>xd_cb = k, host_addr = h, local_addr = b, xd_len = m, xd_tag = t\<rparr>" for h m t
    using assms by (auto simp: desc_ok_def holds_def loc_ok_def split: loc.splits)
  then show "dma_grows (dma s) (dma (nvme_dma_xfer_host_to_mem a b n k s))" "dma_grows (dma s) (dma (nvme_dma_xfer_mem_to_host b a n k s))"
    by (auto simp: dma_grows_def descs_ok_def rx_ok_def tx_ok_def Let_def nvme_dma_xfer_host_to_mem_def nvme_dma_xfer_mem_to_host_def
        nvme_dma_xfer_fill_desc_def hd_append)
qed

text \<open>Starting a transfer that continues slot \<open>i\<close>, possibly after changing the slot.\<close>

lemma contract_xfer:
  assumes "idle z i s" "slots s' = (slots s)[i := Some c]" "\<And>j. pend z j s' = pend z j s" "dma s' = dma s" "loc_ok i b"
    and "tc_wf (tc s) \<longrightarrow> tc_wf (tc s')"
  shows "contract z i s (Inr (nvme_dma_xfer_host_to_mem a b n (Some (f, i)) s'))"
    and "contract z i s (Inr (nvme_dma_xfer_mem_to_host b a n (Some (f, i)) s'))"
  using assms dma_grows_xfer [of "Some (f, i)" b s'] by (auto simp: idle_def live_def frame_def pend_simps)

lemma idle_same: "idle z i s \<Longrightarrow> slots s' = (slots s)[i := Some c] \<Longrightarrow> dma s' = dma s \<Longrightarrow> (\<And>j. pend z j s' = pend z j s) \<Longrightarrow>
    (tc_wf (tc s) \<longrightarrow> tc_wf (tc s')) \<Longrightarrow> frame z i s s' \<and> idle z i s'"
  by (auto simp: idle_def live_def frame_def)

section \<open>The operations\<close>

text \<open>The queue functions never report a use after free.\<close>

lemma pure_faults [simp]:
  "nth_res xs k \<noteq> Inl use_after_free" "mod_res a b \<noteq> Inl use_after_free" "set_res ys k v \<noteq> Inl use_after_free"
  by (simp_all add: nth_res_def mod_res_def set_res_def)

lemma get_addr_faults [simp]:
  "nvme_tc_get_cq_addr q t \<noteq> Inl use_after_free" "nvme_tc_get_sq_addr q t \<noteq> Inl use_after_free"
  "nvme_tc_cq_notify q t \<noteq> Inl use_after_free" "nvme_tc_head_handler q t \<noteq> Inl use_after_free"
  by (auto simp: nvme_tc_get_cq_addr_def nvme_tc_get_sq_addr_def nvme_tc_cq_notify_def nvme_tc_head_handler_def res_bind_eq_Inl Let_def
      split: if_splits)

text \<open>Ending without a continuation: the slot is lost, but nothing refers to it.\<close>

lemma contract_stop: "idle z i s \<Longrightarrow> slots s' = slots s \<Longrightarrow> dma s' = dma s \<Longrightarrow> (tc_wf (tc s) \<longrightarrow> tc_wf (tc s')) \<Longrightarrow> (\<And>j. pend z j s' = pend z j s) \<Longrightarrow> contract z i s (Inr s')"
  by (simp add: idle_def live_def frame_def)

lemma contract_stop_tc: "idle z i s \<Longrightarrow> (tc_wf (tc s) \<longrightarrow> tc_wf t) \<Longrightarrow> contract z i s (Inr (s\<lparr>tc := t\<rparr>))"
  by (rule contract_stop) simp_all

lemma return_contract:
  assumes "idle z i s"
  shows "contract z i s (nvme_cmd_return i s)"
proof -
  obtain c where c: "slot_at i s = Inr c" using slot_at_idle [OF assms] by blast
  show ?thesis
  proof (cases "nvme_tc_get_cq_addr (qid c) (tc s)")
    case (Inl e)
    then show ?thesis using get_addr_faults(1) [of "qid c" "tc s"] unfolding nvme_cmd_return_def c by simp
  next
    case (Inr at)
    obtain a t where at: "nvme_tc_get_cq_addr (qid c) (tc s) = Inr (a, t)" using Inr by (cases at) simp
    have wf: "tc_wf (tc s) \<longrightarrow> tc_wf t" using tc_wf_cq_addr [OF at] by blast
    have "contract z i s (Inr (nvme_dma_xfer_mem_to_host (Cq_buf i) a n (Some (Cq_cb, i)) (slot_set i c' (s\<lparr>tc := t\<rparr>))))" for n c'
      by (rule contract_xfer(2) [OF assms]) (use wf in simp_all)
    then show ?thesis
      unfolding nvme_cmd_return_def c at Let_def res_bind_Inr prod.case
      using contract_stop_tc [OF assms wf] pure_faults(1) by (auto intro!: contract_bind_pure simp del: contract_Inr)
  qed
qed

lemma return_after:
  assumes "frame z i s s'" "idle z i s'"
  shows "contract z i s (nvme_cmd_return i s')"
  by (rule contract_frame [OF assms(1) return_contract [OF assms(2)]])

lemma chunk_step:
  assumes "idle z i s" "slots s ! i = Some c"
  shows "\<exists>s' c'. transfer_chunk i h l len s = Inr s' \<and> frame z i s s' \<and> slots s' ! i = Some c' \<and> i < length (slots s') \<and>
    xfer_len c' = xfer_len c - len \<and> tc s' = tc s \<and> pend z i s' \<le> 1 \<and> (xfer_len c \<noteq> len \<longrightarrow> idle z i s')"
  using assms unfolding transfer_chunk_def Let_def
  by (auto simp: slot_at_def idle_def live_def frame_def pend_simps intro!: dma_grows_xfer)

lemma chunk_contract: "idle z i s \<Longrightarrow> slots s ! i = Some c \<Longrightarrow> contract z i s (transfer_chunk i h l len s)"
  using chunk_step [of z i s c h l len] by (auto simp: live_def)

lemma prp_loop_contract: "idle z i s \<Longrightarrow> contract z i s (prp_loop i k n s)"
proof (induction i k n s rule: prp_loop.induct)
  case (1 i k n s)
  obtain c where c: "slot_at i s = Inr c" "slots s ! i = Some c" "i < length (slots s)" using slot_at_idle [OF 1(2)] by blast
  note eq = prp_loop.simps [of i k n s, unfolded c(1) res_bind_Inr Let_def]
  show ?case
  proof (cases "xfer_len c = 0 \<or> n \<ge> NVME_PRP_LIST_SIZE div 8")
    case True
    then show ?thesis using c(2,3) 1(2) unfolding eq by (auto simp: idle_def live_def frame_def)
  next
    case False
    let ?mps = "memory_page_size (tc s)" let ?l = "if ?mps > unat (xfer_len c) then xfer_len c else word_of_nat ?mps"
    show ?thesis
    proof (cases "n + 1 = prp_size c div 8 \<and> unat (xfer_len c) > ?mps")
      case True
      then show ?thesis
        using False contract_xfer(1) [OF 1(2)] unfolding eq by (simp del: contract_Inr)
    next
      case more: False
      obtain s' c' where s': "transfer_chunk i (prps s ! k ! n) (xfer_buf c) ?l s = Inr s'" "frame z i s s'" "slots s' ! i = Some c'"
          "i < length (slots s')" "xfer_len c' = xfer_len c - ?l" "pend z i s' \<le> 1" "xfer_len c \<noteq> ?l \<longrightarrow> idle z i s'"
        using chunk_step [OF 1(2) c(2)] by blast
      have go: "prp_loop i k n s = prp_loop i k (n + 1) s'"
        using False more s'(1) unfolding eq by auto
      show ?thesis
      proof (cases "xfer_len c = ?l")
        case True
        then have "xfer_len c' = 0" using s'(5) by simp
        then have "prp_loop i k (n + 1) s' = Inr (s'\<lparr>prp_used := (prp_used s')[k := False]\<rparr>)"
          using s'(3,4) by (subst prp_loop.simps) (simp add: slot_at_def)
        then show ?thesis using go s'(2-4,6) by (simp add: frame_def live_def)
      next
        case False
        then have "contract z i s' (prp_loop i k (n + 1) s')"
          using 1(1) [of c, OF _ _ refl refl refl refl more] \<open>\<not> (xfer_len c = 0 \<or> _)\<close> s'(7) by auto
        then show ?thesis unfolding go by (rule contract_frame [OF s'(2)])
      qed
    qed
  qed
qed

lemma transfer_contract:
  assumes "idle z i s"
  shows "contract z i s (transfer_data_with_prps b i s)"
proof -
  obtain c where c: "slot_at i s = Inr c" "slots s ! i = Some c" "i < length (slots s)" using slot_at_idle [OF assms] by blast
  let ?mps = "memory_page_size (tc s)" let ?off = "unat (prp1 c) mod ?mps"
  let ?l = "if ?mps - ?off > unat (xfer_len c) then xfer_len c else word_of_nat (?mps - ?off)"
  obtain s' c' where s': "transfer_chunk i (prp1 c) (xfer_buf c) ?l s = Inr s'" "frame z i s s'" "slots s' ! i = Some c'"
      "i < length (slots s')" "xfer_len c' = xfer_len c - ?l" "pend z i s' \<le> 1" "xfer_len c \<noteq> ?l \<longrightarrow> idle z i s'"
    using chunk_step [OF assms c(2)] by blast
  have c': "slot_at i s' = Inr c'" using s'(3,4) by simp
  show ?thesis
  proof (cases "?mps = 0")
    case True
    then show ?thesis unfolding transfer_data_with_prps_def c(1) by (simp add: mod_res_def)
  next
    case False
    note eq = transfer_data_with_prps_def [of b i s, unfolded c(1) res_bind_Inr Let_def]
    have m: "mod_res (unat (prp1 c)) ?mps = Inr ?off" using False by simp
    show ?thesis
    proof (cases "xfer_len c' = 0")
      case True
      then show ?thesis unfolding eq m res_bind_Inr s'(1) c' using s' by (simp add: live_def)
    next
      case False
      then have "xfer_len c \<noteq> ?l" using s'(5) by auto
      then have idle: "idle z i s'" using s'(7) by blast
      have "contract z i s' (transfer_chunk i (prp2 c') (xfer_buf c') (xfer_len c') s')"
        by (rule chunk_contract [OF idle s'(3)])
      then show ?thesis
        unfolding eq m res_bind_Inr s'(1) c'
        using False idle s'(2) return_contract [OF idle] contract_xfer(1) [OF idle]
        by (auto intro!: contract_frame [OF s'(2)] simp del: contract_Inr)
    qed
  qed
qed

lemma transfer_data_contract:
  assumes "idle z i s"
  shows "contract z i s (res_bind (nvme_cmd_transfer_data b i s) (\<lambda>(bad, s). if bad then nvme_cmd_return i s else Inr s))"
    and "contract z i s (res_bind (nvme_cmd_transfer_data b i s) (\<lambda>(bad, s). Inr s))"
proof -
  obtain c where c: "slot_at i s = Inr c" using slot_at_idle [OF assms] by blast
  have t: "nvme_cmd_transfer_data b i s =
      (if sq_psdt c \<noteq> 0 then Inr (True, s) else res_bind (transfer_data_with_prps b i s) (\<lambda>s. Inr (False, s)))"
    unfolding nvme_cmd_transfer_data_def c by simp
  show "contract z i s (res_bind (nvme_cmd_transfer_data b i s) (\<lambda>(bad, s). if bad then nvme_cmd_return i s else Inr s))"
      "contract z i s (res_bind (nvme_cmd_transfer_data b i s) (\<lambda>(bad, s). Inr s))"
    unfolding t using return_contract [OF assms] transfer_contract [OF assms, of b] contract_stop [OF assms refl refl]
    by (cases "transfer_data_with_prps b i s"; simp)+
qed

lemma start_quiet:
  assumes "idle z i s"
  shows "quiet z i s (start_xfer i buf len d k s)"
  using slot_at_idle [OF assms] idle_same [OF assms] by (auto simp: start_xfer_def simp del: slot_at_eq_Inr)

lemma data_contract:
  assumes "idle z i s"
  shows "contract z i s (nvme_cmd_get_data b i buf len s)" "contract z i s (nvme_cmd_return_data b i buf len s)"
  unfolding nvme_cmd_get_data_def nvme_cmd_return_data_def
  by (rule quiet_bind [OF start_quiet [OF assms]], rule transfer_data_contract(1), assumption)+

lemma idle_fields [simp]:
  "idle z i (s\<lparr>tc := t\<rparr>) = idle z i s" "idle z i (s\<lparr>lmem := m\<rparr>) = idle z i s" "idle z i (s\<lparr>pool := p\<rparr>) = idle z i s"
  by (simp_all add: idle_def live_def)

lemma frame_fields [simp]:
  "frame z i s (s\<lparr>tc := t\<rparr>) = (tc_wf (tc s) \<longrightarrow> tc_wf t)" "frame z i s (s\<lparr>lmem := m\<rparr>)" "frame z i s (s\<lparr>pool := p\<rparr>)"
  by (simp_all add: frame_def)

lemma frame_slot_set [simp]: "frame z i s (slot_set i c s)"
  by (simp add: frame_def)

lemma idle_slot_set [simp]: "idle z i s \<Longrightarrow> idle z i (slot_set i c s)"
  by (simp add: idle_def live_def)

lemma respond_contract: "idle z i s \<Longrightarrow> contract z i s (respond b i k fill s)"
  unfolding respond_def by (rule contract_frame [OF frame_fields(2) data_contract(2)]) simp

lemma adm_simple_contract:
  assumes "idle z i s"
  shows "contract z i s (nvme_cmd_adm_get_log b i s)" "contract z i s (nvme_cmd_adm_identify b i s)"
    and "contract z i s (nvme_cmd_io_read b i s)" "contract z i s (nvme_cmd_io_write b i s)"
proof -
  note c = return_contract [OF assms] data_contract [OF assms] respond_contract [OF assms]
  have log: "contract z i s (get_smart_log b i len s)" for len
    unfolding get_smart_log_def Let_def by (rule contract_frame [OF frame_fields(2) data_contract(2)]) (simp add: assms)
  show "contract z i s (nvme_cmd_adm_get_log b i s)"
    unfolding nvme_cmd_adm_get_log_def Let_def by (rule contract_slot [OF assms]) (simp add: log c)
  show "contract z i s (nvme_cmd_adm_identify b i s)"
    unfolding nvme_cmd_adm_identify_def Let_def identify_namespace_def identify_controller_def identify_namespace_list_def
      identify_namespace_ident_list_def
    by (rule contract_slot [OF assms]) (simp add: c)
  show "contract z i s (nvme_cmd_io_read b i s)" "contract z i s (nvme_cmd_io_write b i s)"
    unfolding nvme_cmd_io_read_def nvme_cmd_io_write_def
    by (rule contract_slot [OF assms]; simp add: c split: option.splits)+
qed

lemma return_tc: "idle z i s \<Longrightarrow> (tc_wf (tc s) \<longrightarrow> tc_wf t) \<Longrightarrow> contract z i s (nvme_cmd_return i (s\<lparr>tc := t\<rparr>))"
  by (rule return_after) simp_all

lemma tc_wf_fields [simp]: "tc_wf (t\<lparr>queues := n\<rparr>) = tc_wf t" "tc_wf (t\<lparr>regs := g\<rparr>) = tc_wf t"
  "tc_wf (t\<lparr>sq_tail := (sq_tail t)[q := l]\<rparr>) = tc_wf t"
  by (simp_all add: tc_wf_def)

lemma contract_set_res: "(q < length xs \<Longrightarrow> contract z i s (f (xs[q := v]))) \<Longrightarrow> contract z i s (res_bind (set_res xs q v) f)"
  by (simp add: set_res_def)

lemma tc_wf_queue_update:
  "tc_wf t \<longrightarrow> tc_wf (t\<lparr>sq_base := (sq_base t)[q := b], sq_head := (sq_head t)[q := h], sq_tail := (sq_tail t)[q := l],
     sq_pc := (sq_pc t)[q := p], sq_size := (sq_size t)[q := n], sq_valid := (sq_valid t)[q := v]\<rparr>)"
  "tc_wf t \<longrightarrow> tc_wf (t\<lparr>cq_base := (cq_base t)[q := b], cq_head := (cq_head t)[q := h], cq_tail := (cq_tail t)[q := l],
     cq_phase := (cq_phase t)[q := f], cq_ien := (cq_ien t)[q := e], cq_pc := (cq_pc t)[q := p], cq_size := (cq_size t)[q := n],
     cq_iv := (cq_iv t)[q := iv], cq_valid := (cq_valid t)[q := v]\<rparr>)"
  "tc_wf t \<longrightarrow> tc_wf (t\<lparr>sq_valid := (sq_valid t)[q := v]\<rparr>)" "tc_wf t \<longrightarrow> tc_wf (t\<lparr>cq_valid := (cq_valid t)[q := v]\<rparr>)"
  by (simp_all add: tc_wf_def)

lemma queue_contract:
  assumes "idle z i s"
  shows "contract z i s (nvme_cmd_adm_create_sq i s)" "contract z i s (nvme_cmd_adm_create_cq i s)"
    and "contract z i s (nvme_cmd_adm_delete_sq i s)" "contract z i s (nvme_cmd_adm_delete_cq i s)"
    and "contract z i s (nvme_cmd_adm_set_features i s)"
proof -
  have c: "contract z i s (if b then nvme_cmd_return i s else m)" if "contract z i s m" for b m
    using return_contract [OF assms] that by simp
  show "contract z i s (nvme_cmd_adm_create_sq i s)" "contract z i s (nvme_cmd_adm_create_cq i s)"
      "contract z i s (nvme_cmd_adm_delete_sq i s)" "contract z i s (nvme_cmd_adm_delete_cq i s)"
    unfolding nvme_cmd_adm_create_sq_def nvme_cmd_adm_create_cq_def nvme_cmd_adm_delete_sq_def nvme_cmd_adm_delete_cq_def Let_def
    by (rule contract_slot [OF assms], intro c contract_set_res return_tc [OF assms] tc_wf_queue_update)+
  have "quiet z i s (number_of_queues i s)"
    using slot_at_idle [OF assms] idle_same [OF assms]
    by (auto simp: number_of_queues_def frame_def simp del: slot_at_eq_Inr)
  then have "quiet z i s (if b then number_of_queues i s else Inr s)" for b using assms by simp
  then show "contract z i s (nvme_cmd_adm_set_features i s)"
    unfolding nvme_cmd_adm_set_features_def
    by (intro contract_slot [OF assms] quiet_bind [where m = "if _ then number_of_queues i s else Inr s"] return_contract)
qed

lemma send_contract:
  assumes "board_ok z" "idle z i s"
  shows "contract z i s (send_cmd z i s)"
  unfolding send_cmd_def
proof (rule contract_slot [OF assms(2)])
  fix c assume c: "slots s ! i = Some c" "i < length (slots s)"
  have "cmd_addr z i \<noteq> cmd_addr z j" if "j < NVME_CMD_SLAB_SIZE" "j \<noteq> i" for j
    using assms that c(2) unfolding board_ok_def inj_on_def by (auto simp: idle_def)
  then have "frame z i s (s\<lparr>to_apu := to_apu s @ [vendor_msg z i c]\<rparr>)"
    by (auto simp: frame_def pend_def vendor_msg_def)
  then show "contract z i s (if \<not> malloc_ok z then Inr s else if \<not> rpmsg_send_ok z then Inr s
      else Inr (s\<lparr>to_apu := to_apu s @ [vendor_msg z i c]\<rparr>))"
    using assms(2) by (auto simp: idle_def live_def pend_def vendor_msg_def split: if_splits)
qed

lemma vendor_start_contract:
  assumes "board_ok z" "idle z i s"
  shows "contract z i s (vendor_start z i d n s)"
proof -
  have "contract z i s (res_bind (start_xfer i buf len DIR_FROM_HOST Vendor_cb s) (\<lambda>s.
      res_bind (nvme_cmd_transfer_data z i s) (\<lambda>(bad, s). Inr s)))" for buf len
    by (rule quiet_bind [OF start_quiet [OF assms(2)] transfer_data_contract(2)])
  then show ?thesis
    unfolding vendor_start_def using send_contract [OF assms] contract_slot [OF assms(2)] by simp
qed

lemma vendor_contract:
  assumes "board_ok z" "idle z i s"
  shows "contract z i s (nvme_cmd_vendor z i zb s)"
  unfolding nvme_cmd_vendor_def
proof (rule contract_slot [OF assms(2)])
  fix c assume c: "slots s ! i = Some c" "i < length (slots s)"
  have start: "contract z i s (vendor_start z i d n (slot_set i c' (slot_set i c'' s\<lparr>pool := p\<rparr>)))"
      "contract z i s (vendor_start z i d n (slot_set i c' s))" "contract z i s (Inr (slot_set i c' s))" for d n c' c'' p
  proof -
    have f: "frame z i s (slot_set i c' (slot_set i c'' s\<lparr>pool := p\<rparr>))" "idle z i (slot_set i c' (slot_set i c'' s\<lparr>pool := p\<rparr>))"
      using assms(2) by (auto simp: frame_def)
    show "contract z i s (vendor_start z i d n (slot_set i c' (slot_set i c'' s\<lparr>pool := p\<rparr>)))"
        "contract z i s (vendor_start z i d n (slot_set i c' s))"
      by (rule contract_frame [OF f(1) vendor_start_contract [OF assms(1) f(2)]])
        (rule contract_frame [OF frame_slot_set vendor_start_contract [OF assms(1)]], simp add: assms(2))
    show "contract z i s (Inr (slot_set i c' s))" using idle_slot_set [OF assms(2), of c'] by (simp add: idle_def)
  qed
  show "contract z i s (let d = sq_opc c mod 4;
        c = (if zb then c\<lparr>sq_buf := (sq_buf c)[10 := sq_buf c ! 10 + 1]\<rparr> else c);
        buffer_size = sint (sq_buf c ! 10 * 4);
        s = slot_set i c s
    in
    if d \<noteq> NVME_CMD_XFER_NONE \<and> buffer_size > 0 then
      (case pool_alloc z (pool s) (nat buffer_size) of
         None \<Rightarrow> Inr s
       | Some b \<Rightarrow> vendor_start z i d buffer_size (slot_set i (c\<lparr>block := b\<rparr>) (s\<lparr>pool := b # pool s\<rparr>)))
    else vendor_start z i d buffer_size s)"
    unfolding Let_def using start by (auto split: option.split simp del: contract_Inr)
qed

lemma pool_free_quiet: "idle z i s \<Longrightarrow> quiet z i s (k_mem_pool_free b s)"
  by (simp add: k_mem_pool_free_def)

lemma rpmsg_return_cb_contract: "idle z i s \<Longrightarrow> contract z i s (rpmsg_cmd_return_cb i s)"
  unfolding rpmsg_cmd_return_cb_def
  by (rule contract_slot, assumption, rule quiet_bind [OF pool_free_quiet], assumption, rule return_contract)

lemma rpmsg_return_data_contract:
  assumes "idle z i s"
  shows "contract z i s (rpmsg_cmd_return_data b i buf len s)"
  unfolding rpmsg_cmd_return_data_def
proof (rule quiet_bind [OF start_quiet [OF assms]])
  fix s' assume i: "idle z i s'"
  show "contract z i s' (res_bind (slot_at i s') (\<lambda>c. if sq_psdt c \<noteq> 0 then nvme_cmd_return i s'
      else res_bind (nvme_cmd_transfer_data b i s') (\<lambda>(bad, s). Inr s)))"
    by (rule contract_slot [OF i]) (simp add: return_contract [OF i] transfer_data_contract(2) [OF i])
qed

text \<open>Completing a command frees its slot, to which nothing refers any more.\<close>

lemma cq_contract:
  assumes "idle z i s"
  shows "contract z i s (cq_cb i s)"
  unfolding cq_cb_def
  by (rule contract_slot [OF assms], rule contract_bind_pure)
    (use assms in \<open>auto simp: frame_def idle_def live_def dest: tc_wf_notify\<close>)

lemma handler_contract:
  assumes "board_ok z" "idle z i s"
  shows "contract z i s (nvme_cmd_handler z i s)"
proof -
  have adm: "contract z i s (handle_adm z i s)" and io: "contract z i s (handle_io z i s)" if "idle z i s" for s
    unfolding handle_adm_def handle_io_def Let_def
    by (rule contract_slot [OF that]; simp add: adm_simple_contract queue_contract vendor_contract return_contract assms(1) that)+
  have "quiet z i s (fill_cq_resp i s)"
    using slot_at_idle [OF assms(2)] idle_same [OF assms(2)] pure_faults(1)
    by (auto simp: fill_cq_resp_def quiet_def res_bind_eq_Inl split: sum.splits simp del: slot_at_eq_Inr)
  then show ?thesis
    unfolding nvme_cmd_handler_def
    by (rule quiet_bind) (rule contract_slot, assumption, simp add: adm io)
qed

section \<open>Resuming a command\<close>

definition rpu_inv :: "board \<Rightarrow> rpu \<Rightarrow> bool" where
  "rpu_inv z s = (owned z s \<and> descs_ok (dma s) \<and> rx_ok (dma s) \<and> tx_ok (dma s) \<and> tc_wf (tc s))"

text \<open>A result that is no use after free and keeps the invariant.\<close>

definition safe :: "board \<Rightarrow> rpu res \<Rightarrow> bool" where
  "safe z m = (case m of Inl e \<Rightarrow> e \<noteq> use_after_free | Inr s \<Rightarrow> rpu_inv z s)"

lemma safe_simps [simp]: "safe z (Inr s) = rpu_inv z s" "safe z (Inl e) = (e \<noteq> use_after_free)"
  by (simp_all add: safe_def)

lemma safe_bind: "safe z m \<Longrightarrow> (\<And>s. m = Inr s \<Longrightarrow> rpu_inv z s \<Longrightarrow> safe z (f s)) \<Longrightarrow> safe z (res_bind m f)"
  by (cases m) auto

locale continuation =
  fixes z :: board and run :: "nat \<Rightarrow> rpu \<Rightarrow> rpu res"
  assumes run_contract: "board_ok z \<Longrightarrow> idle z i s \<Longrightarrow> contract z i s (run i s)"
begin

text \<open>The state \<open>t\<close> is \<open>s\<close> without the pending continuation of \<open>i\<close> that is run now.\<close>

lemma resume:
  assumes "board_ok z" "owned z s" "slots t = slots s" "pend z i t + 1 = pend z i s" "\<And>j. j \<noteq> i \<Longrightarrow> pend z j t = pend z j s"
  shows "run i t \<noteq> Inl use_after_free" "run i t = Inr s' \<Longrightarrow> owned z s' \<and> dma_grows (dma t) (dma s') \<and> (tc_wf (tc t) \<longrightarrow> tc_wf (tc s'))"
proof -
  have "0 < pend z i s" "pend z i s \<le> of_bool (live i s)" using assms(2,4) by (simp_all add: owned_def)
  then have "pend z i s = 1" "live i s" by (cases "live i s"; simp)+
  then have "idle z i t" using assms(2-4) by (simp add: idle_def live_def owned_def)
  then have c: "contract z i t (run i t)" by (rule run_contract [OF assms(1)])
  then show "run i t \<noteq> Inl use_after_free" by auto
  assume "run i t = Inr s'"
  with c have f: "frame z i t s'" "pend z i s' \<le> of_bool (live i s')" by simp_all
  have "pend z j s' \<le> of_bool (live j s')" for j
  proof (cases "j = i")
    case False
    then have "pend z j s' = pend z j s" "live j s' = live j s" using f(1) assms(3,5) by (auto simp: frame_def live_def)
    then show ?thesis using assms(2) by (simp add: owned_def)
  qed (simp add: f(2))
  then show "owned z s' \<and> dma_grows (dma t) (dma s') \<and> (tc_wf (tc t) \<longrightarrow> tc_wf (tc s'))" using f(1) assms(2,3) by (simp add: owned_def frame_def)
qed

end

lemma run_cb_contract:
  assumes "board_ok z" "idle z i s"
  shows "contract z i s (run_cb z f i l s)"
  using assms
  by (cases f) (auto simp: run_cb_def vendor_cb_def prp_cb_def handler_contract cq_contract return_contract prp_loop_contract
      send_contract rpmsg_return_cb_contract split: loc.split)

interpretation callback: continuation z "\<lambda>i. run_cb z f i l" for z f l
  by unfold_locales (rule run_cb_contract)

text \<open>The answer of the application processor to the message of a slot.\<close>

lemma return_live: "nvme_cmd_return i s = Inr s' \<Longrightarrow> live i s \<Longrightarrow> live i s'"
  by (auto simp: nvme_cmd_return_def Let_def live_def split_def split: if_splits)

lemma slot_of_addr:
  assumes "board_ok z" "i < NVME_CMD_SLAB_SIZE"
  shows "slot_of z (cmd_addr z i) = Inr i"
proof -
  have "find (\<lambda>j. cmd_addr z j = cmd_addr z i) [0..<NVME_CMD_SLAB_SIZE] \<noteq> None"
    using assms(2) by (auto simp: find_None_iff)
  then obtain j where j: "find (\<lambda>j. cmd_addr z j = cmd_addr z i) [0..<NVME_CMD_SLAB_SIZE] = Some j" by blast
  then have "cmd_addr z j = cmd_addr z i" "j < NVME_CMD_SLAB_SIZE" by (auto simp: find_Some_iff)
  then have "j = i" using assms unfolding board_ok_def inj_on_def by auto
  with j show ?thesis by (simp add: slot_of_def)
qed

lemma answer_contract:
  assumes "board_ok z" "idle z i s"
  shows "contract z i s (rpmsg_endpoint_cb z (m\<lparr>pl_priv := cmd_addr z i\<rparr>) s)"
proof -
  have sl: "slot_of z (cmd_addr z i) = Inr i" using assms by (intro slot_of_addr) (auto simp: idle_def live_def)
  have "contract z i s (res_bind (nvme_cmd_return i s) (\<lambda>s. res_bind (slot_at i s) (\<lambda>c. if block c \<noteq> 0 then k_mem_pool_free (block c) s else Inr s)))"
  proof (cases "nvme_cmd_return i s")
    case (Inl e)
    then show ?thesis using return_contract [OF assms(2)] by simp
  next
    case (Inr s')
    then have "live i s'" "frame z i s s'" "pend z i s' \<le> 1"
      using return_live [OF Inr] return_contract [OF assms(2)] assms(2) by (auto simp: idle_def)
    moreover from this obtain c where "slot_at i s' = Inr c" by (auto simp: live_def slot_at_def)
    ultimately show ?thesis
      using Inr by (auto simp: k_mem_pool_free_def frame_def live_def simp del: slot_at_eq_Inr)
  qed
  then show ?thesis
    using rpmsg_return_data_contract [OF assms(2)] contract_stop [OF assms(2) refl refl]
    by (simp add: rpmsg_endpoint_cb_def sl)
qed

interpretation answer: continuation z "\<lambda>i. rpmsg_endpoint_cb z (m\<lparr>pl_priv := cmd_addr z i\<rparr>)" for z m
  by unfold_locales (rule answer_contract)

section \<open>Interrupts keep the invariant\<close>

lemma pend_dma: "pend z i (s\<lparr>dma := d\<rparr>) = length (filter (holds i) (rx_fifo d)) + length (filter (holds i) (tx_fifo d)) +
    (if i < NVME_CMD_SLAB_SIZE then length (filter (\<lambda>m. pl_priv m = cmd_addr z i) (to_apu s)) else 0)"
  by (simp add: pend_def)

lemma owned_live:
  "owned z s \<Longrightarrow> (\<And>j. pend z j s' = pend z j s) \<Longrightarrow> (\<And>j. live j s' = live j s) \<Longrightarrow> length (slots s') = length (slots s) \<Longrightarrow> owned z s'"
  by (simp add: owned_def)

lemma owned_same:
  assumes "owned z s" "\<And>j. pend z j s' = pend z j s" "slots s' = slots s"
  shows "owned z s'"
proof -
  have "live j s' = live j s" for j using assms(3) by (simp add: live_def)
  with assms show ?thesis by (simp add: owned_def)
qed

lemma owned_dma: "owned z s \<Longrightarrow> rx_fifo d = rx_fifo (dma s) \<Longrightarrow> tx_fifo d = tx_fifo (dma s) \<Longrightarrow> owned z (s\<lparr>dma := d\<rparr>)"
  by (erule owned_same) (simp_all add: pend_def)

text \<open>Running what the descriptor at the head of a queue asks for, after it was taken from the queue.\<close>

lemma descriptor_resume:
  assumes "board_ok z" "owned z s" "slots t = slots s" "\<And>j. pend z j t + of_bool (holds j x) = pend z j s"
  defines "m \<equiv> (case xd_cb x of None \<Rightarrow> Inr | Some (f, i) \<Rightarrow> run_cb z f i (local_addr x)) t"
  shows "m \<noteq> Inl use_after_free" "m = Inr s' \<Longrightarrow> owned z s' \<and> dma_grows (dma t) (dma s') \<and> (tc_wf (tc t) \<longrightarrow> tc_wf (tc s'))"
proof -
  have "m \<noteq> Inl use_after_free \<and> (m = Inr s' \<longrightarrow> owned z s' \<and> dma_grows (dma t) (dma s') \<and> (tc_wf (tc t) \<longrightarrow> tc_wf (tc s')))"
  proof (cases "xd_cb x")
    case None
    then have "\<not> holds j x" for j by (simp add: holds_def)
    then have "pend z j t = pend z j s" for j using assms(4) [of j] by simp
    then have "owned z t" using assms(2,3) by (intro owned_same [of z s t])
    then show ?thesis using None by (auto simp: m_def)
  next
    case (Some fi)
    then obtain f i where fi: "xd_cb x = Some (f, i)" by (cases fi) auto
    have h: "holds j x = (j = i)" for j using fi by (auto simp: holds_def)
    have "pend z i t + 1 = pend z i s" "j \<noteq> i \<Longrightarrow> pend z j t = pend z j s" for j
      using assms(4) [of i] assms(4) [of j] by (simp_all add: h)
    then show ?thesis
      using callback.resume [OF assms(1-3), where i = i and f = f and l = "local_addr x"] by (auto simp: m_def fi)
  qed
  then show "m \<noteq> Inl use_after_free" "m = Inr s' \<Longrightarrow> owned z s' \<and> dma_grows (dma t) (dma s') \<and> (tc_wf (tc t) \<longrightarrow> tc_wf (tc s'))" by blast+
qed

lemma irq_read_safe:
  assumes "board_ok z" "rpu_inv z s" "rx_dma_running (dma s)"
  shows "safe z (irq_read z s)"
proof -
  obtain x xs where x: "rx_fifo (dma s) = x # xs" using assms(2,3) by (auto simp: rpu_inv_def rx_ok_def neq_Nil_conv)
  define t where "t = s\<lparr>dma := (dma s)\<lparr>rx_fifo := xs\<rparr>\<rparr>"
  let ?m = "(case xd_cb x of None \<Rightarrow> Inr | Some (f, i) \<Rightarrow> run_cb z f i (local_addr x)) t"
  have "pend z j t + of_bool (holds j x) = pend z j s" for j by (auto simp: t_def pend_def x)
  then have m: "?m \<noteq> Inl use_after_free" "?m = Inr u \<Longrightarrow> owned z u \<and> dma_grows (dma t) (dma u) \<and> (tc_wf (tc t) \<longrightarrow> tc_wf (tc u))" for u
    using descriptor_resume [OF assms(1), of s t x] assms(2) by (auto simp: t_def rpu_inv_def)
  have t: "descs_ok (dma t)" "tx_ok (dma t)" "rx_dma_running (dma t)" "tc_wf (tc t)"
    using assms(2,3) by (auto simp: t_def rpu_inv_def descs_ok_def tx_ok_def x)
  have inv: "rpu_inv z (u\<lparr>dma := (case rx_fifo (dma u) of [] \<Rightarrow> (dma u)\<lparr>descs := n, rx_dma_running := False\<rparr>
      | y # _ \<Rightarrow> (dma u)\<lparr>descs := n, rx_regs := Some y\<rparr>)\<rparr>)" if "?m = Inr u" for u n
    using m(2) [OF that] t
    by (auto simp: rpu_inv_def dma_grows_def descs_ok_def rx_ok_def tx_ok_def split: list.split intro!: owned_dma)
  show ?thesis
  proof (cases ?m)
    case (Inl e)
    then show ?thesis unfolding irq_read_def x t_def [symmetric] list.case using m(1) by simp
  next
    case (Inr u)
    then show ?thesis
      unfolding irq_read_def x t_def [symmetric] list.case using inv [OF Inr, of "descs (dma u) - 1"]
      by (cases "rx_fifo (dma u)") simp_all
  qed
qed

lemma irq_write_safe:
  assumes "board_ok z" "rpu_inv z s" "tx_dma_running (dma s)"
  shows "safe z (irq_write z s)"
proof -
  obtain x xs where x: "tx_fifo (dma s) = x # xs" using assms(2,3) by (auto simp: rpu_inv_def tx_ok_def neq_Nil_conv)
  define t where "t = s\<lparr>dma := (dma s)\<lparr>tx_fifo := xs\<rparr>\<rparr>"
  let ?m = "(case xd_cb x of None \<Rightarrow> Inr | Some (f, i) \<Rightarrow> run_cb z f i (local_addr x)) t"
  have "pend z j t + of_bool (holds j x) = pend z j s" for j by (auto simp: t_def pend_def x)
  then have m: "?m \<noteq> Inl use_after_free" "?m = Inr u \<Longrightarrow> owned z u \<and> dma_grows (dma t) (dma u) \<and> (tc_wf (tc t) \<longrightarrow> tc_wf (tc u))" for u
    using descriptor_resume [OF assms(1), of s t x] assms(2) by (auto simp: t_def rpu_inv_def)
  have t: "descs_ok (dma t)" "rx_ok (dma t)" "tx_dma_running (dma t)" "tc_wf (tc t)"
    using assms(2,3) by (auto simp: t_def rpu_inv_def descs_ok_def rx_ok_def x)
  have inv: "rpu_inv z (u\<lparr>dma := (case tx_fifo (dma u) of [] \<Rightarrow> (dma u)\<lparr>descs := n, tx_dma_running := False\<rparr>
      | y # _ \<Rightarrow> (dma u)\<lparr>descs := n, tx_regs := Some y\<rparr>)\<rparr>)" if "?m = Inr u" for u n
    using m(2) [OF that] t
    by (auto simp: rpu_inv_def dma_grows_def descs_ok_def rx_ok_def tx_ok_def split: list.split intro!: owned_dma)
  show ?thesis
  proof (cases ?m)
    case (Inl e)
    then show ?thesis unfolding irq_write_def x t_def [symmetric] list.case using m(1) by simp
  next
    case (Inr u)
    then show ?thesis
      unfolding irq_write_def x t_def [symmetric] list.case using inv [OF Inr, of "descs (dma u) - 1"]
      by (cases "tx_fifo (dma u)") simp_all
  qed
qed

lemma live_fields [simp]:
  "live i (s\<lparr>tc := t\<rparr>) = live i s" "live i (s\<lparr>hmem := h\<rparr>) = live i s" "live i (s\<lparr>lmem := h\<rparr>) = live i s" "live i (s\<lparr>prps := p\<rparr>) = live i s"
  by (simp_all add: live_def)

lemma rpu_inv_wf: "rpu_inv z s \<Longrightarrow> tc_wf (tc s)"
  by (simp add: rpu_inv_def)

lemma rpu_inv_fields [simp]:
  "rpu_inv z s \<Longrightarrow> tc_wf t \<Longrightarrow> rpu_inv z (s\<lparr>tc := t\<rparr>)" "rpu_inv z (s\<lparr>hmem := h\<rparr>) = rpu_inv z s" "rpu_inv z (s\<lparr>lmem := h\<rparr>) = rpu_inv z s"
  "rpu_inv z (s\<lparr>prps := p\<rparr>) = rpu_inv z s"
  by (simp_all add: rpu_inv_def owned_def)

lemma hw_safe:
  assumes "rpu_inv z s"
  shows "rx_dma_running (dma s) \<Longrightarrow> rx_regs (dma s) = Some x \<Longrightarrow> safe z (hw_read x s) \<and> (\<forall>s'. hw_read x s = Inr s' \<longrightarrow> dma s' = dma s)"
    and "tx_dma_running (dma s) \<Longrightarrow> tx_regs (dma s) = Some x \<Longrightarrow> safe z (hw_write x s) \<and> (\<forall>s'. hw_write x s = Inr s' \<longrightarrow> dma s' = dma s)"
proof -
  have live: "live i s" if "holds i x" "x \<in> set (rx_fifo (dma s)) \<union> set (tx_fifo (dma s))" for i
  proof -
    have "0 < pend z i s" using that by (auto simp: pend_def filter_empty_conv)
    then show ?thesis using assms by (cases "live i s") (auto simp: rpu_inv_def owned_def dest: spec [of _ i])
  qed
  have sl: "live i s \<Longrightarrow> \<exists>c. slot_at i s = Inr c" for i by (auto simp: live_def slot_at_def)
  have live_set: "rpu_inv z (slot_set i c s)" if "live i s" for i c
    using assms that unfolding rpu_inv_def
    by (auto simp: live_def nth_list_update intro!: owned_live [of z s "slot_set i c s"] split: if_splits)
  show "safe z (hw_read x s) \<and> (\<forall>s'. hw_read x s = Inr s' \<longrightarrow> dma s' = dma s)" if "rx_dma_running (dma s)" "rx_regs (dma s) = Some x"
  proof -
    have "x \<in> set (rx_fifo (dma s))" "desc_ok x" using assms that by (auto simp: rpu_inv_def rx_ok_def descs_ok_def)
    then have "local_addr x = Sq_buf i \<Longrightarrow> live i s" for i using live by (simp add: desc_ok_def)
    then show ?thesis
      using live_set assms sl
      by (cases "local_addr x") (force simp: hw_read_def Let_def simp del: slot_at_eq_Inr)+
  qed
  show "safe z (hw_write x s) \<and> (\<forall>s'. hw_write x s = Inr s' \<longrightarrow> dma s' = dma s)" if "tx_dma_running (dma s)" "tx_regs (dma s) = Some x"
  proof -
    have "x \<in> set (tx_fifo (dma s))" "desc_ok x" using assms that by (auto simp: rpu_inv_def tx_ok_def descs_ok_def)
    then have "local_addr x = Cq_buf i \<Longrightarrow> live i s" for i using live by (simp add: desc_ok_def)
    then show ?thesis
      using assms sl by (cases "local_addr x") (force simp: hw_write_def simp del: slot_at_eq_Inr)+
  qed
qed

lemma tail_body_safe:
  assumes "board_ok z" "rpu_inv z s"
  shows "safe z (tail_body z q s)"
proof -
  have "rpu_inv z (nvme_dma_xfer_host_to_mem a (Sq_buf i) n (Some (f, i)) (slot_set i c (s\<lparr>tc := t\<rparr>)))"
    if i: "i < length (slots s)" "slots s ! i = None" and t: "tc_wf t" for a i n f c t
  proof -
    let ?s = "nvme_dma_xfer_host_to_mem a (Sq_buf i) n (Some (f, i)) (slot_set i c (s\<lparr>tc := t\<rparr>))"
    have inv: "owned z s" "descs_ok (dma s)" "rx_ok (dma s)" "tx_ok (dma s)" using assms(2) by (simp_all add: rpu_inv_def)
    have "pend z j ?s \<le> of_bool (live j ?s)" for j
    proof (cases "j = i")
      case True
      have "pend z i s = 0" using inv(1) i(2) by (auto simp: owned_def live_def dest: spec [of _ i])
      then show ?thesis using True i(1) by (simp add: pend_simps live_def)
    next
      case False
      then have "pend z j ?s = pend z j s" "live j ?s = live j s" by (auto simp: pend_simps live_def)
      then show ?thesis using inv(1) by (simp add: owned_def)
    qed
    moreover have "dma_grows (dma (slot_set i c (s\<lparr>tc := t\<rparr>))) (dma ?s)" by (rule dma_grows_xfer) simp
    ultimately show ?thesis using inv t by (simp add: rpu_inv_def owned_def dma_grows_def)
  qed
  moreover have "tc_wf (tc s)" using assms(2) by (simp add: rpu_inv_def)
  moreover have "slab_pick z free \<in> set free" if "free \<noteq> []" for free using assms(1) that by (simp add: board_ok_def)
  then have "slab_pick z (slab_free (map (\<lambda>c. c \<noteq> None) (slots s))) < length (slots s) \<and>
      slots s ! slab_pick z (slab_free (map (\<lambda>c. c \<noteq> None) (slots s))) = None"
    if "slab_free (map (\<lambda>c. c \<noteq> None) (slots s)) \<noteq> []"
    using that by (fastforce simp: slab_free_def)
  ultimately show ?thesis
    using assms(2) get_addr_faults(2) [of q "tc s"]
    unfolding tail_body_def by (cases "nvme_tc_get_sq_addr q (tc s)") (auto simp: Let_def dest: tc_wf_sq_addr)
qed

definition safe_opt :: "board \<Rightarrow> rpu res option \<Rightarrow> bool" where
  "safe_opt z m = (case m of None \<Rightarrow> True | Some r \<Rightarrow> safe z r)"

lemma safe_opt_simps [simp]: "safe_opt z (Some r) = safe z r" "safe_opt z None"
  by (simp_all add: safe_opt_def)

lemma tail_loop_safe:
  assumes "board_ok z" "rpu_inv z s"
  shows "safe_opt z (tail_loop z q s)"
proof (cases "tail_loop z q s")
  case (Some m)
  have "rpu_inv z s \<longrightarrow> safe z m"
  proof (rule tail_loop.raw_induct [where P = "\<lambda>z' q' s m. z' = z \<longrightarrow> rpu_inv z s \<longrightarrow> safe z m", THEN mp, OF _ Some refl])
    fix loop z' q s m
    assume IH: "\<And>z' q s m. loop z' q s = Some m \<Longrightarrow> z' = z \<longrightarrow> rpu_inv z s \<longrightarrow> safe z m"
      and body: "(if sq_tail (tc s) ! q = sq_head (tc s) ! q then Some (Inr s)
        else if isl (tail_body z' q s) then Some (tail_body z' q s) else loop z' q (projr (tail_body z' q s))) = Some m"
    show "z' = z \<longrightarrow> rpu_inv z s \<longrightarrow> safe z m"
    proof (intro impI)
      assume "z' = z" "rpu_inv z s"
      have b: "safe z (tail_body z q s)" by (rule tail_body_safe [OF assms(1) \<open>rpu_inv z s\<close>])
      then have "\<not> isl (tail_body z q s) \<Longrightarrow> rpu_inv z (projr (tail_body z q s))"
        by (cases "tail_body z q s") simp_all
      then show "safe z m" using body IH b \<open>z' = z\<close> \<open>rpu_inv z s\<close> by (auto split: if_splits)
    qed
  qed
  then show ?thesis using Some assms(2) by simp
qed simp

lemma tail_handler_safe:
  assumes "board_ok z" "rpu_inv z s"
  shows "safe_opt z (nvme_tc_tail_handler z q s)"
proof -
  have "tc_wf (tc s)" using assms(2) by (simp add: rpu_inv_def)
  then show ?thesis
    unfolding nvme_tc_tail_handler_def using tail_loop_safe [OF assms(1)] assms(2) pure_faults(3) [of "sq_tail (tc s)" q]
    by (auto split: sum.split)
qed

lemma tc_only_safe: "rpu_inv z s \<Longrightarrow> t \<noteq> Inl use_after_free \<Longrightarrow> (\<And>t'. t = Inr t' \<Longrightarrow> tc_wf (tc s) \<Longrightarrow> tc_wf t') \<Longrightarrow> safe_opt z (tc_only t s)"
  by (cases t) (simp_all add: tc_only_def rpu_inv_wf)

lemma doorbell_safe: "board_ok z \<Longrightarrow> rpu_inv z s \<Longrightarrow> safe_opt z (io_doorbell z reg ns s)"
  by (induction ns) (auto intro: tail_handler_safe tc_only_safe tc_wf_head)

lemma reg_written_safe: "board_ok z \<Longrightarrow> rpu_inv z s \<Longrightarrow> safe_opt z (reg_written z r reg s)"
  by (auto simp: reg_written_def intro: tail_handler_safe tc_only_safe tc_wf_head doorbell_safe)

lemma tc_irq_safe: "board_ok z \<Longrightarrow> rpu_inv z s \<Longrightarrow> safe_opt z (nvme_tc_irq_handler z r ds s)"
proof (induction ds arbitrary: s)
  case (Cons d ds)
  from reg_written_safe [OF Cons.prems, of r "unat (ucast (d * 4) :: u16)"] Cons show ?case
    by (auto split: option.split sum.split)
qed simp

lemma ack_safe:
  assumes "board_ok z" "rpu_inv z s" "m \<in> set (to_apu s)"
  shows "safe z (rpmsg_endpoint_cb z (ack_msg m a) (s\<lparr>to_apu := remove1 m (to_apu s)\<rparr>))"
proof -
  let ?t = "s\<lparr>to_apu := remove1 m (to_apu s)\<rparr>"
  have dma: "descs_ok (dma s)" "rx_ok (dma s)" "tx_ok (dma s)" "tc_wf (tc s)" and own: "owned z s" using assms(2) by (simp_all add: rpu_inv_def)
  show ?thesis
  proof (cases "\<exists>i < NVME_CMD_SLAB_SIZE. cmd_addr z i = pl_priv m")
    case True
    then obtain i where i: "i < NVME_CMD_SLAB_SIZE" "cmd_addr z i = pl_priv m" by blast
    have "pl_priv m \<noteq> cmd_addr z j" if "j < NVME_CMD_SLAB_SIZE" "j \<noteq> i" for j
      using assms(1) i that unfolding board_ok_def inj_on_def by auto
    then have other: "pend z j ?t = pend z j s" if "j \<noteq> i" for j
      using that by (simp add: pend_def filter_remove1 remove1_idem)
    have "0 < length (filter (\<lambda>m. pl_priv m = cmd_addr z i) (to_apu s))"
      using assms(3) i(2) by (auto simp: length_greater_0_conv filter_empty_conv)
    then have "pend z i ?t + 1 = pend z i s"
      using assms(3) i by (simp add: pend_def filter_remove1 length_remove1)
    moreover have "ack_msg m a = (ack_msg m a)\<lparr>pl_priv := cmd_addr z i\<rparr>" using i(2) by (simp add: ack_msg_def)
    ultimately have "rpmsg_endpoint_cb z (ack_msg m a) ?t \<noteq> Inl use_after_free"
        "rpmsg_endpoint_cb z (ack_msg m a) ?t = Inr s' \<Longrightarrow> owned z s' \<and> dma_grows (dma ?t) (dma s') \<and> (tc_wf (tc ?t) \<longrightarrow> tc_wf (tc s'))" for s'
      using answer.resume [OF assms(1) own, where t = ?t and i = i and m = "ack_msg m a"] other by auto
    then show ?thesis using dma by (cases "rpmsg_endpoint_cb z (ack_msg m a) ?t") (auto simp: rpu_inv_def dma_grows_def)
  next
    case False
    then have "find (\<lambda>i. cmd_addr z i = pl_priv m) [0..<NVME_CMD_SLAB_SIZE] = None" by (auto simp: find_None_iff)
    then have w: "slot_of z (pl_priv m) = Inl (Undefined ''wild pointer'')" by (simp add: slot_of_def)
    have "j < NVME_CMD_SLAB_SIZE \<Longrightarrow> pl_priv m \<noteq> cmd_addr z j" for j using False by metis
    then have "pend z j ?t = pend z j s" for j by (simp add: pend_def filter_remove1 remove1_idem)
    then have "owned z ?t" using own by (intro owned_same [of z s ?t]) simp_all
    then show ?thesis using w dma by (simp add: rpmsg_endpoint_cb_def ack_msg_def rpu_inv_def)
  qed
qed

lemma event_safe:
  assumes "board_ok z" "rpu_inv z s"
  shows "safe_opt z (rpu_event z r e s)"
proof (cases e)
  case (Tc_irq ds)
  then show ?thesis using tc_irq_safe [OF assms] by simp
next
  case Rx_done
  have "safe z (res_bind (hw_read x s) (nvme_dma_irq_handler z True False))" if "rx_dma_running (dma s)" "rx_regs (dma s) = Some x" for x
    using hw_safe(1) [OF assms(2) that] that(1) irq_read_safe [OF assms(1)]
    by (cases "hw_read x s") (auto simp: nvme_dma_irq_handler_def intro: safe_bind)
  then show ?thesis using Rx_done assms(2) by (auto split: option.split)
next
  case Tx_done
  have "safe z (res_bind (hw_write x s) (nvme_dma_irq_handler z False True))" if "tx_dma_running (dma s)" "tx_regs (dma s) = Some x" for x
    using hw_safe(2) [OF assms(2) that] that(1) irq_write_safe [OF assms(1)]
    by (cases "hw_write x s") (auto simp: nvme_dma_irq_handler_def)
  then show ?thesis using Tx_done assms(2) by (auto split: option.split)
next
  case (Ack m a)
  then show ?thesis using ack_safe [OF assms] assms(2) by simp
qed (use assms in \<open>simp_all add: rpu_inv_wf\<close>)

lemma init_inv: "rpu_inv z (rpu_init z rs junk hm lm)"
  by (simp add: rpu_inv_def owned_def rpu_init_def pend_def nvme_dma_init_def descs_ok_def rx_ok_def tx_ok_def)

lemma reach_inv: "rpu_reach z r s0 s \<Longrightarrow> board_ok z \<Longrightarrow> rpu_inv z s0 \<Longrightarrow> rpu_inv z s"
proof (induction rule: rpu_reach.induct)
  case (reach_event s e s')
  then show ?case using event_safe [of z s r e] by simp
qed


definition ex_board :: board where
  "ex_board = \<lparr>slab_pick = hd, pool_alloc = \<lambda>used n. Some (0x70000000 + 0x400000 * word_of_nat (length used)), malloc_ok = True,
     rpmsg_send_ok = True, cmd_addr = \<lambda>i. 0x100000 + 124 * word_of_nat i, sram_base = 0x68000000, sram_size = 0x4000000,
     smart_buf = 0x200000, ident_buf = \<lambda>k. 0x201000 + 0x1000 * word_of_nat k, id_off = \<lambda>_. 0, id_size = \<lambda>_. 8\<rparr>"

lemma ex_board_ok: "board_ok ex_board"
proof -
  have "unat (0x100000 + 124 * word_of_nat i :: u32) = 0x100000 + 124 * i" if "i < 1024" for i
    using that by (simp add: unat_word_ariths unat_word_of_nat_small)
  then have "inj_on (\<lambda>i. 0x100000 + 124 * word_of_nat i :: u32) {0..<1024}"
    by (intro inj_onI) (metis add_left_cancel atLeastLessThan_iff mult_left_cancel zero_neq_numeral)
  then show ?thesis by (simp add: board_ok_def ex_board_def spec_consts)
qed

definition ex_regs :: reg_map where
  "ex_regs = \<lparr>REG_CC = 0x14, REG_CSTS = 0x1C, REG_AQA = 0x24, REG_ASQ_0 = 0x28, REG_ASQ_1 = 0x2C, REG_ACQ_0 = 0x30, REG_ACQ_1 = 0x34,
     CC_SHN = (14, 3), CC_MPS = (7, 15), CC_EN = 1, CSTS_SHST = (2, 3), CSTS_RDY = 1, AQA_ACQS = (16, 0xFFF), AQA_ASQS = (0, 0xFFF)\<rparr>"

definition ex_rpu :: rpu where
  "ex_rpu = rpu_init ex_board (\<lambda>_. 0) (replicate 1024 (replicate 512 0)) (\<lambda>_. 0) (\<lambda>_. 0)"


end
