(* ===== verification/Rpu_Fetch.thy ===== *)
theory Rpu_Fetch
  imports Rpu_Safety
begin

text \<open>
  Fetching of commands: what the tail doorbell of a submission queue starts. The loop of \<open>nvme_tc_tail_handler\<close> runs
  until its head meets the tail the host wrote, so it ends exactly when that tail is an index of the queue; then
  every new entry is fetched once, in order, into a slot of its own.
\<close>

section \<open>One iteration\<close>

definition free_slots :: "rpu \<Rightarrow> nat set" where
  "free_slots s = {i. i < length (slots s) \<and> slots s ! i = None}"

definition fetch_desc :: "u64 \<Rightarrow> nat \<Rightarrow> nvme_dma_xfer_def" where
  "fetch_desc a i = \<lparr>xd_cb = Some (Nvme_cmd_handler, i), host_addr = a, local_addr = Sq_buf i, xd_len = 64, xd_tag = 0xAA\<rparr>"

definition queue_ready :: "nat \<Rightarrow> nat \<Rightarrow> u64 \<Rightarrow> rpu \<Rightarrow> bool" where
  "queue_ready sz q base s = (q < length (sq_base (tc s)) \<and> q < length (sq_head (tc s)) \<and> q < length (sq_size (tc s)) \<and>
     q < length (sq_tail (tc s)) \<and> 0 < sz \<and> unat (sq_size (tc s) ! q) = sz \<and> sq_base (tc s) ! q = base \<and> unat (sq_head (tc s) ! q) < sz)"

lemma set_slab_free: "set (slab_free (map (\<lambda>c. c \<noteq> None) (slots s))) = free_slots s"
  by (auto simp: slab_free_def free_slots_def)

lemma ready_addr:
  assumes "queue_ready sz q base s"
  shows "nvme_tc_get_sq_addr q (tc s) = Inr (base + word_of_nat (unat (sq_head (tc s) ! q) * 64),
      (tc s)\<lparr>sq_head := (sq_head (tc s))[q := word_of_nat ((unat (sq_head (tc s) ! q) + 1) mod sz)]\<rparr>)"
    and "unat (word_of_nat ((unat (sq_head (tc s) ! q) + 1) mod sz) :: u16) = (unat (sq_head (tc s) ! q) + 1) mod sz"
proof -
  show "nvme_tc_get_sq_addr q (tc s) = Inr (base + word_of_nat (unat (sq_head (tc s) ! q) * 64),
      (tc s)\<lparr>sq_head := (sq_head (tc s))[q := word_of_nat ((unat (sq_head (tc s) ! q) + 1) mod sz)]\<rparr>)"
    using assms by (simp add: queue_ready_def nvme_tc_get_sq_addr_def spec_consts)
  show "unat (word_of_nat ((unat (sq_head (tc s) ! q) + 1) mod sz) :: u16) = (unat (sq_head (tc s) ! q) + 1) mod sz"
    using unat_u16 [of "(unat (sq_head (tc s) ! q) + 1) mod sz" sz] unat_less_width [of "sq_size (tc s) ! q"] assms
    by (simp add: queue_ready_def)
qed

lemma body_step:
  assumes "board_ok z" "queue_ready sz q base s"
  shows "\<exists>s'. tail_body z q s = Inr s' \<and> queue_ready sz q base s' \<and> sq_tail (tc s') = sq_tail (tc s) \<and>
    unat (sq_head (tc s') ! q) = (unat (sq_head (tc s) ! q) + 1) mod sz \<and>
    (free_slots s \<noteq> {} \<longrightarrow> (\<exists>i \<in> free_slots s. free_slots s' = free_slots s - {i} \<and>
       (descs (dma s) < NVME_DMA_SLAB_ENTRIES \<longrightarrow> descs (dma s') = descs (dma s) + 1 \<and>
          rx_fifo (dma s') = rx_fifo (dma s) @ [fetch_desc (base + word_of_nat (unat (sq_head (tc s) ! q) * 64)) i])))"
proof -
  define t where "t = (tc s)\<lparr>sq_head := (sq_head (tc s))[q := word_of_nat ((unat (sq_head (tc s) ! q) + 1) mod sz)]\<rparr>"
  let ?free = "slab_free (map (\<lambda>c. c \<noteq> None) (slots s))" let ?i = "slab_pick z ?free"
  note addr = ready_addr [OF assms(2), folded t_def]
  have ready: "queue_ready sz q base u \<and> sq_tail (tc u) = sq_tail (tc s) \<and> unat (sq_head (tc u) ! q) = (unat (sq_head (tc s) ! q) + 1) mod sz"
    if "tc u = t" for u
    using that assms(2) addr(2) by (simp add: queue_ready_def t_def)
  show ?thesis
  proof (cases "?free = []")
    case True
    then have "tail_body z q s = Inr (s\<lparr>tc := t\<rparr>)" by (simp add: tail_body_def addr(1))
    moreover have "free_slots s = {}" using True set_slab_free [of s] by simp
    ultimately show ?thesis using ready [of "s\<lparr>tc := t\<rparr>"] by simp
  next
    case False
    have i: "?i \<in> free_slots s" using assms(1) False by (simp add: board_ok_def flip: set_slab_free)
    let ?u = "slot_set ?i (new_cmd q) (s\<lparr>tc := t\<rparr>)"
    let ?s = "nvme_dma_xfer_host_to_mem (base + word_of_nat (unat (sq_head (tc s) ! q) * 64)) (Sq_buf ?i) (word_of_nat NVME_TC_SQ_ENTRY_SIZE)
        (Some (Nvme_cmd_handler, ?i)) ?u"
    have "tail_body z q s = Inr ?s" using False by (simp add: tail_body_def addr(1) Let_def)
    moreover have "free_slots ?s = free_slots s - {?i}"
      using i by (auto simp: free_slots_def nth_list_update split: if_splits)
    moreover have "rx_fifo (dma ?s) = rx_fifo (dma s) @ [fetch_desc (base + word_of_nat (unat (sq_head (tc s) ! q) * 64)) ?i]"
        "descs (dma ?s) = descs (dma s) + 1"
      if "descs (dma s) < NVME_DMA_SLAB_ENTRIES"
      using that by (simp_all add: nvme_dma_xfer_host_to_mem_def nvme_dma_xfer_fill_desc_def fetch_desc_def Let_def NVME_TC_SQ_ENTRY_SIZE_def)
    ultimately show ?thesis using i ready [of ?s] by auto
  qed
qed

section \<open>The loop\<close>

lemma loop_step:
  assumes "sq_tail (tc s) ! q \<noteq> sq_head (tc s) ! q" "tail_body z q s = Inr s'"
  shows "tail_loop z q s = tail_loop z q s'"
  using assms by (subst tail_loop.simps) simp

lemma loop_stuck:
  assumes "board_ok z" "queue_ready sz q base s" "sz \<le> unat (sq_tail (tc s) ! q)"
  shows "tail_loop z q s = None"
proof (rule ccontr)
  assume "tail_loop z q s \<noteq> None"
  then obtain m where m: "tail_loop z q s = Some m" by blast
  have "queue_ready sz q base s \<longrightarrow> sz \<le> unat (sq_tail (tc s) ! q) \<longrightarrow> False"
  proof (rule tail_loop.raw_induct [where P = "\<lambda>z' q' s m. z' = z \<and> q' = q \<longrightarrow> queue_ready sz q base s \<longrightarrow> sz \<le> unat (sq_tail (tc s) ! q) \<longrightarrow> False",
        THEN mp, OF _ m conjI [OF refl refl]])
    fix loop z' q' s m
    assume IH: "\<And>z' q' s m. loop z' q' s = Some m \<Longrightarrow> z' = z \<and> q' = q \<longrightarrow> queue_ready sz q base s \<longrightarrow> sz \<le> unat (sq_tail (tc s) ! q) \<longrightarrow> False"
      and body: "(if sq_tail (tc s) ! q' = sq_head (tc s) ! q' then Some (Inr s)
        else if isl (tail_body z' q' s) then Some (tail_body z' q' s) else loop z' q' (projr (tail_body z' q' s))) = Some m"
    show "z' = z \<and> q' = q \<longrightarrow> queue_ready sz q base s \<longrightarrow> sz \<le> unat (sq_tail (tc s) ! q) \<longrightarrow> False"
    proof (intro impI)
      assume r: "z' = z \<and> q' = q" "queue_ready sz q base s" "sz \<le> unat (sq_tail (tc s) ! q)"
      obtain s' where s': "tail_body z q s = Inr s'" "queue_ready sz q base s'" "sq_tail (tc s') = sq_tail (tc s)"
        using body_step [OF assms(1) r(2)] by blast
      have "sq_tail (tc s) ! q \<noteq> sq_head (tc s) ! q" using r(2,3) by (auto simp: queue_ready_def)
      then have "loop z q s' = Some m" using body r(1) s'(1) by simp
      then show False using IH [of z q s' m] s'(2,3) r(3) by simp
    qed
  qed
  then show False using assms by blast
qed

text \<open>The number of new entries between head and tail.\<close>

definition new_entries :: "nat \<Rightarrow> nat \<Rightarrow> nat \<Rightarrow> nat" where
  "new_entries sz head tail = (tail + sz - head) mod sz"

lemma new_entries_0: "head < sz \<Longrightarrow> tail < sz \<Longrightarrow> (new_entries sz head tail = 0) = (head = tail)"
  by (auto simp: new_entries_def mod_if)

lemma new_entries_eq: "head < sz \<Longrightarrow> tail < sz \<Longrightarrow> new_entries sz head tail = (if head \<le> tail then tail - head else tail + sz - head)"
  by (auto simp: new_entries_def mod_if)

lemma new_entries_Suc:
  assumes "head < sz" "tail < sz" "head \<noteq> tail"
  shows "new_entries sz head tail = Suc (new_entries sz ((head + 1) mod sz) tail)"
proof (cases "head + 1 = sz")
  case True
  then show ?thesis using assms by (simp add: new_entries_eq)
next
  case False
  then show ?thesis using assms by (auto simp: new_entries_eq)
qed

definition fetched :: "nat \<Rightarrow> u64 \<Rightarrow> nat \<Rightarrow> nat list \<Rightarrow> nvme_dma_xfer_def list" where
  "fetched sz base head is = map (\<lambda>(k, i). fetch_desc (base + word_of_nat ((head + k) mod sz * 64)) i) (zip [0..<length is] is)"

lemma fetched_Cons:
  "head < sz \<Longrightarrow> fetched sz base head (i # is) =
    fetch_desc (base + word_of_nat (head * 64)) i # fetched sz base ((head + 1) mod sz) is"
  by (rule nth_equalityI) (auto simp: fetched_def nth_Cons' mod_simps simp del: upt_Suc)

lemma loop_fetches:
  assumes "board_ok z" "queue_ready sz q base s" "unat (sq_tail (tc s) ! q) < sz" "n = new_entries sz (unat (sq_head (tc s) ! q)) (unat (sq_tail (tc s) ! q))"
  shows "\<exists>s'. tail_loop z q s = Some (Inr s') \<and> sq_head (tc s') ! q = sq_tail (tc s) ! q \<and>
    (n \<le> card (free_slots s) \<longrightarrow> descs (dma s) + n \<le> NVME_DMA_SLAB_ENTRIES \<longrightarrow>
      (\<exists>is. length is = n \<and> distinct is \<and> set is \<subseteq> free_slots s \<and> free_slots s' = free_slots s - set is \<and>
        rx_fifo (dma s') = rx_fifo (dma s) @ fetched sz base (unat (sq_head (tc s) ! q)) is))"
  using assms(2-4)
proof (induction n arbitrary: s)
  case 0
  then have "sq_tail (tc s) ! q = sq_head (tc s) ! q"
    using new_entries_0 [of "unat (sq_head (tc s) ! q)" sz "unat (sq_tail (tc s) ! q)"]
    by (auto simp: queue_ready_def word_unat_eq_iff)
  then show ?case by (subst tail_loop.simps) (simp add: fetched_def)
next
  case (Suc n)
  let ?h = "unat (sq_head (tc s) ! q)"
  have h: "?h < sz" using Suc.prems(1) by (simp add: queue_ready_def)
  have ne: "?h \<noteq> unat (sq_tail (tc s) ! q)" using Suc.prems(2,3) new_entries_0 [OF h] by fastforce
  then have neq: "sq_tail (tc s) ! q \<noteq> sq_head (tc s) ! q" by auto
  obtain s' where s': "tail_body z q s = Inr s'" "queue_ready sz q base s'" "sq_tail (tc s') = sq_tail (tc s)" "unat (sq_head (tc s') ! q) = (?h + 1) mod sz"
    and step: "free_slots s \<noteq> {} \<longrightarrow> (\<exists>i \<in> free_slots s. free_slots s' = free_slots s - {i} \<and>
       (descs (dma s) < NVME_DMA_SLAB_ENTRIES \<longrightarrow> descs (dma s') = descs (dma s) + 1 \<and>
          rx_fifo (dma s') = rx_fifo (dma s) @ [fetch_desc (base + word_of_nat (?h * 64)) i]))"
    using body_step [OF assms(1) Suc.prems(1)] by blast
  have n: "n = new_entries sz (unat (sq_head (tc s') ! q)) (unat (sq_tail (tc s') ! q))"
    using Suc.prems(2,3) new_entries_Suc [OF h _ ne] s'(3,4) by simp
  obtain t where t: "tail_loop z q s' = Some (Inr t)" "sq_head (tc t) ! q = sq_tail (tc s') ! q"
    and rest: "n \<le> card (free_slots s') \<longrightarrow> descs (dma s') + n \<le> NVME_DMA_SLAB_ENTRIES \<longrightarrow>
      (\<exists>is. length is = n \<and> distinct is \<and> set is \<subseteq> free_slots s' \<and> free_slots t = free_slots s' - set is \<and>
        rx_fifo (dma t) = rx_fifo (dma s') @ fetched sz base (unat (sq_head (tc s') ! q)) is)"
    using Suc.IH [OF s'(2) _ n] Suc.prems(2) s'(3) by auto
  have "\<exists>is. length is = Suc n \<and> distinct is \<and> set is \<subseteq> free_slots s \<and> free_slots t = free_slots s - set is \<and>
        rx_fifo (dma t) = rx_fifo (dma s) @ fetched sz base ?h is"
    if c: "Suc n \<le> card (free_slots s)" "descs (dma s) + Suc n \<le> NVME_DMA_SLAB_ENTRIES"
  proof -
    have "free_slots s \<noteq> {}" using c(1) by auto
    then obtain i where i: "i \<in> free_slots s" "free_slots s' = free_slots s - {i}" "descs (dma s') = descs (dma s) + 1"
        "rx_fifo (dma s') = rx_fifo (dma s) @ [fetch_desc (base + word_of_nat (?h * 64)) i]"
      using step c(2) by auto
    moreover have "n \<le> card (free_slots s')" using c(1) i(1) by (simp add: i(2) card_Diff_singleton)
    ultimately obtain "is" where "length is = n" "distinct is" "set is \<subseteq> free_slots s'" "free_slots t = free_slots s' - set is"
        "rx_fifo (dma t) = rx_fifo (dma s') @ fetched sz base (unat (sq_head (tc s') ! q)) is"
      using rest c(2) by auto
    then show ?thesis using i s'(4) fetched_Cons [OF h] by (intro exI [of _ "i # is"]) auto
  qed
  then show ?case using t s'(3) loop_step [OF neq s'(1)] by auto
qed

text \<open>C27: the handler of a tail doorbell returns exactly when the value the host wrote is an index of the queue; a larger
  value makes it loop in the interrupt for ever. When it returns, and there are slots and descriptors for them, the entries
  between the old head and the new tail are fetched in order, each once and into a free slot of its own.\<close>

theorem tail_doorbell_fetches:
  assumes "board_ok z" "queue_ready sz q base s"
  defines "v \<equiv> unat (ucast (regs (tc s) (DOORBELL_TAIL q)) :: u16)" and "h \<equiv> unat (sq_head (tc s) ! q)"
  shows "(nvme_tc_tail_handler z q s \<noteq> None) = (v < sz) \<and>
    (v < sz \<longrightarrow> new_entries sz h v \<le> card (free_slots s) \<longrightarrow> descs (dma s) + new_entries sz h v \<le> NVME_DMA_SLAB_ENTRIES \<longrightarrow>
      (\<exists>s' is. nvme_tc_tail_handler z q s = Some (Inr s') \<and> unat (sq_head (tc s') ! q) = v \<and>
        length is = new_entries sz h v \<and> distinct is \<and> set is \<subseteq> free_slots s \<and>
        rx_fifo (dma s') = rx_fifo (dma s) @ fetched sz base h is))"
proof -
  let ?s = "s\<lparr>tc := (tc s)\<lparr>sq_tail := (sq_tail (tc s))[q := ucast (regs (tc s) (DOORBELL_TAIL q))]\<rparr>\<rparr>"
  have q: "q < length (sq_tail (tc s))" using assms(2) by (simp add: queue_ready_def)
  then have run: "nvme_tc_tail_handler z q s = tail_loop z q ?s" by (simp add: nvme_tc_tail_handler_def)
  have ready: "queue_ready sz q base ?s" using assms(2) by (simp add: queue_ready_def)
  have same: "unat (sq_tail (tc ?s) ! q) = v" "unat (sq_head (tc ?s) ! q) = h" "free_slots ?s = free_slots s" "dma ?s = dma s"
    using q by (simp_all add: v_def h_def free_slots_def)
  show ?thesis
  proof (cases "v < sz")
    case True
    obtain s' where "tail_loop z q ?s = Some (Inr s')" "sq_head (tc s') ! q = sq_tail (tc ?s) ! q"
        "new_entries sz h v \<le> card (free_slots s) \<longrightarrow> descs (dma s) + new_entries sz h v \<le> NVME_DMA_SLAB_ENTRIES \<longrightarrow>
          (\<exists>is. length is = new_entries sz h v \<and> distinct is \<and> set is \<subseteq> free_slots s \<and> free_slots s' = free_slots s - set is \<and>
            rx_fifo (dma s') = rx_fifo (dma s) @ fetched sz base h is)"
      using loop_fetches [OF assms(1) ready, of "new_entries sz h v"] True unfolding same by blast
    then show ?thesis using True same(1) run by auto
  next
    case False
    then show ?thesis using loop_stuck [OF assms(1) ready] same(1) run by simp
  qed
qed

definition ex_sq :: rpu where
  "ex_sq = ex_rpu\<lparr>tc := (tc ex_rpu)\<lparr>sq_size := [4, 0], sq_base := [8192, 0], sq_head := [3, 0], regs := (\<lambda>_. 1)\<rparr>\<rparr>"

theorem tail_doorbell_fetches_witness:
  "\<exists>s' is. nvme_tc_tail_handler ex_board 0 ex_sq = Some (Inr s') \<and> length is = 2 \<and> distinct is \<and>
    rx_fifo (dma s') = fetched 4 8192 3 is"
proof -
  have ready: "queue_ready 4 0 8192 ex_sq"
    by (simp add: queue_ready_def ex_sq_def ex_rpu_def rpu_init_def nvme_tc_init_def spec_consts)
  have facts: "regs (tc ex_sq) (DOORBELL_TAIL 0) = 1" "sq_head (tc ex_sq) ! 0 = 3" "descs (dma ex_sq) = 0" "rx_fifo (dma ex_sq) = []"
    by (simp_all add: ex_sq_def ex_rpu_def rpu_init_def nvme_dma_init_def)
  have "free_slots ex_sq = {..<1024}" by (auto simp: free_slots_def ex_sq_def ex_rpu_def rpu_init_def spec_consts)
  then show ?thesis
    using tail_doorbell_fetches [OF ex_board_ok ready] unfolding facts by (auto simp: new_entries_def spec_consts)
qed

section \<open>Bounds of the doorbells\<close>

text \<open>With all queue arrays in shape, the loop of queue \<open>q\<close> stays inside of them.\<close>

lemma body_in_bounds:
  assumes "tc_wf (tc s)" "q < QUEUES"
  shows "tail_body z q s \<noteq> Inl OutOfBounds" "tail_body z q s = Inr s' \<Longrightarrow> tc_wf (tc s')"
proof -
  have "nvme_tc_get_sq_addr q (tc s) \<noteq> Inl OutOfBounds"
    using assms by (simp add: nvme_tc_get_sq_addr_def mod_res_def tc_wf_def)
  then show "tail_body z q s \<noteq> Inl OutOfBounds"
    unfolding tail_body_def by (cases "nvme_tc_get_sq_addr q (tc s)") (auto simp: Let_def split: if_splits)
  show "tail_body z q s = Inr s' \<Longrightarrow> tc_wf (tc s')"
    unfolding tail_body_def using assms(1) by (auto simp: Let_def split: if_splits dest: tc_wf_sq_addr)
qed

lemma loop_in_bounds:
  assumes "tail_loop z q s = Some m" "tc_wf (tc s)" "q < QUEUES"
  shows "m \<noteq> Inl OutOfBounds"
proof -
  have "tc_wf (tc s) \<longrightarrow> q < QUEUES \<longrightarrow> m \<noteq> Inl OutOfBounds"
  proof (rule tail_loop.raw_induct [where P = "\<lambda>z q s m. tc_wf (tc s) \<longrightarrow> q < QUEUES \<longrightarrow> m \<noteq> Inl OutOfBounds", OF _ assms(1)])
    fix loop z q s m
    assume IH: "\<And>z q s m. loop z q s = Some m \<Longrightarrow> tc_wf (tc s) \<longrightarrow> q < QUEUES \<longrightarrow> m \<noteq> Inl OutOfBounds"
      and body: "(if sq_tail (tc s) ! q = sq_head (tc s) ! q then Some (Inr s)
        else if isl (tail_body z q s) then Some (tail_body z q s) else loop z q (projr (tail_body z q s))) = Some m"
    show "tc_wf (tc s) \<longrightarrow> q < QUEUES \<longrightarrow> m \<noteq> Inl OutOfBounds"
    proof (intro impI)
      assume wf: "tc_wf (tc s)" "q < QUEUES"
      note b = body_in_bounds [OF wf, of z]
      have "\<not> isl (tail_body z q s) \<Longrightarrow> tc_wf (tc (projr (tail_body z q s)))"
        by (cases "tail_body z q s") (simp_all add: b(2))
      then show "m \<noteq> Inl OutOfBounds" using body IH b(1) wf(2) by (auto split: if_splits)
    qed
  qed
  with assms show ?thesis by blast
qed

lemma tc_wf_lengths: "tc_wf t \<Longrightarrow> length (sq_tail t) = QUEUES \<and> length (cq_head t) = QUEUES"
  by (simp add: tc_wf_def)

lemma tail_in_bounds:
  assumes "tc_wf (tc s)" "q < QUEUES"
  shows "nvme_tc_tail_handler z q s \<noteq> Some (Inl OutOfBounds)"
proof -
  let ?t = "(tc s)\<lparr>sq_tail := (sq_tail (tc s))[q := ucast (regs (tc s) (DOORBELL_TAIL q))]\<rparr>"
  have "nvme_tc_tail_handler z q s = tail_loop z q (s\<lparr>tc := ?t\<rparr>)"
    using tc_wf_lengths [OF assms(1)] assms(2) by (simp add: nvme_tc_tail_handler_def)
  then show ?thesis using loop_in_bounds [of z q "s\<lparr>tc := ?t\<rparr>"] assms by auto
qed

lemma head_in_bounds:
  assumes "tc_wf (tc s)"
  shows "(tc_only (nvme_tc_head_handler q (tc s)) s = Some (Inl OutOfBounds)) = (q \<ge> QUEUES)"
  using tc_wf_lengths [OF assms] by (simp add: tc_only_def nvme_tc_head_handler_def set_res_def)

text \<open>C29: in every reachable state, a register write of the host makes the controller leave its queue arrays for exactly one
  register: the doorbell at 0x1010, which the loop over the I/O queues takes for a head doorbell of queue 2, although the
  arrays have two elements. All other registers are handled inside the arrays.\<close>

theorem doorbell_bounds:
  assumes "board_ok z" "rpu_reach z r (rpu_init z rs junk hm lm) s"
    and "\<forall>a \<in> {REG_CC r, REG_AQA r, REG_ASQ_0 r, REG_ASQ_1 r, REG_ACQ_0 r, REG_ACQ_1 r}. a < DOORBELL_BASE"
  shows "(reg_written z r reg s = Some (Inl OutOfBounds)) = (reg = 0x1010)"
proof -
  have wf: "tc_wf (tc s)" using reach_inv [OF assms(2,1) init_inv] by (rule rpu_inv_wf)
  have t: "nvme_tc_tail_handler z 0 s \<noteq> Some (Inl OutOfBounds)" "nvme_tc_tail_handler z (Suc 0) s \<noteq> Some (Inl OutOfBounds)"
    by (rule tail_in_bounds [OF wf]; simp add: spec_consts)+
  note h = head_in_bounds [OF wf]
  have q: "[0..<QUEUES] = [0, 1]" by (simp add: spec_consts upt_rec)
  show ?thesis
    unfolding reg_written_def q using assms(3) t h
    by (auto simp: tc_only_def [of "Inr _"] NVME_TC_REG_IO_TAIL_def NVME_TC_REG_IO_HEAD_def DOORBELL_TAIL_def DOORBELL_HEAD_def DOORBELL_REG_def spec_consts)
qed

theorem doorbell_bounds_witness:
  "reg_written ex_board ex_regs 0x1010 ex_rpu = Some (Inl OutOfBounds) \<and> reg_written ex_board ex_regs 0x100C ex_rpu \<noteq> Some (Inl OutOfBounds)"
proof -
  have "\<forall>a \<in> {REG_CC ex_regs, REG_AQA ex_regs, REG_ASQ_0 ex_regs, REG_ASQ_1 ex_regs, REG_ACQ_0 ex_regs, REG_ACQ_1 ex_regs}. a < DOORBELL_BASE"
    by (simp add: ex_regs_def spec_consts)
  from doorbell_bounds [OF ex_board_ok reach_init this] show ?thesis unfolding ex_rpu_def by simp
qed

end
