(* ===== verification/Rpu_Data.thy ===== *)
theory Rpu_Data
  imports Rpu_Safety
begin

text \<open>
  Data transfers of commands along physical region pages. A command names its first page, which may start inside the
  page, and either a second page or a list of pages. The reference is the sequence of pieces the NVMe specification
  prescribes; shown is that the transfers the code starts, executed by the DMA channel in order, move exactly these
  pieces, and that only the last one continues the command.
\<close>

section \<open>The reference\<close>

text \<open>Pieces of \<open>len\<close> bytes on whole pages, and with a first page that starts at an offset.\<close>

fun page_chunks :: "nat \<Rightarrow> u64 list \<Rightarrow> nat \<Rightarrow> (u64 \<times> nat) list" where
  "page_chunks p [] len = []"
| "page_chunks p (a # as) len = (if len \<le> p then [(a, len)] else (a, p) # page_chunks p as (len - p))"

definition prp_pieces :: "nat \<Rightarrow> u64 \<Rightarrow> u64 list \<Rightarrow> nat \<Rightarrow> (u64 \<times> nat) list" where
  "prp_pieces p a as len =
    (let first = p - unat a mod p in if len \<le> first then [(a, len)] else (a, first) # page_chunks p as (len - first))"

text \<open>Bytes written to the pieces, one after the other.\<close>

fun scatter :: "(u64 \<times> nat) list \<Rightarrow> bytes \<Rightarrow> host \<Rightarrow> host" where
  "scatter [] bs mem = mem"
| "scatter ((a, n) # cs) bs mem = scatter cs (drop n bs) (mem_write mem a (take n bs))"

section \<open>The transfers\<close>

fun piece_descs :: "cb \<Rightarrow> nat \<Rightarrow> u32 \<Rightarrow> (u64 \<times> nat) list \<Rightarrow> nvme_dma_xfer_def list" where
  "piece_descs f i l [] = []"
| "piece_descs f i l ((a, n) # cs) =
    \<lparr>xd_cb = (if cs = [] then Some (f, i) else None), host_addr = a, local_addr = Local l, xd_len = word_of_nat n, xd_tag = 0x55\<rparr> #
    piece_descs f i (l + word_of_nat n) cs"

lemma page_chunks_ne: "page_chunks p as len \<noteq> [] \<longleftrightarrow> as \<noteq> []"
  by (cases as) simp_all

text \<open>What one piece does when a descriptor is available.\<close>

definition sending :: "nat \<Rightarrow> cb \<Rightarrow> nvme_cmd_priv \<Rightarrow> rpu \<Rightarrow> bool" where
  "sending i f c s = (i < length (slots s) \<and> slots s ! i = Some c \<and> dir c = DIR_TO_HOST \<and> xfer_cb c = Some f)"

lemma chunk_sends:
  assumes "sending i f c s" "descs (dma s) < NVME_DMA_SLAB_ENTRIES" "n \<le> unat (xfer_len c)"
  shows "\<exists>s'. transfer_chunk i a (xfer_buf c) (word_of_nat n) s = Inr s' \<and>
    tx_fifo (dma s') = tx_fifo (dma s) @ [\<lparr>xd_cb = (if unat (xfer_len c) = n then Some (f, i) else None), host_addr = a,
      local_addr = Local (xfer_buf c), xd_len = word_of_nat n, xd_tag = 0x55\<rparr>] \<and>
    rx_fifo (dma s') = rx_fifo (dma s) \<and> descs (dma s') = descs (dma s) + 1 \<and>
    sending i f (c\<lparr>xfer_len := xfer_len c - word_of_nat n, xfer_buf := xfer_buf c + word_of_nat n\<rparr>) s' \<and>
    unat (xfer_len c - word_of_nat n) = unat (xfer_len c) - n \<and>
    tc s' = tc s \<and> prps s' = prps s \<and> prp_used s' = prp_used s \<and> lmem s' = lmem s \<and> hmem s' = hmem s"
proof -
  have n: "unat (word_of_nat n :: u32) = n"
    by (rule unat_word_of_nat_small) (use assms(3) unat_less_width [of "xfer_len c"] in simp)
  then have eq: "(xfer_len c = word_of_nat n) = (unat (xfer_len c) = n)" by (metis word_unat_eq_iff)
  have "(word_of_nat n :: u32) \<le> xfer_len c" using n assms(3) by (simp add: word_le_nat_alt)
  then have "unat (xfer_len c - word_of_nat n) = unat (xfer_len c) - n" using n by (simp add: unat_sub)
  then show ?thesis
    using assms(1,2) eq
    by (simp add: sending_def transfer_chunk_def slot_at_def Let_def nvme_dma_xfer_mem_to_host_def nvme_dma_xfer_fill_desc_def)
qed

lemma prp_loop_sends:
  assumes "sending i f c s" "0 < unat (xfer_len c)" "unat (xfer_len c) \<le> p * (m - n)" "memory_page_size (tc s) = p"
    and "m = prp_size c div 8" "m \<le> 512" "length (prps s ! k) = 512" "descs (dma s) + (m - n) \<le> NVME_DMA_SLAB_ENTRIES"
  shows "\<exists>s'. prp_loop i k n s = Inr s' \<and> hmem s' = hmem s \<and> lmem s' = lmem s \<and>
    tx_fifo (dma s') = tx_fifo (dma s) @ piece_descs f i (xfer_buf c) (page_chunks p (drop n (prps s ! k)) (unat (xfer_len c)))"
  using assms
proof (induction "m - n" arbitrary: n s c)
  case 0
  then show ?case by simp
next
  case (Suc d)
  let ?L = "unat (xfer_len c)" let ?es = "prps s ! k" let ?l = "if p > ?L then xfer_len c else word_of_nat p"
  have nm: "n < m" "n < 512" using Suc by auto
  have c: "slot_at i s = Inr c" using Suc.prems(1) by (simp add: sending_def)
  have room: "descs (dma s) < NVME_DMA_SLAB_ENTRIES" using Suc.prems(8) nm(1) by linarith
  have len: "xfer_len c \<noteq> 0" using Suc.prems(2) by auto
  have l: "?l = word_of_nat (min p ?L)" by (simp add: min_def)
  have drop: "drop n ?es = ?es ! n # drop (n + 1) ?es" using Suc.prems(7) nm by (simp add: Cons_nth_drop_Suc)
  obtain s' where s': "transfer_chunk i (?es ! n) (xfer_buf c) ?l s = Inr s'"
      "tx_fifo (dma s') = tx_fifo (dma s) @ [\<lparr>xd_cb = (if ?L = min p ?L then Some (f, i) else None), host_addr = ?es ! n,
        local_addr = Local (xfer_buf c), xd_len = word_of_nat (min p ?L), xd_tag = 0x55\<rparr>]"
      "descs (dma s') = descs (dma s) + 1"
      "sending i f (c\<lparr>xfer_len := xfer_len c - word_of_nat (min p ?L), xfer_buf := xfer_buf c + word_of_nat (min p ?L)\<rparr>) s'"
      "unat (xfer_len c - word_of_nat (min p ?L)) = ?L - min p ?L" "tc s' = tc s" "prps s' = prps s" "lmem s' = lmem s" "hmem s' = hmem s"
    using chunk_sends [OF Suc.prems(1) room, of "min p ?L" "?es ! n"] min.cobounded2 unfolding l by blast
  have "\<not> (n + 1 = m \<and> ?L > p)" using Suc.prems(3) by auto
  then have go: "prp_loop i k n s = prp_loop i k (n + 1) s'"
    using s'(1) len nm(2) Suc.prems(4,5) c
    by (subst prp_loop.simps) (auto simp: Let_def NVME_PRP_LIST_SIZE_def simp del: slot_at_eq_Inr)
  show ?case
  proof (cases "?L \<le> p")
    case True
    then have "prp_loop i k (n + 1) s' = Inr (s'\<lparr>prp_used := (prp_used s')[k := False]\<rparr>)"
      using s'(4,5) by (subst prp_loop.simps) (simp add: sending_def slot_at_def unat_eq_0 min_absorb2)
    then show ?thesis using go s'(2,8,9) True unfolding drop by (simp add: min_absorb2)
  next
    case False
    let ?c = "c\<lparr>xfer_len := xfer_len c - word_of_nat p, xfer_buf := xfer_buf c + word_of_nat p\<rparr>"
    have mp: "min p ?L = p" using False by simp
    have len': "unat (xfer_len ?c) = ?L - p" using s'(5) by (simp add: mp)
    have "?L \<le> p * (m - (n + 1)) + p" using Suc.prems(3) nm(1) by (metis Suc_diff_Suc add.commute mult_Suc_right Suc_eq_plus1)
    then have "n + 1 < m" using False by (cases "m = n + 1") (use nm in auto)
    then have "page_chunks p (drop (n + 1) ?es) (?L - p) \<noteq> []" using Suc.prems(6,7) by (simp add: page_chunks_ne)
    moreover have "\<exists>t. prp_loop i k (n + 1) s' = Inr t \<and> hmem t = hmem s' \<and> lmem t = lmem s' \<and>
        tx_fifo (dma t) = tx_fifo (dma s') @ piece_descs f i (xfer_buf ?c) (page_chunks p (drop (n + 1) (prps s' ! k)) (unat (xfer_len ?c)))"
    proof (rule Suc.hyps(1))
      show "d = m - (n + 1)" using Suc.hyps(2) by linarith
      show "sending i f ?c s'" using s'(4) by (simp add: mp)
      show "0 < unat (xfer_len ?c)" using len' False by simp
      show "unat (xfer_len ?c) \<le> p * (m - (n + 1))" using len' \<open>?L \<le> p * (m - (n + 1)) + p\<close> by linarith
      show "descs (dma s') + (m - (n + 1)) \<le> NVME_DMA_SLAB_ENTRIES" using s'(3) Suc.prems(8) nm(1) by linarith
    qed (use Suc.prems s'(6,7) in simp_all)
    ultimately show ?thesis using go s'(2,7,8,9) False len' unfolding drop by (auto simp: mp)
  qed
qed

section \<open>What the channel moves\<close>

definition total :: "(u64 \<times> nat) list \<Rightarrow> nat" where
  "total cs = sum_list (map snd cs)"

lemma total_page_chunks: "0 < p \<Longrightarrow> len \<le> p * length as \<Longrightarrow> as \<noteq> [] \<Longrightarrow> total (page_chunks p as len) = len"
proof (induction p as len rule: page_chunks.induct)
  case (2 p a as len)
  show ?case
  proof (cases "len \<le> p")
    case False
    then have "as \<noteq> []" "len - p \<le> p * length as" using 2(3) by auto
    then show ?thesis using 2(1) [OF False 2(2)] False by (simp add: total_def)
  qed (simp add: total_def)
qed simp

lemma ucast_add_small:
  assumes "unat (l :: u32) + n < 2 ^ 32"
  shows "ucast (l + word_of_nat n) = (ucast l + word_of_nat n :: u64)"
proof -
  have up: "unat (ucast w :: u64) = unat w" for w :: u32
    using unat_less_width [of w] by (simp add: unsigned_ucast_eq take_bit_nat_eq_self)
  have "unat (l + word_of_nat n) = unat l + n"
    using assms by (simp add: unat_word_ariths unat_word_of_nat_small)
  moreover have "unat (ucast l + word_of_nat n :: u64) = unat l + n"
    using assms by (simp add: unat_word_ariths up unat_word_of_nat_small)
  ultimately show ?thesis by (simp add: word_unat_eq_iff up)
qed

lemma pieces_scatter:
  assumes "unat l + total cs < 2 ^ 32"
  shows "\<exists>t. fold_res hw_write (piece_descs f i l cs) s = Inr t \<and> lmem t = lmem s \<and>
    hmem t = scatter cs (mem_read (lmem s) (ucast l) (total cs)) (hmem s)"
  using assms
proof (induction f i l cs arbitrary: s rule: piece_descs.induct)
  case (2 f i l a n cs)
  have n: "unat (word_of_nat n :: u32) = n" by (rule unat_word_of_nat_small) (use 2(2) in \<open>simp add: total_def\<close>)
  let ?s = "s\<lparr>hmem := mem_write (hmem s) a (mem_read (lmem s) (ucast l) n)\<rparr>"
  have l: "unat (l + word_of_nat n) = unat l + n" "ucast (l + word_of_nat n) = (ucast l + word_of_nat n :: u64)"
    using 2(2) ucast_add_small [of l n] by (simp_all add: total_def unat_word_ariths n)
  obtain t where "fold_res hw_write (piece_descs f i (l + word_of_nat n) cs) ?s = Inr t" "lmem t = lmem s"
      "hmem t = scatter cs (mem_read (lmem s) (ucast l + word_of_nat n) (total cs)) (hmem ?s)"
    using 2(1) [of ?s] 2(2) l by (auto simp: total_def)
  moreover have "take n (mem_read (lmem s) (ucast l) (n + total cs)) = mem_read (lmem s) (ucast l) n"
      "drop n (mem_read (lmem s) (ucast l) (n + total cs)) = mem_read (lmem s) (ucast l + word_of_nat n) (total cs)"
    by (rule nth_equalityI; simp add: mem_read_def add.assoc)+
  moreover have "hw_write \<lparr>xd_cb = k, host_addr = a, local_addr = Local l, xd_len = word_of_nat n, xd_tag = 0x55\<rparr> s = Inr ?s" for k
    by (simp add: hw_write_def n)
  ultimately show ?case by (simp add: total_def)
qed (simp add: total_def mem_read_def)

lemma length_piece_descs [simp]: "length (piece_descs f i l cs) = length cs"
  by (induction f i l cs rule: piece_descs.induct) simp_all

text \<open>Only the last transfer continues the command.\<close>

lemma pieces_callbacks: "cs \<noteq> [] \<Longrightarrow> map xd_cb (piece_descs f i l cs) = replicate (length cs - 1) None @ [Some (f, i)]"
  by (induction f i l cs rule: piece_descs.induct) (auto simp: neq_Nil_conv)

section \<open>Whole transfers\<close>

text \<open>The arrival of the page list that was asked for last: its entries are stored and the command continues.\<close>

definition list_arrives :: "u64 list \<Rightarrow> rpu \<Rightarrow> rpu res" where
  "list_arrives es s = (case rev (rx_fifo (dma s)) of [] \<Rightarrow> Inr s
     | x # _ \<Rightarrow> (case (local_addr x, xd_cb x) of
         (Prp_list k, Some (Prp_cb, i)) \<Rightarrow> prp_cb i k (s\<lparr>prps := (prps s)[k := es]\<rparr>)
       | _ \<Rightarrow> Inr s))"

text \<open>A transfer to the host from its start until all its pieces are queued; \<open>es\<close> is the page list if one is needed.\<close>

definition send_data :: "board \<Rightarrow> nat \<Rightarrow> u64 list \<Rightarrow> rpu \<Rightarrow> rpu res" where
  "send_data z i es s =
    res_bind (transfer_data_with_prps z i s) (\<lambda>s'. if rx_fifo (dma s') = rx_fifo (dma s) then Inr s' else list_arrives es s')"

definition slab_ready :: "rpu \<Rightarrow> bool" where
  "slab_ready s = (length (prps s) = length (prp_used s) \<and> slab_free (prp_used s) \<noteq> [])"

text \<open>The size of the list: one entry per page, when the list does not cross a page.\<close>

lemma list_size:
  assumes "0 < p" "0 < unat len" "unat len + p - 1 < 2 ^ 32" "8 * ((unat len + p - 1) div p) \<le> p - unat a mod p" "p \<le> 4096"
  defines "m \<equiv> (unat len + p - 1) div p"
  shows "calc_prp_size a p len = 8 * m" "m \<le> 512" "unat len \<le> p * m"
proof -
  show "calc_prp_size a p len = 8 * m"
    using assms(3,4) by (auto simp: calc_prp_size_def m_def Let_def)
  show "m \<le> 512" using assms(4,5) by (simp add: m_def)
  have "unat len + p - 1 < p + p * m" unfolding m_def by (rule dividend_less_times_div [OF assms(1)])
  then show "unat len \<le> p * m" by linarith
qed

text \<open>The first piece and what follows it.\<close>

lemma transfer_first:
  assumes c: "sending i f c s" "memory_page_size (tc s) = p" "0 < p" and room: "descs (dma s) < NVME_DMA_SLAB_ENTRIES"
  defines "first \<equiv> p - unat (prp1 c) mod p" and "L \<equiv> unat (xfer_len c)"
  shows "\<exists>s1 c1. sending i f c1 s1 \<and> unat (xfer_len c1) = L - min first L \<and> xfer_buf c1 = xfer_buf c + word_of_nat (min first L) \<and>
    tx_fifo (dma s1) = tx_fifo (dma s) @ [\<lparr>xd_cb = (if L \<le> first then Some (f, i) else None), host_addr = prp1 c,
      local_addr = Local (xfer_buf c), xd_len = word_of_nat (min first L), xd_tag = 0x55\<rparr>] \<and>
    rx_fifo (dma s1) = rx_fifo (dma s) \<and> descs (dma s1) = descs (dma s) + 1 \<and> tc s1 = tc s \<and> prps s1 = prps s \<and>
    prp_used s1 = prp_used s \<and> lmem s1 = lmem s \<and> hmem s1 = hmem s \<and>
    transfer_data_with_prps z i s =
      (if L \<le> first then Inr s1
       else if p < L - first then
         (let k = slab_pick z (slab_free (prp_used s)); sz = calc_prp_size (prp2 c) p (xfer_len c1) in
          if slab_free (prp_used s) \<noteq> [] then
            Inr (nvme_dma_xfer_host_to_mem (prp2 c) (Prp_list k) (word_of_nat sz) (Some (Prp_cb, i))
              (slot_set i (c1\<lparr>prp_size := sz\<rparr>) (s1\<lparr>prp_used := (prp_used s)[k := True]\<rparr>)))
          else nvme_cmd_return i s1)
       else transfer_chunk i (prp2 c) (xfer_buf c1) (xfer_len c1) s1)"
proof -
  let ?n = "min first L"
  have pre: "?n \<le> unat (xfer_len c)" by (simp add: L_def)
  define c1 where "c1 = c\<lparr>xfer_len := xfer_len c - word_of_nat ?n, xfer_buf := xfer_buf c + word_of_nat ?n\<rparr>"
  obtain s1 where s1: "transfer_chunk i (prp1 c) (xfer_buf c) (word_of_nat ?n) s = Inr s1"
      "tx_fifo (dma s1) = tx_fifo (dma s) @ [\<lparr>xd_cb = (if L = ?n then Some (f, i) else None), host_addr = prp1 c,
        local_addr = Local (xfer_buf c), xd_len = word_of_nat ?n, xd_tag = 0x55\<rparr>]"
      "rx_fifo (dma s1) = rx_fifo (dma s)" "descs (dma s1) = descs (dma s) + 1" "sending i f c1 s1"
      "unat (xfer_len c - word_of_nat ?n) = L - ?n" "tc s1 = tc s" "prps s1 = prps s" "prp_used s1 = prp_used s" "lmem s1 = lmem s" "hmem s1 = hmem s"
    using chunk_sends [OF c(1) room pre, of "prp1 c", folded L_def c1_def] by blast
  have len1: "unat (xfer_len c1) = L - ?n" using s1(6) by (simp add: c1_def)
  then have z: "(xfer_len c1 = 0) = (L \<le> first)" by (simp add: unat_eq_0 [symmetric] del: unat_eq_0)
  have l: "(if first > L then xfer_len c else word_of_nat first) = word_of_nat ?n" by (simp add: L_def min_def)
  have m: "mod_res (unat (prp1 c)) p = Inr (unat (prp1 c) mod p)" using c(3) by simp
  have s0: "slot_at i s = Inr c" "slot_at i s1 = Inr c1" using c(1) s1(5) by (simp_all add: sending_def)
  have prp: "prp2 c1 = prp2 c" by (simp add: prp2_def sq_dw64_def c1_def)
  have eq: "transfer_data_with_prps z i s =
    (if xfer_len c1 = 0 then Inr s1
     else if unat (xfer_len c1) > p then
       (let free = slab_free (prp_used s1) in
        if free \<noteq> [] then
          let k = slab_pick z free; sz = calc_prp_size (prp2 c1) p (xfer_len c1) in
          Inr (nvme_dma_xfer_host_to_mem (prp2 c1) (Prp_list k) (word_of_nat sz) (Some (Prp_cb, i))
            (slot_set i (c1\<lparr>prp_size := sz\<rparr>) (s1\<lparr>prp_used := (prp_used s1)[k := True]\<rparr>)))
        else nvme_cmd_return i s1)
     else transfer_chunk i (prp2 c1) (xfer_buf c1) (xfer_len c1) s1)"
    unfolding transfer_data_with_prps_def s0(1) res_bind_Inr Let_def c(2) m first_def [symmetric] L_def [symmetric] l s1(1) s0(2) ..
  have "(L = ?n) = (L \<le> first)" by auto
  then have "tx_fifo (dma s1) = tx_fifo (dma s) @ [\<lparr>xd_cb = (if L \<le> first then Some (f, i) else None), host_addr = prp1 c,
        local_addr = Local (xfer_buf c), xd_len = word_of_nat ?n, xd_tag = 0x55\<rparr>]" using s1(2) by simp
  moreover have "xfer_buf c1 = xfer_buf c + word_of_nat ?n" by (simp add: c1_def)
  moreover have "\<not> L \<le> first \<Longrightarrow> unat (xfer_len c1) = L - first" using len1 by simp
  ultimately show ?thesis
    using s1(3-5,7-11) len1 eq z prp by (intro exI [of _ s1] exI [of _ c1]) (auto simp: Let_def)
qed

lemma send_small:
  assumes c: "sending i f c s" "memory_page_size (tc s) = p" "0 < p" and room: "descs (dma s) + 2 \<le> NVME_DMA_SLAB_ENTRIES"
    and small: "unat (xfer_len c) \<le> p - unat (prp1 c) mod p + p"
  shows "\<exists>s'. send_data z i es s = Inr s' \<and> hmem s' = hmem s \<and> lmem s' = lmem s \<and>
      tx_fifo (dma s') = tx_fifo (dma s) @ piece_descs f i (xfer_buf c) (prp_pieces p (prp1 c) [prp2 c] (unat (xfer_len c)))"
proof -
  define first L where "first = p - unat (prp1 c) mod p" and "L = unat (xfer_len c)"
  have room1: "descs (dma s) < NVME_DMA_SLAB_ENTRIES" using room by simp
  note t = transfer_first [OF c room1, of z, folded first_def L_def]
  obtain s1 c1 where s1: "sending i f c1 s1" "unat (xfer_len c1) = L - min first L" "xfer_buf c1 = xfer_buf c + word_of_nat (min first L)"
      "tx_fifo (dma s1) = tx_fifo (dma s) @ [\<lparr>xd_cb = (if L \<le> first then Some (f, i) else None), host_addr = prp1 c,
        local_addr = Local (xfer_buf c), xd_len = word_of_nat (min first L), xd_tag = 0x55\<rparr>]"
      "rx_fifo (dma s1) = rx_fifo (dma s)" "descs (dma s1) = descs (dma s) + 1" "lmem s1 = lmem s" "hmem s1 = hmem s"
    and run: "transfer_data_with_prps z i s =
      (if L \<le> first then Inr s1
       else if p < L - first then
         (let k = slab_pick z (slab_free (prp_used s)); sz = calc_prp_size (prp2 c) p (xfer_len c1) in
          if slab_free (prp_used s) \<noteq> [] then
            Inr (nvme_dma_xfer_host_to_mem (prp2 c) (Prp_list k) (word_of_nat sz) (Some (Prp_cb, i))
              (slot_set i (c1\<lparr>prp_size := sz\<rparr>) (s1\<lparr>prp_used := (prp_used s)[k := True]\<rparr>)))
          else nvme_cmd_return i s1)
       else transfer_chunk i (prp2 c) (xfer_buf c1) (xfer_len c1) s1)"
    using t by blast
  have run: "transfer_data_with_prps z i s = (if L \<le> first then Inr s1 else transfer_chunk i (prp2 c) (xfer_buf c1) (xfer_len c1) s1)"
    unfolding run using small [folded first_def L_def] by auto
  have "prp_pieces p (prp1 c) [prp2 c] L = (if L \<le> first then [(prp1 c, L)] else [(prp1 c, first), (prp2 c, L - first)])"
    using small [folded first_def L_def] by (auto simp: prp_pieces_def Let_def first_def [symmetric])
  moreover have "\<exists>s2. transfer_chunk i (prp2 c) (xfer_buf c1) (xfer_len c1) s1 = Inr s2 \<and> rx_fifo (dma s2) = rx_fifo (dma s1) \<and>
      lmem s2 = lmem s1 \<and> hmem s2 = hmem s1 \<and> tx_fifo (dma s2) = tx_fifo (dma s1) @ [\<lparr>xd_cb = Some (f, i), host_addr = prp2 c,
        local_addr = Local (xfer_buf c1), xd_len = word_of_nat (L - first), xd_tag = 0x55\<rparr>]" if "\<not> L \<le> first"
  proof -
    have "unat (xfer_len c1) = L - first" using that s1(2) by simp
    moreover from this have "word_of_nat (L - first) = xfer_len c1" by (metis of_nat_unat ucast_id)
    moreover have "descs (dma s1) < NVME_DMA_SLAB_ENTRIES" using s1(6) room by simp
    ultimately show ?thesis using chunk_sends [OF s1(1), of "L - first" "prp2 c"] by auto
  qed
  ultimately show ?thesis
    unfolding L_def [symmetric] using s1(3-5,7,8) run by (cases "L \<le> first") (auto simp: send_data_def min_def)
qed

lemma send_large:
  assumes c: "sending i f c s" "memory_page_size (tc s) = p" "0 < p" "p \<le> 4096" and room: "descs (dma s) + 515 \<le> NVME_DMA_SLAB_ENTRIES"
    and ok: "board_ok z" "slab_ready s" "length es = 512"
  defines "first \<equiv> p - unat (prp1 c) mod p" and "L \<equiv> unat (xfer_len c)"
  assumes big: "first + p < L" "L + p < 2 ^ 32" and fits: "8 * ((L - first + p - 1) div p) \<le> p - unat (prp2 c) mod p"
  shows "\<exists>s'. send_data z i es s = Inr s' \<and> hmem s' = hmem s \<and> lmem s' = lmem s \<and>
        tx_fifo (dma s') = tx_fifo (dma s) @ piece_descs f i (xfer_buf c) (prp_pieces p (prp1 c) es L)"
proof -
  have room1: "descs (dma s) < NVME_DMA_SLAB_ENTRIES" using room by simp
  let ?k = "slab_pick z (slab_free (prp_used s))"
  have free: "slab_free (prp_used s) \<noteq> []" using ok(2) by (simp add: slab_ready_def)
  then have "?k \<in> set (slab_free (prp_used s))" using ok(1) by (simp add: board_ok_def)
  then have k: "?k < length (prps s)" using ok(2) by (simp add: slab_ready_def slab_free_def)
  have not: "\<not> L \<le> first" "p < L - first" "min first L = first" using big c(3) by (auto simp: first_def)
  obtain s1 c1 where s1: "sending i f c1 s1" "unat (xfer_len c1) = L - first" "xfer_buf c1 = xfer_buf c + word_of_nat first"
      "tx_fifo (dma s1) = tx_fifo (dma s) @ [\<lparr>xd_cb = None, host_addr = prp1 c, local_addr = Local (xfer_buf c), xd_len = word_of_nat first, xd_tag = 0x55\<rparr>]"
      "rx_fifo (dma s1) = rx_fifo (dma s)" "descs (dma s1) = descs (dma s) + 1" "tc s1 = tc s" "prps s1 = prps s" "lmem s1 = lmem s" "hmem s1 = hmem s"
    and tr: "transfer_data_with_prps z i s =
      (if L \<le> first then Inr s1
       else if p < L - first then
         (let k = slab_pick z (slab_free (prp_used s)); sz = calc_prp_size (prp2 c) p (xfer_len c1) in
          if slab_free (prp_used s) \<noteq> [] then
            Inr (nvme_dma_xfer_host_to_mem (prp2 c) (Prp_list k) (word_of_nat sz) (Some (Prp_cb, i))
              (slot_set i (c1\<lparr>prp_size := sz\<rparr>) (s1\<lparr>prp_used := (prp_used s)[k := True]\<rparr>)))
          else nvme_cmd_return i s1)
       else transfer_chunk i (prp2 c) (xfer_buf c1) (xfer_len c1) s1)"
    using transfer_first [OF c(1-3) room1, of z, folded first_def L_def] unfolding not(3) if_not_P [OF not(1)] by blast
  let ?m = "(L - first + p - 1) div p"
  have m: "calc_prp_size (prp2 c) p (xfer_len c1) = 8 * ?m" "?m \<le> 512" "L - first \<le> p * ?m"
    using list_size [of p "xfer_len c1" "prp2 c"] c(3,4) big fits unfolding s1(2) by auto
  let ?c2 = "c1\<lparr>prp_size := 8 * ?m\<rparr>"
  define s2 where "s2 = nvme_dma_xfer_host_to_mem (prp2 c) (Prp_list ?k) (word_of_nat (8 * ?m)) (Some (Prp_cb, i))
      (slot_set i ?c2 (s1\<lparr>prp_used := (prp_used s)[?k := True]\<rparr>))"
  have run: "transfer_data_with_prps z i s = Inr s2" unfolding tr s2_def m(1) [symmetric] using not free by (simp add: Let_def)
  have roomy: "descs (dma s1) < NVME_DMA_SLAB_ENTRIES" using s1(6) room by simp
  have s2: "rx_fifo (dma s2) = rx_fifo (dma s) @ [\<lparr>xd_cb = Some (Prp_cb, i), host_addr = prp2 c, local_addr = Prp_list ?k,
        xd_len = word_of_nat (8 * ?m), xd_tag = 0xAA\<rparr>]" "tx_fifo (dma s2) = tx_fifo (dma s1)" "descs (dma s2) = descs (dma s) + 2"
      "lmem s2 = lmem s" "hmem s2 = hmem s" "tc s2 = tc s" "prps s2 = prps s" "sending i f ?c2 s2"
    using roomy s1 by (simp_all add: s2_def nvme_dma_xfer_host_to_mem_def nvme_dma_xfer_fill_desc_def Let_def sending_def)
  let ?s3 = "s2\<lparr>prps := (prps s2)[?k := es]\<rparr>"
  have "\<exists>s'. prp_loop i ?k 0 ?s3 = Inr s' \<and> hmem s' = hmem ?s3 \<and> lmem s' = lmem ?s3 \<and>
      tx_fifo (dma s') = tx_fifo (dma ?s3) @ piece_descs f i (xfer_buf ?c2) (page_chunks p (drop 0 (prps ?s3 ! ?k)) (unat (xfer_len ?c2)))"
  proof (rule prp_loop_sends [where m = ?m])
    show "sending i f ?c2 ?s3" using s2(8) by (simp add: sending_def)
    show "0 < unat (xfer_len ?c2)" "unat (xfer_len ?c2) \<le> p * (?m - 0)" using s1(2) big m(3) by simp_all
    show "descs (dma ?s3) + (?m - 0) \<le> NVME_DMA_SLAB_ENTRIES" using s2(3) room m(2) by simp
    show "length (prps ?s3 ! ?k) = 512" using s2(7) k ok(3) by simp
  qed (use s2(6) c(2) m(2) in simp_all)
  moreover have "send_data z i es s = prp_loop i ?k 0 ?s3"
    by (simp add: send_data_def run s2(1) list_arrives_def prp_cb_def)
  moreover have "prp_pieces p (prp1 c) es L = (prp1 c, first) # page_chunks p es (L - first)"
    using not(1) by (simp add: prp_pieces_def Let_def first_def)
  moreover have "page_chunks p es (L - first) \<noteq> []" using ok(3) by (auto simp: page_chunks_ne)
  ultimately show ?thesis using s1(2-4) s2(2,4,5,7) k by auto
qed

lemma total_pieces:
  assumes "0 < p" "as \<noteq> []" "len \<le> p - unat a mod p + p * length as"
  shows "total (prp_pieces p a as len) = len"
proof (cases "len \<le> p - unat a mod p")
  case True
  then show ?thesis by (simp add: prp_pieces_def total_def)
next
  case False
  moreover have "total (page_chunks p as (len - (p - unat a mod p))) = len - (p - unat a mod p)"
  proof (rule total_page_chunks [OF assms(1) _ assms(2)])
    show "len - (p - unat a mod p) \<le> p * length as" using assms(3) by linarith
  qed
  ultimately show ?thesis by (simp add: prp_pieces_def total_def Let_def)
qed

text \<open>C26: data that a command returns is cut into pieces exactly as the specification of physical region pages prescribes:
  executing the transfers in the order they are queued writes the local bytes to the first page from its offset on and
  then page by page to the second page or to the pages of the list, and only the last transfer continues the command. The
  list is one that lies in a single page; its entries are fetched in one transfer.\<close>

theorem transfer_follows_pages:
  assumes "sending i f c s" "memory_page_size (tc s) = p" "0 < p" "p \<le> 4096" "descs (dma s) + 515 \<le> NVME_DMA_SLAB_ENTRIES"
    and "board_ok z" "slab_ready s" "length es = 512"
  defines "first \<equiv> p - unat (prp1 c) mod p" and "L \<equiv> unat (xfer_len c)"
  assumes "unat (xfer_buf c) + L < 2 ^ 32" "L + p < 2 ^ 32"
    and "L \<le> first + p \<or> 8 * ((L - first + p - 1) div p) \<le> p - unat (prp2 c) mod p"
  shows "\<exists>s' ds t. send_data z i es s = Inr s' \<and> tx_fifo (dma s') = tx_fifo (dma s) @ ds \<and>
    map xd_cb ds = replicate (length ds - 1) None @ [Some (f, i)] \<and> fold_res hw_write ds s' = Inr t \<and>
    hmem t = scatter (prp_pieces p (prp1 c) (if L \<le> first + p then [prp2 c] else es) L) (mem_read (lmem s) (ucast (xfer_buf c)) L) (hmem s)"
proof -
  define as where "as = (if L \<le> first + p then [prp2 c] else es)"
  let ?cs = "prp_pieces p (prp1 c) as L"
  obtain s' where s': "send_data z i es s = Inr s'" "hmem s' = hmem s" "lmem s' = lmem s"
      "tx_fifo (dma s') = tx_fifo (dma s) @ piece_descs f i (xfer_buf c) ?cs"
  proof (cases "L \<le> first + p")
    case True
    have "descs (dma s) + 2 \<le> NVME_DMA_SLAB_ENTRIES" using assms(5) by simp
    then show ?thesis using send_small [OF assms(1-3), of z es] True that by (auto simp: as_def first_def L_def)
  next
    case False
    then show ?thesis
      using send_large [OF assms(1-8)] assms(12,13) that unfolding as_def first_def L_def by auto
  qed
  have "as \<noteq> []" "L \<le> first + p * length as"
  proof -
    show "as \<noteq> []" using assms(8) by (auto simp: as_def)
    have "L \<le> first + p * 512" if "\<not> L \<le> first + p"
    proof -
      have "8 * ((L - first + p - 1) div p) \<le> 4096" using assms(4,13) that by linarith
      then have "(L - first + p - 1) div p < 513" by linarith
      then have "L - first + p - 1 < 513 * p" using assms(3) by (simp add: div_less_iff_less_mult)
      then show ?thesis by linarith
    qed
    then show "L \<le> first + p * length as" using assms(8) by (simp add: as_def)
  qed
  then have tot: "total ?cs = L" using total_pieces [OF assms(3)] by (simp add: first_def)
  obtain t where t: "fold_res hw_write (piece_descs f i (xfer_buf c) ?cs) s' = Inr t"
      "hmem t = scatter ?cs (mem_read (lmem s) (ucast (xfer_buf c)) L) (hmem s)"
    using pieces_scatter [of "xfer_buf c" ?cs f i s'] assms(11) s'(2,3) unfolding tot by auto
  have "?cs \<noteq> []" by (simp add: prp_pieces_def Let_def)
  then have cb: "map xd_cb (piece_descs f i (xfer_buf c) ?cs) = replicate (length (piece_descs f i (xfer_buf c) ?cs) - 1) None @ [Some (f, i)]"
    by (simp add: pieces_callbacks)
  show ?thesis
    unfolding as_def [symmetric]
    by (rule exI [of _ s'], rule exI [of _ "piece_descs f i (xfer_buf c) ?cs"], rule exI [of _ t], intro conjI s'(1,4) cb t)
qed

definition ex_read :: nvme_cmd_priv where
  "ex_read = (new_cmd 1)\<lparr>dir := DIR_TO_HOST, xfer_buf := 0x68000000, xfer_len := 12000, xfer_cb := Some Nvme_cmd_return_cb,
     sq_buf := [0, 0, 0, 0, 0, 0, 0x2400, 0, 0x8000, 0, 0, 0, 0, 0, 0, 0]\<rparr>"

definition ex_transfer :: rpu where
  "ex_transfer = ex_rpu\<lparr>tc := (tc ex_rpu)\<lparr>memory_page_size := 4096\<rparr>, slots := (slots ex_rpu)[0 := Some ex_read]\<rparr>"

theorem transfer_follows_pages_witness:
  "\<exists>s' ds t. send_data ex_board 0 (0x9000 # 0xB000 # 0xA000 # replicate 509 0) ex_transfer = Inr s' \<and> tx_fifo (dma s') = ds \<and>
    fold_res hw_write ds s' = Inr t \<and>
    hmem t = scatter [(0x2400, 3072), (0x9000, 4096), (0xB000, 4096), (0xA000, 736)] (mem_read (lmem ex_transfer) 0x68000000 12000) (hmem ex_transfer)"
proof -
  have c: "sending 0 Nvme_cmd_return_cb ex_read ex_transfer"
    by (simp add: sending_def ex_transfer_def ex_read_def ex_rpu_def rpu_init_def spec_consts)
  have s: "memory_page_size (tc ex_transfer) = 4096" "descs (dma ex_transfer) + 515 \<le> NVME_DMA_SLAB_ENTRIES" "tx_fifo (dma ex_transfer) = []"
    by (simp_all add: ex_transfer_def ex_rpu_def rpu_init_def nvme_dma_init_def spec_consts)
  have "0 \<in> set (slab_free (prp_used ex_transfer))"
    by (simp add: slab_free_def ex_transfer_def ex_rpu_def rpu_init_def spec_consts)
  then have r: "slab_ready ex_transfer"
    by (auto simp: slab_ready_def ex_transfer_def ex_rpu_def rpu_init_def spec_consts)
  have p: "prp1 ex_read = 0x2400" "prp2 ex_read = 0x8000" "unat (xfer_len ex_read) = 12000" "xfer_buf ex_read = 0x68000000"
    by (simp_all add: prp1_def prp2_def sq_dw64_def ex_read_def)
  show ?thesis
    using transfer_follows_pages [OF c s(1) _ _ s(2) ex_board_ok r, of "0x9000 # 0xB000 # 0xA000 # replicate 509 0"] s(3)
    unfolding p by (auto simp: prp_pieces_def Let_def)
qed

section \<open>Vendor commands without a direction\<close>

lemma small_fetch:
  assumes "i < length (slots s)" "slots s ! i = Some c" "dir c = DIR_FROM_HOST" "xfer_cb c = Some f" "descs (dma s) < NVME_DMA_SLAB_ENTRIES"
    and "memory_page_size (tc s) = p" "0 < p" "unat (xfer_len c) < p - unat (prp1 c) mod p"
  shows "\<exists>s'. transfer_data_with_prps z i s = Inr s' \<and> rx_fifo (dma s') = rx_fifo (dma s) @
    [\<lparr>xd_cb = Some (f, i), host_addr = prp1 c, local_addr = Local (xfer_buf c), xd_len = xfer_len c, xd_tag = 0xAA\<rparr>]"
  using assms
  by (simp add: transfer_data_with_prps_def slot_at_def Let_def mod_res_def transfer_chunk_def nvme_dma_xfer_host_to_mem_def nvme_dma_xfer_fill_desc_def)

text \<open>A firmware commit, whose opcode asks for no data transfer, is treated like a vendor command whose word 10 is a length.
  A commit with any slot or action in that word makes the controller copy that many words from the host address in the
  data pointer to local address zero, because no buffer was allocated.\<close>

lemma firmware_commit_overwrites_zero:
  assumes "i < length (slots s)" "slots s ! i = Some c" "sq_opc c = 0x10" "sq_psdt c = 0" "block c = 0"
    and "0 < unat (sq_buf c ! 10)" "4 * unat (sq_buf c ! 10) < p - unat (prp1 c) mod p" "p \<le> 4096"
    and "memory_page_size (tc s) = p" "descs (dma s) < NVME_DMA_SLAB_ENTRIES"
  shows "\<exists>s'. handle_adm z i s = Inr s' \<and> rx_fifo (dma s') = rx_fifo (dma s) @
    [\<lparr>xd_cb = Some (Vendor_cb, i), host_addr = prp1 c, local_addr = Local 0, xd_len = sq_buf c ! 10 * 4, xd_tag = 0xAA\<rparr>]"
proof -
  let ?n = "sq_buf c ! 10 * 4"
  have u: "unat ?n = 4 * unat (sq_buf c ! 10)" using assms(7,8) by (simp add: unat_word_ariths)
  then have "?n \<noteq> 0" using assms(6) by auto
  then have nz: "sint ?n \<noteq> 0" by (simp add: signed_eq_0_iff)
  have r: "word_of_int (sint ?n) = ?n" by simp
  let ?c = "c\<lparr>xfer_base := 0, xfer_buf := 0, xfer_size := ?n, xfer_len := ?n, dir := DIR_FROM_HOST, xfer_cb := Some Vendor_cb\<rparr>"
  let ?s = "slot_set i ?c (slot_set i c s)"
  have "\<exists>s'. transfer_data_with_prps z i ?s = Inr s' \<and> rx_fifo (dma s') = rx_fifo (dma ?s) @
    [\<lparr>xd_cb = Some (Vendor_cb, i), host_addr = prp1 ?c, local_addr = Local (xfer_buf ?c), xd_len = xfer_len ?c, xd_tag = 0xAA\<rparr>]"
    by (rule small_fetch) (use assms u in \<open>simp_all add: prp1_def sq_dw64_def\<close>)
  moreover have "prp1 ?c = prp1 c" "sq_psdt ?c = 0" using assms(4) by (simp_all add: prp1_def sq_dw64_def sq_psdt_def)
  moreover have "nvme_cmd_vendor z i False s = res_bind (nvme_cmd_transfer_data z i ?s) (\<lambda>(bad, s). Inr s)"
    using assms(1-3,5) nz r
    by (simp add: nvme_cmd_vendor_def slot_at_def vendor_start_def start_xfer_def spec_consts Let_def)
  moreover have "handle_adm z i s = nvme_cmd_vendor z i False s" using assms(1-3) by (simp add: handle_adm_def slot_at_def)
  ultimately show ?thesis using assms(1) by (auto simp: nvme_cmd_transfer_data_def slot_at_def)
qed

definition ex_commit :: rpu where
  "ex_commit = ex_rpu\<lparr>tc := (tc ex_rpu)\<lparr>memory_page_size := 4096\<rparr>,
     slots := (slots ex_rpu)[3 := Some ((new_cmd 0)\<lparr>sq_buf := [0x10, 0, 0, 0, 0, 0, 0x5000, 0, 0, 0, 9, 0, 0, 0, 0, 0]\<rparr>)]\<rparr>"

end
