(* ===== verification/Apu_Jobs.thy ===== *)
theory Apu_Jobs
  imports Apu_Cmds
begin

text \<open>
  Sequences of commands: a firmware image downloaded in pieces, committed and flashed; a job whose firmware,
  ranges and start are sent by commands and that a thread then runs; and the faults a sequence of commands can
  provoke. The host and the real-time processor fill the buffers of a message before it is sent, so a sequence
  of downloads comes with the memory each message finds.
\<close>

section \<open>Firmware download\<close>

definition handle_download :: "env \<Rightarrow> mtd \<Rightarrow> payload \<times> host \<Rightarrow> apu \<Rightarrow> apu res" where
  "handle_download e d x s = handle_msg e d (fst x) (s\<lparr>phys := snd x\<rparr>)"

text \<open>The messages carry the pieces \<open>cs\<close> to consecutive offsets, starting at \<open>off\<close>.\<close>

fun carries :: "env \<Rightarrow> nat \<Rightarrow> (payload \<times> host) list \<Rightarrow> bytes list \<Rightarrow> bool" where
  "carries e off [] [] = True"
| "carries e off (x # xs) (c # cs) =
    (pl_id (fst x) = PAYLOAD_ADM_CMD \<and> opc (fst x) = CMD_ADM_FW_DOWNLOAD \<and> pl_buf_len (fst x) > 0 \<and>
     mmap_ok e (pl_buf (fst x)) (pl_buf_len (fst x)) \<and> length c \<le> unat (pl_buf_len (fst x)) \<and>
     4 * unat (cdw 11 (fst x)) = off \<and> 4 * unat (cdw 10 (fst x)) = length c \<and>
     mem_read (snd x) (ucast (pl_buf (fst x))) (length c) = c \<and> carries e (off + length c) xs cs)"
| "carries e off _ _ = False"

lemma unat_times_4: "4 * unat (w :: u32) < 2 ^ 32 \<Longrightarrow> unat (w * 4) = 4 * unat w"
  by (simp add: unat_word_ariths mult.commute)

lemma download_one:
  assumes c: "carries e off [x] [c]" and b: "off + length c < 2 ^ 32" "off \<le> length (fw_buffer s)"
  shows "\<exists>s'. handle_download e d x s = Inr s' \<and> fw_buffer s' = take off (fw_buffer s) @ c @ drop (off + length c) (fw_buffer s) \<and>
    flash s' = flash s \<and> fw_thread s' = fw_thread s"
proof -
  let ?m = "fst x" let ?s = "s\<lparr>phys := snd x\<rparr>"
  have u: "unat (cdw 10 ?m * 4) = length c" "unat (cdw 11 ?m * 4) = off"
    using c b by (simp_all add: unat_times_4)
  have "4 * (unat (cdw 11 ?m) + unat (cdw 10 ?m)) < 2 ^ 32" using c b by simp
  moreover from this have "unat (cdw 11 ?m + cdw 10 ?m) = unat (cdw 11 ?m) + unat (cdw 10 ?m)"
    by (simp add: unat_word_ariths)
  ultimately have n: "unat ((cdw 11 ?m + cdw 10 ?m) * 4) = off + length c"
    using c unat_times_4 [of "cdw 11 ?m + cdw 10 ?m"] by simp
  have r: "buf_read (Some (ucast (pl_buf ?m))) (pl_buf_len ?m) (length c) (snd x) = Inr c"
    using c by (simp add: buf_read_def)
  let ?f = "if length (fw_buffer s) < off + length c then resize (off + length c) (fw_buffer s) else fw_buffer s"
  have f: "overwrite off c ?f = take off (fw_buffer s) @ c @ drop (off + length c) (fw_buffer s)"
    using b(2) by (simp add: overwrite_def resize_def)
  have "off + length c \<le> length ?f" by simp
  then have "adm_cmd_fw_download ?m (Some (ucast (pl_buf ?m))) ?s = Inr (?s\<lparr>fw_buffer := overwrite off c ?f\<rparr>)"
    unfolding adm_cmd_fw_download_def Let_def u n using r by auto
  then have "handle_download e d x s = Inr (send_ack ?m PAYLOAD_ACK (?s\<lparr>fw_buffer := overwrite off c ?f\<rparr>))"
    using c unfolding handle_download_def handle_msg_def handle_adm_cmd_def Let_def
    by (simp add: mmap_buffer_def spec_consts)
  then show ?thesis unfolding f by (simp add: send_ack_def)
qed

lemma download_all:
  assumes "carries e off xs cs" "off + length (concat cs) < 2 ^ 32" "off \<le> length (fw_buffer s)"
  shows "\<exists>s'. fold_res (handle_download e d) xs s = Inr s' \<and>
    fw_buffer s' = take off (fw_buffer s) @ concat cs @ drop (off + length (concat cs)) (fw_buffer s) \<and>
    flash s' = flash s \<and> fw_thread s' = fw_thread s"
  using assms
proof (induction e off xs cs arbitrary: s rule: carries.induct)
  case (2 e off x xs c cs)
  have "carries e off [x] [c]" using 2(2) by simp
  then obtain t where t: "handle_download e d x s = Inr t" "fw_buffer t = take off (fw_buffer s) @ c @ drop (off + length c) (fw_buffer s)"
      "flash t = flash s" "fw_thread t = fw_thread s"
    using download_one [of e off x c s d] 2(3,4) by auto
  have "off + length c \<le> length (fw_buffer t)" using t(2) 2(4) by simp
  then obtain s' where "fold_res (handle_download e d) xs t = Inr s'" "flash s' = flash t" "fw_thread s' = fw_thread t"
      "fw_buffer s' = take (off + length c) (fw_buffer t) @ concat cs @ drop (off + length c + length (concat cs)) (fw_buffer t)"
    using 2(1) [of t] 2(2,3) by auto
  then show ?case using t 2(4) by (simp add: ac_simps)
qed auto


definition ex_part :: "u32 \<Rightarrow> bytes \<Rightarrow> payload \<times> host" where
  "ex_part off c = (ex_cmd PAYLOAD_ADM_CMD CMD_ADM_FW_DOWNLOAD 4096 8 [1, off, 0, 0, 0, 0], mem_write (\<lambda>_. 0) 4096 c)"

lemma ex_parts: "carries ex_env 0 [ex_part 0 [1, 2, 3, 4], ex_part 1 [5, 6, 7, 8]] [[1, 2, 3, 4], [5, 6, 7, 8]]"
  by (simp add: ex_part_def ex_cmd_def ex_env_def cdw_def opc_def mem_read_def spec_consts upt_rec nth_append nth_Cons')


section \<open>Jobs\<close>

text \<open>The commands a host sends to run a job on accelerator \<open>i\<close>. The firmware is selected by the same command word as the
  accelerator, so it has to be sent under the number of the accelerator.\<close>

definition io_command :: "env \<Rightarrow> u8 \<Rightarrow> payload \<Rightarrow> bool" where
  "io_command e oc m = (pl_id m = PAYLOAD_IO_CMD \<and> opc m = oc \<and> (pl_buf_len m = 0 \<or> mmap_ok e (pl_buf m) (pl_buf_len m)))"

definition job_commands :: "env \<Rightarrow> nat \<Rightarrow> payload \<Rightarrow> payload \<Rightarrow> payload \<Rightarrow> payload \<Rightarrow> payload \<Rightarrow> bool" where
  "job_commands e i fw rd wr sel go =
    (io_command e CMD_IO_SEND_FW fw \<and> pl_buf_len fw = cdw 10 fw * 4 \<and> unat (cdw 13 fw) = i \<and>
     io_command e CMD_IO_READ_LBA rd \<and> unat (cdw 15 rd) = i \<and> io_command e CMD_IO_WRITE_LBA wr \<and> unat (cdw 15 wr) = i \<and>
     io_command e CMD_IO_CTL sel \<and> cdw 13 sel = ACC_IO_OP_SET_FW \<and> unat (cdw 14 sel) = i \<and>
     io_command e CMD_IO_CTL go \<and> cdw 13 go = ACC_IO_OP_START \<and> unat (cdw 14 go) = i)"

lemma handle_io_command:
  assumes "io_command e oc m"
  defines "b \<equiv> (if pl_buf_len m > 0 then Some (ucast (pl_buf m)) else None)"
  shows "handle_msg e d m s = res_bind
    (if oc = CMD_IO_SEND_FW then io_cmd_send_fw m b s
     else if oc = CMD_IO_READ_LBA then io_cmd_read_lba m s
     else if oc = CMD_IO_WRITE_LBA then io_cmd_write_lba m s
     else if oc = CMD_IO_SEND_DATA \<or> oc = CMD_IO_READ_DATA \<or> oc = CMD_IO_READ_FW \<or> oc = CMD_IO_CTL then io_cmd_acc_ctl m s
     else Inr s) (\<lambda>s. Inr (send_ack m PAYLOAD_ACK s))"
proof -
  have "(if pl_buf_len m > 0 then mmap_buffer e (pl_buf m) (pl_buf_len m) else None) = b"
      "\<not> (pl_buf_len m > 0 \<and> b = None)" "pl_id m \<noteq> PAYLOAD_ADM_CMD"
    using assms(1) by (auto simp: b_def mmap_buffer_def io_command_def word_gt_0 spec_consts)
  then show ?thesis using assms(1) unfolding handle_msg_def handle_io_cmd_def Let_def io_command_def by auto
qed

lemma handle_send_fw:
  assumes "io_command e CMD_IO_SEND_FW m" "pl_buf_len m = cdw 10 m * 4"
  shows "handle_msg e d m s = Inr (send_ack m PAYLOAD_ACK
    (s\<lparr>fw_map := (fw_map s)(cdw 13 m \<mapsto> mem_read (phys s) (ucast (pl_buf m)) (unat (pl_buf_len m)))\<rparr>))"
proof (cases "pl_buf_len m = 0")
  case True
  then have "unat (pl_buf_len m) = 0" by simp
  then show ?thesis using True assms(2) by (simp add: handle_io_command [OF assms(1)] io_cmd_send_fw_def buf_read_def mem_read_def)
next
  case False
  then have "unat (pl_buf_len m) \<noteq> 0" "pl_buf_len m > 0" by (simp_all add: word_gt_0 unat_eq_0)
  then show ?thesis
    unfolding handle_io_command [OF assms(1)] io_cmd_send_fw_def buf_read_def assms(2) [symmetric] by simp
qed

lemma handle_set_range:
  assumes "p = accelerators s ! unat (cdw 15 m)" "unat (cdw 15 m) < length (accelerators s)" "p < length (heap s)" "heap s ! p = Some a"
  shows "io_command e CMD_IO_READ_LBA m \<Longrightarrow> handle_msg e d m s =
      Inr (send_ack m PAYLOAD_ACK (s\<lparr>heap := (heap s)[p := Some (addRamdiskIn (lba_addr m) (lba_len m) a)]\<rparr>))"
    and "io_command e CMD_IO_WRITE_LBA m \<Longrightarrow> handle_msg e d m s =
      Inr (send_ack m PAYLOAD_ACK (s\<lparr>heap := (heap s)[p := Some (addRamdiskOut (lba_addr m) (lba_len m) a)]\<rparr>))"
  using assms
  by (simp_all add: handle_io_command io_cmd_read_lba_def io_cmd_write_lba_def set_range_def spec_consts)

lemma handle_acc_ctl:
  assumes "io_command e CMD_IO_CTL m" "p = accelerators s ! unat (cdw 14 m)" "unat (cdw 14 m) < length (accelerators s)"
    "p < length (heap s)" "heap s ! p = Some a"
  shows "cdw 13 m = ACC_IO_OP_SET_FW \<Longrightarrow> fw_map s (cdw 14 m) = Some fw \<Longrightarrow> handle_msg e d m s =
      Inr (send_ack m PAYLOAD_ACK (s\<lparr>heap := (heap s)[p := Some (addFirmware fw a)]\<rparr>))"
    and "cdw 13 m = ACC_IO_OP_START \<Longrightarrow> handle_msg e d m s = Inr (send_ack m PAYLOAD_ACK (s\<lparr>threads := threads s @ [(p, False)]\<rparr>))"
    and "cdw 13 m = ACC_IO_OP_RESET \<Longrightarrow> handle_msg e d m s = Inr (send_ack m PAYLOAD_ACK
      (s\<lparr>accelerators := (accelerators s)[unat (cdw 14 m) := length (heap s)],
         heap := (heap s)[p := None] @ [Some (new_Acc (cdw 14 m))]\<rparr>))"
  using assms
  by (auto simp: handle_io_command [OF assms(1)] io_cmd_acc_ctl_def Let_def acc_at_def spec_consts map_upd_triv cong: if_cong)

text \<open>The thread from its start to its end with nothing in between.\<close>

definition run_thread :: "env \<Rightarrow> nat \<Rightarrow> apu \<Rightarrow> apu res" where
  "run_thread e k s = res_bind (thread_begin k s) (thread_end e k)"

lemma job_setup:
  assumes "job_commands e i fw rd wr sel go" "i < length (accelerators s)" "accelerators s ! i = p" "p < length (heap s)" "heap s ! p = Some a"
  defines "img \<equiv> mem_read (phys s) (ucast (pl_buf fw)) (unat (pl_buf_len fw))"
  defines "j \<equiv> addFirmware img (addRamdiskOut (lba_addr wr) (lba_len wr) (addRamdiskIn (lba_addr rd) (lba_len rd) a))"
  shows "\<exists>s'. fold_res (handle_msg e d) [fw, rd, wr, sel, go] s = Inr s' \<and> phys s' = phys s \<and> heap s' = (heap s)[p := Some j] \<and>
    accelerators s' = accelerators s \<and> threads s' = threads s @ [(p, False)]"
proof -
  have sel: "cdw 14 sel = cdw 13 fw" using assms(1) by (auto simp: job_commands_def intro: word_unat_eq_iff [THEN iffD2])
  note cmds = assms(1) [unfolded job_commands_def]
  define s1 where "s1 = send_ack fw PAYLOAD_ACK (s\<lparr>fw_map := (fw_map s)(cdw 13 fw \<mapsto> img)\<rparr>)"
  have 1: "handle_msg e d fw s = Inr s1" unfolding s1_def img_def by (rule handle_send_fw) (use cmds in auto)
  define s2 where "s2 = send_ack rd PAYLOAD_ACK (s1\<lparr>heap := (heap s)[p := Some (addRamdiskIn (lba_addr rd) (lba_len rd) a)]\<rparr>)"
  have 2: "handle_msg e d rd s1 = Inr s2"
    using handle_set_range(1) [of p s1 rd a e d] cmds assms(2-5) by (simp add: s1_def s2_def send_ack_def)
  define s3 where "s3 = send_ack wr PAYLOAD_ACK (s2\<lparr>heap := (heap s)[p := Some (addRamdiskOut (lba_addr wr) (lba_len wr)
      (addRamdiskIn (lba_addr rd) (lba_len rd) a))]\<rparr>)"
  have 3: "handle_msg e d wr s2 = Inr s3"
    using handle_set_range(2) [of p s2 wr "addRamdiskIn (lba_addr rd) (lba_len rd) a" e d] cmds assms(2-5)
    by (simp add: s1_def s2_def s3_def send_ack_def)
  define s4 where "s4 = send_ack sel PAYLOAD_ACK (s3\<lparr>heap := (heap s)[p := Some j]\<rparr>)"
  have 4: "handle_msg e d sel s3 = Inr s4"
    using handle_acc_ctl(1) [of e sel p s3 "addRamdiskOut (lba_addr wr) (lba_len wr) (addRamdiskIn (lba_addr rd) (lba_len rd) a)" img d]
      cmds assms(2-5) sel
    by (simp add: s1_def s2_def s3_def s4_def j_def send_ack_def)
  have 5: "handle_msg e d go s4 = Inr (send_ack go PAYLOAD_ACK (s4\<lparr>threads := threads s @ [(p, False)]\<rparr>))"
    using handle_acc_ctl(2) [of e go p s4 j d] cmds assms(2-5) by (simp add: s1_def s2_def s3_def s4_def send_ack_def)
  from 1 2 3 4 5 show ?thesis by (simp add: s1_def s2_def s3_def s4_def send_ack_def)
qed

text \<open>C23: a job set up by the five commands - firmware, input range, output range, selection of the firmware and start -
  on any accelerator of a well-formed state computes what the firmware computes: once its thread has run, the output range
  of the ramdisk holds the output of the firmware on the input range, nothing else of the memory has changed, and the
  accelerator reports that it is done.\<close>

theorem job_writes_output:
  assumes "apu_wf s" "i < length (accelerators s)" "job_commands e i fw rd wr sel go"
    and "ubpf_create (vm e)" "ubpf_load_elf (vm e) (mem_read (phys s) (ucast (pl_buf fw)) (unat (pl_buf_len fw)))" "ubpf_keeps_sizes (vm e)"
    and "mmap_ok e (lba_addr rd) (lba_len rd)" "mmap_ok e (lba_addr wr) (lba_len wr)"
  shows "\<exists>s' out a a'. res_bind (fold_res (handle_msg e d) [fw, rd, wr, sel, go] s) (run_thread e (length (threads s))) = Inr s' \<and>
    heap s ! (accelerators s ! i) = Some a \<and>
    out = snd (ubpf_exec (vm e) (mem_read (phys s) (ucast (pl_buf fw)) (unat (pl_buf_len fw)))
      (mem_read (phys s) (ucast (lba_addr rd)) (unat (lba_len rd))) (resize (unat (lba_len wr)) (obuf a))) \<and>
    phys s' = mem_write (phys s) (ucast (lba_addr wr)) out \<and> length out = unat (lba_len wr) \<and>
    heap s' ! (accelerators s' ! i) = Some a' \<and> acc_state a' = Done \<and> threads s' = threads s"
proof -
  let ?p = "accelerators s ! i" let ?img = "mem_read (phys s) (ucast (pl_buf fw)) (unat (pl_buf_len fw))"
  obtain a where a: "?p < length (heap s)" "heap s ! ?p = Some a" using apu_wfD [OF assms(1,2)] .
  define j where "j = addFirmware ?img (addRamdiskOut (lba_addr wr) (lba_len wr) (addRamdiskIn (lba_addr rd) (lba_len rd) a))"
  obtain t where t: "fold_res (handle_msg e d) [fw, rd, wr, sel, go] s = Inr t" "phys t = phys s" "heap t = (heap s)[?p := Some j]"
      "accelerators t = accelerators s" "threads t = threads s @ [(?p, False)]"
    using job_setup [OF assms(3,2) refl a] unfolding j_def by blast
  define J where "J = j\<lparr>acc_state := Running\<rparr>"
  define r where "r = ubpf_exec (vm e) ?img (mem_read (phys s) (ucast (lba_addr rd)) (unat (lba_len rd))) (resize (unat (lba_len wr)) (obuf a))"
  have fields: "firmware J = ?img" "ramdisk_in J" "ramdisk_in_base J = lba_addr rd" "ramdisk_in_size J = lba_len rd"
      "ramdisk_out J" "ramdisk_out_base J = lba_addr wr" "ramdisk_out_size J = lba_len wr" "obuf J = obuf a"
    by (simp_all add: J_def j_def addFirmware_def addRamdiskIn_def addRamdiskOut_def)
  have run: "runBPF e (phys s) J = Inr (mem_write (phys s) (ucast (lba_addr wr)) (snd r), J\<lparr>ibuf := fst r, obuf := snd r, acc_state := Done\<rparr>)"
    unfolding r_def by (rule runBPF_loaded [of e J "phys s", unfolded fields, OF assms(4-6) fields(2) assms(7) fields(5) assms(8)])
  have "length (snd r) = unat (lba_len wr)" using assms(6) by (simp add: r_def ubpf_keeps_sizes_def)
  then show ?thesis
    using t a run [unfolded J_def]
    by (simp add: run_thread_def thread_begin_def thread_end_def Let_def acc_at_def r_def [symmetric] del: fold_res.simps)
qed

definition ex_fw :: payload where "ex_fw = ex_cmd PAYLOAD_IO_CMD CMD_IO_SEND_FW 4096 8 [2, 0, 0, 0, 0, 0]"
definition ex_rd :: payload where "ex_rd = ex_cmd PAYLOAD_IO_CMD CMD_IO_READ_LBA 0 0 [0, 0, 3, 0, 1, 0]"
definition ex_wr :: payload where "ex_wr = ex_cmd PAYLOAD_IO_CMD CMD_IO_WRITE_LBA 0 0 [0, 0, 5, 0, 2, 0]"
definition ex_sel :: payload where "ex_sel = ex_cmd PAYLOAD_IO_CMD CMD_IO_CTL 0 0 [0, 0, 0, 3, 0, 0]"
definition ex_go :: payload where "ex_go = ex_cmd PAYLOAD_IO_CMD CMD_IO_CTL 0 0 [0, 0, 0, 1, 0, 0]"

lemma ex_job: "job_commands ex_env 0 ex_fw ex_rd ex_wr ex_sel ex_go"
  by (simp add: job_commands_def io_command_def ex_fw_def ex_rd_def ex_wr_def ex_sel_def ex_go_def ex_cmd_def cdw_def opc_def spec_consts
      ex_env_def nth_append nth_Cons')

lemma ex_job_ranges: "lba_addr ex_wr = 0x68005000" "lba_len ex_wr = 0x2000"
  by (simp_all add: ex_wr_def ex_cmd_def cdw_def lba_addr_def lba_len_def spec_consts nth_append nth_Cons')

theorem job_writes_output_witness:
  "\<exists>s' out. res_bind (fold_res (handle_msg ex_env ex_mtd) [ex_fw, ex_rd, ex_wr, ex_sel, ex_go] ex_state) (run_thread ex_env 0) = Inr s' \<and>
    phys s' = mem_write (phys ex_state) 0x68005000 out \<and> length out = 8192"
proof -
  have "0 < length (accelerators ex_state)" "threads ex_state = []" by (simp_all add: ex_state_def apu_init_def)
  moreover have "ubpf_create (vm ex_env)" "ubpf_load_elf (vm ex_env) fw" "ubpf_keeps_sizes (vm ex_env)" "mmap_ok ex_env x y" for fw x y
    by (auto simp: ex_env_def ubpf_keeps_sizes_def)
  ultimately show ?thesis
    using job_writes_output [OF ex_state_wf _ ex_job, of ex_mtd] unfolding ex_job_ranges by (auto simp del: fold_res.simps)
qed

section \<open>Faults\<close>

text \<open>A reset command for an accelerator whose firmware is running succeeds and frees the object the running thread
  still uses: the next access of the thread is a use after free.\<close>

lemma reset_frees_running_accelerator:
  assumes "apu_wf s" "io_command e CMD_IO_CTL m" "cdw 13 m = ACC_IO_OP_RESET" "unat (cdw 14 m) < length (accelerators s)"
    and "k < length (threads s)" "threads s ! k = (accelerators s ! unat (cdw 14 m), True)"
  shows "\<exists>s'. handle_msg e d m s = Inr s' \<and> apu_wf s' \<and> threads s' ! k = threads s ! k \<and>
    thread_end e k s' = Inl (Undefined ''use after free'')"
proof -
  obtain a where a: "accelerators s ! unat (cdw 14 m) < length (heap s)" "heap s ! (accelerators s ! unat (cdw 14 m)) = Some a"
    using apu_wfD [OF assms(1,4)] .
  note h = handle_acc_ctl(3) [OF assms(2) refl assms(4) a assms(3), of d]
  show ?thesis
    using handle_msg_ok(2) [OF assms(1) h] h a assms(6) by (simp add: thread_end_def acc_at_def send_ack_def nth_append Let_def)
qed

definition ex_reset :: payload where "ex_reset = ex_cmd PAYLOAD_IO_CMD CMD_IO_CTL 0 0 [0, 0, 0, 0, 0, 0]"

lemma reset_frees_running_accelerator_instance:
  "\<exists>s'. handle_msg ex_env ex_mtd ex_reset (ex_state\<lparr>threads := [(0, True)]\<rparr>) = Inr s' \<and>
    apu_wf s' \<and> thread_end ex_env 0 s' = Inl (Undefined ''use after free'')"
proof -
  let ?s = "ex_state\<lparr>threads := [(0, True)]\<rparr>"
  have "accelerators ?s = [0]" by (simp add: ex_state_def apu_init_def)
  moreover have "io_command ex_env CMD_IO_CTL ex_reset" "cdw 13 ex_reset = ACC_IO_OP_RESET" "unat (cdw 14 ex_reset) = 0"
    by (simp_all add: ex_reset_def io_command_def ex_cmd_def cdw_def opc_def spec_consts ex_env_def nth_append nth_Cons')
  ultimately show ?thesis
    using reset_frees_running_accelerator [of ?s ex_env ex_reset 0 ex_mtd] ex_state_wf by auto
qed

text \<open>A download whose end reaches 4 GiB is measured as zero bytes, so the buffer is not enlarged and the copy
  leaves it.\<close>

lemma fw_download_wraps:
  assumes "unat (cdw 11 m) + unat (cdw 10 m) = 2 ^ 30" "cdw 10 m \<noteq> 0" "unat (cdw 10 m * 4) \<le> unat (pl_buf_len m)" "unat (cdw 10 m) < 2 ^ 30"
    and "length (fw_buffer s) < 2 ^ 32"
  shows "adm_cmd_fw_download m (Some p) s = Inl OutOfBounds"
proof -
  have "cdw 11 m + cdw 10 m = 2 ^ 30" by (rule word_unat_eq_iff [THEN iffD2]) (use assms(1) in \<open>simp add: unat_word_ariths\<close>)
  then have n: "unat ((cdw 11 m + cdw 10 m) * 4) = 0" by simp
  have 1: "unat (cdw 10 m * 4) = 4 * unat (cdw 10 m)" using assms(4) by (intro unat_times_4) simp
  have 2: "unat (cdw 11 m * 4) = 4 * unat (cdw 11 m)"
    using assms(1,2) by (intro unat_times_4) (simp add: unat_gt_0 [symmetric])
  have "unat (cdw 11 m * 4) + unat (cdw 10 m * 4) = 2 ^ 32" unfolding 1 2 using assms(1) by simp
  moreover have "0 < unat (cdw 10 m * 4)" unfolding 1 using assms(2) by (simp add: unat_gt_0)
  ultimately show ?thesis
    unfolding adm_cmd_fw_download_def Let_def n using assms(3,5) by (simp add: buf_read_def)
qed

end
