(* ===== verification/Csd_Link.thy ===== *)
theory Csd_Link
  imports Rpu_Fetch Rpu_Data Apu_Jobs
begin

text \<open>
  The two processors together: the message the real-time processor sends for a vendor command, its handling on the
  application processor, the answer and the completion it leads to.
\<close>

lemma return_completes:
  assumes "live i s" "slots s ! i = Some c" "ring_rel sz (qid c) base n k (tc s)" "n - k < sz - 1"
    and "base \<noteq> 0" "unat base + 16 * sz \<le> 2 ^ 64" "descs (dma s) < NVME_DMA_SLAB_ENTRIES"
  shows "\<exists>s'. nvme_cmd_return i s = Inr s' \<and> ring_rel sz (qid c) base (n + 1) k (tc s') \<and> pool s' = pool s \<and>
    slots s' = (slots s)[i := Some (c\<lparr>cq_buf := (cq_buf c)[3 := (if even (n div sz) then set_bit else unset_bit) 16 (cq_buf c ! 3)]\<rparr>)] \<and>
    tx_fifo (dma s') = tx_fifo (dma s) @ [\<lparr>xd_cb = Some (Cq_cb, i), host_addr = base + word_of_nat (n mod sz * 16),
      local_addr = Cq_buf i, xd_len = 16, xd_tag = 0x55\<rparr>]"
proof -
  obtain t where t: "nvme_tc_get_cq_addr (qid c) (tc s) = Inr (base + word_of_nat (n mod sz * 16), t)"
      "ring_rel sz (qid c) base (n + 1) k t" "cq_phase t ! qid c = even (n div sz)"
    using ring_post [OF assms(3)] assms(4) by auto
  have "n mod sz < sz" using assms(3) by (simp add: ring_rel_def)
  then have b: "unat base + n mod sz * 16 < 2 ^ 64" using assms(6) by linarith
  then have "unat (word_of_nat (n mod sz * 16) :: u64) = n mod sz * 16" by (intro unat_word_of_nat_small) simp
  then have "unat (base + word_of_nat (n mod sz * 16)) = unat base + n mod sz * 16" using b by (simp add: unat_word_ariths)
  moreover have "0 < unat base" using assms(5) by (simp add: unat_gt_0)
  ultimately have nz: "base + word_of_nat (n mod sz * 16) \<noteq> 0" by (metis add_is_0 less_not_refl unat_0)
  have q: "qid c < length (cq_phase t)" using ring_sizes [OF t(2)] by simp
  have "nvme_cmd_return i s = Inr (nvme_dma_xfer_mem_to_host (Cq_buf i) (base + word_of_nat (n mod sz * 16)) 16 (Some (Cq_cb, i))
      (slot_set i (c\<lparr>cq_buf := (cq_buf c)[3 := (if even (n div sz) then set_bit else unset_bit) 16 (cq_buf c ! 3)]\<rparr>) (s\<lparr>tc := t\<rparr>)))"
    using assms(1,2) t(1,3) nz q by (simp add: nvme_cmd_return_def live_def slot_at_def Let_def spec_consts)
  then show ?thesis
    using t(2) assms(7) by (simp add: nvme_dma_xfer_mem_to_host_def nvme_dma_xfer_fill_desc_def Let_def)
qed


definition ex_vendor_cmd :: nvme_cmd_priv where
  "ex_vendor_cmd = (new_cmd 0)\<lparr>sq_buf := [0x002A00C0, 0, 0, 0, 0, 0, 0, 0, 0, 0, 0, 0, 1, 0, 0, 0], cq_buf := [0, 0, 1, 42]\<rparr>"

definition ex_vendor :: rpu where
  "ex_vendor = ex_rpu\<lparr>tc := ex_ring, slots := (slots ex_rpu)[5 := Some ex_vendor_cmd]\<rparr>"


end
