(* ===== verification/Apu_Main.thy ===== *)
theory Apu_Main
  imports Apu_Cmds
begin

text \<open>
  The program of the application processor (\<open>rpmsg.cpp\<close>, \<open>main.cpp\<close>): \<open>rpmsg_init\<close> binds the message channel to its
  character driver through \<open>sysfs\<close>, creates the endpoint and opens it; \<open>main\<close> then reads messages into one buffer for
  ever and hands each to the handlers of \<open>Apu_Cmds\<close>. The file system is a parameter (\<open>'k fs\<close>). Every character array
  has its size, and \<open>sprintf\<close> past it is a fault; messages that are only logged are left out.

  Shown: \<open>rpmsg_init\<close> always returns when the entries of the device's directory fit their array, and a descriptor it
  returns is the one of the first endpoint with the name of the channel; \<open>main\<close> answers every message once and in order;
  and a message that is shorter than its structure repeats the command before it.
\<close>

section \<open>The file system and strings\<close>

record 'k fs =
  fs_access :: "string \<Rightarrow> 'k \<Rightarrow> bool"
  fs_open :: "string \<Rightarrow> 'k \<Rightarrow> int \<times> 'k"
  fs_write :: "int \<Rightarrow> string \<Rightarrow> 'k \<Rightarrow> int \<times> 'k"
  fs_close :: "int \<Rightarrow> 'k \<Rightarrow> 'k"
  fs_readdir :: "string \<Rightarrow> 'k \<Rightarrow> string list option"   \<comment> \<open>the entries \<open>readdir\<close> gives, \<open>None\<close> when \<open>opendir\<close> fails\<close>
  fs_content :: "string \<Rightarrow> 'k \<Rightarrow> string option"   \<comment> \<open>the content \<open>fgets\<close> reads, \<open>None\<close> when \<open>fopen\<close> fails\<close>
  fs_create_ept :: "int \<Rightarrow> string \<Rightarrow> u32 \<Rightarrow> u32 \<Rightarrow> 'k \<Rightarrow> int \<times> 'k"   \<comment> \<open>\<open>RPMSG_CREATE_EPT_IOCTL\<close> with name, source, destination\<close>

text \<open>\<open>sprintf\<close> into an array of \<open>n\<close> characters, \<open>%d\<close>, \<open>fgets\<close> into an array (which keeps its content at the end of the file) and the
  test that \<open>strncmp\<close> returns 0.\<close>

definition sprintf :: "nat \<Rightarrow> string \<Rightarrow> string res" where
  "sprintf n s = res_bind (guard_bounds (length s < n)) (\<lambda>_. Inr s)"

fun dec :: "nat \<Rightarrow> string" where
  "dec n = (if n < 10 then [char_of (48 + n)] else dec (n div 10) @ [char_of (48 + n mod 10)])"

fun upto_newline :: "string \<Rightarrow> string" where
  "upto_newline [] = []"
| "upto_newline (c # cs) = (if c = CHR 0x0A then [c] else c # upto_newline cs)"

definition fgets :: "nat \<Rightarrow> string \<Rightarrow> string option \<Rightarrow> string option" where
  "fgets n content old = (if content = [] then old else Some (takeWhile (\<lambda>c. c \<noteq> CHR 0x00) (take (n - 1) (upto_newline content))))"

definition strncmp_eq :: "string \<Rightarrow> string \<Rightarrow> nat \<Rightarrow> bool" where
  "strncmp_eq a b n = (take n a = take n b)"

definition EINVAL :: int where "EINVAL = 22"

definition DEV_NAME :: string where "DEV_NAME = ''virtio0.rpmsg-openamp-nvme-channel.-1.0''"
definition EPT_NAME :: string where "EPT_NAME = ''rpmsg-openamp-nvme-channel''"
definition RPMSG_BUS_SYS :: string where "RPMSG_BUS_SYS = ''/sys/bus/rpmsg''"

text \<open>The paths that are formatted with \<open>sprintf\<close>.\<close>

definition device_path :: "string \<Rightarrow> string" where "device_path rpmsg_dev_name = RPMSG_BUS_SYS @ ''/devices/'' @ rpmsg_dev_name"
definition override_path :: "string \<Rightarrow> string" where "override_path rpmsg_dev_name = RPMSG_BUS_SYS @ ''/devices/'' @ rpmsg_dev_name @ ''/driver_override''"
definition bind_path :: string where "bind_path = RPMSG_BUS_SYS @ ''/drivers/'' @ ''rpmsg_chrdev'' @ ''/bind''"
definition rpmsg_dir :: "string \<Rightarrow> string" where "rpmsg_dir rpmsg_dev_name = RPMSG_BUS_SYS @ ''/devices/'' @ rpmsg_dev_name @ ''/rpmsg''"
definition dev_path :: "string \<Rightarrow> string" where "dev_path name = ''/dev/'' @ name"
definition ept_dev :: "nat \<Rightarrow> string" where "ept_dev i = ''rpmsg'' @ dec i"

section \<open>The endpoint (rpmsg.cpp)\<close>

definition rpmsg_create_ept :: "'k fs \<Rightarrow> int \<Rightarrow> string \<Rightarrow> u32 \<Rightarrow> u32 \<Rightarrow> 'k \<Rightarrow> int \<times> 'k" where
  "rpmsg_create_ept fs rpfd name src dst k = fs_create_ept fs rpfd name src dst k"

text \<open>The loop of \<open>get_rpmsg_ept_dev_name\<close> over the numbers that are left; \<open>svc_name\<close> is indeterminate until the first line is
  read and otherwise keeps its content.\<close>

definition ept_name_path :: "string \<Rightarrow> nat \<Rightarrow> string" where
  "ept_name_path rpmsg_char_name i = ''/sys/class/rpmsg'' @ ''/'' @ rpmsg_char_name @ ''/rpmsg'' @ dec i @ ''/name''"

fun ept_loop :: "'k fs \<Rightarrow> string \<Rightarrow> string \<Rightarrow> string option \<Rightarrow> nat list \<Rightarrow> 'k \<Rightarrow> string option res" where
  "ept_loop fs rpmsg_char_name ept_name svc_name [] k = Inr None"
| "ept_loop fs rpmsg_char_name ept_name svc_name (i # left) k =
    res_bind (sprintf 64 (ept_name_path rpmsg_char_name i)) (\<lambda>path.
    if \<not> fs_access fs path k then ept_loop fs rpmsg_char_name ept_name svc_name left k
    else case fs_content fs path k of
      None \<Rightarrow> Inr None
    | Some content \<Rightarrow>
        (case fgets 64 content svc_name of
           None \<Rightarrow> Inl (Undefined ''svc_name is indeterminate'')
         | Some svc \<Rightarrow>
             if strncmp_eq svc ept_name (min (length ept_name) 64)
             then res_bind (sprintf 16 (ept_dev i)) (\<lambda>ept_dev_name. Inr (Some ept_dev_name))
             else ept_loop fs rpmsg_char_name ept_name (Some svc) left k))"

definition get_rpmsg_ept_dev_name :: "'k fs \<Rightarrow> string \<Rightarrow> string \<Rightarrow> 'k \<Rightarrow> string option res" where
  "get_rpmsg_ept_dev_name fs rpmsg_char_name ept_name k = ept_loop fs rpmsg_char_name ept_name None [0..<128] k"

text \<open>A string written with its terminating zero to a file of \<open>sysfs\<close>.\<close>

definition write_attr :: "'k fs \<Rightarrow> string \<Rightarrow> string \<Rightarrow> 'k \<Rightarrow> (int \<times> 'k) res" where
  "write_attr fs path s k =
    res_bind (sprintf 256 path) (\<lambda>fpath.
    let (fd, k) = fs_open fs fpath k in
    if fd < 0 then Inr (- EINVAL, k)
    else let (ret, k) = fs_write fs fd (s @ [CHR 0x00]) k in
      if ret < 0 then Inr (- EINVAL, k) else Inr (0, fs_close fs fd k))"

definition bind_rpmsg_chrdev :: "'k fs \<Rightarrow> string \<Rightarrow> 'k \<Rightarrow> (int \<times> 'k) res" where
  "bind_rpmsg_chrdev fs rpmsg_dev_name k =
    res_bind (write_attr fs (override_path rpmsg_dev_name) ''rpmsg_chrdev'' k) (\<lambda>(ret, k).
    if ret < 0 then Inr (ret, k)
    else write_attr fs bind_path rpmsg_dev_name k)"

text \<open>The descriptor of the control device and its name (when there is one). The directory is not closed.\<close>

definition get_rpmsg_chrdev_fd :: "'k fs \<Rightarrow> string \<Rightarrow> 'k \<Rightarrow> (int \<times> string \<times> 'k) res" where
  "get_rpmsg_chrdev_fd fs rpmsg_dev_name k =
    res_bind (sprintf 256 (rpmsg_dir rpmsg_dev_name)) (\<lambda>dpath.
    case fs_readdir fs dpath k of
      None \<Rightarrow> Inr (- EINVAL, [], k)
    | Some names \<Rightarrow>
        (case find (\<lambda>d_name. strncmp_eq d_name ''rpmsg_ctrl'' 10) names of
           None \<Rightarrow> Inr (- EINVAL, [], k)
         | Some d_name \<Rightarrow>
             res_bind (sprintf 384 (dev_path d_name)) (\<lambda>fpath.
             let (fd, k) = fs_open fs fpath k in
             if fd < 0 then Inr (fd, [], k)
             else res_bind (sprintf 16 d_name) (\<lambda>rpmsg_ctrl_name. Inr (fd, rpmsg_ctrl_name, k)))))"

definition rpmsg_init :: "'k fs \<Rightarrow> 'k \<Rightarrow> (int \<times> 'k) res" where
  "rpmsg_init fs k =
    res_bind (sprintf 256 (device_path DEV_NAME)) (\<lambda>fpath.
    if \<not> fs_access fs fpath k then Inr (- EINVAL, k)
    else res_bind (bind_rpmsg_chrdev fs DEV_NAME k) (\<lambda>(ret, k).
    if ret < 0 then Inr (ret, k)
    else res_bind (get_rpmsg_chrdev_fd fs DEV_NAME k) (\<lambda>(charfd, rpmsg_char_name, k).
    if charfd < 0 then Inr (charfd, k)
    else let (ret, k) = rpmsg_create_ept fs charfd EPT_NAME 0 1 k in
    if ret \<noteq> 0 then Inr (- EINVAL, k)
    else res_bind (get_rpmsg_ept_dev_name fs rpmsg_char_name EPT_NAME k) (\<lambda>name.
    case name of
      None \<Rightarrow> Inr (- EINVAL, k)
    | Some ept_dev_name \<Rightarrow>
        res_bind (sprintf 32 (dev_path ept_dev_name)) (\<lambda>ept_dev_path.
        let (fd, k) = fs_open fs ept_dev_path k in
        if fd < 0 then Inr (- 1, fs_close fs charfd k) else Inr (fd, k))))))"

section \<open>The main loop (main.cpp)\<close>

text \<open>The bytes of a message in memory and the message at the start of a buffer.\<close>

definition payload_bytes :: "payload \<Rightarrow> bytes" where
  "payload_bytes m = concat (map (\<lambda>w. le_bytes 4 (unat w)) ([pl_id m, pl_len m, pl_priv m, pl_buf m, pl_buf_len m] @ pl_data m))"

definition word_at :: "nat \<Rightarrow> bytes \<Rightarrow> u32" where
  "word_at i buf = word_of_nat (le_value (slice (4 * i) 4 buf))"

definition payload_of :: "bytes \<Rightarrow> payload" where
  "payload_of buf = \<lparr>pl_id = word_at 0 buf, pl_len = word_at 1 buf, pl_priv = word_at 2 buf, pl_buf = word_at 3 buf,
     pl_buf_len = word_at 4 buf, pl_data = map (\<lambda>i. word_at (5 + i) buf) [0..<16]\<rparr>"

definition main_buf_size :: nat where "main_buf_size = 64 + 20"

definition initial_msg :: payload where
  "initial_msg = \<lparr>pl_id = 1234, pl_len = 0, pl_priv = 0, pl_buf = 0, pl_buf_len = 0, pl_data = []\<rparr>"

text \<open>The start of \<open>main\<close>: \<open>Inl\<close> its result when the channel is not there, \<open>Inr\<close> the descriptor and the state after
  \<open>init\<close> and the initial message otherwise. The accelerator's driver, which \<open>init\<close> starts, is in \<open>Vta_Hw\<close>.\<close>

definition main_start :: "'k fs \<Rightarrow> bytes list \<Rightarrow> bytes \<Rightarrow> host \<Rightarrow> 'k \<Rightarrow> (int + int \<times> apu) res" where
  "main_start fs junk fl mem k =
    res_bind (rpmsg_init fs k) (\<lambda>(fd, k).
    Inr (if fd < 0 then Inl fd else Inr (fd, apu_init junk fl mem)))"

text \<open>One turn of the loop with what \<open>read\<close> copies to the buffer, nothing when there is no message.\<close>

definition main_step :: "env \<Rightarrow> mtd \<Rightarrow> bytes \<Rightarrow> bytes \<times> apu \<Rightarrow> (bytes \<times> apu) res" where
  "main_step e d msg = (\<lambda>(buf, s).
    if msg = [] then Inr (buf, s)
    else let buf = overwrite 0 (take main_buf_size msg) buf in
      res_bind (handle_msg e d (payload_of buf) s) (\<lambda>s. Inr (buf, s)))"

text \<open>A run of the loop from one configuration to another with what its reads gave; threads make their steps in between.\<close>

inductive main_run :: "env \<Rightarrow> mtd \<Rightarrow> bytes \<times> apu \<Rightarrow> bytes list \<Rightarrow> bytes \<times> apu \<Rightarrow> bool" for e d c where
  run_start: "main_run e d c [] c"
| run_read: "main_run e d c reads c1 \<Longrightarrow> main_step e d msg c1 = Inr c2 \<Longrightarrow> main_run e d c (reads @ [msg]) c2"
| run_begin: "main_run e d c reads (buf, s) \<Longrightarrow> k < length (threads s) \<Longrightarrow> \<not> snd (threads s ! k) \<Longrightarrow> thread_begin k s = Inr s' \<Longrightarrow>
    main_run e d c reads (buf, s')"
| run_end: "main_run e d c reads (buf, s) \<Longrightarrow> k < length (threads s) \<Longrightarrow> snd (threads s ! k) \<Longrightarrow> thread_end e k s = Inr s' \<Longrightarrow>
    main_run e d c reads (buf, s')"
| run_flash: "main_run e d c reads (buf, s) \<Longrightarrow> main_run e d c reads (buf, flash_step d s)"

section \<open>How the endpoint is found\<close>

text \<open>What the code relies on: the entries of the directories fit their array and the name files are not empty. The endpoint
  \<open>i\<close> of a control device serves the channel when the content of its name file starts with the name of the channel.\<close>

definition bus_ok :: "'k fs \<Rightarrow> bool" where
  "bus_ok fs = (\<forall>p k. (\<forall>names. fs_readdir fs p k = Some names \<longrightarrow> (\<forall>n \<in> set names. length n < 16)) \<and> fs_content fs p k \<noteq> Some [])"

definition readable :: "'k fs \<Rightarrow> string \<Rightarrow> 'k \<Rightarrow> nat \<Rightarrow> bool" where
  "readable fs ctrl k i = (fs_access fs (ept_name_path ctrl i) k \<longrightarrow> fs_content fs (ept_name_path ctrl i) k \<noteq> None)"

definition serves :: "'k fs \<Rightarrow> string \<Rightarrow> 'k \<Rightarrow> nat \<Rightarrow> bool" where
  "serves fs ctrl k i = (fs_access fs (ept_name_path ctrl i) k \<and>
     (\<exists>c. fs_content fs (ept_name_path ctrl i) k = Some c \<and> take (length EPT_NAME) c = EPT_NAME))"

lemma first_line_prefix:
  assumes "\<forall>c \<in> set b. c \<noteq> CHR 0x0A \<and> c \<noteq> CHR 0x00" "length b \<le> m"
  shows "(take (length b) (takeWhile (\<lambda>c. c \<noteq> CHR 0x00) (take m (upto_newline s))) = b) = (take (length b) s = b)"
  using assms
proof (induction b arbitrary: s m)
  case (Cons x b)
  then obtain m' where m: "m = Suc m'" "length b \<le> m'" by (cases m) auto
  then show ?case using Cons by (cases s) auto
qed simp

lemma EPT_NAME_plain: "\<forall>c \<in> set EPT_NAME. c \<noteq> CHR 0x0A \<and> c \<noteq> CHR 0x00" "length EPT_NAME = 26" "min (length EPT_NAME) 64 = length EPT_NAME"
  by (simp_all add: EPT_NAME_def)

lemma svc_name_matches:
  assumes "content \<noteq> []"
  shows "\<exists>svc. fgets 64 content old = Some svc \<and> strncmp_eq svc EPT_NAME (min (length EPT_NAME) 64) = (take (length EPT_NAME) content = EPT_NAME)"
  using assms first_line_prefix [OF EPT_NAME_plain(1), of 63 content]
  by (simp only: fgets_def strncmp_eq_def EPT_NAME_plain(3)) (simp add: EPT_NAME_plain(2))

lemma length_dec: "n < 1000 \<Longrightarrow> length (dec n) \<le> 3"
  by (subst dec.simps, subst dec.simps, subst dec.simps) auto

lemma ept_path_fits: "length ctrl < 16 \<Longrightarrow> i < 128 \<Longrightarrow> sprintf 64 (ept_name_path ctrl i) = Inr (ept_name_path ctrl i)"
  using length_dec [of i] by (simp add: sprintf_def ept_name_path_def)

lemma ept_dev_fits: "i < 128 \<Longrightarrow> sprintf 16 (ept_dev i) = Inr (ept_dev i)"
    "i < 128 \<Longrightarrow> sprintf 32 (dev_path (ept_dev i)) = Inr (dev_path (ept_dev i))"
  using length_dec [of i] by (simp_all add: sprintf_def ept_dev_def dev_path_def)

declare dec.simps [simp del]

text \<open>The loop gives the first number that serves the channel, provided no earlier name file is there and cannot be opened.\<close>

lemma ept_loop_finds:
  assumes "bus_ok fs" "length ctrl < 16" "\<forall>i \<in> set left. i < 128"
  shows "ept_loop fs ctrl EPT_NAME svc left k =
    Inr (case find (\<lambda>i. serves fs ctrl k i \<or> \<not> readable fs ctrl k i) left of
      None \<Rightarrow> None | Some i \<Rightarrow> if serves fs ctrl k i then Some (ept_dev i) else None)"
  using assms(3)
proof (induction left arbitrary: svc)
  case (Cons i left)
  then have i: "i < 128" by simp
  let ?p = "ept_name_path ctrl i"
  show ?case
  proof (cases "fs_access fs ?p k")
    case False
    then show ?thesis using Cons ept_path_fits [OF assms(2) i] by (simp add: serves_def readable_def)
  next
    case True
    show ?thesis
    proof (cases "fs_content fs ?p k")
      case None
      then show ?thesis using True ept_path_fits [OF assms(2) i] by (simp add: serves_def readable_def)
    next
      case (Some c)
      have "c \<noteq> []" using assms(1) Some by (auto simp: bus_ok_def)
      then obtain s where "fgets 64 c svc = Some s" "strncmp_eq s EPT_NAME (min (length EPT_NAME) 64) = (take (length EPT_NAME) c = EPT_NAME)"
        using svc_name_matches by blast
      then show ?thesis
        using Cons True Some ept_path_fits [OF assms(2) i] ept_dev_fits(1) [OF i] by (simp add: serves_def readable_def)
    qed
  qed
qed simp

lemma attr_returns:
  assumes "length path < 256"
  shows "\<exists>r k'. write_attr fs path s k = Inr (r, k') \<and> ((\<forall>p k. 0 \<le> fst (fs_open fs p k)) \<and> (\<forall>fd s k. 0 \<le> fst (fs_write fs fd s k)) \<longrightarrow> r = 0)"
proof -
  obtain fd k1 where o: "fs_open fs path k = (fd, k1)" by (cases "fs_open fs path k")
  obtain n k2 where w: "fs_write fs fd (s @ [CHR 0x00]) k1 = (n, k2)" by (cases "fs_write fs fd (s @ [CHR 0x00]) k1")
  have "0 \<le> fd" if "\<forall>p k. 0 \<le> fst (fs_open fs p k)" using that o by (metis fst_conv)
  moreover have "0 \<le> n" if "\<forall>fd s k. 0 \<le> fst (fs_write fs fd s k)" using that w by (metis fst_conv)
  ultimately show ?thesis using assms o w by (auto simp: write_attr_def sprintf_def)
qed

lemma device_paths_fit:
  "length (override_path DEV_NAME) < 256" "length bind_path < 256"
  "sprintf 256 (rpmsg_dir DEV_NAME) = Inr (rpmsg_dir DEV_NAME)"
  "sprintf 256 (device_path DEV_NAME) = Inr (device_path DEV_NAME)"
  by (simp_all add: RPMSG_BUS_SYS_def DEV_NAME_def sprintf_def override_path_def bind_path_def rpmsg_dir_def device_path_def)

lemma bind_returns:
  "\<exists>r k'. bind_rpmsg_chrdev fs DEV_NAME k = Inr (r, k') \<and>
    ((\<forall>p k. 0 \<le> fst (fs_open fs p k)) \<and> (\<forall>fd s k. 0 \<le> fst (fs_write fs fd s k)) \<longrightarrow> r = 0)"
proof -
  let ?up = "(\<forall>p k. 0 \<le> fst (fs_open fs p k)) \<and> (\<forall>fd s k. 0 \<le> fst (fs_write fs fd s k))"
  obtain r1 k1 where 1: "write_attr fs (override_path DEV_NAME) ''rpmsg_chrdev'' k = Inr (r1, k1)" "?up \<longrightarrow> r1 = 0"
    using attr_returns [OF device_paths_fit(1), of fs "''rpmsg_chrdev''" k] by blast
  obtain r2 k2 where 2: "write_attr fs bind_path DEV_NAME k1 = Inr (r2, k2)" "?up \<longrightarrow> r2 = 0"
    using attr_returns [OF device_paths_fit(2), of fs DEV_NAME k1] by blast
  show ?thesis using 1 2 by (cases "r1 < 0") (auto simp: bind_rpmsg_chrdev_def)
qed

text \<open>The control device: its first entry with the prefix, whose name fits.\<close>

definition control_of :: "'k fs \<Rightarrow> 'k \<Rightarrow> string option" where
  "control_of fs k = (case fs_readdir fs (rpmsg_dir DEV_NAME) k of
     None \<Rightarrow> None | Some names \<Rightarrow> find (\<lambda>n. take 10 n = ''rpmsg_ctrl'') names)"

lemma control_fits: "bus_ok fs \<Longrightarrow> control_of fs k = Some ctrl \<Longrightarrow> length ctrl < 16"
  by (auto simp: control_of_def bus_ok_def find_Some_iff split: option.splits dest!: nth_mem)

lemma chrdev_returns:
  assumes "bus_ok fs"
  shows "get_rpmsg_chrdev_fd fs DEV_NAME k =
    Inr (case control_of fs k of None \<Rightarrow> (- EINVAL, [], k)
      | Some ctrl \<Rightarrow> let (fd, k') = fs_open fs (dev_path ctrl) k in (fd, if fd < 0 then [] else ctrl, k'))"
proof (cases "control_of fs k")
  case None
  then show ?thesis
    by (simp add: get_rpmsg_chrdev_fd_def device_paths_fit(3) control_of_def strncmp_eq_def split: option.splits)
next
  case (Some ctrl)
  then have l: "length ctrl < 16" by (rule control_fits [OF assms])
  then have s: "sprintf 384 (dev_path ctrl) = Inr (dev_path ctrl)" "sprintf 16 ctrl = Inr ctrl" by (simp_all add: sprintf_def dev_path_def)
  obtain names where n: "fs_readdir fs (rpmsg_dir DEV_NAME) k = Some names" "find (\<lambda>n. take 10 n = ''rpmsg_ctrl'') names = Some ctrl"
    using Some by (auto simp: control_of_def split: option.splits)
  obtain fd k' where "fs_open fs (dev_path ctrl) k = (fd, k')" by (cases "fs_open fs (dev_path ctrl) k")
  then show ?thesis
    using Some s n by (simp add: get_rpmsg_chrdev_fd_def device_paths_fit(3) strncmp_eq_def)
qed

text \<open>A bus on which the channel is up: every file opens and can be written, the device has a control entry, the endpoint is
  created and one of the first 128 endpoints then has the name of the channel, with no unreadable name before it.\<close>

definition channel_up :: "'k fs \<Rightarrow> bool" where
  "channel_up fs = ((\<forall>p k. 0 \<le> fst (fs_open fs p k)) \<and> (\<forall>fd s k. 0 \<le> fst (fs_write fs fd s k)) \<and>
     (\<forall>k. fs_access fs (device_path DEV_NAME) k \<and> control_of fs k \<noteq> None) \<and>
     (\<forall>fd k. fst (fs_create_ept fs fd EPT_NAME 0 1 k) = 0) \<and>
     (\<forall>fd k k1 ctrl. control_of fs k1 = Some ctrl \<longrightarrow>
       (\<exists>i < 128. serves fs ctrl (snd (fs_create_ept fs fd EPT_NAME 0 1 k)) i \<and> (\<forall>j < i. readable fs ctrl (snd (fs_create_ept fs fd EPT_NAME 0 1 k)) j))))"

lemma find_upt_Some: "(find P [0..<n] = Some i) = (i < n \<and> P i \<and> (\<forall>j < i. \<not> P j))"
  by (auto simp: find_Some_iff)

lemma find_upt_None: "(find P [0..<n] = None) = (\<forall>i < n. \<not> P i)"
  by (auto simp: find_None_iff)

lemma ept_dev_name:
  assumes "bus_ok fs" "length ctrl < 16"
  shows "(\<exists>i < 128. get_rpmsg_ept_dev_name fs ctrl EPT_NAME k = Inr (Some (ept_dev i)) \<and> serves fs ctrl k i \<and> (\<forall>j < i. \<not> serves fs ctrl k j)) \<or>
    get_rpmsg_ept_dev_name fs ctrl EPT_NAME k = Inr None \<and> \<not> (\<exists>i < 128. serves fs ctrl k i \<and> (\<forall>j < i. readable fs ctrl k j))"
proof -
  let ?P = "\<lambda>i. serves fs ctrl k i \<or> \<not> readable fs ctrl k i"
  have e: "get_rpmsg_ept_dev_name fs ctrl EPT_NAME k = Inr (case find ?P [0..<128] of
      None \<Rightarrow> None | Some i \<Rightarrow> if serves fs ctrl k i then Some (ept_dev i) else None)"
    unfolding get_rpmsg_ept_dev_name_def by (rule ept_loop_finds [OF assms]) simp
  show ?thesis
  proof (cases "find ?P [0..<128]")
    case None
    then have "\<forall>i < 128. \<not> ?P i" by (simp only: find_upt_None)
    then show ?thesis using e None by auto
  next
    case (Some i)
    then have i: "i < 128" "?P i" "\<forall>j < i. \<not> ?P j" using find_upt_Some [of ?P 128 i] by blast+
    show ?thesis
    proof (cases "serves fs ctrl k i")
      case True
      then show ?thesis using e Some i by auto
    next
      case False
      then have "\<not> (\<exists>j < 128. serves fs ctrl k j \<and> (\<forall>j' < j. readable fs ctrl k j'))"
        using i by (metis linorder_neqE_nat)
      then show ?thesis using e Some False by simp
    qed
  qed
qed

section \<open>Properties\<close>

lemma rpmsg_init_returns:
  assumes "bus_ok fs"
  shows "\<exists>fd k'. rpmsg_init fs k = Inr (fd, k') \<and>
    (0 \<le> fd \<longrightarrow> (\<exists>k1 k2 ctrl charfd i. control_of fs k1 = Some ctrl \<and> fst (fs_open fs (dev_path ctrl) k1) = charfd \<and> 0 \<le> charfd \<and>
      fs_create_ept fs charfd EPT_NAME 0 1 (snd (fs_open fs (dev_path ctrl) k1)) = (0, k2) \<and>
      i < 128 \<and> serves fs ctrl k2 i \<and> (\<forall>j < i. \<not> serves fs ctrl k2 j) \<and> fs_open fs (dev_path (ept_dev i)) k2 = (fd, k'))) \<and>
    (channel_up fs \<longrightarrow> 0 \<le> fd)"
proof (cases "fs_access fs (device_path DEV_NAME) k")
  case False
  then show ?thesis by (auto simp: rpmsg_init_def device_paths_fit EINVAL_def channel_up_def)
next
  case True
  obtain r k1 where b: "bind_rpmsg_chrdev fs DEV_NAME k = Inr (r, k1)" "channel_up fs \<longrightarrow> r = 0"
    using bind_returns [of fs k] unfolding channel_up_def by blast
  note start = True b(1) device_paths_fit(4) chrdev_returns [OF assms]
  show ?thesis
  proof (cases "r < 0 \<or> control_of fs k1 = None")
    case True
    then have "\<not> channel_up fs" using b(2) unfolding channel_up_def by (metis less_irrefl)
    then show ?thesis using start True by (auto simp: rpmsg_init_def EINVAL_def)
  next
    case False
    then obtain ctrl where c: "control_of fs k1 = Some ctrl" "\<not> r < 0" by auto
    obtain charfd k2 where o: "fs_open fs (dev_path ctrl) k1 = (charfd, k2)" by (cases "fs_open fs (dev_path ctrl) k1")
    obtain e k3 where ce: "fs_create_ept fs charfd EPT_NAME 0 1 k2 = (e, k3)" by (cases "fs_create_ept fs charfd EPT_NAME 0 1 k2")
    have up: "channel_up fs \<longrightarrow> 0 \<le> charfd \<and> e = 0 \<and> (\<exists>i < 128. serves fs ctrl k3 i \<and> (\<forall>j < i. readable fs ctrl k3 j))"
      using c(1) o ce unfolding channel_up_def by (metis fst_conv snd_conv)
    show ?thesis
    proof (cases "charfd < 0 \<or> e \<noteq> 0")
      case True
      then show ?thesis using start c o ce up by (auto simp: rpmsg_init_def rpmsg_create_ept_def EINVAL_def)
    next
      case False
      consider i where "i < 128" "get_rpmsg_ept_dev_name fs ctrl EPT_NAME k3 = Inr (Some (ept_dev i))" "serves fs ctrl k3 i" "\<forall>j < i. \<not> serves fs ctrl k3 j"
        | "get_rpmsg_ept_dev_name fs ctrl EPT_NAME k3 = Inr None" "\<not> channel_up fs"
        using ept_dev_name [OF assms control_fits [OF assms c(1)], of k3] up by blast
      then show ?thesis
      proof cases
        case 1
        obtain fd k4 where "fs_open fs (dev_path (ept_dev i)) k3 = (fd, k4)" by (cases "fs_open fs (dev_path (ept_dev i)) k3")
        moreover from this have "channel_up fs \<longrightarrow> 0 \<le> fd" unfolding channel_up_def by (metis fst_conv)
        moreover from calculation have "rpmsg_init fs k = Inr (if fd < 0 then (- 1, fs_close fs charfd k4) else (fd, k4))"
          using start c o ce False 1(2) ept_dev_fits(2) [OF 1(1)] by (simp add: rpmsg_init_def rpmsg_create_ept_def)
        moreover have "fst (fs_open fs (dev_path ctrl) k1) = charfd" "snd (fs_open fs (dev_path ctrl) k1) = k2" using o by simp_all
        ultimately show ?thesis using c(1) ce False 1 by (cases "fd < 0") (simp, simp, metis linorder_not_less)
      next
        case 2
        then show ?thesis using start c o ce False by (auto simp: rpmsg_init_def rpmsg_create_ept_def EINVAL_def)
      qed
    qed
  qed
qed

lemma channel_opens: "bus_ok fs \<Longrightarrow> channel_up fs \<Longrightarrow> \<exists>fd k'. rpmsg_init fs k = Inr (fd, k') \<and> 0 \<le> fd"
  using rpmsg_init_returns [of fs k] by blast


definition ex_fs :: "unit fs" where
  "ex_fs = \<lparr>fs_access = (\<lambda>_ _. True), fs_open = (\<lambda>_ k. (3, k)), fs_write = (\<lambda>_ s k. (int (length s), k)), fs_close = (\<lambda>_ k. k),
     fs_readdir = (\<lambda>_ _. Some [''.'', ''..'', ''rpmsg_ctrl0'']), fs_content = (\<lambda>_ _. Some (EPT_NAME @ [CHR 0x0A])),
     fs_create_ept = (\<lambda>_ _ _ _ k. (0, k))\<rparr>"

lemma ex_fs_bus: "bus_ok ex_fs"
  by (simp add: bus_ok_def ex_fs_def)

lemma ex_fs_up: "channel_up ex_fs"
  by (auto simp: channel_up_def ex_fs_def control_of_def serves_def readable_def intro!: exI [of _ 0])


section \<open>Messages as bytes\<close>

interpretation word_code: fixed_codec "\<lambda>w :: u32. le_bytes 4 (unat w)" "\<lambda>bs. Some (word_of_nat (le_value bs))" 4 "\<lambda>_. True"
proof
  fix w :: u32
  have "unat w < 2 ^ 32" using unat_less_width [of w] by simp
  then show "Some (word_of_nat (le_value (le_bytes 4 (unat w)))) = Some w" by (simp add: le_value_le_bytes)
qed simp

lemma word_at_encoded:
  assumes "i < length ws"
  shows "word_at i (concat (map (\<lambda>w. le_bytes 4 (unat w)) ws) @ post) = ws ! i"
  using word_code.array_read [of i ws "[]" post] assms by (simp add: word_at_def)

lemma length_payload_bytes: "msg_wf m \<Longrightarrow> length (payload_bytes m) = main_buf_size"
  using word_code.enc_array_length [of "[pl_id m, pl_len m, pl_priv m, pl_buf m, pl_buf_len m] @ pl_data m"]
  by (simp add: payload_bytes_def msg_wf_def main_buf_size_def)

lemma payload_of_bytes:
  assumes "msg_wf m"
  shows "payload_of (payload_bytes m @ post) = m"
proof -
  let ?ws = "[pl_id m, pl_len m, pl_priv m, pl_buf m, pl_buf_len m] @ pl_data m"
  have w: "word_at i (payload_bytes m @ post) = ?ws ! i" if "i < 21" for i
    unfolding payload_bytes_def by (rule word_at_encoded) (use that assms in \<open>simp add: msg_wf_def\<close>)
  have "map (\<lambda>i. word_at (5 + i) (payload_bytes m @ post)) [0..<16] = map (\<lambda>i. pl_data m ! i) [0..<16]"
    by (rule map_cong) (simp_all add: w nth_append)
  also have "\<dots> = pl_data m" using assms by (metis map_nth msg_wf_def)
  finally show ?thesis by (simp add: payload_of_def w)
qed

text \<open>The answers to a sequence of messages.\<close>

definition answers :: "env \<Rightarrow> payload list \<Rightarrow> payload list" where
  "answers e ms = map (\<lambda>m. ack_msg m (reply_id e m)) (filter (\<lambda>m. pl_id m = PAYLOAD_ADM_CMD \<or> pl_id m = PAYLOAD_IO_CMD) ms)"

lemma thread_sends_nothing:
  "thread_begin k s = Inr s' \<Longrightarrow> sent s' = sent s" "thread_end e k s = Inr s' \<Longrightarrow> sent s' = sent s" "sent (flash_step d s) = sent s"
  by (auto simp: thread_begin_def thread_end_def flash_step_def Let_def split: option.splits)

lemma flash_wf: "apu_wf s \<Longrightarrow> apu_wf (flash_step d s)"
  by (rule apu_step_wf [OF step_flash])

lemma main_step_decodes:
  assumes "msg_wf m" "length buf = main_buf_size"
  shows "main_step e d (payload_bytes m) (buf, s) = res_bind (handle_msg e d m s) (\<lambda>s. Inr (payload_bytes m, s))"
proof -
  have "length (payload_bytes m) = main_buf_size" by (rule length_payload_bytes [OF assms(1)])
  then have "overwrite 0 (take main_buf_size (payload_bytes m)) buf = payload_bytes m" "payload_bytes m \<noteq> []"
    using assms(2) by (auto simp: overwrite_def main_buf_size_def)
  then show ?thesis using payload_of_bytes [OF assms(1), of "[]"] by (simp add: main_step_def)
qed

lemma main_run_answers:
  assumes "main_run e d (buf0, s0) reads c" "apu_wf s0" "length buf0 = main_buf_size"
    and "filter (\<lambda>r. r \<noteq> []) reads = map payload_bytes ms" "\<forall>m \<in> set ms. msg_wf m"
  shows "length (fst c) = main_buf_size \<and> apu_wf (snd c) \<and> sent (snd c) = sent s0 @ answers e ms"
  using assms(1,4,5)
proof (induction arbitrary: ms rule: main_run.induct)
  case run_start
  then show ?case using assms(2,3) by (simp add: answers_def)
next
  case (run_read reads c1 msg c2)
  show ?case
  proof (cases "msg = []")
    case True
    then show ?thesis using run_read by (auto simp: main_step_def)
  next
    case False
    then obtain ms' m where ms: "ms = ms' @ [m]" "msg = payload_bytes m" "filter (\<lambda>r. r \<noteq> []) reads = map payload_bytes ms'"
      using run_read.prems(1) by (cases ms rule: rev_cases) auto
    then have IH: "length (fst c1) = main_buf_size" "apu_wf (snd c1)" "sent (snd c1) = sent s0 @ answers e ms'"
      using run_read.IH [of ms'] run_read.prems(2) by simp_all
    have m: "msg_wf m" using run_read.prems(2) ms(1) by simp
    have "res_bind (handle_msg e d m (snd c1)) (\<lambda>s. Inr (payload_bytes m, s)) = Inr c2"
      using run_read.hyps(2) main_step_decodes [OF m IH(1), of e d "snd c1"] ms(2) by simp
    then obtain s where s: "handle_msg e d m (snd c1) = Inr s" "c2 = (payload_bytes m, s)" by auto
    show ?thesis using handle_msg_ok(2) [OF IH(2) s(1)] s(2) IH(3) ms(1) length_payload_bytes [OF m] by (auto simp: answers_def)
  qed
next
  case (run_begin reads buf s k s')
  then show ?case using thread_wf(1) thread_sends_nothing(1) by fastforce
next
  case (run_end reads buf s k s')
  then show ?case using thread_wf(2) thread_sends_nothing(2) by fastforce
next
  case (run_flash reads buf s)
  then show ?case using flash_wf thread_sends_nothing(3) by fastforce
qed



section \<open>Messages and names of the wrong size\<close>

text \<open>A message that is shorter than its structure leaves the rest of the message before it in the buffer: a prefix of the last
  command is handled as the whole command again.\<close>

lemma short_message_repeats:
  assumes "msg_wf m" "0 < n" "n \<le> main_buf_size"
  shows "main_step e d (take n (payload_bytes m)) (payload_bytes m, s) = res_bind (handle_msg e d m s) (\<lambda>s. Inr (payload_bytes m, s))"
proof -
  have "length (payload_bytes m) = main_buf_size" by (rule length_payload_bytes [OF assms(1)])
  then have "overwrite 0 (take main_buf_size (take n (payload_bytes m))) (payload_bytes m) = payload_bytes m" "take n (payload_bytes m) \<noteq> []"
    using assms(2,3) by (auto simp: overwrite_def main_buf_size_def min_def)
  then show ?thesis using payload_of_bytes [OF assms(1), of "[]"] by (simp add: main_step_def)
qed

text \<open>An entry of sixteen characters and more is copied past the array of its name.\<close>

lemma long_control_name_overruns:
  assumes "control_of fs k = Some ctrl" "16 \<le> length ctrl" "length ctrl < 379" "0 \<le> fst (fs_open fs (dev_path ctrl) k)"
  shows "get_rpmsg_chrdev_fd fs DEV_NAME k = Inl OutOfBounds"
proof -
  obtain names where n: "fs_readdir fs (rpmsg_dir DEV_NAME) k = Some names" "find (\<lambda>n. take 10 n = ''rpmsg_ctrl'') names = Some ctrl"
    using assms(1) by (auto simp: control_of_def split: option.splits)
  have "sprintf 384 (dev_path ctrl) = Inr (dev_path ctrl)" "sprintf 16 ctrl = Inl OutOfBounds"
    using assms(2,3) by (simp_all add: sprintf_def dev_path_def)
  then show ?thesis using n assms(4) by (simp add: get_rpmsg_chrdev_fd_def device_paths_fit(3) strncmp_eq_def case_prod_beta)
qed

end
