(* ===== verification/Apu_Vm.thy ===== *)
theory Apu_Vm
  imports Apu_Acc
begin

text \<open>
  The helpers a uBPF program calls to run a neural network (\<open>vm/tf.cpp\<close>, \<open>vm/register.cpp\<close>): the input buffer holds a
  model and then the inputs of the network; they are cut into the tensors of the interpreter, the network is invoked
  and its output tensors are written to the output buffer one after the other. TensorFlow Lite is a parameter
  (\<open>tflite\<close>). The buffers are the bytes behind the pointers a program passes; the sizes it passes are used for warnings only,
  which are part of the result. Measuring and logging the time is left out.

  Shown: what arrives in which tensor and where each output goes, exactly when a warning is given, and that a
  network that is larger than its buffers is read and written past their ends all the same.
\<close>

section \<open>The interpreter\<close>

text \<open>Tensors are given by whether their type is \<open>int8\<close> (otherwise \<open>typed_input_tensor<int8_t>\<close> is a null pointer) and
  their size. \<open>BuildFromBuffer\<close> gets the bytes and the length it is told.\<close>

record ('m, 'i) tflite =
  BuildFromBuffer :: "bytes \<Rightarrow> u64 \<Rightarrow> 'm option"
  InterpreterBuilder :: "'m \<Rightarrow> 'i option"
  ModifyGraphWithDelegate :: "'i \<Rightarrow> 'i"
  AllocateTensors :: "'i \<Rightarrow> 'i"
  input_tensors :: "'i \<Rightarrow> (bool \<times> nat) list"
  put_input :: "nat \<Rightarrow> bytes \<Rightarrow> 'i \<Rightarrow> 'i"
  Invoke :: "'i \<Rightarrow> 'i"
  output_tensors :: "'i \<Rightarrow> (bool \<times> nat) list"
  get_output :: "nat \<Rightarrow> 'i \<Rightarrow> bytes"

text \<open>The comparison \<open>offset + bytes > len\<close>, in which the \<open>int\<close> is converted to \<open>size_t\<close>.\<close>

definition exceeds :: "nat \<Rightarrow> u32 \<Rightarrow> bool" where
  "exceeds n len = (unat (scast len :: u64) < n)"

definition typed_tensor :: "bool \<times> nat \<Rightarrow> unit res" where
  "typed_tensor t = (if fst t \<or> snd t = 0 then Inr () else Inl NullDeref)"

fun copy_inputs :: "('m, 'i) tflite \<Rightarrow> bytes \<Rightarrow> u32 \<Rightarrow> nat list \<Rightarrow> nat \<Rightarrow> 'i \<Rightarrow> nat list \<Rightarrow> ('i \<times> nat list) res" where
  "copy_inputs L input_buf input_len [] offset interpreter warns = Inr (interpreter, warns)"
| "copy_inputs L input_buf input_len (i # left) offset interpreter warns =
    (let t = input_tensors L interpreter ! i;
         warns = (if exceeds (offset + snd t) input_len then warns @ [offset + snd t] else warns)
     in res_bind (typed_tensor t) (\<lambda>_.
        res_bind (guard_bounds (offset + snd t \<le> length input_buf)) (\<lambda>_.
        copy_inputs L input_buf input_len left (offset + snd t) (put_input L i (slice offset (snd t) input_buf) interpreter) warns)))"

fun copy_outputs :: "('m, 'i) tflite \<Rightarrow> u32 \<Rightarrow> nat list \<Rightarrow> nat \<Rightarrow> 'i \<Rightarrow> bytes \<Rightarrow> nat list \<Rightarrow> (bytes \<times> nat list) res" where
  "copy_outputs L output_len [] offset interpreter output_buf warns = Inr (output_buf, warns)"
| "copy_outputs L output_len (i # left) offset interpreter output_buf warns =
    (let t = output_tensors L interpreter ! i;
         warns = (if exceeds (offset + snd t) output_len then warns @ [offset + snd t] else warns)
     in res_bind (typed_tensor t) (\<lambda>_.
        res_bind (guard_bounds (offset + snd t \<le> length output_buf)) (\<lambda>_.
        copy_outputs L output_len left (offset + snd t) interpreter (overwrite offset (get_output L i interpreter) output_buf) warns)))"

definition deref_ptr :: "'a option \<Rightarrow> 'a res" where
  "deref_ptr p = (case p of None \<Rightarrow> Inl NullDeref | Some x \<Rightarrow> Inr x)"

definition tflite_handler ::
  "('m, 'i) tflite \<Rightarrow> bytes \<Rightarrow> bytes \<Rightarrow> bytes \<Rightarrow> u32 \<Rightarrow> u32 \<Rightarrow> u32 \<Rightarrow> bool \<Rightarrow> (bytes \<times> nat list \<times> nat list) res" where
  "tflite_handler L model_buf input_buf output_buf model_len input_len output_len with_vta =
    res_bind (deref_ptr (BuildFromBuffer L model_buf (scast model_len))) (\<lambda>model.
    res_bind (deref_ptr (InterpreterBuilder L model)) (\<lambda>interpreter.
    let interpreter = (if with_vta then ModifyGraphWithDelegate L interpreter else interpreter);
        interpreter = AllocateTensors L interpreter
    in res_bind (copy_inputs L input_buf input_len [0..<length (input_tensors L interpreter)] 0 interpreter []) (\<lambda>(interpreter, in_warns).
       let interpreter = Invoke L interpreter
       in res_bind (copy_outputs L output_len [0..<length (output_tensors L interpreter)] 0 interpreter output_buf []) (\<lambda>(output_buf, out_warns).
          Inr (output_buf, in_warns, out_warns)))))"

text \<open>The helpers: the inputs follow the model. A pointer before or past the buffer is undefined.\<close>

definition vm_tflite :: "('m, 'i) tflite \<Rightarrow> bytes \<Rightarrow> bytes \<Rightarrow> u32 \<Rightarrow> u32 \<Rightarrow> u32 \<Rightarrow> bool \<Rightarrow> (bytes \<times> nat list \<times> nat list) res" where
  "vm_tflite L ib ob isize osize model_size with_vta =
    (if 0 \<le> sint model_size \<and> nat (sint model_size) \<le> length ib
     then tflite_handler L ib (drop (nat (sint model_size)) ib) ob model_size isize osize with_vta
     else Inl (Undefined ''pointer outside of the buffer''))"

definition vm_tflite_apu :: "('m, 'i) tflite \<Rightarrow> bytes \<Rightarrow> bytes \<Rightarrow> u32 \<Rightarrow> u32 \<Rightarrow> u32 \<Rightarrow> (bytes \<times> nat list \<times> nat list) res" where
  "vm_tflite_apu L ib ob isize osize model_size = vm_tflite L ib ob isize osize model_size False"

definition vm_tflite_vta :: "('m, 'i) tflite \<Rightarrow> bytes \<Rightarrow> bytes \<Rightarrow> u32 \<Rightarrow> u32 \<Rightarrow> u32 \<Rightarrow> (bytes \<times> nat list \<times> nat list) res" where
  "vm_tflite_vta L ib ob isize osize model_size = vm_tflite L ib ob isize osize model_size True"

datatype helper = Vm_print | Vm_tflite_apu | Vm_tflite_vta

definition register_functions :: "(nat \<times> string \<times> helper) list" where
  "register_functions = [(1, ''print'', Vm_print), (2, ''tflite_apu'', Vm_tflite_apu), (3, ''tflite_vta'', Vm_tflite_vta)]"

section \<open>Tensors in a buffer\<close>

text \<open>The reference: consecutive pieces of the given sizes.\<close>

fun pieces :: "nat list \<Rightarrow> bytes \<Rightarrow> bytes list" where
  "pieces [] bs = []"
| "pieces (n # ns) bs = take n bs # pieces ns (drop n bs)"

definition put_all :: "('m, 'i) tflite \<Rightarrow> nat \<Rightarrow> bytes list \<Rightarrow> 'i \<Rightarrow> 'i" where
  "put_all L i bss = fold (\<lambda>(j, bs). put_input L j bs) (zip [i..<i + length bss] bss)"

text \<open>The ends of consecutive pieces that lie behind a length.\<close>

definition late_ends :: "nat \<Rightarrow> nat list \<Rightarrow> u32 \<Rightarrow> nat list" where
  "late_ends off ns len = filter (\<lambda>n. exceeds n len) (map (\<lambda>k. off + sum_list (take (Suc k) ns)) [0..<length ns])"

lemma late_ends_Cons: "late_ends off (n # ns) len = (if exceeds (off + n) len then [off + n] else []) @ late_ends (off + n) ns len"
  unfolding late_ends_def by (simp add: upt_conv_Cons map_Suc_upt [symmetric] add.assoc del: upt_Suc) (simp add: comp_def)

lemma late_ends_Nil [simp]: "late_ends off [] len = []"
  by (simp add: late_ends_def)

lemma length_pieces [simp]: "length (pieces ns bs) = length ns"
  by (induction ns arbitrary: bs) auto

lemma put_all_Cons: "put_all L i (bs # bss) x = put_all L (Suc i) bss (put_input L i bs x)"
  by (simp add: put_all_def upt_conv_Cons del: upt_Suc)

lemma put_all_Nil [simp]: "put_all L i [] x = x"
  by (simp add: put_all_def)

text \<open>What the code relies on of the interpreter: writing a tensor does not change the list of tensors, and an output is as long as its
  tensor.\<close>

definition tflite_ok :: "('m, 'i) tflite \<Rightarrow> bool" where
  "tflite_ok L = ((\<forall>i bs x. input_tensors L (put_input L i bs x) = input_tensors L x) \<and>
     (\<forall>x. \<forall>i < length (output_tensors L x). length (get_output L i x) = snd (output_tensors L x ! i)))"

lemma copy_inputs_pieces:
  assumes "tflite_ok L" "input_tensors L x = pre @ ts" "\<forall>t \<in> set ts. fst t"
  shows "copy_inputs L buf len [length pre..<length pre + length ts] off x w =
    (if off + sum_list (map snd ts) \<le> length buf \<or> ts = []
     then Inr (put_all L (length pre) (pieces (map snd ts) (drop off buf)) x, w @ late_ends off (map snd ts) len)
     else Inl OutOfBounds)"
  using assms(2,3)
proof (induction ts arbitrary: pre off x w)
  case (Cons t ts)
  let ?x = "put_input L (length pre) (slice off (snd t) buf) x"
  let ?w = "if exceeds (off + snd t) len then w @ [off + snd t] else w"
  have u: "[length pre..<length pre + length (t # ts)] = length pre # [length (pre @ [t])..<length (pre @ [t]) + length ts]"
    by (simp add: upt_conv_Cons del: upt_Suc)
  have t: "input_tensors L x ! length pre = t" using Cons.prems(1) by simp
  have "input_tensors L ?x = (pre @ [t]) @ ts" using assms(1) Cons.prems(1) by (simp add: tflite_ok_def)
  note IH = Cons.IH [OF this, of "off + snd t" ?w]
  have "copy_inputs L buf len [length pre..<length pre + length (t # ts)] off x w =
      (if off + snd t \<le> length buf then copy_inputs L buf len [length (pre @ [t])..<length (pre @ [t]) + length ts] (off + snd t) ?x ?w
       else Inl OutOfBounds)"
    unfolding u using Cons.prems(2) t by (simp add: typed_tensor_def Let_def)
  then show ?case
    using IH Cons.prems(2) by (auto simp: late_ends_Cons put_all_Cons slice_def add.assoc add.commute)
qed simp

lemma outputs_length:
  assumes "tflite_ok L" "output_tensors L x = pre @ ts"
  shows "length (concat (map (\<lambda>i. get_output L i x) [length pre..<length pre + length ts])) = sum_list (map snd ts)"
  using assms(2)
proof (induction ts arbitrary: pre)
  case (Cons t ts)
  have "length (get_output L (length pre) x) = snd t" using assms(1) Cons.prems by (simp add: tflite_ok_def)
  then show ?case using Cons.IH [of "pre @ [t]"] Cons.prems by (simp add: upt_conv_Cons del: upt_Suc)
qed simp

lemma copy_outputs_concat:
  assumes "tflite_ok L" "output_tensors L x = pre @ ts" "\<forall>t \<in> set ts. fst t"
  shows "copy_outputs L len [length pre..<length pre + length ts] off x buf w =
    (if off + sum_list (map snd ts) \<le> length buf \<or> ts = []
     then Inr (overwrite off (concat (map (\<lambda>i. get_output L i x) [length pre..<length pre + length ts])) buf, w @ late_ends off (map snd ts) len)
     else Inl OutOfBounds)"
  using assms(2,3)
proof (induction ts arbitrary: pre off buf w)
  case (Cons t ts)
  let ?b = "overwrite off (get_output L (length pre) x) buf"
  let ?w = "if exceeds (off + snd t) len then w @ [off + snd t] else w"
  define left where "left = [length (pre @ [t])..<length (pre @ [t]) + length ts]"
  define ys where "ys = concat (map (\<lambda>i. get_output L i x) left)"
  have u: "[length pre..<length pre + length (t # ts)] = length pre # left"
    by (simp add: left_def upt_conv_Cons del: upt_Suc)
  have t: "output_tensors L x ! length pre = t" "length pre < length (output_tensors L x)" using Cons.prems(1) by simp_all
  then have l: "length (get_output L (length pre) x) = snd t" using assms(1) by (simp add: tflite_ok_def)
  have ly: "length ys = sum_list (map snd ts)"
    unfolding ys_def left_def by (rule outputs_length [OF assms(1)]) (simp add: Cons.prems(1))
  have IH: "copy_outputs L len left (off + snd t) x ?b ?w =
      (if off + snd t + sum_list (map snd ts) \<le> length ?b \<or> ts = [] then Inr (overwrite (off + snd t) ys ?b, ?w @ late_ends (off + snd t) (map snd ts) len)
       else Inl OutOfBounds)"
    unfolding left_def ys_def by (rule Cons.IH) (use Cons.prems in simp_all)
  have e: "copy_outputs L len (length pre # left) off x buf w = (if off + snd t \<le> length buf then copy_outputs L len left (off + snd t) x ?b ?w else Inl OutOfBounds)"
    using Cons.prems(2) t by (simp add: typed_tensor_def Let_def)
  have o: "overwrite (off + snd t) ys ?b = overwrite off (get_output L (length pre) x @ ys) buf" if "off + snd t + length ys \<le> length buf"
    using overwrite_adjacent [of off "get_output L (length pre) x" ys buf] l that by simp
  show ?case
  proof (cases "off + snd t + sum_list (map snd ts) \<le> length buf")
    case True
    then have "length ?b = length buf" using l by simp
    then show ?thesis using True o ly unfolding u e IH by (simp add: late_ends_Cons ys_def)
  next
    case False
    have "length ?b = length buf" if "off + snd t \<le> length buf" using l that by simp
    then show ?thesis using False unfolding u e IH by auto
  qed
qed simp

lemma exceeds_mono: "exceeds n len \<Longrightarrow> n \<le> m \<Longrightarrow> exceeds m len"
  by (simp add: exceeds_def)

lemma no_late_ends: "(late_ends off ns len = []) = (ns = [] \<or> \<not> exceeds (off + sum_list ns) len)"
proof (induction ns arbitrary: off)
  case (Cons n ns)
  have "\<not> exceeds (off + (n + sum_list ns)) len \<Longrightarrow> \<not> exceeds (off + n) len" using exceeds_mono [of "off + n" len "off + (n + sum_list ns)"] by auto
  then show ?case using Cons [of "off + n"] by (auto simp: late_ends_Cons add.assoc)
qed simp

section \<open>Properties\<close>

text \<open>C39: what a helper does for a model that can be built, with tensors of type \<open>int8\<close>: the inputs that follow the model are cut into
  consecutive pieces, one for each input tensor in order, and the output tensors are written one after the other from the start of
  the output buffer, whose rest stays. A warning is given exactly when the tensors together exceed the size the program passed,
  and has no effect: the helper leaves a buffer exactly when the tensors are larger than what is behind its pointer.\<close>

theorem tflite_runs_model:
  assumes "tflite_ok L" "0 \<le> sint model_size" "nat (sint model_size) \<le> length ib"
    and "BuildFromBuffer L ib (scast model_size) = Some m" "InterpreterBuilder L m = Some x0"
    and "x1 = AllocateTensors L (if with_vta then ModifyGraphWithDelegate L x0 else x0)" "\<forall>t \<in> set (input_tensors L x1). fst t"
    and "x2 = Invoke L (put_all L 0 (pieces (map snd (input_tensors L x1)) (drop (nat (sint model_size)) ib)) x1)" "\<forall>t \<in> set (output_tensors L x2). fst t"
    and "ins = map snd (input_tensors L x1)" "outs = map snd (output_tensors L x2)"
  shows "(if with_vta then vm_tflite_vta L ib ob isize osize model_size else vm_tflite_apu L ib ob isize osize model_size) =
    (if nat (sint model_size) + sum_list ins \<le> length ib \<and> sum_list outs \<le> length ob
     then Inr (overwrite 0 (concat (map (\<lambda>i. get_output L i x2) [0..<length outs])) ob, late_ends 0 ins isize, late_ends 0 outs osize)
     else Inl OutOfBounds) \<and>
    (late_ends 0 ins isize = [] \<longleftrightarrow> ins = [] \<or> \<not> exceeds (sum_list ins) isize) \<and>
    (late_ends 0 outs osize = [] \<longleftrightarrow> outs = [] \<or> \<not> exceeds (sum_list outs) osize)"
proof -
  let ?in = "drop (nat (sint model_size)) ib"
  have i: "copy_inputs L ?in isize [0..<length (input_tensors L x1)] 0 x1 [] =
      (if sum_list ins \<le> length ?in then Inr (put_all L 0 (pieces ins ?in) x1, late_ends 0 ins isize) else Inl OutOfBounds)"
    using copy_inputs_pieces [OF assms(1), of x1 "[]", OF _ assms(7), of ?in isize 0 "[]"] assms(10) by auto
  have o: "copy_outputs L osize [0..<length (output_tensors L x2)] 0 x2 ob [] =
      (if sum_list outs \<le> length ob then Inr (overwrite 0 (concat (map (\<lambda>i. get_output L i x2) [0..<length outs])) ob, late_ends 0 outs osize)
       else Inl OutOfBounds)"
    using copy_outputs_concat [OF assms(1), of x2 "[]", OF _ assms(9), of osize 0 ob "[]"] assms(11) by auto
  have "vm_tflite L ib ob isize osize model_size with_vta =
      (if nat (sint model_size) + sum_list ins \<le> length ib \<and> sum_list outs \<le> length ob
       then Inr (overwrite 0 (concat (map (\<lambda>i. get_output L i x2) [0..<length outs])) ob, late_ends 0 ins isize, late_ends 0 outs osize)
       else Inl OutOfBounds)"
    using assms(2-6,8,10) i o by (auto simp: vm_tflite_def tflite_handler_def deref_ptr_def Let_def simp flip: assms(6))
  then show ?thesis using no_late_ends [of 0] by (cases with_vta) (simp_all add: vm_tflite_vta_def vm_tflite_apu_def)
qed

text \<open>A network with two input tensors and their concatenation as its output, and a buffer with a model of two bytes.\<close>

definition ex_tflite :: "(unit, bytes list) tflite" where
  "ex_tflite = \<lparr>BuildFromBuffer = (\<lambda>_ _. Some ()), InterpreterBuilder = (\<lambda>_. Some [[0, 0], [0]]), ModifyGraphWithDelegate = (\<lambda>x. x),
     AllocateTensors = (\<lambda>x. x), input_tensors = (\<lambda>_. [(True, 2), (True, 1)]), put_input = (\<lambda>i bs x. x[i := bs]), Invoke = (\<lambda>x. x),
     output_tensors = (\<lambda>x. [(True, length (concat x))]), get_output = (\<lambda>_ x. concat x)\<rparr>"

theorem tflite_runs_model_witness:
  "vm_tflite_vta ex_tflite [77, 78, 1, 2, 3] [9, 9, 9, 9] 3 2 2 = Inr ([1, 2, 3, 9], [], [3])"
proof -
  have ok: "tflite_ok ex_tflite" by (simp add: tflite_ok_def ex_tflite_def)
  have s: "sint (2 :: u32) = 2" by simp
  have p: "pieces [2, 1] (drop (nat 2) [77, 78, 1, 2, 3]) = [[1, 2], [3]]" by simp
  have x: "[[1, 2], [3]] = Invoke ex_tflite (put_all ex_tflite 0 [[1, 2], [3]] [[0, 0], [0]])" by code_simp
  have w: "late_ends 0 [2, 1] 3 = []" "late_ends 0 [3] 2 = [3]" by code_simp+
  have o: "overwrite 0 (concat (map (\<lambda>i. get_output ex_tflite i [[1, 2], [3]]) [0..<length [3]])) [9, 9, 9, 9] = [1, 2, 3, 9]" by code_simp
  have f: "BuildFromBuffer ex_tflite b n = Some ()" "InterpreterBuilder ex_tflite () = Some [[0, 0], [0]]" "AllocateTensors ex_tflite y = y"
      "ModifyGraphWithDelegate ex_tflite y = y" "input_tensors ex_tflite y = [(True, 2), (True, 1)]" "output_tensors ex_tflite y = [(True, length (concat y))]"
    for b n y by (simp_all add: ex_tflite_def)
  let ?ib = "[77, 78, 1, 2, 3] :: bytes"
  have b: "0 \<le> sint (2 :: u32)" "nat (sint (2 :: u32)) \<le> length ?ib" by (simp_all add: s)
  have x1: "[[0, 0], [0]] = AllocateTensors ex_tflite (if True then ModifyGraphWithDelegate ex_tflite [[0, 0], [0]] else [[0, 0], [0]])"
      "\<forall>t \<in> set (input_tensors ex_tflite [[0, 0], [0]]). fst t" by (simp_all add: f)
  have "map snd (input_tensors ex_tflite [[0, 0], [0]]) = [2, 1]" by (simp add: f)
  then have x2: "[[1, 2], [3]] = Invoke ex_tflite (put_all ex_tflite 0 (pieces (map snd (input_tensors ex_tflite [[0, 0], [0]])) (drop (nat (sint (2 :: u32))) ?ib)) [[0, 0], [0]])"
    using x p s by metis
  have z: "\<forall>t \<in> set (output_tensors ex_tflite [[1, 2], [3]]). fst t" "[2, 1] = map snd (input_tensors ex_tflite [[0, 0], [0]])"
      "[3] = map snd (output_tensors ex_tflite [[1, 2], [3]])" by (simp_all add: f)
  from conjunct1 [OF tflite_runs_model [OF ok b f(1,2) x1 x2 z, where ob = "[9, 9, 9, 9]" and isize = 3 and osize = 2]]
  show ?thesis unfolding w o s by simp
qed

end
