(* ===== verification/Rpu_Platform.thy ===== *)
theory Rpu_Platform
  imports Prelude "HOL-Library.Sublist"
begin

text \<open>
  The link of the real-time processor to the application processor (\<open>platform_info.c\<close>, \<open>zynqmp_r5_a53_rproc.c\<close>, \<open>rpmsg_init\<close> of
  \<open>rpmsg.c\<close>, the loop of \<open>main.c\<close>). OpenAMP, libmetal and the drivers of Zephyr are parameters (\<open>'o amp\<close>); the functions that call
  back into the operations of the platform get them as an argument. The state holds what the sources keep: the
  flag \<open>ipi_nokick\<close> that the mailbox interrupt clears and the poll sets, the mailbox devices, the memory regions of the
  remote processor, and how many blocks of memory are allocated. Logging is left out.

  Shown: how the initialisation ends and what it has set up, which failure leaks a block, and that a message whose
  interrupt has arrived is delivered by the next poll, in order and once.
\<close>

section \<open>State and libraries\<close>

type_synonym region = "u32 \<times> u32 \<times> u32 \<times> u32"   \<comment> \<open>physical address, device address, size, attribute\<close>

record 'o plat =
  ipi_nokick :: bool
  rproc_priv :: bool
  tc_platform :: bool
  ipm_dev_tx :: bool
  ipm_dev_rx :: bool
  rx_enabled :: bool
  mems :: "region list"
  blocks :: nat
  ipm_sent :: nat
  lib :: 'o

record 'o amp =
  device_get_binding :: "string \<Rightarrow> bool"
  metal_allocate_memory :: "'o \<Rightarrow> bool \<times> 'o"
  remoteproc_init :: "('o plat \<Rightarrow> bool \<times> 'o plat) \<Rightarrow> 'o plat \<Rightarrow> bool \<times> 'o plat"
  remoteproc_mmap :: "(u32 \<Rightarrow> u32 \<Rightarrow> u32 \<Rightarrow> u32 \<Rightarrow> 'o plat \<Rightarrow> bool \<times> 'o plat) \<Rightarrow> u32 \<Rightarrow> u32 \<Rightarrow> u32 \<Rightarrow> 'o plat \<Rightarrow> 'o plat"
  remoteproc_remove :: "('o plat \<Rightarrow> 'o plat) \<Rightarrow> 'o plat \<Rightarrow> 'o plat"
  remoteproc_set_rsc_table :: "u32 \<Rightarrow> u32 \<Rightarrow> 'o \<Rightarrow> int \<times> 'o"
  remoteproc_get_io_with_pa :: "region list \<Rightarrow> u32 \<Rightarrow> bool"
  remoteproc_create_virtio :: "'o \<Rightarrow> bool \<times> 'o"
  remoteproc_remove_virtio :: "'o \<Rightarrow> 'o"
  rpmsg_virtio_init_shm_pool :: "u32 \<Rightarrow> u32 \<Rightarrow> 'o \<Rightarrow> 'o"
  rpmsg_init_vdev :: "'o \<Rightarrow> int \<times> 'o"
  amp_create_ept :: "bool \<Rightarrow> 'o \<Rightarrow> int \<times> 'o"
  remoteproc_get_notification :: "'o \<Rightarrow> 'o"

definition METAL_BAD_PHYS :: u32 where "METAL_BAD_PHYS = - 1"
definition NORM_NSHARED_NCACHE :: u32 where "NORM_NSHARED_NCACHE = 0x8"
definition NORM_SHARED_NCACHE :: u32 where "NORM_SHARED_NCACHE = 0xC"
definition PRIV_RW_USER_RW :: u32 where "PRIV_RW_USER_RW = 0x300"
definition SHARED_MEM_PA :: u32 where "SHARED_MEM_PA = 0x7ff00000"
definition SHARED_MEM_SIZE :: u32 where "SHARED_MEM_SIZE = 0x100000"
definition SHARED_BUF_OFFSET :: u32 where "SHARED_BUF_OFFSET = 0x8000"

section \<open>Operations of the remote processor (zynqmp\_r5\_a53\_rproc.c)\<close>

text \<open>The interrupt handler of the mailbox; the argument is never null.\<close>

definition zynqmp_r5_a53_proc_irq_handler :: "'o plat \<Rightarrow> 'o plat res" where
  "zynqmp_r5_a53_proc_irq_handler s = (if rproc_priv s then Inr (s\<lparr>ipi_nokick := False\<rparr>) else Inl NullDeref)"

definition zynqmp_r5_a53_proc_init :: "'o amp \<Rightarrow> 'o plat \<Rightarrow> bool \<times> 'o plat" where
  "zynqmp_r5_a53_proc_init A s =
    (True, s\<lparr>ipm_dev_tx := device_get_binding A ''MAILBOX_0'', ipm_dev_rx := device_get_binding A ''MAILBOX_1'',
       rx_enabled := True, rproc_priv := True, ipi_nokick := True\<rparr>)"

definition zynqmp_r5_a53_proc_remove :: "'o plat \<Rightarrow> 'o plat" where
  "zynqmp_r5_a53_proc_remove s = s\<lparr>rx_enabled := False\<rparr>"

definition allocate :: "'o amp \<Rightarrow> 'o plat \<Rightarrow> bool \<times> 'o plat" where
  "allocate A s = (let (ok, l) = metal_allocate_memory A (lib s) in (ok, s\<lparr>lib := l, blocks := blocks s + (if ok then 1 else 0)\<rparr>))"

definition metal_free_memory :: "'o plat \<Rightarrow> 'o plat" where
  "metal_free_memory s = s\<lparr>blocks := blocks s - 1\<rparr>"

definition zynqmp_r5_a53_proc_mmap :: "'o amp \<Rightarrow> u32 \<Rightarrow> u32 \<Rightarrow> u32 \<Rightarrow> u32 \<Rightarrow> 'o plat \<Rightarrow> bool \<times> 'o plat" where
  "zynqmp_r5_a53_proc_mmap A pa da sz attr s =
    (if pa = METAL_BAD_PHYS \<and> da = METAL_BAD_PHYS then (False, s)
     else let lpa = (if pa = METAL_BAD_PHYS then da else pa);
              lda = (if da = METAL_BAD_PHYS then lpa else da);
              attr = (if attr = 0 then or NORM_SHARED_NCACHE PRIV_RW_USER_RW else attr);
              (mem, s) = allocate A s
          in if \<not> mem then (False, s)
             else let (tmpio, s) = allocate A s
                  in if \<not> tmpio then (False, metal_free_memory s)
                     else (True, s\<lparr>mems := mems s @ [(lpa, lda, sz, attr)]\<rparr>))"

definition zynqmp_r5_a53_proc_notify :: "'o plat \<Rightarrow> int \<times> 'o plat" where
  "zynqmp_r5_a53_proc_notify s = (0, if ipm_dev_tx s then s\<lparr>ipm_sent := ipm_sent s + 1\<rparr> else s)"

section \<open>The platform (platform\_info.c)\<close>

text \<open>The resource table of \<open>rsc_table.c\<close> is given by its address and size.\<close>

definition platform_create_proc :: "'o amp \<Rightarrow> u32 \<Rightarrow> u32 \<Rightarrow> 'o plat \<Rightarrow> bool \<times> 'o plat" where
  "platform_create_proc A rsc_table rsc_size s =
    (let (ok, s) = remoteproc_init A (zynqmp_r5_a53_proc_init A) s
     in if \<not> ok then (False, s)
        else let s = remoteproc_mmap A (zynqmp_r5_a53_proc_mmap A) rsc_table rsc_size (or NORM_NSHARED_NCACHE PRIV_RW_USER_RW) s;
                 s = remoteproc_mmap A (zynqmp_r5_a53_proc_mmap A) SHARED_MEM_PA SHARED_MEM_SIZE (or NORM_NSHARED_NCACHE PRIV_RW_USER_RW) s;
                 (ret, l) = remoteproc_set_rsc_table A rsc_table rsc_size (lib s);
                 s = s\<lparr>lib := l\<rparr>
             in if ret \<noteq> 0 then (False, remoteproc_remove A zynqmp_r5_a53_proc_remove s) else (True, s))"

definition platform_init :: "'o amp \<Rightarrow> u32 \<Rightarrow> u32 \<Rightarrow> 'o plat \<Rightarrow> int \<times> 'o plat" where
  "platform_init A rsc_table rsc_size s =
    (let (ok, s) = platform_create_proc A rsc_table rsc_size s in if ok then (0, s\<lparr>tc_platform := True\<rparr>) else (- 22, s))"

definition platform_create_rpmsg_vdev :: "'o amp \<Rightarrow> 'o plat \<Rightarrow> bool \<times> 'o plat" where
  "platform_create_rpmsg_vdev A s =
    (let (ok, s) = allocate A s
     in if \<not> ok then (False, s)
        else if \<not> remoteproc_get_io_with_pa A (mems s) SHARED_MEM_PA then (False, s)
        else let (vdev, l) = remoteproc_create_virtio A (lib s); s = s\<lparr>lib := l\<rparr>
             in if \<not> vdev then (False, metal_free_memory s)
                else let l = rpmsg_virtio_init_shm_pool A (SHARED_MEM_PA + SHARED_BUF_OFFSET) (SHARED_MEM_SIZE - SHARED_BUF_OFFSET) (lib s);
                         (ret, l) = rpmsg_init_vdev A l
                     in if ret \<noteq> 0 then (False, metal_free_memory (s\<lparr>lib := remoteproc_remove_virtio A l\<rparr>))
                        else (True, s\<lparr>lib := l\<rparr>))"

definition platform_poll :: "'o amp \<Rightarrow> 'o plat \<Rightarrow> 'o plat res" where
  "platform_poll A s =
    (if \<not> (tc_platform s \<and> rproc_priv s) then Inl NullDeref
     else let was_set = ipi_nokick s; s = s\<lparr>ipi_nokick := True\<rparr>
          in Inr (if was_set then s else s\<lparr>lib := remoteproc_get_notification A (lib s)\<rparr>))"

definition platform_cleanup :: "'o amp \<Rightarrow> 'o plat \<Rightarrow> 'o plat" where
  "platform_cleanup A s = remoteproc_remove A zynqmp_r5_a53_proc_remove s"

section \<open>Messages (rpmsg.c) and the main loop (main.c)\<close>

text \<open>\<open>rpmsg_init\<close>: the result of the creation of the device is not tested, \<open>rpmsg_create_ept\<close> gets the pointer as it is.\<close>

definition rpu_rpmsg_init :: "'o amp \<Rightarrow> u32 \<Rightarrow> u32 \<Rightarrow> 'o plat \<Rightarrow> int \<times> 'o plat" where
  "rpu_rpmsg_init A rsc_table rsc_size s =
    (let (ret, s) = platform_init A rsc_table rsc_size s
     in if ret \<noteq> 0 then (ret, s)
        else let (rpdev, s) = platform_create_rpmsg_vdev A s;
                 (ret, l) = amp_create_ept A rpdev (lib s)
             in (ret, s\<lparr>lib := l\<rparr>))"

text \<open>What happens while the loop runs: the other processor posts a message, its interrupt arrives, the loop polls.\<close>

datatype 'm event = Post 'm | Irq | Poll

definition on_event :: "'o amp \<Rightarrow> ('m \<Rightarrow> 'o \<Rightarrow> 'o) \<Rightarrow> 'm event \<Rightarrow> 'o plat \<Rightarrow> 'o plat res" where
  "on_event A post ev s =
    (case ev of Post m \<Rightarrow> Inr (s\<lparr>lib := post m (lib s)\<rparr>)
     | Irq \<Rightarrow> zynqmp_r5_a53_proc_irq_handler s
     | Poll \<Rightarrow> platform_poll A s)"

section \<open>Initialisation\<close>

text \<open>What the code relies on of OpenAMP: \<open>remoteproc_init\<close> and \<open>remoteproc_mmap\<close> call the operations of the platform, the latter with an
  undefined device address when it gets none, and a region is found by an address in it. On a machine that is up no call fails.\<close>

definition amp_calls :: "'o amp \<Rightarrow> bool" where
  "amp_calls A = ((\<forall>f s. remoteproc_init A f s = f s) \<and> (\<forall>f pa n a s. remoteproc_mmap A f pa n a s = snd (f pa METAL_BAD_PHYS n a s)) \<and>
     (\<forall>ms pa. remoteproc_get_io_with_pa A ms pa = (\<exists>(p, d, n, a) \<in> set ms. p \<le> pa \<and> pa < p + n)))"

definition amp_up :: "'o amp \<Rightarrow> bool" where
  "amp_up A = (\<forall>l. fst (metal_allocate_memory A l) \<and> (\<forall>p n. fst (remoteproc_set_rsc_table A p n l) = 0) \<and>
     fst (remoteproc_create_virtio A l) \<and> fst (rpmsg_init_vdev A l) = 0 \<and> fst (amp_create_ept A True l) = 0)"

definition UNCACHED :: u32 where "UNCACHED = or NORM_NSHARED_NCACHE PRIV_RW_USER_RW"

text \<open>The state after a region was mapped, whatever the library allocated from.\<close>

definition maps_to :: "'o plat \<Rightarrow> nat \<Rightarrow> region list \<Rightarrow> 'o plat \<Rightarrow> bool" where
  "maps_to s n rs s' = (\<exists>l. s' = s\<lparr>blocks := blocks s + n, mems := mems s @ rs, lib := l\<rparr>)"

lemma allocate_up: "amp_up A \<Longrightarrow> \<exists>l. allocate A s = (True, s\<lparr>blocks := blocks s + 1, lib := l\<rparr>)"
  by (rule exI [of _ "snd (metal_allocate_memory A (lib s))"]) (simp add: allocate_def amp_up_def case_prod_beta)

lemma proc_mmap_up:
  assumes "amp_up A" "pa \<noteq> METAL_BAD_PHYS"
  shows "\<exists>s'. zynqmp_r5_a53_proc_mmap A pa METAL_BAD_PHYS n UNCACHED s = (True, s') \<and> maps_to s 2 [(pa, pa, n, UNCACHED)] s'"
proof -
  obtain l where 1: "allocate A s = (True, s\<lparr>blocks := blocks s + 1, lib := l\<rparr>)" using allocate_up [OF assms(1)] by blast
  obtain l' where 2: "allocate A (s\<lparr>blocks := blocks s + 1, lib := l\<rparr>) = (True, (s\<lparr>blocks := blocks s + 1, lib := l\<rparr>)\<lparr>blocks := blocks s + 1 + 1, lib := l'\<rparr>)"
    using allocate_up [OF assms(1), of "s\<lparr>blocks := blocks s + 1, lib := l\<rparr>"] by auto
  have "UNCACHED \<noteq> 0" by (simp add: UNCACHED_def NORM_NSHARED_NCACHE_def PRIV_RW_USER_RW_def)
  then show ?thesis using 1 2 assms(2) by (auto simp: zynqmp_r5_a53_proc_mmap_def maps_to_def Let_def intro!: exI [of _ l'])
qed

lemma mmap_up:
  assumes "amp_calls A" "amp_up A" "pa \<noteq> METAL_BAD_PHYS"
  shows "maps_to s 2 [(pa, pa, n, UNCACHED)] (remoteproc_mmap A (zynqmp_r5_a53_proc_mmap A) pa n UNCACHED s)"
  using proc_mmap_up [OF assms(2,3), of n s] assms(1) by (auto simp: amp_calls_def)

lemma platform_up:
  assumes "amp_calls A" "amp_up A" "tab \<noteq> METAL_BAD_PHYS"
  shows "\<exists>l. platform_init A tab n s = (0, s\<lparr>ipm_dev_tx := device_get_binding A ''MAILBOX_0'', ipm_dev_rx := device_get_binding A ''MAILBOX_1'',
    rx_enabled := True, rproc_priv := True, ipi_nokick := True, blocks := blocks s + 4,
    mems := mems s @ [(tab, tab, n, UNCACHED), (SHARED_MEM_PA, SHARED_MEM_PA, SHARED_MEM_SIZE, UNCACHED)], lib := l, tc_platform := True\<rparr>)"
proof -
  let ?s = "snd (zynqmp_r5_a53_proc_init A s)"
  have i: "remoteproc_init A (zynqmp_r5_a53_proc_init A) s = (True, ?s)" using assms(1) by (simp add: amp_calls_def zynqmp_r5_a53_proc_init_def)
  obtain l1 where 1: "remoteproc_mmap A (zynqmp_r5_a53_proc_mmap A) tab n UNCACHED ?s = ?s\<lparr>blocks := blocks ?s + 2, mems := mems ?s @ [(tab, tab, n, UNCACHED)], lib := l1\<rparr>"
      (is "_ = ?s1") using mmap_up [OF assms(1-3)] unfolding maps_to_def by blast
  have "SHARED_MEM_PA \<noteq> METAL_BAD_PHYS" by (simp add: SHARED_MEM_PA_def METAL_BAD_PHYS_def)
  then obtain l2 where 2: "remoteproc_mmap A (zynqmp_r5_a53_proc_mmap A) SHARED_MEM_PA SHARED_MEM_SIZE UNCACHED ?s1 =
      ?s1\<lparr>blocks := blocks ?s1 + 2, mems := mems ?s1 @ [(SHARED_MEM_PA, SHARED_MEM_PA, SHARED_MEM_SIZE, UNCACHED)], lib := l2\<rparr>"
    using mmap_up [OF assms(1,2)] unfolding maps_to_def by blast
  obtain l3 where 3: "remoteproc_set_rsc_table A tab n l2 = (0, l3)" using assms(2) unfolding amp_up_def by (metis prod.collapse)
  show ?thesis
    using i 1 2 3
    by (intro exI [of _ l3]) (simp add: platform_init_def platform_create_proc_def UNCACHED_def [symmetric] zynqmp_r5_a53_proc_init_def numeral_eq_Suc)
qed

lemma vdev_up:
  assumes "amp_calls A" "amp_up A" "(SHARED_MEM_PA, SHARED_MEM_PA, SHARED_MEM_SIZE, UNCACHED) \<in> set (mems s)"
  shows "\<exists>l. platform_create_rpmsg_vdev A s = (True, s\<lparr>blocks := blocks s + 1, lib := l\<rparr>)"
proof -
  obtain l where 1: "allocate A s = (True, s\<lparr>blocks := blocks s + 1, lib := l\<rparr>)" using allocate_up [OF assms(2)] by blast
  have "SHARED_MEM_PA < SHARED_MEM_PA + SHARED_MEM_SIZE" by (simp add: SHARED_MEM_PA_def SHARED_MEM_SIZE_def)
  then have io: "remoteproc_get_io_with_pa A (mems s) SHARED_MEM_PA" 
    using assms(1) unfolding amp_calls_def by (auto intro!: bexI [OF _ assms(3)])
  obtain l2 where 2: "remoteproc_create_virtio A l = (True, l2)" using assms(2) unfolding amp_up_def by (metis (full_types) prod.collapse)
  let ?l = "rpmsg_virtio_init_shm_pool A (SHARED_MEM_PA + SHARED_BUF_OFFSET) (SHARED_MEM_SIZE - SHARED_BUF_OFFSET) l2"
  obtain l3 where "rpmsg_init_vdev A ?l = (0, l3)" using assms(2) unfolding amp_up_def by (metis prod.collapse)
  then show ?thesis using 1 2 io by (intro exI [of _ l3]) (simp add: platform_create_rpmsg_vdev_def Let_def)
qed

lemma rpmsg_init_up:
  assumes "amp_calls A" "amp_up A" "tab \<noteq> METAL_BAD_PHYS"
  shows "\<exists>s'. rpu_rpmsg_init A tab n s = (0, s') \<and> tc_platform s' \<and> rproc_priv s' \<and> ipi_nokick s' \<and> rx_enabled s' \<and> blocks s' = blocks s + 5 \<and>
    mems s' = mems s @ [(tab, tab, n, UNCACHED), (SHARED_MEM_PA, SHARED_MEM_PA, SHARED_MEM_SIZE, UNCACHED)]"
proof -
  obtain s1 where 1: "platform_init A tab n s = (0, s1)" "tc_platform s1" "rproc_priv s1" "ipi_nokick s1" "rx_enabled s1" "blocks s1 = blocks s + 4"
      "mems s1 = mems s @ [(tab, tab, n, UNCACHED), (SHARED_MEM_PA, SHARED_MEM_PA, SHARED_MEM_SIZE, UNCACHED)]"
    using platform_up [OF assms, of n s] by auto
  then obtain l where 2: "platform_create_rpmsg_vdev A s1 = (True, s1\<lparr>blocks := blocks s1 + 1, lib := l\<rparr>)"
    using vdev_up [OF assms(1,2), of s1] by auto
  obtain l2 where "amp_create_ept A True l = (0, l2)" using assms(2) unfolding amp_up_def by (metis prod.collapse)
  then show ?thesis using 1 2 by (simp add: rpu_rpmsg_init_def)
qed

text \<open>When the shared memory is not among the regions, the block for the device is not given back.\<close>

lemma vdev_without_memory_leaks:
  assumes "amp_up A" "\<not> remoteproc_get_io_with_pa A (mems s) SHARED_MEM_PA"
  shows "\<exists>s'. platform_create_rpmsg_vdev A s = (False, s') \<and> blocks s' = blocks s + 1"
  using allocate_up [OF assms(1), of s] assms(2) by (auto simp: platform_create_rpmsg_vdev_def)

section \<open>Notifications\<close>

text \<open>What the code relies on of \<open>remoteproc_get_notification\<close>: it hands every message that is in the queue of the other processor to the
  callback of the endpoint (\<open>seen\<close>), in order. Posting a message puts it at the end of the queue (\<open>inbox\<close>).\<close>

definition virtqueue :: "'o amp \<Rightarrow> ('m \<Rightarrow> 'o \<Rightarrow> 'o) \<Rightarrow> ('o \<Rightarrow> 'm list) \<Rightarrow> ('o \<Rightarrow> 'm list) \<Rightarrow> bool" where
  "virtqueue A post inbox seen =
    (\<forall>l m. inbox (remoteproc_get_notification A l) = [] \<and> seen (remoteproc_get_notification A l) = seen l @ inbox l \<and>
       inbox (post m l) = inbox l @ [m] \<and> seen (post m l) = seen l)"

fun posted :: "'m event list \<Rightarrow> 'm list" where
  "posted [] = []"
| "posted (Post m # evs) = m # posted evs"
| "posted (Irq # evs) = posted evs"
| "posted (Poll # evs) = posted evs"

lemma posted_append [simp]: "posted (xs @ ys) = posted xs @ posted ys"
  by (induction xs rule: posted.induct) auto

text \<open>Along a run nothing is lost, and once a message is behind an interrupt it is seen or the flag is clear.\<close>

lemma events_keep_messages:
  assumes "virtqueue A post inbox seen" "tc_platform s" "rproc_priv s"
  shows "\<exists>s'. fold_res (on_event A post) evs s = Inr s' \<and> tc_platform s' \<and> rproc_priv s' \<and>
    seen (lib s') @ inbox (lib s') = seen (lib s) @ inbox (lib s) @ posted evs"
  using assms(2,3)
proof (induction evs arbitrary: s)
  case (Cons ev evs)
  obtain t where "on_event A post ev s = Inr t" "tc_platform t" "rproc_priv t"
      "seen (lib t) @ inbox (lib t) = seen (lib s) @ inbox (lib s) @ posted [ev]"
    using Cons.prems assms(1)
    by (cases ev) (auto simp: on_event_def zynqmp_r5_a53_proc_irq_handler_def platform_poll_def virtqueue_def Let_def)
  then show ?case using Cons.IH [of t] posted_append [of "[ev]" evs] by (auto simp del: posted_append)
qed simp

lemma events_keep_kick:
  assumes "virtqueue A post inbox seen" "fold_res (on_event A post) evs s = Inr s'"
    and "prefix ms (seen (lib s) @ inbox (lib s))" "\<not> ipi_nokick s \<or> prefix ms (seen (lib s))"
  shows "prefix ms (seen (lib s') @ inbox (lib s')) \<and> (\<not> ipi_nokick s' \<or> prefix ms (seen (lib s')))"
  using assms(2-4)
proof (induction evs arbitrary: s)
  case (Cons ev evs)
  then obtain t where t: "on_event A post ev s = Inr t" "fold_res (on_event A post) evs t = Inr s'" by auto
  have "prefix ms (seen (lib t) @ inbox (lib t)) \<and> (\<not> ipi_nokick t \<or> prefix ms (seen (lib t)))"
  proof (cases ev)
    case (Post m)
    then have "t = s\<lparr>lib := post m (lib s)\<rparr>" using t(1) by (simp add: on_event_def)
    then show ?thesis using Cons.prems(2,3) assms(1) prefix_prefix [OF Cons.prems(2), of "[m]"] by (simp add: virtqueue_def)
  next
    case Irq
    then have "t = s\<lparr>ipi_nokick := False\<rparr>" using t(1) by (simp add: on_event_def zynqmp_r5_a53_proc_irq_handler_def split: if_splits)
    then show ?thesis using Cons.prems(2) by simp
  next
    case Poll
    then have "t = (if ipi_nokick s then s\<lparr>ipi_nokick := True\<rparr> else s\<lparr>ipi_nokick := True, lib := remoteproc_get_notification A (lib s)\<rparr>)"
      using t(1) by (simp add: on_event_def platform_poll_def Let_def split: if_splits)
    then show ?thesis using Cons.prems(2,3) assms(1) by (simp add: virtqueue_def)
  qed
  with Cons.IH t(2) show ?case by blast
qed simp

section \<open>Properties\<close>

text \<open>C28: the link of the real-time processor, when OpenAMP behaves as documented and no call of it fails: \<open>rpmsg_init\<close> succeeds, with the
  resource table and the shared memory as its regions and the mailbox enabled; and from then on, in every order of messages the
  other processor posts, mailbox interrupts and polls of the main loop, no event faults, messages are handed to the endpoint in
  the order they were posted and none is lost or repeated, and a poll after an interrupt has handed over every message that was
  posted before that interrupt.\<close>

theorem kicked_messages_delivered:
  assumes "amp_calls A" "amp_up A" "tab \<noteq> METAL_BAD_PHYS" "virtqueue A post inbox seen"
  shows "\<exists>s0. rpu_rpmsg_init A tab n s = (0, s0) \<and> rx_enabled s0 \<and>
    mems s0 = mems s @ [(tab, tab, n, UNCACHED), (SHARED_MEM_PA, SHARED_MEM_PA, SHARED_MEM_SIZE, UNCACHED)] \<and>
    (\<forall>evs1 evs2. \<exists>s'. fold_res (on_event A post) (evs1 @ [Irq] @ evs2 @ [Poll]) s0 = Inr s' \<and>
      seen (lib s') @ inbox (lib s') = seen (lib s0) @ inbox (lib s0) @ posted (evs1 @ evs2) \<and>
      prefix (seen (lib s0) @ inbox (lib s0) @ posted evs1) (seen (lib s')))"
proof -
  obtain s0 where s0: "rpu_rpmsg_init A tab n s = (0, s0)" "tc_platform s0" "rproc_priv s0" "rx_enabled s0"
      "mems s0 = mems s @ [(tab, tab, n, UNCACHED), (SHARED_MEM_PA, SHARED_MEM_PA, SHARED_MEM_SIZE, UNCACHED)]"
    using rpmsg_init_up [OF assms(1-3), of n s] by blast
  have "\<exists>s'. fold_res (on_event A post) (evs1 @ [Irq] @ evs2 @ [Poll]) s0 = Inr s' \<and>
      seen (lib s') @ inbox (lib s') = seen (lib s0) @ inbox (lib s0) @ posted (evs1 @ evs2) \<and>
      prefix (seen (lib s0) @ inbox (lib s0) @ posted evs1) (seen (lib s'))" for evs1 evs2
  proof -
    let ?ms = "seen (lib s0) @ inbox (lib s0) @ posted evs1"
    obtain s1 where s1: "fold_res (on_event A post) evs1 s0 = Inr s1" "tc_platform s1" "rproc_priv s1" "seen (lib s1) @ inbox (lib s1) = ?ms"
      using events_keep_messages [OF assms(4) s0(2,3), of evs1] by blast
    let ?s1 = "s1\<lparr>ipi_nokick := False\<rparr>"
    obtain s2 where s2: "fold_res (on_event A post) evs2 ?s1 = Inr s2" "tc_platform s2" "rproc_priv s2"
        "seen (lib s2) @ inbox (lib s2) = ?ms @ posted evs2"
      using events_keep_messages [OF assms(4), of ?s1 evs2] s1(2-4) by auto
    have k: "prefix ?ms (seen (lib s2) @ inbox (lib s2))" "\<not> ipi_nokick s2 \<or> prefix ?ms (seen (lib s2))"
      using events_keep_kick [OF assms(4) s2(1), of ?ms] s1(4) by simp_all
    let ?s' = "if ipi_nokick s2 then s2\<lparr>ipi_nokick := True\<rparr> else s2\<lparr>ipi_nokick := True, lib := remoteproc_get_notification A (lib s2)\<rparr>"
    have "fold_res (on_event A post) (evs1 @ [Irq] @ evs2 @ [Poll]) s0 = Inr ?s'"
      using s1(1-3) s2(1-3) by (simp add: fold_res_append on_event_def zynqmp_r5_a53_proc_irq_handler_def platform_poll_def Let_def)
    moreover have "seen (lib ?s') @ inbox (lib ?s') = ?ms @ posted evs2" "prefix ?ms (seen (lib ?s'))"
      using s2(4) k assms(4) by (auto simp: virtqueue_def)
    ultimately show ?thesis by auto
  qed
  with s0 show ?thesis by blast
qed

text \<open>A library that keeps the queue and what was handed over, and always succeeds.\<close>

definition ex_amp :: "(nat list \<times> nat list) amp" where
  "ex_amp = \<lparr>device_get_binding = (\<lambda>_. True), metal_allocate_memory = (\<lambda>l. (True, l)), remoteproc_init = (\<lambda>f s. f s),
     remoteproc_mmap = (\<lambda>f pa n a s. snd (f pa METAL_BAD_PHYS n a s)), remoteproc_remove = (\<lambda>f s. f s),
     remoteproc_set_rsc_table = (\<lambda>_ _ l. (0, l)),
     remoteproc_get_io_with_pa = (\<lambda>ms pa. \<exists>(p, d, n, a) \<in> set ms. p \<le> pa \<and> pa < p + n), remoteproc_create_virtio = (\<lambda>l. (True, l)),
     remoteproc_remove_virtio = (\<lambda>l. l), rpmsg_virtio_init_shm_pool = (\<lambda>_ _ l. l), rpmsg_init_vdev = (\<lambda>l. (0, l)),
     amp_create_ept = (\<lambda>_ l. (0, l)), remoteproc_get_notification = (\<lambda>(i, q). ([], q @ i))\<rparr>"

definition ex_plat :: "(nat list \<times> nat list) plat" where
  "ex_plat = \<lparr>ipi_nokick = False, rproc_priv = False, tc_platform = False, ipm_dev_tx = False, ipm_dev_rx = False, rx_enabled = False,
     mems = [], blocks = 0, ipm_sent = 0, lib = ([], [])\<rparr>"

theorem kicked_messages_delivered_witness:
  "\<exists>s0 s'. rpu_rpmsg_init ex_amp 4096 92 ex_plat = (0, s0) \<and>
    fold_res (on_event ex_amp (\<lambda>m (i, q). (i @ [m], q))) ([Post 7, Poll, Post 8] @ [Irq] @ [Post 9] @ [Poll]) s0 = Inr s' \<and>
    prefix (snd (lib s0) @ fst (lib s0) @ [7, 8]) (snd (lib s'))"
proof -
  have "amp_calls ex_amp" "amp_up ex_amp" "(4096 :: u32) \<noteq> METAL_BAD_PHYS" "virtqueue ex_amp (\<lambda>m (i, q). (i @ [m], q)) fst snd"
    by (simp_all add: amp_calls_def amp_up_def METAL_BAD_PHYS_def virtqueue_def ex_amp_def case_prod_beta)
  from kicked_messages_delivered [OF this, of 92 ex_plat]
  obtain s0 where "rpu_rpmsg_init ex_amp 4096 92 ex_plat = (0, s0)"
    and r: "\<And>evs1 evs2. \<exists>s'. fold_res (on_event ex_amp (\<lambda>m (i, q). (i @ [m], q))) (evs1 @ [Irq] @ evs2 @ [Poll]) s0 = Inr s' \<and>
      prefix (snd (lib s0) @ fst (lib s0) @ posted evs1) (snd (lib s'))" by blast
  with r [of "[Post 7, Poll, Post 8]" "[Post 9]"] show ?thesis unfolding posted.simps by blast
qed

end
