(* ===== verification/Spec2Isabelle.thy ===== *)
theory Spec2Isabelle
  imports Delegate_Kernel Csd_Link Apu_Main Apu_Vm Rpu_Platform
begin

text \<open>
  Verification of the firmware of the Alkali computational storage device.

  \<^bold>\<open>The system.\<close> A host talks NVMe to the device. The real-time processor (\<open>rpu-app\<close>) owns the NVMe
  register file, fetches commands from the host's submission queues by DMA, serves the commands of the
  standard itself (queues, identify, log pages, reads and writes of a ramdisk) and forwards vendor commands
  as messages to the application processor. The application processor (\<open>apu-app\<close>) keeps a set of
  accelerators: it stores firmware images, block ranges and settings that vendor commands send, runs a
  firmware on a uBPF machine in a thread, and updates the boot flash. A firmware can hand a neural
  network to TensorFlow Lite, whose delegate (\<open>vta-delegate*.cpp\<close>) runs layers on the VTA tensor accelerator
  through a runtime (\<open>vta/vta_runtime.cc\<close>). The accelerator is either the hardware or a functional simulator
  (\<open>vta/sim_driver.cc\<close>, \<open>vta/sim_tlpp.cc\<close>, \<open>vta/virtual_memory.cc\<close>).

  \<^bold>\<open>Conventions\<close> (theory \<open>Prelude\<close>). Machine integers are words of their width, sizes that are bounded by a
  container are naturals. A call that can fail returns a result (\<open>fault + 'a\<close>): failed \<open>CHECK\<close>s and
  asserts, out-of-range accesses, null pointers and undefined behaviour are values of \<open>fault\<close>, so a
  theorem that an operation returns \<open>Inr\<close> excludes them. Objects shared by pointer live in lists that
  play the heap, with indices as pointers; byte memories are functions from 64-bit addresses.

  \<^bold>\<open>The accelerator and its runtime.\<close>
  \<^item> \<open>Vta_Spec\<close>: \<open>vta_params.hpp\<close>, \<open>hw_spec_const.h\<close>, \<open>hw_spec.h\<close>. Instructions are records of words; their
    128 bits are laid out as the bit-field structs prescribe. An array of instructions is decoded to what
    was encoded, through the locale \<open>fixed_codec\<close> of fixed-width codes.
  \<^item> \<open>Vta_Vmem\<close>: \<open>virtual_memory.cc\<close>. Page table, map of blocks and free map with an invariant kept by
    \<open>Alloc\<close> and \<open>Free\<close>; live blocks are disjoint; addresses translate back and forth; copies round-trip.
  \<^item> \<open>Vta_Tlpp\<close>: \<open>sim_tlpp.cc\<close>. Three cores with instruction queues and four token queues, the event pump and
    the loop of \<open>TlppSynchronization\<close> (a partial function, since it need not end). A stream whose tokens
    suffice in program order completes for every order in which the cores get their turns, and when
    instructions of different cores commute the result does not depend on that order (locale \<open>diamond\<close>).
    The loop returns exactly when the stream finishes.
  \<^item> \<open>Vta_Sim\<close>: \<open>sim_driver.cc\<close>. The packed memories, two-dimensional loads with padding, narrowing stores,
    GEMM and ALU instructions and the profiler, each with its effect in closed form.
  \<^item> \<open>Vta_Uop\<close>: micro-op kernels, their recording, the kernel map and the cache ring of \<open>vta_runtime.cc\<close>.
    Cached kernels occupy disjoint ranges; a load finds its kernel unless the ring wraps within a batch.
  \<^item> \<open>Vta_Insn\<close>, \<open>Vta_Order\<close>: \<open>InsnQueue\<close>. Whatever the client does with pushes, pops and instructions, as long
    as it pops only tokens it pushed, the queue is executable; conservation of tokens then puts a fenced
    \<open>FINISH\<close> last.
  \<^item> \<open>Vta_Runtime\<close>: buffers, \<open>CommandQueue\<close> and the C interface over a record of driver functions: what each
    call emits, and that \<open>Synchronize\<close> returns and leaves empty queues. What a driver owes the runtime is the
    locale \<open>vta_driver\<close>: buffers and devices as resources, staged bytes reach the accelerator, a batch ends.
  \<^item> \<open>Vta_System\<close>: the runtime on the simulator's driver. What the runtime staged is what the simulator runs.
  \<^item> \<open>Vta_Hw\<close>: \<open>pynqlib.cpp\<close>, \<open>tf_driver.cc\<close>. The table of contiguous memory, the flush loop over cache lines,
    the register windows and \<open>VTADevice::Run\<close>, over a record of system calls. The contract of the kernel, the caches and
    the accelerator is the locale \<open>xlnk_kernel\<close>; under it the driver is a \<open>vta_driver\<close> (a sublocale).
  \<^item> \<open>Vta_Board\<close>: a concrete machine that keeps \<open>xlnk_kernel\<close>; the memory of the driver refines a map of
    buffers, how \<open>Run\<close> ends on any machine, and what becomes of failed allocations.

  \<^bold>\<open>The TensorFlow Lite delegate.\<close>
  \<^item> \<open>Delegate_Quant\<close>: \<open>vta-delegate.cpp\<close> and the constructor of \<open>VTAALUOp\<close>. Scales as floating-point numbers, the
    fixed-point parameters, the conversion of operands and results with their undefined cases; accuracy and
    range of a converted operand.
  \<^item> \<open>Delegate_Add\<close>: \<open>aluAdd\<close> and the queue of a thread, over the runtime and any driver.
  \<^item> \<open>Delegate_Lanes\<close>: the six ALU instructions of a piece compute \<open>requantizeResults\<close> of the sum in every lane
    of the simulated device.
  \<^item> \<open>Delegate_Stream\<close>: the contract of a call of the runtime (locale \<open>api_call\<close>, interpreted for the token calls and
    closed under sequencing); the stream of an addition balances its tokens and runs to its end, the
    operation ends with \<open>kTfLiteOk\<close>, and the padding of the last piece can leave the accumulator memory.
  \<^item> \<open>Gemm_Layout\<close>: named dimensions, \<open>permuteDims\<close> and \<open>padData\<close> against places in mixed radix.
  \<^item> \<open>Gemm_Conv\<close>: \<open>gemmConv2D\<close> with its stream; how the input lies in blocks, and that no convolution succeeds.
  \<^item> \<open>Delegate_Kernel\<close>: \<open>Init\<close> and \<open>Eval\<close>; evaluation keeps types, and a graph of accepted nodes is
    evaluated to the end on the hardware driver.

  \<^bold>\<open>The application processor.\<close>
  \<^item> \<open>Apu_Acc\<close>: \<open>acc.cpp\<close>. An accelerator and the body of its thread.
  \<^item> \<open>Apu_Cmds\<close>: \<open>cmd.cpp\<close>, \<open>cmds/\<close>, \<open>lba.h\<close>, \<open>nvme.h\<close>. Every handler, the dispatch, and the threads as steps that
    may come between messages. In every reachable state each message is answered once.
  \<^item> \<open>Apu_Jobs\<close>: sequences of commands: a job from its firmware to its output, a firmware download to the
    flash, and a reset under a running thread.
  \<^item> \<open>Apu_Main\<close>: \<open>rpmsg.cpp\<close>, \<open>main.cpp\<close>. The set-up of the message channel over a file system, with the sizes of all character
    arrays, and the main loop on messages as bytes: commands are answered once and in order.
  \<^item> \<open>Apu_Vm\<close>: \<open>vm/\<close>. The helpers with which a uBPF program runs a network, over the interpreter of TensorFlow Lite: which
    bytes go into which tensor and back.

  \<^bold>\<open>The real-time processor.\<close>
  \<^item> \<open>Rpu_Tc\<close>: \<open>tc.h\<close>, \<open>tc.c\<close>. Registers, doorbells and queue arithmetic; a completion queue refines a ring
    with phase tags.
  \<^item> \<open>Rpu_Cmd\<close>, \<open>Rpu_Ctrl\<close>: \<open>dma.c\<close>, \<open>cmd.c\<close>, \<open>cmds/\<close>, \<open>ramdisk.c\<close>, \<open>rpmsg.c\<close>. Command slots, the two DMA channels,
    every command, and the interrupt handlers as one event function.
  \<^item> \<open>Rpu_Safety\<close>: each command slot is owned by at most one pending continuation in every reachable state;
    the contract of a continuation is the locale \<open>continuation\<close>, interpreted for the six DMA callbacks and
    for the answer of a message.
  \<^item> \<open>Rpu_Fetch\<close>: the loop of the tail doorbell, and which register writes leave the queue arrays.
  \<^item> \<open>Rpu_Data\<close>: the transfers a command starts are the pieces its pages prescribe.
  \<^item> \<open>Rpu_Platform\<close>: \<open>platform_info.c\<close>, \<open>zynqmp_r5_a53_rproc.c\<close>, the set-up in \<open>rpmsg.c\<close> and the loop of \<open>main.c\<close>, over OpenAMP. A
    message whose mailbox interrupt has arrived is handed over by the next poll, in order and once.
  \<^item> \<open>Csd_Link\<close>: a vendor command from the real-time processor through the application processor to its
    completion.

  \<^bold>\<open>Parameters.\<close> Code outside of the repository is an argument: the address \<open>operator new\<close> returns, the seed
  of \<open>rand_r\<close>, the uBPF machine, \<open>mmap\<close> and the MTD device, the slab and pool allocators of Zephyr, the
  generated register map, the interpreter of TensorFlow Lite, the system calls and the file system, OpenAMP. What is assumed of it is a named predicate (\<open>ubpf_keeps_sizes\<close>, \<open>mmap_ok\<close>,
  \<open>board_ok\<close>, \<open>bus_ok\<close>, \<open>tflite_ok\<close>, \<open>amp_calls\<close> and others) or a locale (\<open>xlnk_kernel\<close>), with an instance in a witness.

  \<^bold>\<open>Fuel and loops.\<close> No definition uses fuel. Loops with a bound are folds or terminating functions; the
  loops that may run for ever (\<open>sync_loop\<close>, \<open>tail_loop\<close>, \<open>flush_loop\<close>) are partial functions with value \<open>None\<close> for a run
  that does not end; for the first two the exact condition for their return is proved, the third returns
  on every buffer of the contract.

  \<^bold>\<open>Not modelled.\<close> The registration of interrupts, the resource table (its layout is the one of a header of OpenAMP), the
  hardware behind the registers of the accelerator (its design is not in the repository; the contract says only that a
  started batch is done in time), text output (\<open>Dump\<close>, \<open>AsJSON\<close>, logging), the functions that only wrap the factory of
  TensorFlow Lite delegates, and everything that is generated or third party.
\<close>

end
